(* ===== verification/Prelude.thy ===== *)
theory Prelude
  imports Main "HOL-Library.Word"
begin

text \<open>
  The shared layer of the development: the widths of the C types, faults of the C abstract
  machine as values of a sum type, C strings as HOL strings, and the generic facts on lists
  and words that the component theories rely on.

  Conventions used everywhere:
  \<^item> a byte of binary data is an \<^verbatim>\<open>8 word\<close> (\<open>byte\<close>), a byte of text is a \<open>char\<close>; \<open>bytes_of\<close>
    and \<open>chars_of\<close> convert between the two;
  \<^item> a C string (\<^verbatim>\<open>char *\<close>) that is only read is a \<open>string\<close> without its NUL;
  \<^item> an operation that can leave the memory it was given returns \<open>cfault + 'a\<close>, with \<open>Inl\<close>
    for the fault, and faults are propagated by \<open>rbind\<close>.
\<close>

section \<open>Types\<close>

type_synonym byte = "8 word"
type_synonym u16 = "16 word"
type_synonym u32 = "32 word"
type_synonym u64 = "64 word"

datatype cfault =
    OutOfBounds   \<comment> \<open>a read or write outside the object\<close>
  | NullDeref     \<comment> \<open>a dereference of NULL\<close>
  | UseAfterFree  \<comment> \<open>an access through a pointer to a freed object\<close>
  | DivByZero     \<comment> \<open>an integer division by zero\<close>
  | Hangs         \<comment> \<open>the call has not returned within the steps or answers considered\<close>

type_synonym 'a res = "cfault + 'a"

named_theorems res_simps \<open>evaluation of the fault monad\<close>
named_theorems cstr_simps \<open>evaluation of the C string functions\<close>

definition rbind :: "'a res \<Rightarrow> ('a \<Rightarrow> 'b res) \<Rightarrow> 'b res" where
  "rbind m f = (case m of Inl e \<Rightarrow> Inl e | Inr x \<Rightarrow> f x)"

lemma rbind_simps [simp, res_simps]:
  "rbind (Inl e) f = Inl e"
  "rbind (Inr x) f = f x"
  by (simp_all add: rbind_def)

lemma rbind_cong [fundef_cong]:
  "m = m' \<Longrightarrow> (\<And>x. m' = Inr x \<Longrightarrow> f x = f' x) \<Longrightarrow> rbind m f = rbind m' f'"
  by (cases m') simp_all

lemma rbind_eq_Inr [res_simps]: "rbind m f = Inr y \<longleftrightarrow> (\<exists>x. m = Inr x \<and> f x = Inr y)"
  by (cases m) auto

lemma rbind_eq_Inl: "rbind m f = Inl e \<longleftrightarrow> m = Inl e \<or> (\<exists>x. m = Inr x \<and> f x = Inl e)"
  by (cases m) auto

text \<open>\<open>rall m P\<close>: if the computation does not fault, its result satisfies \<open>P\<close>. The rules decompose a
  computation along its binds and tests.\<close>

definition rall :: "'a res \<Rightarrow> ('a \<Rightarrow> bool) \<Rightarrow> bool" where
  "rall m P \<longleftrightarrow> (\<forall>x. m = Inr x \<longrightarrow> P x)"

lemma rall_Inl [intro!]: "rall (Inl e) P"
  by (simp add: rall_def)

lemma rall_Inr [intro!]: "P x \<Longrightarrow> rall (Inr x) P"
  by (simp add: rall_def)

lemma rall_rbind [intro!]: "(\<And>x. m = Inr x \<Longrightarrow> rall (f x) P) \<Longrightarrow> rall (rbind m f) P"
  by (cases m) (simp_all add: rall_def)

lemma rall_rbind_via: "rall m Q \<Longrightarrow> (\<And>x. Q x \<Longrightarrow> rall (f x) P) \<Longrightarrow> rall (rbind m f) P"
  by (cases m) (simp_all add: rall_def)

lemma rall_if [intro!]: "(b \<Longrightarrow> rall x P) \<Longrightarrow> (\<not> b \<Longrightarrow> rall y P) \<Longrightarrow> rall (if b then x else y) P"
  by simp

lemma rall_prod [intro!]: "(\<And>a b. p = (a, b) \<Longrightarrow> rall (f a b) P) \<Longrightarrow> rall (case p of (a, b) \<Rightarrow> f a b) P"
  by (cases p) simp

lemma rall_option [intro!]:
  "(p = None \<Longrightarrow> rall f P) \<Longrightarrow> (\<And>x. p = Some x \<Longrightarrow> rall (g x) P)
   \<Longrightarrow> rall (case p of None \<Rightarrow> f | Some x \<Rightarrow> g x) P"
  by (cases p) simp_all

lemma rall_mono: "rall m Q \<Longrightarrow> (\<And>x. Q x \<Longrightarrow> P x) \<Longrightarrow> rall m P"
  by (cases m) (simp_all add: rall_def)

lemma rallD: "rall m P \<Longrightarrow> m = Inr x \<Longrightarrow> P x"
  by (simp add: rall_def)

text \<open>Bounds-checked array access: what \<^verbatim>\<open>a[i]\<close> does on an array of known size.\<close>

definition aget :: "'a list \<Rightarrow> nat \<Rightarrow> 'a res" where
  "aget xs i = (if i < length xs then Inr (xs ! i) else Inl OutOfBounds)"

definition aset :: "'a list \<Rightarrow> nat \<Rightarrow> 'a \<Rightarrow> 'a list res" where
  "aset xs i v = (if i < length xs then Inr (xs[i := v]) else Inl OutOfBounds)"

lemma aget_in [simp]: "i < length xs \<Longrightarrow> aget xs i = Inr (xs ! i)"
  by (simp add: aget_def)

lemma aset_in [simp]: "i < length xs \<Longrightarrow> aset xs i v = Inr (xs[i := v])"
  by (simp add: aset_def)

lemma aget_drop: "aget xs (i + k) = aget (drop i xs) k"
  by (simp add: aget_def less_diff_conv add.commute)

lemma aget_Cons: "aget (x # xs) 0 = Inr x" "aget (x # xs) (Suc k) = aget xs k"
  by (simp_all add: aget_def)

text \<open>The \<open>n\<close> bytes at offset \<open>i\<close>, as \<^verbatim>\<open>memcpy\<close> or a gathering write reads them; a negative
  length converts to a \<^verbatim>\<open>size_t\<close> larger than any object.\<close>

definition aslice :: "'a list \<Rightarrow> nat \<Rightarrow> int \<Rightarrow> 'a list res" where
  "aslice xs i n =
     (if 0 \<le> n \<and> i + nat n \<le> length xs then Inr (take (nat n) (drop i xs)) else Inl OutOfBounds)"

lemma aslice_in [simp]:
  "0 \<le> n \<Longrightarrow> i + nat n \<le> length xs \<Longrightarrow> aslice xs i n = Inr (take (nat n) (drop i xs))"
  by (simp add: aslice_def)

lemma aslice_window:
  assumes "0 \<le> i" "0 \<le> n" "i + n \<le> len" "len \<le> int (length xs)"
  shows "aslice xs (nat i) n = Inr (take (nat n) (drop (nat i) (take (nat len) xs)))"
    and "length (take (nat n) (drop (nat i) (take (nat len) xs))) = nat n"
proof -
  have le: "nat i + nat n \<le> nat len" "nat len \<le> length xs" using assms by linarith+
  then show "length (take (nat n) (drop (nat i) (take (nat len) xs))) = nat n" by simp
  show "aslice xs (nat i) n = Inr (take (nat n) (drop (nat i) (take (nat len) xs)))"
    using assms(2) le by (simp add: drop_take min_absorb1)
qed

lemma drop_window:
  "0 \<le> i \<Longrightarrow> 0 \<le> n \<Longrightarrow> take (nat n) (drop (nat i) xs) @ drop (nat (i + n)) xs = drop (nat i) xs"
  using append_take_drop_id [of "nat n" "drop (nat i) xs"] by (simp add: nat_add_distrib add.commute)

section \<open>Sending packets\<close>

text \<open>
  An entry of a \<^verbatim>\<open>struct iovec\<close> array: bytes, or a null pointer with a length. What a null entry does is up to the
  transport: only a transport that reads it faults. Its bytes here stand for its length and are never sent.
\<close>

datatype iovec = Iov "byte list" | Null_iov nat

fun iov_bytes :: "iovec \<Rightarrow> byte list" where
  "iov_bytes (Iov bs) = bs"
| "iov_bytes (Null_iov n) = replicate n 0"

fun iov_null :: "iovec \<Rightarrow> bool" where
  "iov_null (Iov bs) = False"
| "iov_null (Null_iov n) = (0 < n)"

abbreviation iov_concat :: "iovec list \<Rightarrow> byte list" where
  "iov_concat v \<equiv> concat (map iov_bytes v)"

text \<open>
  The sender the packetisers are given (\<^verbatim>\<open>send_rtp_packet\<close>): it gets the vector after the
  RTP header, the timestamp and the marker, and returns the new state of the endpoint and the C
  result. \<open>log_send\<close> reads every packet and records it.
\<close>

type_synonym 's sender = "'s \<Rightarrow> iovec list \<Rightarrow> u32 \<Rightarrow> bool \<Rightarrow> ('s \<times> int) res"
type_synonym packet = "byte list \<times> u32 \<times> bool"

definition log_send :: "packet list sender" where
  "log_send s iov ts m =
     (if list_ex iov_null iov then Inl NullDeref else Inr (s @ [(iov_concat iov, ts, m)], 0))"

section \<open>Text and bytes\<close>

definition bytes_of :: "string \<Rightarrow> byte list" where
  "bytes_of s = map of_char s"

definition chars_of :: "byte list \<Rightarrow> string" where
  "chars_of bs = map (\<lambda>b. char_of (unat b)) bs"

lemma char_of_of_char_byte [simp]: "char_of (unat (of_char c :: byte)) = c"
proof -
  have "unat (of_nat (of_char c) :: byte) = (of_char c :: nat)"
    by (simp add: unat_of_nat take_bit_eq_mod)
  then show ?thesis by (simp add: of_nat_of_char)
qed

lemma chars_of_bytes_of [simp]: "chars_of (bytes_of s) = s"
  by (simp add: bytes_of_def chars_of_def o_def)

lemma length_bytes_of [simp]: "length (bytes_of s) = length s"
  by (simp add: bytes_of_def)

lemma length_chars_of [simp]: "length (chars_of s) = length s"
  by (simp add: chars_of_def)

lemma bytes_of_append [simp]: "bytes_of (s @ t) = bytes_of s @ bytes_of t"
  by (simp add: bytes_of_def)

lemma unat_u8: "unat (b :: byte) < 2 ^ 8"
  using unsigned_less [of b, where ?'a = nat] by simp

lemma unat_u16: "unat (w :: u16) < 2 ^ 16"
  using unsigned_less [of w, where ?'a = nat] by simp

lemma unat_u32: "unat (w :: u32) < 2 ^ 32"
  using unsigned_less [of w, where ?'a = nat] by simp

lemma unat_of_int_byte: "unat (of_int i :: byte) = nat (i mod 256)"
  by (simp add: unsigned_of_int take_bit_eq_mod)

lemma bytes_of_24_bit:
  assumes "0 \<le> i" "i < 2 ^ 24"
  shows "65536 * nat (i div 65536 mod 256) + 256 * nat (i div 256 mod 256) + nat (i mod 256) = nat i"
proof -
  have "i div 65536 mod 256 = i div 256 div 256"
    using assms by (simp_all add: zdiv_zmult2_eq [symmetric])
  then have "nat (i div 65536 mod 256) = nat i div 256 div 256"
    "nat (i div 256 mod 256) = nat i div 256 mod 256" "nat (i mod 256) = nat i mod 256"
    using assms by (simp_all add: nat_mod_distrib nat_div_distrib)
  moreover have "256 * (nat i div 256) + nat i mod 256 = nat i"
    "256 * (nat i div 256 div 256) + nat i div 256 mod 256 = nat i div 256"
    by (rule mult_div_mod_eq)+
  ultimately show ?thesis by linarith
qed

section \<open>Printing numbers\<close>

text \<open>\<^verbatim>\<open>%d\<close> of \<^verbatim>\<open>printf\<close>.\<close>

definition digit :: "nat \<Rightarrow> char" where
  "digit n = char_of (48 + n)"

fun dec_nat :: "nat \<Rightarrow> string" where
  "dec_nat n = (if n < 10 then [digit n] else dec_nat (n div 10) @ [digit (n mod 10)])"

definition dec :: "int \<Rightarrow> string" where
  "dec i = (if i < 0 then CHR ''-'' # dec_nat (nat (- i)) else dec_nat (nat i))"

declare dec_nat.simps [simp del]

section \<open>C strings\<close>

abbreviation NUL :: char where "NUL \<equiv> CHR 0x00"
abbreviation TAB :: char where "TAB \<equiv> CHR 0x09"
abbreviation LF :: char where "LF \<equiv> CHR 0x0A"
abbreviation CR :: char where "CR \<equiv> CHR 0x0D"
abbreviation SP :: char where "SP \<equiv> CHR 0x20"

text \<open>\<^verbatim>\<open>tolower\<close> in the C locale, and the comparisons built on it: \<open>True\<close> for the result 0.\<close>

definition lower :: "char \<Rightarrow> char" where
  "lower c = (let n = of_char c in if 65 \<le> n \<and> n \<le> 90 then char_of (n + 32 :: nat) else c)"

definition strcaseeq :: "string \<Rightarrow> string \<Rightarrow> bool" where
  "strcaseeq s t \<longleftrightarrow> map lower s = map lower t"

definition strncaseeq :: "string \<Rightarrow> string \<Rightarrow> nat \<Rightarrow> bool" where
  "strncaseeq s t n \<longleftrightarrow> map lower (take n s) = map lower (take n t)"

definition strneq :: "string \<Rightarrow> string \<Rightarrow> nat \<Rightarrow> bool" where
  "strneq s t n \<longleftrightarrow> take n s = take n t"

text \<open>The string stored at offset \<open>p\<close> of an array: up to the first NUL.\<close>

definition str_at :: "string \<Rightarrow> nat \<Rightarrow> string res" where
  "str_at d p =
     (if NUL \<in> set (drop p d) then Inr (takeWhile (\<lambda>c. c \<noteq> NUL) (drop p d)) else Inl OutOfBounds)"

definition isdigit :: "char \<Rightarrow> bool" where
  "isdigit c \<longleftrightarrow> 48 \<le> (of_char c :: nat) \<and> (of_char c :: nat) \<le> 57"

definition digit_val :: "char \<Rightarrow> int" where
  "digit_val c = int (of_char c) - 48"

definition isspace :: "char \<Rightarrow> bool" where
  "isspace c \<longleftrightarrow> c = SP \<or> (9 \<le> (of_char c :: nat) \<and> (of_char c :: nat) \<le> 13)"

text \<open>\<^verbatim>\<open>strtol(s, &end, 10)\<close> with a 32-bit \<^verbatim>\<open>long\<close>: the value, saturated, and the rest of the string; when no
  number is found the value is 0 and the rest is \<open>s\<close>.\<close>

definition digits_val :: "string \<Rightarrow> int" where
  "digits_val ds = foldl (\<lambda>v c. 10 * v + digit_val c) 0 ds"

definition strtol10 :: "string \<Rightarrow> int \<times> string" where
  "strtol10 s =
     (let t = dropWhile isspace s;
          neg = (t \<noteq> [] \<and> hd t = CHR ''-'');
          t = (if t \<noteq> [] \<and> (hd t = CHR ''-'' \<or> hd t = CHR ''+'') then tl t else t);
          ds = takeWhile isdigit t;
          v = (if neg then - digits_val ds else digits_val ds)
      in if ds = [] then (0, s)
         else (max (- (2 ^ 31)) (min (2 ^ 31 - 1) v), dropWhile isdigit t))"

lemma str_at_append:
  "NUL \<notin> set s \<Longrightarrow> length pre = p \<Longrightarrow> str_at (pre @ s @ NUL # post) p = Inr s"
  by (auto simp: str_at_def takeWhile_tail)

text \<open>A string that ends before offset \<open>n\<close> does not depend on what follows it.\<close>

lemma str_at_prefix:
  assumes "str_at (take n d) p = Inr s" "take n d' = take n d"
  shows "str_at d' p = Inr s"
proof -
  have n: "NUL \<in> set (drop p (take n d))" and s: "s = takeWhile (\<lambda>c. c \<noteq> NUL) (drop p (take n d))"
    using assms(1) by (auto simp: str_at_def split: if_splits)
  then have "p < length (take n d)"
    by (metis drop_eq_Nil empty_iff list.set(1) not_less)
  then have "drop p (take n d @ drop n d') = drop p (take n d) @ drop n d'"
    by simp
  then have "drop p d' = drop p (take n d) @ drop n d'"
    by (simp only: assms(2) [symmetric] append_take_drop_id)
  then show ?thesis
    using n by (simp only: str_at_def s) auto
qed

end
