(* ===== verification/Wire.thy ===== *)
theory Wire
  imports Prelude
begin

text \<open>
  Big-endian integers on the wire: the macros \<^verbatim>\<open>PUT_16\<close>, \<^verbatim>\<open>PUT_32\<close>, \<^verbatim>\<open>GET_16\<close> and \<^verbatim>\<open>GET_32\<close> of
  \<^verbatim>\<open>rtp.h\<close>, which every packet format of the server is written and read with. A macro that
  stores into \<^verbatim>\<open>p[0..n]\<close> is the list of bytes it stores; a macro that reads them takes the bytes
  as arguments. The lemmas give the round trips and the numeric value of what is read.
\<close>

unbundle bit_operations_syntax

definition PUT_16 :: "u32 \<Rightarrow> byte list" where
  "PUT_16 v = [ucast (drop_bit 8 v AND 0xff), ucast (v AND 0xff)]"

definition PUT_32 :: "u32 \<Rightarrow> byte list" where
  "PUT_32 v = [ucast (drop_bit 24 v AND 0xff), ucast (drop_bit 16 v AND 0xff),
               ucast (drop_bit 8 v AND 0xff), ucast (v AND 0xff)]"

definition GET_16 :: "byte \<Rightarrow> byte \<Rightarrow> u32" where
  "GET_16 p0 p1 = push_bit 8 (ucast p0) OR ucast p1"

definition GET_32 :: "byte \<Rightarrow> byte \<Rightarrow> byte \<Rightarrow> byte \<Rightarrow> u32" where
  "GET_32 p0 p1 p2 p3 =
     push_bit 24 (ucast p0) OR push_bit 16 (ucast p1) OR push_bit 8 (ucast p2) OR ucast p3"

lemma length_PUT [simp]: "length (PUT_16 v) = 2" "length (PUT_32 v) = 4"
  by (simp_all add: PUT_16_def PUT_32_def)

text \<open>A store through an \<^verbatim>\<open>unsigned char *\<close> keeps the low eight bits, so the masks are redundant.\<close>

lemma ucast_mask_byte: "(ucast (w AND 0xff) :: byte) = ucast (w :: u32)"
proof -
  have "w AND 0xff = take_bit 8 w"
    by (simp add: take_bit_eq_mask mask_eq_exp_minus_1)
  then show ?thesis
    by (simp only:) (rule bit_eqI, auto simp: bit_simps)
qed

lemma bit_ucast_byte: "bit (ucast (b :: byte) :: u32) n \<longleftrightarrow> n < 8 \<and> bit b n"
  by (auto simp: bit_simps dest: bit_imp_le_length)

lemma bit_byte_of: "bit (ucast (w :: u32) :: byte) n \<longleftrightarrow> n < 8 \<and> bit w n"
  by (auto simp: bit_simps)

lemma bit_GET_32:
  "n < 32 \<Longrightarrow> bit (GET_32 a b c d) n \<longleftrightarrow>
     (if n < 8 then bit d n else if n < 16 then bit c (n - 8)
      else if n < 24 then bit b (n - 16) else bit a (n - 24))"
  by (auto simp: GET_32_def bit_or_iff bit_push_bit_iff bit_ucast_byte)

lemma bit_GET_16:
  "n < 32 \<Longrightarrow> bit (GET_16 a b) n \<longleftrightarrow>
     (if n < 8 then bit b n else n < 16 \<and> bit a (n - 8))"
  by (auto simp: GET_16_def bit_or_iff bit_push_bit_iff bit_ucast_byte)

lemma GET_32_PUT_32: "PUT_32 v = [a, b, c, d] \<Longrightarrow> GET_32 a b c d = v"
  by (rule bit_word_eqI)
     (auto simp: PUT_32_def ucast_mask_byte bit_GET_32 bit_byte_of bit_drop_bit_eq)

lemma GET_16_PUT_16: "PUT_16 v = [a, b] \<Longrightarrow> GET_16 a b = take_bit 16 v"
  by (rule bit_word_eqI)
     (auto simp: PUT_16_def ucast_mask_byte bit_GET_16 bit_byte_of bit_drop_bit_eq bit_take_bit_iff)

lemma unat_ucast_byte [simp]: "unat (ucast (b :: byte) :: u32) = unat b"
  using unat_u8 [of b] by (simp add: unsigned_ucast_eq take_bit_nat_eq_self)

lemma GET_16_add: "GET_16 a b = 256 * ucast a + ucast b"
proof -
  have "push_bit 8 (ucast a :: u32) OR ucast b = push_bit 8 (ucast a) + ucast b"
    by (rule disjunctive_add [symmetric])
       (auto simp: bit_push_bit_iff bit_ucast_byte)
  then show ?thesis by (simp add: GET_16_def push_bit_eq_mult mult.commute)
qed

lemma unat_GET_16: "unat (GET_16 a b) = 256 * unat a + unat b"
  using unat_u8 [of a] unat_u8 [of b]
  by (simp add: GET_16_add unat_word_ariths)

end
