(* ===== verification/RtpJpeg.thy ===== *)
theory RtpJpeg
  imports Wire "HOL-Library.Monad_Syntax" "HOL-Library.Signed_Division"
begin

text \<open>
  The JPEG packetiser (\<^verbatim>\<open>rtp-jpeg.c\<close>): \<open>jpeg_process_frame\<close> walks the marker segments of a
  JPEG picture and remembers where its quantisation tables and scan data are;
  \<open>jpeg_send\<close> cuts the scan into RTP payloads in the format of RFC 2435.

  A frame is the buffer \<open>buf\<close> its bytes live in (\<^verbatim>\<open>f->d\<close>, of the size of the allocation) and
  its length (\<^verbatim>\<open>f->length\<close>); a pointer into it is an offset. Reads outside the buffer are faults.
  The specification is a receiver of RFC 2435 payloads; the theorems show that what
  \<open>jpeg_send\<close> emits for a parsed picture is reassembled by it to the picture.
\<close>

unbundle bit_operations_syntax

section \<open>Model\<close>

record rtp_jpeg =
  j_type :: int
  j_q :: int
  j_width :: int
  j_height :: int
  luma_table :: int
  chroma_table :: int
  quant :: "nat option list"
  scan_data :: nat
  scan_data_len :: int
  init_done :: bool
  j_ts_incr :: int
  j_timestamp :: u32
  bHasDRI :: bool
  DRI :: u16

subsection \<open>Parsing\<close>

text \<open>\<open>parse_DQT\<close> with \<open>d\<close> the offset of the segment's data and \<open>i\<close> the loop variable; the
  returned \<open>bool\<close> is \<open>False\<close> for the result -1.\<close>

function parse_DQT :: "byte list \<Rightarrow> rtp_jpeg \<Rightarrow> nat \<Rightarrow> int \<Rightarrow> nat \<Rightarrow> (rtp_jpeg \<times> bool) res" where
  "parse_DQT buf out d len i =
     (if int i < len
      then rbind (aget buf (d + i)) (\<lambda>b.
        if b AND 0xF0 \<noteq> 0 then Inr (out, False)
        else parse_DQT buf (out\<lparr>quant := (quant out)[unat (b AND 0xF) := Some (d + i + 1)]\<rparr>) d len (i + 65))
      else Inr (out, True))"
  by pat_completeness auto
termination
  by (relation "measure (\<lambda>(buf, out, d, len, i). nat (len - int i))") auto

declare parse_DQT.simps [simp del]

definition parse_DRI :: "byte list \<Rightarrow> rtp_jpeg \<Rightarrow> nat \<Rightarrow> (rtp_jpeg \<times> bool) res" where
  "parse_DRI buf out d =
     rbind (aget buf d) (\<lambda>a. rbind (aget buf (d + 1)) (\<lambda>b.
       Inr (out\<lparr>bHasDRI := True, DRI := ucast (GET_16 a b)\<rparr>, True)))"

text \<open>One round of the component loop of \<open>parse_SOF\<close>: the three bytes of component \<open>c\<close>.\<close>

definition sof_component :: "rtp_jpeg \<Rightarrow> byte \<Rightarrow> byte \<Rightarrow> byte \<Rightarrow> (rtp_jpeg \<times> bool)" where
  "sof_component out cid samp tab =
     (if unat tab \<ge> 16 \<or> quant out ! unat tab = None then (out, False)
      else if cid = 1 then
        (if samp = 0x11 then (out\<lparr>j_type := 0, luma_table := int (unat tab)\<rparr>, True)
         else if samp = 0x22 then (out\<lparr>j_type := 1, luma_table := int (unat tab)\<rparr>, True)
         else if samp = 0x21 then (out\<lparr>j_type := 0, luma_table := int (unat tab)\<rparr>, True)
         else (out, False))
      else if cid = 2 \<or> cid = 3 then
        (if samp \<noteq> 0x11 then (out, False)
         else if chroma_table out < 0 then (out\<lparr>chroma_table := int (unat tab)\<rparr>, True)
         else if chroma_table out \<noteq> int (unat tab) then (out, False)
         else (out, True))
      else (out, False))"

fun sof_components :: "byte list \<Rightarrow> rtp_jpeg \<Rightarrow> nat list \<Rightarrow> (rtp_jpeg \<times> bool) res" where
  "sof_components buf out [] = Inr (out, True)"
| "sof_components buf out (c # cs) =
     rbind (aget buf (c + 2)) (\<lambda>tab. rbind (aget buf c) (\<lambda>cid. rbind (aget buf (c + 1)) (\<lambda>samp.
       (case sof_component out cid samp tab of
          (out', False) \<Rightarrow> Inr (out', False)
        | (out', True) \<Rightarrow> sof_components buf out' cs))))"

definition parse_SOF :: "byte list \<Rightarrow> rtp_jpeg \<Rightarrow> nat \<Rightarrow> (rtp_jpeg \<times> bool) res" where
  "parse_SOF buf out d =
     (let out = out\<lparr>chroma_table := -1\<rparr> in
      rbind (aget buf d) (\<lambda>prec.
      if prec \<noteq> 8 then Inr (out, False)
      else rbind (aget buf (d + 1)) (\<lambda>h1. rbind (aget buf (d + 2)) (\<lambda>h0.
           rbind (aget buf (d + 3)) (\<lambda>w1. rbind (aget buf (d + 4)) (\<lambda>w0.
      let h = unat (GET_16 h1 h0); w = unat (GET_16 w1 w0);
          out = out\<lparr>j_height := int h, j_width := int w\<rparr>
      in if h AND 7 \<noteq> 0 \<or> w AND 7 \<noteq> 0 then Inr (out, False)
         else let out = out\<lparr>j_width := int (w div 8), j_height := int (h div 8)\<rparr> in
              rbind (aget buf (d + 5)) (\<lambda>n.
                if n \<noteq> 3 then Inr (out, False)
                else sof_components buf out [d + 6, d + 9, d + 12])))))))"

definition parse_DHT :: "rtp_jpeg \<Rightarrow> (rtp_jpeg \<times> bool) res" where
  "parse_DHT out = Inr (out, True)"

text \<open>The \<^verbatim>\<open>switch\<close> of \<open>jpeg_process_frame\<close> on the marker \<open>m\<close>, for the markers that let the loop go
  on; \<open>d\<close> is the offset of the segment's data and \<open>len\<close> its length.\<close>

definition jpeg_segment :: "byte list \<Rightarrow> rtp_jpeg \<Rightarrow> byte \<Rightarrow> nat \<Rightarrow> int \<Rightarrow> (rtp_jpeg \<times> bool) res" where
  "jpeg_segment buf out m d len =
     (if m = 0xDB then parse_DQT buf out d len 0
      else if m = 0xC0 then parse_SOF buf out d
      else if m = 0xC4 then (if init_done out then Inr (out, True) else parse_DHT out)
      else if m = 0xDD then parse_DRI buf out d
      else Inr (out, True))"

text \<open>The marker loop of \<open>jpeg_process_frame\<close>; \<open>ms\<close> is what \<open>utils_get_ms_time\<close> returns.\<close>

function jpeg_walk :: "byte list \<Rightarrow> int \<Rightarrow> u64 \<Rightarrow> rtp_jpeg \<Rightarrow> nat \<Rightarrow> (rtp_jpeg \<times> bool) res" where
  "jpeg_walk buf flen ms out i =
     (if int i < flen
      then rbind (aget buf i) (\<lambda>ff.
        if ff \<noteq> 0xFF then Inr (out\<lparr>scan_data_len := 0\<rparr>, False)
        else rbind (aget buf (i + 1)) (\<lambda>m.
          rbind (if m = 0xD8 then Inr 0
                 else rbind (aget buf (i + 2)) (\<lambda>a. rbind (aget buf (i + 3)) (\<lambda>b. Inr (unat (GET_16 a b)))))
            (\<lambda>blen.
          if m = 0xDA then
            Inr (out\<lparr>init_done := True, scan_data := i + 2 + blen,
                     scan_data_len := flen - int i - 2 - int blen,
                     j_timestamp := ucast (ms * 90)\<rparr>, True)
          else rbind (jpeg_segment buf out m (i + 4) (int blen - 2))
            (\<lambda>(out', ok). if ok then jpeg_walk buf flen ms out' (i + (blen + 2))
                          else Inr (out'\<lparr>scan_data_len := 0\<rparr>, False)))))
      else Inr (out\<lparr>scan_data_len := 0\<rparr>, False))"
  by pat_completeness auto
termination
  by (relation "measure (\<lambda>(buf, flen, ms, out, i). nat (flen - int i))") auto

declare jpeg_walk.simps [simp del]

definition jpeg_process_frame :: "byte list \<Rightarrow> int \<Rightarrow> u64 \<Rightarrow> rtp_jpeg \<Rightarrow> (rtp_jpeg \<times> bool) res" where
  "jpeg_process_frame buf flen ms out =
     jpeg_walk buf flen ms (out\<lparr>bHasDRI := False, quant := replicate 16 None\<rparr>) 0"

definition jpeg_get_payload :: "int \<Rightarrow> int" where
  "jpeg_get_payload payload = 26"

subsection \<open>Sending\<close>

text \<open>
  An entry of the \<^verbatim>\<open>struct iovec\<close> array points to a local header or into the frame, where it may not reach
  beyond the buffer; a table that was not seen is a null entry, passed on to the sender (\<open>gather\<close>).
\<close>

datatype iov_base = Local "byte list" | InFrame "nat option" int

fun iov_read :: "byte list \<Rightarrow> iov_base \<Rightarrow> iovec res" where
  "iov_read buf (Local bs) = Inr (Iov bs)"
| "iov_read buf (InFrame None n) = Inr (Null_iov (nat n))"
| "iov_read buf (InFrame (Some p) n) = rbind (aslice buf p n) (\<lambda>bs. Inr (Iov bs))"

fun gather :: "byte list \<Rightarrow> iov_base list \<Rightarrow> iovec list res" where
  "gather buf [] = Inr []"
| "gather buf (v # vs) = rbind (iov_read buf v) (\<lambda>b. rbind (gather buf vs) (\<lambda>bs. Inr (b # bs)))"

text \<open>The main JPEG header, with the fragment offset of the current round.\<close>

definition jpeg_vhdr :: "rtp_jpeg \<Rightarrow> int \<Rightarrow> byte list" where
  "jpeg_vhdr out i =
     [0, of_int (i div 65536), of_int (i div 256), of_int i,
      (if bHasDRI out then of_int (j_type out + 64) else of_int (j_type out)),
      255, of_int (j_width out), of_int (j_height out)]"

definition jpeg_rhdr :: "rtp_jpeg \<Rightarrow> byte list" where
  "jpeg_rhdr out = PUT_16 (ucast (DRI out)) @ [0xFF, 0xFF]"

definition jpeg_qhdr :: "byte list" where
  "jpeg_qhdr = [0, 0] @ PUT_16 (2 * 64)"

text \<open>\<^verbatim>\<open>out->quant[t]\<close>, an access to an array of sixteen pointers.\<close>

definition quant_ptr :: "rtp_jpeg \<Rightarrow> int \<Rightarrow> nat option res" where
  "quant_ptr out t = (if t < 0 then Inl OutOfBounds else aget (quant out) (nat t))"

text \<open>The loop over the scan: \<open>hdrs\<close> are the entries between the main header and the data.\<close>

partial_function (option) jpeg_send_loop ::
    "'s sender \<Rightarrow> int \<Rightarrow> rtp_jpeg \<Rightarrow> byte list \<Rightarrow> 's \<Rightarrow> iov_base list \<Rightarrow> int \<Rightarrow> int \<Rightarrow> ('s \<times> int) res option" where
  "jpeg_send_loop send maxds out buf s hdrs hdr_len i =
     (if i < scan_data_len out
      then let plen = scan_data_len out - i;
               plen = (if plen > maxds - hdr_len then maxds - hdr_len else plen)
           in case rbind (gather buf (Local (jpeg_vhdr out i) # hdrs @ [InFrame (Some (scan_data out + nat i)) plen]))
                    (\<lambda>iov. send s iov (j_timestamp out) (plen + i = scan_data_len out)) of
                Inl e \<Rightarrow> Some (Inl e)
              | Inr (s', r) \<Rightarrow>
                  if r < 0 then Some (Inr (s', -1))
                  else jpeg_send_loop send maxds out buf s' (take (if bHasDRI out then 1 else 0) hdrs) 8 (i + plen)
      else Some (Inr (s, 0)))"

definition jpeg_send :: "'s sender \<Rightarrow> int \<Rightarrow> rtp_jpeg \<Rightarrow> byte list \<Rightarrow> 's \<Rightarrow> ('s \<times> int) res option" where
  "jpeg_send send maxds out buf s =
     (case rbind (quant_ptr out (luma_table out)) (\<lambda>lq.
           rbind (quant_ptr out (chroma_table out)) (\<lambda>cq. Inr (lq, cq))) of
        Inl e \<Rightarrow> Some (Inl e)
      | Inr (lq, cq) \<Rightarrow>
          jpeg_send_loop send maxds out buf s
            ((if bHasDRI out then [Local (jpeg_rhdr out)] else [])
             @ [Local jpeg_qhdr, InFrame lq 64, InFrame cq 64])
            (8 + (if bHasDRI out then 4 else 0) + 4 + 64 + 64) 0)"

definition new_rtp_media_jpeg_stream :: "rtp_jpeg \<Rightarrow> int \<Rightarrow> int \<Rightarrow> rtp_jpeg" where
  "new_rtp_media_jpeg_stream out fincr fbase =
     out\<lparr>init_done := False, j_timestamp := 0, j_ts_incr := 90000 * fincr sdiv fbase\<rparr>"

section \<open>The receiver of RFC 2435\<close>

text \<open>What a payload says: fragment offset, type, width and height in blocks, restart header
  (types 64 to 127), quantisation tables (only in the first fragment, when Q is 128 or more), data.\<close>

record jpeg_payload =
  p_off :: nat
  p_type :: nat
  p_width :: nat
  p_height :: nat
  p_restart :: "byte list"
  p_tables :: "byte list"
  p_data :: "byte list"

definition rfc2435_parse :: "byte list \<Rightarrow> jpeg_payload option" where
  "rfc2435_parse p =
     (if length p < 8 then None
      else let off = 65536 * unat (p ! 1) + 256 * unat (p ! 2) + unat (p ! 3);
               t = unat (p ! 4); q = unat (p ! 5);
               r = (if 64 \<le> t \<and> t < 128 then 4 else 0);
               rest = drop (8 + r) p;
               n = (if 128 \<le> q \<and> off = 0 then 4 + 256 * unat (rest ! 2) + unat (rest ! 3) else 0)
           in if length p < 8 + r + n \<or> (128 \<le> q \<and> off = 0 \<and> length rest < 4) then None
              else Some \<lparr>p_off = off, p_type = t, p_width = unat (p ! 6), p_height = unat (p ! 7),
                         p_restart = take r (drop 8 p), p_tables = drop 4 (take n rest),
                         p_data = drop n rest\<rparr>)"

text \<open>Fragments are joined when each starts where the previous one ended and repeats its header.\<close>

definition rfc2435_join :: "jpeg_payload \<Rightarrow> jpeg_payload \<Rightarrow> jpeg_payload option" where
  "rfc2435_join a b =
     (if p_off b = p_off a + length (p_data a) \<and> p_type b = p_type a \<and> p_width b = p_width a
         \<and> p_height b = p_height a \<and> p_restart b = p_restart a \<and> p_tables b = []
      then Some (a\<lparr>p_data := p_data a @ p_data b\<rparr>) else None)"

fun rfc2435_rest :: "jpeg_payload \<Rightarrow> byte list list \<Rightarrow> jpeg_payload option" where
  "rfc2435_rest a [] = Some a"
| "rfc2435_rest a (p # ps) = do {
     b \<leftarrow> rfc2435_parse p;
     c \<leftarrow> rfc2435_join a b;
     rfc2435_rest c ps }"

fun rfc2435_receive :: "byte list list \<Rightarrow> jpeg_payload option" where
  "rfc2435_receive [] = None"
| "rfc2435_receive (p # ps) = do { a \<leftarrow> rfc2435_parse p; rfc2435_rest a ps }"

section \<open>Fragmentation is undone by the receiver\<close>

definition restart_of :: "rtp_jpeg \<Rightarrow> byte list" where
  "restart_of out = (if bHasDRI out then jpeg_rhdr out else [])"

definition scan_of :: "rtp_jpeg \<Rightarrow> byte list \<Rightarrow> byte list" where
  "scan_of out buf = take (nat (scan_data_len out)) (drop (scan_data out) buf)"

text \<open>What \<open>jpeg_send\<close> needs of a parsed picture.\<close>

definition sendable :: "rtp_jpeg \<Rightarrow> byte list \<Rightarrow> bool" where
  "sendable out buf \<longleftrightarrow>
     j_type out \<in> {0, 1} \<and> j_width out \<in> {0..<256} \<and> j_height out \<in> {0..<256} \<and>
     0 < scan_data_len out \<and> scan_data_len out < 2 ^ 24 \<and>
     scan_data out + nat (scan_data_len out) \<le> length buf"

definition wire_type :: "rtp_jpeg \<Rightarrow> nat" where
  "wire_type out = nat (j_type out) + (if bHasDRI out then 64 else 0)"

lemma length_jpeg_vhdr [simp]: "length (jpeg_vhdr out i) = 8"
  by (simp add: jpeg_vhdr_def)

lemma length_restart_of: "length (restart_of out) = (if bHasDRI out then 4 else 0)"
  by (simp add: restart_of_def jpeg_rhdr_def)

lemma vhdr_fields:
  assumes "sendable out buf"
  shows "unat (jpeg_vhdr out i ! 4) = wire_type out" "unat (jpeg_vhdr out i ! 5) = 255"
    "unat (jpeg_vhdr out i ! 6) = nat (j_width out)" "unat (jpeg_vhdr out i ! 7) = nat (j_height out)"
    "64 \<le> wire_type out \<and> wire_type out < 128 \<longleftrightarrow> bHasDRI out"
proof -
  have t: "j_type out = 0 \<or> j_type out = 1" using assms by (simp add: sendable_def)
  then show "unat (jpeg_vhdr out i ! 4) = wire_type out"
    by (auto simp: jpeg_vhdr_def wire_type_def)
  show "64 \<le> wire_type out \<and> wire_type out < 128 \<longleftrightarrow> bHasDRI out"
    using t by (auto simp: wire_type_def)
  show "unat (jpeg_vhdr out i ! 5) = 255"
    by (simp add: jpeg_vhdr_def)
  show "unat (jpeg_vhdr out i ! 6) = nat (j_width out)" "unat (jpeg_vhdr out i ! 7) = nat (j_height out)"
    using assms by (simp_all add: sendable_def jpeg_vhdr_def unat_of_int_byte)
qed

lemma vhdr_bytes:
  "jpeg_vhdr out i ! 1 = of_int (i div 65536)" "jpeg_vhdr out i ! 2 = of_int (i div 256)"
  "jpeg_vhdr out i ! 3 = of_int i"
  by (simp_all add: jpeg_vhdr_def)

lemma vhdr_offset:
  assumes "0 \<le> i" "i < 2 ^ 24"
  shows "65536 * unat (jpeg_vhdr out i ! 1) + 256 * unat (jpeg_vhdr out i ! 2)
           + unat (jpeg_vhdr out i ! 3) = nat i"
  using bytes_of_24_bit [OF assms] by (simp only: vhdr_bytes unat_of_int_byte)

lemma list_of_8: "length xs = 8 \<Longrightarrow> \<exists>a b c d e f g h. xs = [a, b, c, d, e, f, g, h]"
  by (auto simp: eval_nat_numeral length_Suc_conv)

lemma list_of_4: "length xs = 4 \<Longrightarrow> \<exists>a b c d. xs = [a, b, c, d]"
  by (auto simp: eval_nat_numeral length_Suc_conv)

text \<open>The receiver's view of a payload, with the headers spelled out.\<close>

lemma rfc2435_parse_restart:
  assumes "65536 * unat a + 256 * unat b + unat c = off"
    and "64 \<le> unat t" "unat t < 128" "length r = 4"
  shows "rfc2435_parse ([z, a, b, c, t, 255, w, h] @ r @ rest) =
    (let n = (if off = 0 then 4 + 256 * unat (rest ! 2) + unat (rest ! 3) else 0)
     in if length rest < n \<or> (off = 0 \<and> length rest < 4) then None
        else Some \<lparr>p_off = off, p_type = unat t, p_width = unat w, p_height = unat h,
                   p_restart = r, p_tables = drop 4 (take n rest), p_data = drop n rest\<rparr>)"
  using assms list_of_4 [of r] by (auto simp: rfc2435_parse_def Let_def)

lemma rfc2435_parse_plain:
  assumes "65536 * unat a + 256 * unat b + unat c = off" and "unat t < 64"
  shows "rfc2435_parse ([z, a, b, c, t, 255, w, h] @ rest) =
    (let n = (if off = 0 then 4 + 256 * unat (rest ! 2) + unat (rest ! 3) else 0)
     in if length rest < n \<or> (off = 0 \<and> length rest < 4) then None
        else Some \<lparr>p_off = off, p_type = unat t, p_width = unat w, p_height = unat h,
                   p_restart = [], p_tables = drop 4 (take n rest), p_data = drop n rest\<rparr>)"
  using assms by (auto simp: rfc2435_parse_def Let_def)

lemma vhdr_eq:
  "jpeg_vhdr out i = [0, jpeg_vhdr out i ! 1, jpeg_vhdr out i ! 2, jpeg_vhdr out i ! 3,
     jpeg_vhdr out i ! 4, 255, jpeg_vhdr out i ! 6, jpeg_vhdr out i ! 7]"
  by (simp add: jpeg_vhdr_def)

lemma nat_eq_0: "0 \<le> i \<Longrightarrow> nat i = 0 \<longleftrightarrow> i = 0"
  by simp

lemma parse_payload:
  assumes "sendable out buf" "0 \<le> i" "i < 2 ^ 24"
  shows "rfc2435_parse (jpeg_vhdr out i @ restart_of out @ rest) =
    (let n = (if i = 0 then 4 + 256 * unat (rest ! 2) + unat (rest ! 3) else 0)
     in if length rest < n \<or> (i = 0 \<and> length rest < 4) then None
        else Some \<lparr>p_off = nat i, p_type = wire_type out, p_width = nat (j_width out),
                   p_height = nat (j_height out), p_restart = restart_of out,
                   p_tables = drop 4 (take n rest), p_data = drop n rest\<rparr>)"
proof (cases "bHasDRI out")
  case True
  then have "length (restart_of out) = 4" by (simp add: length_restart_of)
  moreover have "64 \<le> unat (jpeg_vhdr out i ! 4)" "unat (jpeg_vhdr out i ! 4) < 128"
    using True vhdr_fields [OF assms(1)] by auto
  ultimately show ?thesis
    using rfc2435_parse_restart [OF vhdr_offset [OF assms(2,3), of out], of "jpeg_vhdr out i ! 4"
        "restart_of out" 0 "jpeg_vhdr out i ! 6" "jpeg_vhdr out i ! 7" rest,
        folded vhdr_eq, unfolded vhdr_fields(1-4) [OF assms(1)]] assms(2) vhdr_fields(1) [OF assms(1), of i]
    by (simp add: nat_eq_0 Let_def)
next
  case False
  then have "restart_of out = []" by (simp add: restart_of_def)
  moreover have "unat (jpeg_vhdr out i ! 4) < 64"
    using False vhdr_fields [OF assms(1)] assms(1) by (auto simp: wire_type_def sendable_def)
  ultimately show ?thesis
    using rfc2435_parse_plain [OF vhdr_offset [OF assms(2,3), of out], of "jpeg_vhdr out i ! 4"
        0 "jpeg_vhdr out i ! 6" "jpeg_vhdr out i ! 7" rest,
        folded vhdr_eq, unfolded vhdr_fields(1-4) [OF assms(1)]] assms(2) vhdr_fields(1) [OF assms(1), of i]
    by (simp add: nat_eq_0 Let_def)
qed

definition picture_of :: "rtp_jpeg \<Rightarrow> byte list \<Rightarrow> byte list \<Rightarrow> jpeg_payload" where
  "picture_of out tables data =
     \<lparr>p_off = 0, p_type = wire_type out, p_width = nat (j_width out), p_height = nat (j_height out),
      p_restart = restart_of out, p_tables = tables, p_data = data\<rparr>"

lemma parse_first:
  assumes "sendable out buf" "length lq = 64" "length cq = 64"
  shows "rfc2435_parse (jpeg_vhdr out 0 @ restart_of out @ jpeg_qhdr @ lq @ cq @ data)
           = Some (picture_of out (lq @ cq) data)"
proof -
  have q: "jpeg_qhdr = [0, 0, 0, 128]" by code_simp
  show ?thesis
    using assms by (simp add: parse_payload q picture_of_def)
qed

lemma join_later:
  assumes "sendable out buf" "0 < i" "i < 2 ^ 24" "length acc = nat i"
  shows "rfc2435_rest (picture_of out tabs acc) ((jpeg_vhdr out i @ restart_of out @ data) # ps)
           = rfc2435_rest (picture_of out tabs (acc @ data)) ps"
  using assms by (simp add: parse_payload picture_of_def rfc2435_join_def)

text \<open>A picture's packets: one timestamp, no packet above the limit (in pictures with a restart
  interval, above the limit plus the four bytes of the restart header, which the code does not count
  after the first packet), the marker on the last packet and on no other.\<close>

definition last_marked :: "bool list \<Rightarrow> bool" where
  "last_marked ms \<longleftrightarrow> ms \<noteq> [] \<and> last ms \<and> (\<forall>m \<in> set (butlast ms). \<not> m)"

definition packets_ok :: "rtp_jpeg \<Rightarrow> int \<Rightarrow> packet list \<Rightarrow> bool" where
  "packets_ok out maxds ps \<longleftrightarrow>
     (\<forall>(p, ts, m) \<in> set ps. int (length p) \<le> maxds + (if bHasDRI out then 4 else 0)
                          \<and> ts = j_timestamp out)"

definition later_hdrs :: "rtp_jpeg \<Rightarrow> iov_base list" where
  "later_hdrs out = (if bHasDRI out then [Local (jpeg_rhdr out)] else [])"

lemma gather_later:
  assumes "aslice buf q n = Inr d"
  shows "\<exists>iov. gather buf (Local (jpeg_vhdr out i) # later_hdrs out @ [InFrame (Some q) n]) = Inr iov
           \<and> \<not> list_ex iov_null iov \<and> iov_concat iov = jpeg_vhdr out i @ restart_of out @ d"
  using assms by (simp add: later_hdrs_def restart_of_def)

lemma scan_slice:
  assumes "sendable out buf" "0 \<le> i" "0 \<le> n" "i + n \<le> scan_data_len out"
  shows "aslice buf (scan_data out + nat i) n = Inr (take (nat n) (drop (nat i) (scan_of out buf)))"
proof -
  have le: "nat i + nat n \<le> nat (scan_data_len out)" using assms by linarith
  then have "scan_data out + nat i + nat n \<le> length buf" using assms by (simp add: sendable_def)
  with assms(3) show ?thesis
    using le by (simp add: scan_of_def drop_take add.commute min_absorb1)
qed

lemma length_scan_of: "sendable out buf \<Longrightarrow> length (scan_of out buf) = nat (scan_data_len out)"
  by (auto simp: sendable_def scan_of_def min_def)

lemma send_loop_step:
  assumes "sendable out buf" "0 \<le> i" "i < scan_data_len out" "0 < maxds - hdr_len"
    and n: "n = min (scan_data_len out - i) (maxds - hdr_len)"
    and g: "\<And>d. aslice buf (scan_data out + nat i) n = Inr d \<Longrightarrow>
              \<exists>iov. gather buf (Local (jpeg_vhdr out i) # hdrs @ [InFrame (Some (scan_data out + nat i)) n])
                     = Inr iov \<and> \<not> list_ex iov_null iov \<and> iov_concat iov = pre @ d"
  shows "jpeg_send_loop log_send maxds out buf s hdrs hdr_len i =
         jpeg_send_loop log_send maxds out buf
           (s @ [(pre @ take (nat n) (drop (nat i) (scan_of out buf)), j_timestamp out,
                  i + n = scan_data_len out)])
           (take (if bHasDRI out then 1 else 0) hdrs) 8 (i + n)"
proof -
  have "0 \<le> n" "i + n \<le> scan_data_len out" using assms by auto
  from g [OF scan_slice [OF assms(1,2) this]] obtain iov where
    iov: "gather buf (Local (jpeg_vhdr out i) # hdrs @ [InFrame (Some (scan_data out + nat i)) n]) = Inr iov"
      "\<not> list_ex iov_null iov" "iov_concat iov = pre @ take (nat n) (drop (nat i) (scan_of out buf))" by blast
  have n': "(if scan_data_len out - i > maxds - hdr_len then maxds - hdr_len
             else scan_data_len out - i) = n"
    using n by (simp add: min_def)
  show ?thesis
    using assms(3)
    by (subst jpeg_send_loop.simps)
       (simp add: Let_def n' iov log_send_def add.commute [of n] del: gather.simps)
qed

lemma send_loop_later:
  assumes ok: "sendable out buf" and mx: "8 < maxds" and "0 < i" "i \<le> scan_data_len out"
  shows "\<exists>ps. jpeg_send_loop log_send maxds out buf s (later_hdrs out) 8 i = Some (Inr (s @ ps, 0)) \<and>
              packets_ok out maxds ps \<and>
              (if i = scan_data_len out then ps = [] else last_marked (map (snd \<circ> snd) ps)) \<and>
              (\<forall>tabs acc. length acc = nat i \<longrightarrow>
                 rfc2435_rest (picture_of out tabs acc) (map fst ps)
                   = Some (picture_of out tabs (acc @ drop (nat i) (scan_of out buf))))"
  using assms(3,4)
proof (induction "nat (scan_data_len out - i)" arbitrary: i s rule: less_induct)
  case less
  show ?case
  proof (cases "i = scan_data_len out")
    case True
    then show ?thesis
      using length_scan_of [OF ok] by (subst jpeg_send_loop.simps) (simp add: packets_ok_def)
  next
    case False
    define n where "n = min (scan_data_len out - i) (maxds - 8)"
    let ?d = "take (nat n) (drop (nat i) (scan_of out buf))"
    let ?p = "(jpeg_vhdr out i @ restart_of out @ ?d, j_timestamp out, i + n = scan_data_len out)"
    have n: "0 < n" "i + n \<le> scan_data_len out" "n \<le> maxds - 8" "i < 2 ^ 24"
      using False less.prems mx ok by (auto simp: n_def sendable_def)
    have step: "jpeg_send_loop log_send maxds out buf s (later_hdrs out) 8 i
        = jpeg_send_loop log_send maxds out buf (s @ [?p]) (later_hdrs out) 8 (i + n)"
      using send_loop_step [OF ok _ _ _ n_def, of "later_hdrs out" "jpeg_vhdr out i @ restart_of out" s]
        gather_later False less.prems mx
      by (simp add: later_hdrs_def)
    from less.hyps [of "i + n" "s @ [?p]"] n less.prems obtain ps where
      ps: "jpeg_send_loop log_send maxds out buf (s @ [?p]) (later_hdrs out) 8 (i + n)
             = Some (Inr ((s @ [?p]) @ ps, 0))" "packets_ok out maxds ps"
        "if i + n = scan_data_len out then ps = [] else last_marked (map (snd \<circ> snd) ps)"
        "\<forall>tabs acc. length acc = nat (i + n) \<longrightarrow>
           rfc2435_rest (picture_of out tabs acc) (map fst ps)
             = Some (picture_of out tabs (acc @ drop (nat (i + n)) (scan_of out buf)))"
      by auto
    have len: "length ?d = nat n"
      using n less.prems by (simp add: length_scan_of [OF ok])
    have "rfc2435_rest (picture_of out tabs acc) (map fst (?p # ps))
            = Some (picture_of out tabs (acc @ drop (nat i) (scan_of out buf)))"
      if "length acc = nat i" for tabs acc
    proof -
      have "length (acc @ ?d) = nat (i + n)" using that len n less.prems by (simp add: nat_add_distrib)
      moreover have "drop (nat (i + n)) (scan_of out buf) = drop (nat n) (drop (nat i) (scan_of out buf))"
        using n less.prems by (simp add: nat_add_distrib add.commute)
      ultimately have "rfc2435_rest (picture_of out tabs (acc @ ?d)) (map fst ps)
          = Some (picture_of out tabs (acc @ ?d @ drop (nat n) (drop (nat i) (scan_of out buf))))"
        using ps(4) by (metis append_assoc)
      then show ?thesis
        using join_later [OF ok less.prems(1) n(4) that, of tabs ?d "map fst ps"]
        by (simp only: list.map fst_conv append_take_drop_id)
    qed
    moreover have "packets_ok out maxds (?p # ps)"
      using ps(2) n len by (auto simp: packets_ok_def length_restart_of)
    moreover have "last_marked (map (snd \<circ> snd) (?p # ps))"
      using ps(3) by (auto simp: last_marked_def split: if_splits)
    ultimately show ?thesis
      using step ps(1) False by (intro exI [of _ "?p # ps"]) simp
  qed
qed

definition table_at :: "rtp_jpeg \<Rightarrow> byte list \<Rightarrow> int \<Rightarrow> byte list option" where
  "table_at out buf t =
     (case quant_ptr out t of
        Inr (Some p) \<Rightarrow> if p + 64 \<le> length buf then Some (take 64 (drop p buf)) else None
      | _ \<Rightarrow> None)"

lemma table_atD:
  assumes "table_at out buf t = Some q"
  shows "\<exists>p. quant_ptr out t = Inr (Some p) \<and> aslice buf p 64 = Inr q" "length q = 64"
  using assms by (auto simp: table_at_def split: sum.splits option.splits if_splits)

text \<open>The first packet carries the tables; the rest of the scan follows behind the main header.\<close>

lemma jpeg_send_first:
  assumes ok: "sendable out buf" and mx: "144 < maxds"
    and lq: "table_at out buf (luma_table out) = Some lq"
    and cq: "table_at out buf (chroma_table out) = Some cq"
    and n: "n = min (scan_data_len out) (maxds - (140 + (if bHasDRI out then 4 else 0)))"
  shows "jpeg_send log_send maxds out buf [] =
    jpeg_send_loop log_send maxds out buf
      [((jpeg_vhdr out 0 @ restart_of out @ jpeg_qhdr @ lq @ cq) @ take (nat n) (scan_of out buf), j_timestamp out,
        n = scan_data_len out)] (later_hdrs out) 8 n"
proof -
  obtain lp cp where
    lp: "quant_ptr out (luma_table out) = Inr (Some lp)" "aslice buf lp 64 = Inr lq" and
    cp: "quant_ptr out (chroma_table out) = Inr (Some cp)" "aslice buf cp 64 = Inr cq"
    using table_atD(1) [OF lq] table_atD(1) [OF cq] by auto
  define hl :: int where "hl = 8 + (if bHasDRI out then 4 else 0) + 4 + 64 + 64"
  let ?hdrs = "later_hdrs out @ [Local jpeg_qhdr, InFrame (Some lp) 64, InFrame (Some cp) 64]"
  let ?pre = "jpeg_vhdr out 0 @ restart_of out @ jpeg_qhdr @ lq @ cq"
  have pos: "0 < scan_data_len out" using ok by (simp add: sendable_def)
  have hl: "0 < maxds - hl" using mx by (simp add: hl_def)
  have n': "n = min (scan_data_len out - 0) (maxds - hl)" by (simp add: n hl_def)
  have "jpeg_send log_send maxds out buf [] = jpeg_send_loop log_send maxds out buf [] ?hdrs hl 0"
    by (simp add: jpeg_send_def lp cp hl_def later_hdrs_def)
  also have "\<dots> = jpeg_send_loop log_send maxds out buf
      [(?pre @ take (nat n) (scan_of out buf), j_timestamp out, n = scan_data_len out)] (later_hdrs out) 8 n"
    using send_loop_step [OF ok _ _ hl n', of ?hdrs ?pre "[]"] pos lp cp
    by (simp add: later_hdrs_def restart_of_def)
  finally show ?thesis .
qed

lemma jpeg_send_fragments:
  assumes ok: "sendable out buf" and mx: "144 < maxds"
    and lq: "table_at out buf (luma_table out) = Some lq"
    and cq: "table_at out buf (chroma_table out) = Some cq"
  shows "\<exists>ps. jpeg_send log_send maxds out buf [] = Some (Inr (ps, 0)) \<and>
              packets_ok out maxds ps \<and> last_marked (map (snd \<circ> snd) ps) \<and>
              rfc2435_receive (map fst ps) = Some (picture_of out (lq @ cq) (scan_of out buf))"
proof -
  define hl :: int where "hl = 140 + (if bHasDRI out then 4 else 0)"
  define n where "n = min (scan_data_len out) (maxds - hl)"
  let ?pre = "jpeg_vhdr out 0 @ restart_of out @ jpeg_qhdr @ lq @ cq"
  let ?d = "take (nat n) (scan_of out buf)"
  let ?p = "(?pre @ ?d, j_timestamp out, n = scan_data_len out)"
  have pos: "0 < scan_data_len out" using ok by (simp add: sendable_def)
  have hl: "hl \<le> 144" "0 < maxds - hl" using mx by (auto simp: hl_def)
  have n: "0 < n" "n \<le> scan_data_len out" "n \<le> maxds - hl" using pos hl by (auto simp: n_def)
  have len: "length ?d = nat n" using n by (simp add: length_scan_of [OF ok])
  note run = jpeg_send_first [OF ok mx lq cq n_def [unfolded hl_def]]
  obtain ps where
    ps: "jpeg_send_loop log_send maxds out buf [?p] (later_hdrs out) 8 n = Some (Inr ([?p] @ ps, 0))"
      "packets_ok out maxds ps"
      "if n = scan_data_len out then ps = [] else last_marked (map (snd \<circ> snd) ps)"
      "\<forall>tabs acc. length acc = nat n \<longrightarrow>
         rfc2435_rest (picture_of out tabs acc) (map fst ps)
           = Some (picture_of out tabs (acc @ drop (nat n) (scan_of out buf)))"
    using send_loop_later [OF ok _ n(1) n(2), of maxds "[?p]"] mx by auto
  have "rfc2435_receive (map fst (?p # ps)) = rfc2435_rest (picture_of out (lq @ cq) ?d) (map fst ps)"
    using parse_first [OF ok table_atD(2) [OF lq] table_atD(2) [OF cq], of ?d] by simp
  also have "\<dots> = Some (picture_of out (lq @ cq) (scan_of out buf))"
    using ps(4) len append_take_drop_id by metis
  finally have "rfc2435_receive (map fst (?p # ps)) = Some (picture_of out (lq @ cq) (scan_of out buf))" .
  moreover have "packets_ok out maxds (?p # ps)"
    using ps(2) n len table_atD(2) [OF lq] table_atD(2) [OF cq]
    by (auto simp: packets_ok_def length_restart_of hl_def jpeg_qhdr_def split: if_split_asm)
  moreover have "last_marked (map (snd \<circ> snd) (?p # ps))"
    using ps(3) by (auto simp: last_marked_def split: if_splits)
  ultimately show ?thesis using run ps(1) by (intro exI [of _ "?p # ps"]) simp
qed

section \<open>Parsing a baseline picture\<close>

text \<open>The pictures the parser is for: marker segments with two quantisation tables, an optional
  restart interval, a three-component frame header, Huffman tables and one scan.\<close>

definition jpeg_seg :: "byte \<Rightarrow> byte list \<Rightarrow> byte list" where
  "jpeg_seg m payload = [0xFF, m] @ PUT_16 (of_nat (length payload + 2)) @ payload"

definition sof_payload :: "nat \<Rightarrow> nat \<Rightarrow> byte \<Rightarrow> byte list" where
  "sof_payload w h samp =
     [8] @ PUT_16 (of_nat h) @ PUT_16 (of_nat w) @ [3, 1, samp, 0, 2, 0x11, 1, 3, 0x11, 1]"

definition dri_seg :: "u16 option \<Rightarrow> byte list" where
  "dri_seg dri = (case dri of None \<Rightarrow> [] | Some r \<Rightarrow> jpeg_seg 0xDD (PUT_16 (ucast r)))"

definition jpeg_picture ::
    "nat \<Rightarrow> nat \<Rightarrow> byte \<Rightarrow> byte list \<Rightarrow> byte list \<Rightarrow> u16 option \<Rightarrow> byte list list \<Rightarrow> byte list \<Rightarrow> byte list \<Rightarrow> byte list" where
  "jpeg_picture w h samp lq cq dri dhts sos scan =
     [0xFF, 0xD8] @ jpeg_seg 0xDB ([0] @ lq @ [1] @ cq) @ dri_seg dri
     @ jpeg_seg 0xC0 (sof_payload w h samp) @ concat (map (jpeg_seg 0xC4) dhts)
     @ jpeg_seg 0xDA sos @ scan"

lemma GET_16_length:
  "n < 2 ^ 16 \<Longrightarrow> PUT_16 (of_nat n) = [a, b] \<Longrightarrow> unat (GET_16 a b) = n"
  by (simp add: GET_16_PUT_16 unsigned_take_bit_eq unat_of_nat take_bit_nat_eq_self
      take_bit_take_bit del: take_bit_of_nat)

lemma seg_bytes:
  assumes "drop i buf = jpeg_seg m payload @ post" "length payload + 2 < 2 ^ 16"
  shows "\<exists>a b. aget buf i = Inr 0xFF \<and> aget buf (i + 1) = Inr m \<and> aget buf (i + 2) = Inr a \<and>
               aget buf (i + 3) = Inr b \<and> unat (GET_16 a b) = length payload + 2"
proof -
  obtain a b where ab: "PUT_16 (of_nat (length payload + 2)) = [a, b]"
    by (simp add: PUT_16_def)
  have "drop i buf = 0xFF # m # a # b # payload @ post"
    using assms(1) by (simp only: jpeg_seg_def ab) simp
  then show ?thesis
    using aget_drop [of buf i 0] aget_drop [of buf i 1] aget_drop [of buf i 2] aget_drop [of buf i 3]
      GET_16_length [OF assms(2) ab]
    by (simp add: aget_def)
qed

lemma walk_seg:
  assumes "drop i buf = jpeg_seg m payload @ post" "length payload + 2 < 2 ^ 16"
    "m \<noteq> 0xD8" "m \<noteq> 0xDA" "int i < flen"
    and "length payload = n" "jpeg_segment buf out m (i + 4) (int n) = Inr (out', True)"
    and "j = i + 4 + n"
  shows "jpeg_walk buf flen ms out i = jpeg_walk buf flen ms out' j"
proof -
  obtain a b where "aget buf i = Inr 0xFF" "aget buf (i + 1) = Inr m" "aget buf (i + 2) = Inr a"
    "aget buf (i + 3) = Inr b" "unat (GET_16 a b) = length payload + 2"
    using seg_bytes [OF assms(1,2)] by blast
  then show ?thesis
    using assms(3-8)
    by (subst jpeg_walk.simps) (simp add: numeral_eq_Suc)
qed

lemma walk_scan:
  assumes "drop i buf = jpeg_seg 0xDA sos @ post" "length sos + 2 < 2 ^ 16" "int i < flen"
  shows "jpeg_walk buf flen ms out i =
    Inr (out\<lparr>init_done := True, scan_data := i + 4 + length sos,
             scan_data_len := flen - int (i + 4 + length sos), j_timestamp := ucast (ms * 90)\<rparr>, True)"
proof -
  obtain a b where "aget buf i = Inr 0xFF" "aget buf (i + 1) = Inr 0xDA" "aget buf (i + 2) = Inr a"
    "aget buf (i + 3) = Inr b" "unat (GET_16 a b) = length sos + 2"
    using seg_bytes [OF assms(1,2)] by blast
  then show ?thesis
    using assms(3) by (subst jpeg_walk.simps) (simp add: algebra_simps)
qed

lemma aget_payload:
  assumes "drop d buf = xs @ post" "k < length xs"
  shows "aget buf (d + k) = Inr (xs ! k)"
  using assms aget_drop [of buf d k] by (simp add: nth_append)

lemma DQT_two_tables:
  assumes "drop d buf = ([0] @ lq @ [1] @ cq) @ post" "length lq = 64" "length cq = 64"
  shows "parse_DQT buf out d 130 0 =
           Inr (out\<lparr>quant := (quant out)[0 := Some (d + 1), 1 := Some (d + 66)]\<rparr>, True)"
proof -
  have "aget buf (d + 0) = Inr 0" "aget buf (d + 65) = Inr 1"
    using assms(2,3) aget_payload [OF assms(1), of 0] aget_payload [OF assms(1), of 65]
    by (simp_all add: nth_append)
  then show ?thesis
    by (simp add: parse_DQT.simps [of buf _ d 130 0] parse_DQT.simps [of buf _ d 130 65]
        parse_DQT.simps [of buf _ d 130 130] add.commute [of 66 d])
qed

lemma DRI_value:
  assumes "drop d buf = PUT_16 (ucast r) @ post"
  shows "parse_DRI buf out d = Inr (out\<lparr>bHasDRI := True, DRI := r\<rparr>, True)"
proof -
  obtain a b where ab: "PUT_16 (ucast r) = [a, b]" by (simp add: PUT_16_def)
  have "GET_16 a b = ucast r"
    by (rule bit_word_eqI) (auto simp: GET_16_PUT_16 [OF ab] bit_simps dest: bit_imp_le_length)
  moreover have "aget buf d = Inr a" "aget buf (d + 1) = Inr b"
    using aget_payload [OF assms, of 0] aget_payload [OF assms, of 1] by (simp_all add: ab)
  moreover have "ucast (ucast r :: u32) = r"
    by (rule bit_word_eqI) (auto simp: bit_simps)
  ultimately show ?thesis
    by (simp add: parse_DRI_def)
qed

lemma and_7: "(n :: nat) AND 7 = n mod 8"
proof -
  have "n AND mask 3 = take_bit 3 n" by (simp add: take_bit_eq_mask)
  then show ?thesis by (simp add: mask_eq_exp_minus_1 take_bit_eq_mod)
qed

lemma SOF_three_components:
  assumes "drop d buf = sof_payload w h samp @ post" "w < 2 ^ 16" "h < 2 ^ 16" "8 dvd w" "8 dvd h"
    and "samp \<in> {0x11, 0x21, 0x22}"
    and "length (quant out) = 16" "quant out ! 0 = Some p" "quant out ! 1 = Some q"
  shows "parse_SOF buf out d =
    Inr (out\<lparr>j_type := (if samp = 0x22 then 1 else 0), j_width := int (w div 8),
             j_height := int (h div 8), luma_table := 0, chroma_table := 1\<rparr>, True)"
proof -
  obtain h1 h0 where h: "PUT_16 (of_nat h) = [h1, h0]" by (simp add: PUT_16_def)
  obtain w1 w0 where w: "PUT_16 (of_nat w) = [w1, w0]" by (simp add: PUT_16_def)
  have bytes: "drop d buf = [8, h1, h0, w1, w0, 3, 1, samp, 0, 2, 0x11, 1, 3, 0x11, 1] @ post"
    using assms(1) by (simp add: sof_payload_def h w)
  have hw: "unat (GET_16 h1 h0) = h" "unat (GET_16 w1 w0) = w"
    using GET_16_length [OF assms(3) h] GET_16_length [OF assms(2) w] by simp_all
  have g: "aget buf d = Inr 8" "aget buf (d + 1) = Inr h1" "aget buf (d + 2) = Inr h0"
    "aget buf (d + 3) = Inr w1" "aget buf (d + 4) = Inr w0" "aget buf (d + 5) = Inr 3"
    using aget_payload [OF bytes, of 0] aget_payload [OF bytes, of 1] aget_payload [OF bytes, of 2]
      aget_payload [OF bytes, of 3] aget_payload [OF bytes, of 4] aget_payload [OF bytes, of 5]
    by simp_all
  have off: "d + 6 + 1 = d + 7" "d + 6 + 2 = d + 8" "d + 9 + 1 = d + 10" "d + 9 + 2 = d + 11"
    "d + 12 + 1 = d + 13" "d + 12 + 2 = d + 14"
    by simp_all
  have c: "aget buf (d + 6) = Inr 1" "aget buf (d + 6 + 1) = Inr samp" "aget buf (d + 6 + 2) = Inr 0"
    "aget buf (d + 9) = Inr 2" "aget buf (d + 9 + 1) = Inr 0x11" "aget buf (d + 9 + 2) = Inr 1"
    "aget buf (d + 12) = Inr 3" "aget buf (d + 12 + 1) = Inr 0x11" "aget buf (d + 12 + 2) = Inr 1"
    unfolding off using aget_payload [OF bytes, of 6] aget_payload [OF bytes, of 7] aget_payload [OF bytes, of 8]
      aget_payload [OF bytes, of 9] aget_payload [OF bytes, of 10] aget_payload [OF bytes, of 11]
      aget_payload [OF bytes, of 12] aget_payload [OF bytes, of 13] aget_payload [OF bytes, of 14]
    by simp_all
  have comps: "sof_components buf o' [d + 6, d + 9, d + 12] =
      Inr (o'\<lparr>j_type := (if samp = 0x22 then 1 else 0), luma_table := 0, chroma_table := 1\<rparr>, True)"
    if "quant o' = quant out" "chroma_table o' = -1" for o'
    unfolding sof_components.simps c rbind_simps
    using assms(6-9) that by (auto simp: sof_component_def)
  show ?thesis
    unfolding parse_SOF_def Let_def g rbind_simps hw and_7
    using assms(4,5) by (simp add: comps del: sof_components.simps)
qed

lemma length_jpeg_seg [simp]: "length (jpeg_seg m xs) = 4 + length xs"
  by (simp add: jpeg_seg_def)

lemma drop_seg: "drop i buf = jpeg_seg m xs @ post \<Longrightarrow> drop (i + 4) buf = xs @ post"
  "drop i buf = jpeg_seg m xs @ post \<Longrightarrow> drop (i + 4 + length xs) buf = post"
proof -
  assume a: "drop i buf = jpeg_seg m xs @ post"
  then have "drop 4 (drop i buf) = xs @ post"
    by (simp add: jpeg_seg_def PUT_16_def)
  then show 1: "drop (i + 4) buf = xs @ post" by (simp add: add.commute)
  have "drop (length xs) (drop (i + 4) buf) = post" unfolding 1 by simp
  then show "drop (i + 4 + length xs) buf = post" by (simp add: add.commute add.left_commute)
qed

lemma walk_SOI:
  assumes "drop i buf = [0xFF, 0xD8] @ post" "int i < flen"
  shows "jpeg_walk buf flen ms out i = jpeg_walk buf flen ms out (i + 2)"
  using assms aget_payload [OF assms(1), of 0] aget_payload [OF assms(1), of 1]
  by (subst jpeg_walk.simps) (simp add: jpeg_segment_def)

lemma walk_DHTs:
  assumes "drop i buf = concat (map (jpeg_seg 0xC4) dhts) @ post"
    "list_all (\<lambda>t. length t + 2 < 2 ^ 16) dhts"
    "int (i + length (concat (map (jpeg_seg 0xC4) dhts))) < flen"
  shows "jpeg_walk buf flen ms out i
           = jpeg_walk buf flen ms out (i + length (concat (map (jpeg_seg 0xC4) dhts)))"
  using assms
proof (induction dhts arbitrary: i)
  case (Cons t ts)
  have a: "drop i buf = jpeg_seg 0xC4 t @ (concat (map (jpeg_seg 0xC4) ts) @ post)"
    using Cons.prems(1) by simp
  have act: "jpeg_segment buf out 0xC4 (i + 4) (int (length t)) = Inr (out, True)"
    by (simp add: jpeg_segment_def parse_DHT_def)
  have "jpeg_walk buf flen ms out i = jpeg_walk buf flen ms out (i + 4 + length t)"
    by (rule walk_seg [OF a _ _ _ _ refl act]) (use Cons.prems in simp_all)
  also have "\<dots> = jpeg_walk buf flen ms out (i + 4 + length t + length (concat (map (jpeg_seg 0xC4) ts)))"
    using Cons.IH [OF drop_seg(2) [OF a]] Cons.prems by simp
  finally show ?case by (simp add: add.assoc)
qed simp

lemma walk_dri_seg:
  assumes "drop i buf = dri_seg dri @ post" "int (i + length (dri_seg dri)) < flen"
  shows "jpeg_walk buf flen ms out i =
    jpeg_walk buf flen ms (case dri of None \<Rightarrow> out | Some r \<Rightarrow> out\<lparr>bHasDRI := True, DRI := r\<rparr>)
      (i + length (dri_seg dri))"
proof (cases dri)
  case (Some r)
  then have a: "drop i buf = jpeg_seg 0xDD (PUT_16 (ucast r)) @ post"
    using assms(1) by (simp add: dri_seg_def)
  have "jpeg_segment buf out 0xDD (i + 4) (int (length (PUT_16 (ucast r))))
      = Inr (out\<lparr>bHasDRI := True, DRI := r\<rparr>, True)"
    using DRI_value [OF drop_seg(1) [OF a]] by (simp add: jpeg_segment_def)
  from walk_seg [OF a _ _ _ _ refl this refl, of flen ms] assms(2) show ?thesis
    by (simp add: Some dri_seg_def add.commute [of 6])
qed (simp add: dri_seg_def)

text \<open>The state after a picture: where its parts are in the buffer.\<close>

definition parsed_picture :: "nat \<Rightarrow> nat \<Rightarrow> byte \<Rightarrow> u16 option \<Rightarrow> nat \<Rightarrow> nat \<Rightarrow> u64 \<Rightarrow> rtp_jpeg \<Rightarrow> rtp_jpeg" where
  "parsed_picture w h samp dri off n ms out =
     out\<lparr>j_type := (if samp = 0x22 then 1 else 0), j_width := int (w div 8), j_height := int (h div 8),
         luma_table := 0, chroma_table := 1,
         quant := (replicate 16 None)[0 := Some 7, 1 := Some 72],
         scan_data := off, scan_data_len := int n, init_done := True, j_timestamp := ucast (ms * 90),
         bHasDRI := (dri \<noteq> None), DRI := (case dri of None \<Rightarrow> DRI out | Some r \<Rightarrow> r)\<rparr>"

lemma drop_app: "drop i buf = xs @ post \<Longrightarrow> j = i + length xs \<Longrightarrow> drop j buf = post"
  by (metis add.commute append_eq_conv_conj drop_drop)

lemma jpeg_process_picture:
  assumes "length lq = 64" "length cq = 64" "w < 2 ^ 16" "h < 2 ^ 16" "8 dvd w" "8 dvd h"
    and "samp \<in> {0x11, 0x21, 0x22}"
    and "list_all (\<lambda>t. length t + 2 < 2 ^ 16) dhts" "length sos + 2 < 2 ^ 16"
    and pic: "pic = jpeg_picture w h samp lq cq dri dhts sos scan" and buf: "buf = pic @ slack"
  shows "jpeg_process_frame buf (int (length pic)) ms out
           = Inr (parsed_picture w h samp dri (length pic - length scan) (length scan) ms out, True)"
proof -
  let ?dht = "concat (map (jpeg_seg 0xC4) dhts)"
  let ?p0 = "[0] @ lq @ [1] @ cq"
  let ?sof = "sof_payload w h samp"
  let ?flen = "int (length pic)"
  define i3 where "i3 = 136 + length (dri_seg dri)"
  define i5 where "i5 = i3 + 19 + length ?dht"
  have n0: "length ?p0 = 130" using assms(1,2) by simp
  have n3: "length ?sof = 15" by (simp add: sof_payload_def)
  have len: "length pic = i5 + 4 + length sos + length scan"
    using assms(1,2) by (simp add: pic jpeg_picture_def i5_def i3_def n3)
  have d0: "drop 0 buf = [0xFF, 0xD8] @ (jpeg_seg 0xDB ?p0 @ dri_seg dri @ jpeg_seg 0xC0 ?sof
              @ ?dht @ jpeg_seg 0xDA sos @ scan @ slack)"
    by (simp add: pic buf jpeg_picture_def)
  have d1: "drop 2 buf = jpeg_seg 0xDB ?p0 @ dri_seg dri @ jpeg_seg 0xC0 ?sof @ ?dht
              @ jpeg_seg 0xDA sos @ scan @ slack"
    by (rule drop_app [OF d0]) simp
  have d2: "drop 136 buf = dri_seg dri @ jpeg_seg 0xC0 ?sof @ ?dht @ jpeg_seg 0xDA sos @ scan @ slack"
    by (rule drop_app [OF d1]) (use n0 in simp)
  note d3 = drop_app [OF d2 i3_def]
  have d4: "drop (i3 + 19) buf = ?dht @ jpeg_seg 0xDA sos @ scan @ slack"
    by (rule drop_app [OF d3]) (simp add: n3)
  note d5 = drop_app [OF d4 i5_def]
  define o1 where "o1 = out\<lparr>bHasDRI := False, quant := replicate 16 None\<rparr>"
  define o2 where "o2 = o1\<lparr>quant := (quant o1)[0 := Some (6 + 1), 1 := Some (6 + 66)]\<rparr>"
  define o3 where "o3 = (case dri of None \<Rightarrow> o2 | Some r \<Rightarrow> o2\<lparr>bHasDRI := True, DRI := r\<rparr>)"
  define o4 where "o4 = o3\<lparr>j_type := (if samp = 0x22 then 1 else 0), j_width := int (w div 8),
      j_height := int (h div 8), luma_table := 0, chroma_table := 1\<rparr>"
  have q3: "length (quant o3) = 16" "quant o3 ! 0 = Some 7" "quant o3 ! 1 = Some 72"
    by (simp_all add: o3_def o2_def o1_def split: option.split)
  have d1': "drop 6 buf = ?p0 @ dri_seg dri @ jpeg_seg 0xC0 ?sof @ ?dht @ jpeg_seg 0xDA sos @ scan @ slack"
    using drop_seg(1) [OF d1] by simp
  have "parse_DQT buf o1 6 130 0 = Inr (o2, True)"
    unfolding o2_def by (rule DQT_two_tables [OF d1' assms(1,2)])
  then have s1: "jpeg_segment buf o1 0xDB (2 + 4) (int 130) = Inr (o2, True)"
    by (simp add: jpeg_segment_def)
  have s3: "jpeg_segment buf o3 0xC0 (i3 + 4) (int 15) = Inr (o4, True)"
    unfolding o4_def using SOF_three_components [OF drop_seg(1) [OF d3] assms(3-7) q3]
    by (simp add: jpeg_segment_def)
  have "jpeg_process_frame buf ?flen ms out = jpeg_walk buf ?flen ms o1 (0 + 2)"
    unfolding jpeg_process_frame_def o1_def [symmetric] by (rule walk_SOI [OF d0]) (simp add: len)
  also have "\<dots> = jpeg_walk buf ?flen ms o2 136"
    unfolding add_0 by (rule walk_seg [OF d1 _ _ _ _ n0 s1]) (use n0 in \<open>simp_all add: len i5_def i3_def\<close>)
  also have "\<dots> = jpeg_walk buf ?flen ms o3 i3"
    unfolding i3_def o3_def by (rule walk_dri_seg [OF d2]) (simp add: len i5_def i3_def)
  also have "\<dots> = jpeg_walk buf ?flen ms o4 (i3 + 19)"
    by (rule walk_seg [OF d3 _ _ _ _ n3 s3]) (use n3 in \<open>simp_all add: len i5_def\<close>)
  also have "\<dots> = jpeg_walk buf ?flen ms o4 i5"
    unfolding i5_def by (rule walk_DHTs [OF d4 assms(8)]) (simp add: len i5_def)
  also have "\<dots> = Inr (parsed_picture w h samp dri (length pic - length scan) (length scan) ms out, True)"
    by (subst walk_scan [OF d5 assms(9)])
       (simp_all add: len parsed_picture_def o4_def o3_def o2_def o1_def split: option.split)
  finally show ?thesis .
qed

section \<open>Properties\<close>

text \<open>A fresh packetiser in zeroed memory and a small 640x480 picture, for concrete instances.\<close>

definition zeroed_jpeg :: rtp_jpeg where
  "zeroed_jpeg = new_rtp_media_jpeg_stream
     \<lparr>j_type = 0, j_q = 0, j_width = 0, j_height = 0, luma_table = 0, chroma_table = 0,
      quant = replicate 16 None, scan_data = 0, scan_data_len = 0, init_done = False, j_ts_incr = 0,
      j_timestamp = 0, bHasDRI = False, DRI = 0\<rparr> 1 15"

definition sample_picture :: "byte list" where
  "sample_picture =
     jpeg_picture 640 480 0x21 (replicate 64 9) (replicate 64 11) (Some 4) [[0, 1]] [3] [1, 2, 3]"

text \<open>A parsed baseline picture can be sent.\<close>

lemma picture_sendable:
  assumes "length lq = 64" "length cq = 64" "w < 2048" "h < 2048"
    and "0 < length scan" "length scan < 2 ^ 24"
    and pic: "pic = jpeg_picture w h samp lq cq dri dhts sos scan" and buf: "buf = pic @ slack"
    and out': "out' = parsed_picture w h samp dri (length pic - length scan) (length scan) ms out"
  shows "sendable out' buf" "scan_of out' buf = scan"
    "table_at out' buf (luma_table out') = Some lq" "table_at out' buf (chroma_table out') = Some cq"
proof -
  obtain pre where "pic = pre @ scan"
    using pic unfolding jpeg_picture_def append_assoc [symmetric] by blast
  then have sc: "take (length scan) (drop (length pic - length scan) buf) = scan"
    "length scan \<le> length pic"
    using buf by simp_all
  show "sendable out' buf"
    using assms(1-6) sc(2) by (auto simp: sendable_def out' buf parsed_picture_def)
  show "scan_of out' buf = scan"
    using sc(1) by (simp add: scan_of_def out' parsed_picture_def)
  have t: "take 64 (drop 7 buf) = lq" "take 64 (drop 72 buf) = cq" "136 \<le> length buf"
    using assms(1,2) unfolding pic buf jpeg_picture_def by (simp_all add: jpeg_seg_def PUT_16_def)
  show "table_at out' buf (luma_table out') = Some lq" "table_at out' buf (chroma_table out') = Some cq"
    using t by (simp_all add: table_at_def quant_ptr_def out' parsed_picture_def)
qed

text \<open>What arrives of a picture: the fields an RFC 2435 receiver reassembles.\<close>

definition rfc2435_picture :: "nat \<Rightarrow> nat \<Rightarrow> byte \<Rightarrow> byte list \<Rightarrow> byte list \<Rightarrow> u16 option \<Rightarrow> byte list \<Rightarrow> jpeg_payload" where
  "rfc2435_picture w h samp lq cq dri scan =
     \<lparr>p_off = 0, p_type = (if samp = 0x22 then 1 else 0) + (if dri = None then 0 else 64),
      p_width = w div 8, p_height = h div 8,
      p_restart = (case dri of None \<Rightarrow> [] | Some r \<Rightarrow> PUT_16 (ucast r) @ [0xFF, 0xFF]),
      p_tables = lq @ cq, p_data = scan\<rparr>"

lemma picture_packets:
  assumes "length lq = 64" "length cq = 64" "w < 2048" "h < 2048" "8 dvd w" "8 dvd h"
    and "samp \<in> {0x11, 0x21, 0x22}"
    and "list_all (\<lambda>t. length t + 2 < 2 ^ 16) dhts" "length sos + 2 < 2 ^ 16"
    and "0 < length scan" "length scan < 2 ^ 24"
    and pic: "pic = jpeg_picture w h samp lq cq dri dhts sos scan" and buf: "buf = pic @ slack"
    and out': "out' = parsed_picture w h samp dri (length pic - length scan) (length scan) ms out"
  shows "jpeg_process_frame buf (int (length pic)) ms out = Inr (out', True)"
    and "144 < maxds \<Longrightarrow> \<exists>ps. jpeg_send log_send maxds out' buf [] = Some (Inr (ps, 0)) \<and>
      rfc2435_receive (map fst ps) = Some (rfc2435_picture w h samp lq cq dri scan) \<and>
      last_marked (map (snd \<circ> snd) ps) \<and>
      (\<forall>(p, ts, m) \<in> set ps. ts = ucast (ms * 90) \<and> int (length p) \<le> maxds + (if dri = None then 0 else 4))"
    and "j_timestamp out' = ucast (ms * 90)"
proof -
  show "jpeg_process_frame buf (int (length pic)) ms out = Inr (out', True)"
    unfolding out' by (rule jpeg_process_picture) (use assms in simp_all)
  note ok = picture_sendable [OF assms(1-4,10,11) pic buf out']
  have "picture_of out' (lq @ cq) (scan_of out' buf) = rfc2435_picture w h samp lq cq dri scan"
    unfolding ok(2) by (auto simp: picture_of_def rfc2435_picture_def out' parsed_picture_def wire_type_def
        restart_of_def jpeg_rhdr_def split: option.splits)
  moreover have fld: "bHasDRI out' \<longleftrightarrow> dri \<noteq> None" "j_timestamp out' = ucast (ms * 90)"
    by (simp_all add: out' parsed_picture_def)
  ultimately show "144 < maxds \<Longrightarrow> \<exists>ps. jpeg_send log_send maxds out' buf [] = Some (Inr (ps, 0)) \<and>
      rfc2435_receive (map fst ps) = Some (rfc2435_picture w h samp lq cq dri scan) \<and>
      last_marked (map (snd \<circ> snd) ps) \<and>
      (\<forall>(p, ts, m) \<in> set ps. ts = ucast (ms * 90) \<and> int (length p) \<le> maxds + (if dri = None then 0 else 4))"
    using jpeg_send_fragments [OF ok(1) _ ok(3,4), of maxds] unfolding packets_ok_def by fastforce
  show "j_timestamp out' = ucast (ms * 90)" by (rule fld(2))
qed

text \<open>C4. What a receiver gets of a baseline picture: \<^verbatim>\<open>jpeg_process_frame\<close> accepts the picture, \<^verbatim>\<open>jpeg_send\<close>
  terminates and emits packets from which an RFC 2435 receiver reassembles the dimensions in blocks, the
  restart interval, both quantisation tables and the scan, with the RTP/JPEG type the code derives from the luma
  sampling: 1 for 0x22 and 0 for both 0x21 and 0x11, plus 64 with a restart interval. The Huffman tables are not
  transmitted. The marker is set on the last packet only, and all packets carry the picture's timestamp
  (milliseconds times 90, modulo \<open>2 ^ 32\<close>). Without a restart interval no packet exceeds the endpoint's limit;
  with one, a packet may exceed it by the 4 bytes of the restart header, and by no more.\<close>

theorem jpeg_picture_delivered:
  assumes "length lq = 64" "length cq = 64" "w < 2048" "h < 2048" "8 dvd w" "8 dvd h"
    and "samp \<in> {0x11, 0x21, 0x22}"
    and "list_all (\<lambda>t. length t + 2 < 2 ^ 16) dhts" "length sos + 2 < 2 ^ 16"
    and "0 < length scan" "length scan < 2 ^ 24" "144 < maxds"
    and "pic = jpeg_picture w h samp lq cq dri dhts sos scan" "buf = pic @ slack"
  shows "\<exists>out' ps.
    jpeg_process_frame buf (int (length pic)) ms out = Inr (out', True) \<and>
    jpeg_send log_send maxds out' buf [] = Some (Inr (ps, 0)) \<and>
    rfc2435_receive (map fst ps) = Some
      \<lparr>p_off = 0, p_type = (if samp = 0x22 then 1 else 0) + (if dri = None then 0 else 64),
       p_width = w div 8, p_height = h div 8,
       p_restart = (case dri of None \<Rightarrow> [] | Some r \<Rightarrow> PUT_16 (ucast r) @ [0xFF, 0xFF]),
       p_tables = lq @ cq, p_data = scan\<rparr> \<and>
    last_marked (map (snd \<circ> snd) ps) \<and>
    (\<forall>(p, ts, m) \<in> set ps. ts = ucast (ms * 90) \<and>
       int (length p) \<le> maxds + (if dri = None then 0 else 4))"
  using picture_packets(1) [OF assms(1-11,13,14) refl, of ms out] picture_packets(2) [OF assms(1-11,13,14) refl assms(12), of ms out]
  unfolding rfc2435_picture_def by blast

theorem jpeg_picture_delivered_witness:
  "\<exists>out' ps.
    jpeg_process_frame (sample_picture @ [0, 0]) (int (length sample_picture)) 1000 zeroed_jpeg = Inr (out', True) \<and>
    jpeg_send log_send 146 out' (sample_picture @ [0, 0]) [] = Some (Inr (ps, 0)) \<and>
    rfc2435_receive (map fst ps) = Some
      \<lparr>p_off = 0, p_type = 64, p_width = 80, p_height = 60, p_restart = [0, 4, 0xFF, 0xFF],
       p_tables = replicate 64 9 @ replicate 64 11, p_data = [1, 2, 3]\<rparr>"
proof -
  have "PUT_16 4 = [0, 4]" by code_simp
  then show ?thesis
    using jpeg_picture_delivered [where lq = "replicate 64 9" and cq = "replicate 64 11" and w = 640
        and h = 480 and samp = 33 and dri = "Some 4" and dhts = "[[0, 1]]" and sos = "[3]"
        and scan = "[1, 2, 3]" and maxds = 146 and slack = "[0, 0]" and ms = 1000 and out = zeroed_jpeg,
        OF _ _ _ _ _ _ _ _ _ _ _ _ sample_picture_def refl]
    by auto
qed

text \<open>C24. The size limit is not kept for pictures with a restart interval: the header length is reset to that of the
  main header after the first packet, although the restart header is sent with every packet. Whenever the scan
  fills the second packet, a packet of 4 bytes more than the endpoint's limit is sent.\<close>

theorem jpeg_restart_over_limit:
  assumes "length lq = 64" "length cq = 64" "w < 2048" "h < 2048" "8 dvd w" "8 dvd h"
    and "samp \<in> {0x11, 0x21, 0x22}"
    and "list_all (\<lambda>t. length t + 2 < 2 ^ 16) dhts" "length sos + 2 < 2 ^ 16"
    and "2 * maxds - 152 \<le> int (length scan)" "length scan < 2 ^ 24" "144 < maxds"
    and "pic = jpeg_picture w h samp lq cq (Some r) dhts sos scan" "buf = pic @ slack"
  shows "\<exists>out' ps. jpeg_process_frame buf (int (length pic)) ms out = Inr (out', True) \<and>
    jpeg_send log_send maxds out' buf [] = Some (Inr (ps, 0)) \<and>
    (\<exists>(p, ts, m) \<in> set ps. int (length p) = maxds + 4)"
proof -
  define out' where
    "out' = parsed_picture w h samp (Some r) (length pic - length scan) (length scan) ms out"
  have p: "jpeg_process_frame buf (int (length pic)) ms out = Inr (out', True)"
    unfolding out'_def by (rule jpeg_process_picture) (use assms in simp_all)
  have pos: "0 < length scan" using assms(10,12) by (cases scan) auto
  note ok = picture_sendable [OF assms(1-4) pos assms(11,13,14) out'_def]
  have d: "bHasDRI out'" "scan_data_len out' = int (length scan)" by (simp_all add: out'_def parsed_picture_def)
  define n where "n = maxds - 144"
  have n: "n = min (scan_data_len out') (maxds - (140 + (if bHasDRI out' then 4 else 0)))"
    using assms(10,12) d by (simp add: n_def)
  define n2 where "n2 = maxds - 8"
  have n2: "n2 = min (scan_data_len out' - n) (maxds - 8)"
    using assms(10) d by (simp add: n2_def n_def)
  obtain p1 where first: "jpeg_send log_send maxds out' buf [] =
      jpeg_send_loop log_send maxds out' buf [p1] (later_hdrs out') 8 n"
    using jpeg_send_first [OF ok(1) assms(12) ok(3,4) n] by blast
  define p2 where "p2 = (jpeg_vhdr out' n @ restart_of out' @ take (nat n2) (drop (nat n) (scan_of out' buf)), j_timestamp out',
    n + n2 = scan_data_len out')"
  have "jpeg_send_loop log_send maxds out' buf [p1] (later_hdrs out') 8 n =
      jpeg_send_loop log_send maxds out' buf ([p1] @ [p2]) (later_hdrs out') 8 (n + n2)"
    using send_loop_step [OF ok(1) _ _ _ n2, of "later_hdrs out'" "jpeg_vhdr out' n @ restart_of out'" "[p1]"]
      gather_later assms(10,12) d by (simp add: later_hdrs_def restart_of_def p2_def n_def)
  moreover obtain ps where "jpeg_send_loop log_send maxds out' buf ([p1] @ [p2]) (later_hdrs out') 8 (n + n2) =
      Some (Inr (([p1] @ [p2]) @ ps, 0))"
    using send_loop_later [OF ok(1), of maxds "n + n2" "[p1] @ [p2]"] assms(10,12) d by (auto simp: n_def n2_def)
  moreover have "int (length (fst p2)) = maxds + 4"
    using assms(10,12) d by (simp add: p2_def ok(2) length_restart_of n_def n2_def)
  ultimately show ?thesis
    using p first by (intro exI [of _ out'] exI [of _ "p1 # p2 # ps"]) (simp add: p2_def)
qed

theorem jpeg_restart_over_limit_witness:
  "\<exists>out' ps. jpeg_process_frame (jpeg_picture 640 480 0x21 (replicate 64 9) (replicate 64 11) (Some 4) [] [3] (replicate 140 7))
       (int (length (jpeg_picture 640 480 0x21 (replicate 64 9) (replicate 64 11) (Some 4) [] [3] (replicate 140 7)))) 1000 zeroed_jpeg =
       Inr (out', True) \<and>
     jpeg_send log_send 146 out' (jpeg_picture 640 480 0x21 (replicate 64 9) (replicate 64 11) (Some 4) [] [3] (replicate 140 7)) [] =
       Some (Inr (ps, 0)) \<and>
     (\<exists>(p, ts, m) \<in> set ps. length p = 150)"
  using jpeg_restart_over_limit [where lq = "replicate 64 9" and cq = "replicate 64 11" and w = 640
        and h = 480 and samp = 33 and r = 4 and dhts = "[]" and sos = "[3]"
        and scan = "replicate 140 7" and maxds = 146 and slack = "[]" and ms = 1000 and out = zeroed_jpeg,
        OF _ _ _ _ _ _ _ _ _ _ _ _ refl refl]
  by fastforce

text \<open>A picture without a frame header is accepted, and the vector of its first packet has null entries for the
  tables, for whatever table numbers an earlier picture left behind.\<close>

lemma no_frame_header_vector:
  assumes "0 \<le> luma_table out" "luma_table out < 16" "0 \<le> chroma_table out" "chroma_table out < 16"
    and "length sos + 2 < 2 ^ 16" "scan \<noteq> []" "140 < maxds"
    and "buf = [0xFF, 0xD8] @ jpeg_seg 0xDA sos @ scan"
  shows "\<exists>out' iov m. jpeg_process_frame buf (int (length buf)) ms out = Inr (out', True) \<and>
    list_ex iov_null iov \<and> int (length (iov_concat iov)) \<le> maxds \<and>
    (\<forall>(send :: 's sender) s f. send s iov (j_timestamp out') m = Inl f \<longrightarrow>
       jpeg_send send maxds out' buf s = Some (Inl f)) \<and>
    (\<forall>(send :: 's sender) s s' r. send s iov (j_timestamp out') m = Inr (s', r) \<longrightarrow> r < 0 \<longrightarrow>
       jpeg_send send maxds out' buf s = Some (Inr (s', -1)))"
proof -
  define o1 where "o1 = out\<lparr>bHasDRI := False, quant := replicate 16 None\<rparr>"
  define o2 where "o2 = o1\<lparr>init_done := True, scan_data := 2 + 4 + length sos,
      scan_data_len := int (length buf) - int (2 + 4 + length sos), j_timestamp := ucast (ms * 90)\<rparr>"
  have d0: "drop 0 buf = [0xFF, 0xD8] @ (jpeg_seg 0xDA sos @ scan)" by (simp add: assms(8))
  have d1: "drop 2 buf = jpeg_seg 0xDA sos @ scan" by (simp add: assms(8))
  have "jpeg_process_frame buf (int (length buf)) ms out = jpeg_walk buf (int (length buf)) ms o1 (0 + 2)"
    unfolding jpeg_process_frame_def o1_def [symmetric] by (rule walk_SOI [OF d0]) (simp add: assms(8))
  also have "\<dots> = Inr (o2, True)"
    unfolding add_0 o2_def by (rule walk_scan [OF d1 assms(5)]) (simp add: assms(8))
  finally have parsed: "jpeg_process_frame buf (int (length buf)) ms out = Inr (o2, True)" .
  have q: "quant_ptr o2 (luma_table o2) = Inr None" "quant_ptr o2 (chroma_table o2) = Inr None"
    using assms(1-4) by (simp_all add: o2_def o1_def quant_ptr_def)
  have len: "scan_data_len o2 = int (length scan)" "scan_data o2 + length scan = length buf" "\<not> bHasDRI o2"
    by (simp_all add: o2_def o1_def assms(8))
  define n where "n = min (int (length scan)) (maxds - 140)"
  have n: "(if int (length scan) - 0 > maxds - 140 then maxds - 140 else int (length scan) - 0) = n" "0 \<le> n" "n \<le> int (length scan)"
    "n \<le> maxds - 140"
    using assms(7) by (auto simp: n_def)
  define d where "d = take (nat n) (drop (scan_data o2) buf)"
  have sl: "aslice buf (scan_data o2 + nat 0) n = Inr d" using n len(2) by (simp add: d_def)
  define iov where "iov = [Iov (jpeg_vhdr o2 0), Iov jpeg_qhdr, Null_iov 64, Null_iov 64, Iov d]"
  define hdrs where "hdrs = [Local jpeg_qhdr, InFrame None 64, InFrame None 64]"
  have g: "gather buf (Local (jpeg_vhdr o2 0) # hdrs @ [InFrame (Some (scan_data o2 + nat 0)) n]) = Inr iov"
    unfolding hdrs_def by (simp only: append.simps gather.simps iov_read.simps sl) (simp add: iov_def)
  have start: "jpeg_send send maxds o2 buf s = jpeg_send_loop send maxds o2 buf s hdrs 140 0" for send :: "'s sender" and s
    using len(3) by (simp add: jpeg_send_def q hdrs_def)
  have pos: "0 < int (length scan)" using assms(6) by simp
  have run: "jpeg_send send maxds o2 buf s = (case send s iov (j_timestamp o2) (n + 0 = int (length scan)) of
      Inl f \<Rightarrow> Some (Inl f)
    | Inr (s', r) \<Rightarrow> if r < 0 then Some (Inr (s', -1)) else jpeg_send_loop send maxds o2 buf s' (take (if bHasDRI o2 then 1 else 0) hdrs) 8 (0 + n))"
    for send :: "'s sender" and s
    unfolding start by (subst jpeg_send_loop.simps) (simp only: Let_def len(1) n(1) g pos if_True rbind_simps)
  have "length d \<le> nat n" by (simp add: d_def)
  then have "int (length (iov_concat iov)) \<le> maxds"
    using n by (simp add: iov_def jpeg_qhdr_def)
  moreover have "list_ex iov_null iov" by (simp add: iov_def)
  ultimately show ?thesis
    using parsed run by (intro exI [of _ o2] exI [of _ iov] exI [of _ "n + 0 = int (length scan)"]) simp
qed

end
