(* ===== verification/RtpRawaudio.thy ===== *)
theory RtpRawaudio
  imports Prelude "HOL-Library.Signed_Division"
begin

text \<open>
  The raw audio packetiser (\<^verbatim>\<open>rtp-rawaudio.c\<close>): uncompressed, A-law or mu-law samples cut into RTP
  payloads at sample boundaries, with the session description lines for the static and dynamic
  payload types. The audio data of a frame starts at offset 0 of its buffer.
\<close>

section \<open>Model\<close>

text \<open>The formats of \<^verbatim>\<open>frame.h\<close> the packetiser distinguishes.\<close>

definition FORMAT_PCM :: int where "FORMAT_PCM = 64"
definition FORMAT_ALAW :: int where "FORMAT_ALAW = 201"
definition FORMAT_ULAW :: int where "FORMAT_ULAW = 203"

record rtp_rawaudio =
  rawaudio_len :: int
  ra_format :: int
  sampsize :: int
  channels :: int
  ra_rate :: int
  ra_ts_incr :: int
  ra_timestamp :: u32

text \<open>\<^verbatim>\<open>\r\n\<close>\<close>

definition crlf :: string where
  "crlf = [CHR 0x0D, CHR 0x0A]"

definition media_static :: "int \<Rightarrow> int \<Rightarrow> string" where
  "media_static port pt = ''m=audio '' @ dec port @ '' RTP/AVP '' @ dec pt @ crlf"

definition media_dynamic :: "int \<Rightarrow> int \<Rightarrow> string \<Rightarrow> rtp_rawaudio \<Rightarrow> string" where
  "media_dynamic port payload enc out =
     ''m=audio '' @ dec port @ '' RTP/AVP '' @ dec payload @ crlf @
     ''a=rtpmap:'' @ dec payload @ '' '' @ enc @ ''/'' @ dec (ra_rate out) @ ''/'' @ dec (channels out) @ crlf"

text \<open>The text \<open>rawaudio_get_sdp\<close> prints, \<open>None\<close> for the result -1.\<close>

definition rawaudio_get_sdp :: "int \<Rightarrow> int \<Rightarrow> rtp_rawaudio \<Rightarrow> string option" where
  "rawaudio_get_sdp payload port out =
     (if ra_format out = FORMAT_PCM then
        (if ra_rate out = 44100 \<and> channels out = 2 then Some (media_static port 10)
         else if ra_rate out = 44100 \<and> channels out = 1 then Some (media_static port 11)
         else Some (media_dynamic port payload ''L16'' out))
      else if ra_format out = FORMAT_ALAW then
        (if ra_rate out = 8000 \<and> channels out = 1 then Some (media_static port 8)
         else Some (media_dynamic port payload ''PCMA'' out))
      else if ra_format out = FORMAT_ULAW then
        (if ra_rate out = 8000 \<and> channels out = 1 then Some (media_static port 0)
         else Some (media_dynamic port payload ''PCMU'' out))
      else None)"

definition rawaudio_get_payload :: "int \<Rightarrow> rtp_rawaudio \<Rightarrow> int" where
  "rawaudio_get_payload payload out =
     (if ra_format out = FORMAT_PCM then
        (if ra_rate out = 44100 \<and> channels out = 2 then 10
         else if ra_rate out = 44100 \<and> channels out = 1 then 11 else payload)
      else if ra_format out = FORMAT_ALAW then
        (if ra_rate out = 8000 \<and> channels out = 1 then 8 else payload)
      else if ra_format out = FORMAT_ULAW then
        (if ra_rate out = 8000 \<and> channels out = 1 then 0 else payload)
      else -1)"

definition rawaudio_process_frame :: "int \<Rightarrow> u32 \<Rightarrow> rtp_rawaudio \<Rightarrow> rtp_rawaudio \<times> int" where
  "rawaudio_process_frame flen ts out = (out\<lparr>ra_timestamp := ts, rawaudio_len := flen\<rparr>, 1)"

partial_function (option) rawaudio_send_loop ::
    "'s sender \<Rightarrow> int \<Rightarrow> rtp_rawaudio \<Rightarrow> byte list \<Rightarrow> 's \<Rightarrow> int \<Rightarrow> ('s \<times> int) res option" where
  "rawaudio_send_loop send maxds out buf s i =
     (if i < rawaudio_len out
      then let plen = rawaudio_len out - i;
               blk = channels out * sampsize out
           in if (plen > maxds \<and> blk = 0) \<or> channels out = 0 \<or> sampsize out = 0 then Some (Inl DivByZero)
              else let plen = (if plen > maxds then maxds - maxds smod blk else plen)
                   in case rbind (aslice buf (nat i) plen)
                        (\<lambda>d. send s [Iov d] (ra_timestamp out + of_int (i sdiv channels out sdiv sampsize out)) False) of
                        Inl e \<Rightarrow> Some (Inl e)
                      | Inr (s', r) \<Rightarrow>
                          if r < 0 then Some (Inr (s', -1))
                          else rawaudio_send_loop send maxds out buf s' (i + plen)
      else Some (Inr (s, 0)))"

definition rawaudio_send :: "'s sender \<Rightarrow> int \<Rightarrow> rtp_rawaudio \<Rightarrow> byte list \<Rightarrow> 's \<Rightarrow> ('s \<times> int) res option" where
  "rawaudio_send send maxds out buf s = rawaudio_send_loop send maxds out buf s 0"

text \<open>\<open>ch\<close> and \<open>rate\<close> are what \<^verbatim>\<open>stream->get_framerate\<close> stores.\<close>

definition new_rtp_media_rawaudio_stream :: "int \<Rightarrow> int \<Rightarrow> int \<Rightarrow> rtp_rawaudio res" where
  "new_rtp_media_rawaudio_stream fmt ch rate =
     (if ch = 0 then Inl DivByZero
      else Inr \<lparr>rawaudio_len = 0, ra_format = fmt, sampsize = (if fmt = FORMAT_PCM then 2 else 1),
                channels = ch, ra_rate = rate sdiv ch, ra_ts_incr = 0, ra_timestamp = 0\<rparr>)"

section \<open>Lemmas\<close>

text \<open>The packets of one frame, starting at byte offset \<open>off\<close>: consecutive pieces of the data, each
  stamped with the sample number of its first sample, never marked.\<close>

fun audio_packets :: "rtp_rawaudio \<Rightarrow> int \<Rightarrow> packet list \<Rightarrow> bool" where
  "audio_packets out off [] = True"
| "audio_packets out off ((p, ts, m) # ps) =
     (ts = ra_timestamp out + of_int (off div (channels out * sampsize out)) \<and> \<not> m \<and>
      (channels out * sampsize out) dvd off \<and> audio_packets out (off + int (length p)) ps)"

lemma sdiv_block: "0 < c \<Longrightarrow> 0 < b \<Longrightarrow> 0 \<le> i \<Longrightarrow> i sdiv c sdiv b = i div (c * b)" for i :: int
proof -
  assume a: "0 < c" "0 < b" "0 \<le> i"
  have e: "x sdiv y = x div y" if "0 \<le> x" "0 < y" for x y :: int
    using that by (auto simp: signed_divide_int_def sgn_if)
  have "0 \<le> i div c" using a by (simp add: pos_imp_zdiv_nonneg_iff)
  then show ?thesis using a by (simp add: e zdiv_zmult2_eq)
qed

lemma smod_pos: "0 \<le> x \<Longrightarrow> 0 < y \<Longrightarrow> x smod y = x mod y" for x y :: int
  by (auto simp: signed_modulo_int_def signed_divide_int_def sgn_if minus_div_mult_eq_mod)

lemma rawaudio_loop_sends:
  assumes pos: "0 < channels out" "0 < sampsize out" "channels out * sampsize out \<le> maxds"
    and buf: "rawaudio_len out \<le> int (length buf)"
    and "0 \<le> i" "i \<le> rawaudio_len out" "channels out * sampsize out dvd i"
  shows "\<exists>ps. rawaudio_send_loop log_send maxds out buf s i = Some (Inr (s @ ps, 0)) \<and>
              concat (map fst ps) = drop (nat i) (take (nat (rawaudio_len out)) buf) \<and>
              audio_packets out i ps \<and>
              (\<forall>(p, ts, m) \<in> set ps. p \<noteq> [] \<and> int (length p) \<le> maxds)"
  using assms(5-7)
proof (induction "nat (rawaudio_len out - i)" arbitrary: i s rule: less_induct)
  case less
  let ?b = "channels out * sampsize out"
  let ?D = "take (nat (rawaudio_len out)) buf"
  have b: "0 < ?b" using pos by simp
  show ?case
  proof (cases "i = rawaudio_len out")
    case True
    then show ?thesis
      by (subst rawaudio_send_loop.simps) simp
  next
    case False
    define n where "n = (if rawaudio_len out - i > maxds then maxds - maxds mod ?b else rawaudio_len out - i)"
    have "maxds mod ?b < ?b" "0 \<le> maxds mod ?b"
      using b by simp_all
    then have n: "0 < n" "i + n \<le> rawaudio_len out" "n \<le> maxds"
      using False less.prems pos(3) by (auto simp: n_def)
    have n': "(if rawaudio_len out - i > maxds then maxds - maxds smod ?b else rawaudio_len out - i) = n"
      using b pos(3) by (simp add: n_def smod_pos)
    have dv: "?b dvd i + n \<or> i + n = rawaudio_len out"
      using less.prems(3) by (auto simp: n_def dvd_minus_mod)
    let ?d = "take (nat n) (drop (nat i) ?D)"
    let ?p = "(?d, ra_timestamp out + of_int (i div ?b), False)"
    have sl: "aslice buf (nat i) n = Inr ?d" and len: "length ?d = nat n"
      by (rule aslice_window [OF less.prems(1) _ n(2) buf], use n in simp)+
    have "i sdiv channels out sdiv sampsize out = i div ?b"
      by (rule sdiv_block [OF pos(1,2) less.prems(1)])
    moreover have "i < rawaudio_len out" "?b \<noteq> 0" "channels out \<noteq> 0" "sampsize out \<noteq> 0"
      using False less.prems(2) pos b by auto
    ultimately have step: "rawaudio_send_loop log_send maxds out buf s i
        = rawaudio_send_loop log_send maxds out buf (s @ [?p]) (i + n)"
      by (subst rawaudio_send_loop.simps) (simp only: Let_def n' sl, simp add: log_send_def)
    have "\<exists>ps. rawaudio_send_loop log_send maxds out buf (s @ [?p]) (i + n) = Some (Inr ((s @ [?p]) @ ps, 0)) \<and>
        concat (map fst ps) = drop (nat (i + n)) ?D \<and> audio_packets out (i + n) ps \<and>
        (\<forall>(p, ts, m) \<in> set ps. p \<noteq> [] \<and> int (length p) \<le> maxds)"
    proof (cases "i + n = rawaudio_len out")
      case True
      then show ?thesis
        by (subst rawaudio_send_loop.simps) simp
    next
      case False
      show ?thesis
        by (rule less.hyps) (use False n less.prems dv in auto)
    qed
    then obtain ps where
      ps: "rawaudio_send_loop log_send maxds out buf (s @ [?p]) (i + n) = Some (Inr ((s @ [?p]) @ ps, 0))"
        "concat (map fst ps) = drop (nat (i + n)) ?D" "audio_packets out (i + n) ps"
        "\<forall>(p, ts, m) \<in> set ps. p \<noteq> [] \<and> int (length p) \<le> maxds"
      by blast
    have "rawaudio_send_loop log_send maxds out buf s i = Some (Inr (s @ ?p # ps, 0))"
      using step ps(1) by simp
    moreover have "concat (map fst (?p # ps)) = drop (nat i) ?D"
      using ps(2) drop_window [of i n ?D] n less.prems by simp
    moreover have "audio_packets out i (?p # ps)"
      using ps(3) less.prems(3) len n by simp
    moreover have "?d \<noteq> []"
    proof
      assume e: "?d = []"
      have "length ?d = 0" by (simp only: e list.size)
      with len n(1) show False by linarith
    qed
    moreover have "int (length ?d) \<le> maxds" using n by (simp only: len)
    moreover have "\<forall>(p, ts, m) \<in> set (?p # ps). p \<noteq> [] \<and> int (length p) \<le> maxds"
      using ps(4) calculation(4,5) by simp
    ultimately show ?thesis by blast
  qed
qed

section \<open>Properties\<close>

text \<open>C15. A frame of audio is sent completely and terminates, when a sample of all channels fits in a
  packet: the payloads concatenate to the frame's data, none is empty or above the limit, every packet
  starts at a sample boundary and is stamped with the frame's timestamp plus the number of samples
  before it, and the marker is never set.\<close>

theorem rawaudio_frame_delivered:
  assumes "0 < channels out" "0 < sampsize out" "channels out * sampsize out \<le> maxds"
    and "0 \<le> rawaudio_len out" "rawaudio_len out \<le> int (length buf)"
  shows "\<exists>ps. rawaudio_send log_send maxds out buf [] = Some (Inr (ps, 0)) \<and>
              concat (map fst ps) = take (nat (rawaudio_len out)) buf \<and>
              audio_packets out 0 ps \<and>
              (\<forall>(p, ts, m) \<in> set ps. p \<noteq> [] \<and> int (length p) \<le> maxds)"
  using rawaudio_loop_sends [OF assms(1-3,5), of 0 "[]"] assms(4) by (simp add: rawaudio_send_def)

theorem rawaudio_frame_delivered_witness:
  "\<exists>ps. rawaudio_send log_send 5
      (fst (rawaudio_process_frame 8 100
        \<lparr>rawaudio_len = 0, ra_format = 64, sampsize = 2, channels = 2, ra_rate = 8000, ra_ts_incr = 0, ra_timestamp = 0\<rparr>))
      [1, 2, 3, 4, 5, 6, 7, 8, 0] [] = Some (Inr (ps, 0)) \<and> concat (map fst ps) = [1, 2, 3, 4, 5, 6, 7, 8]"
  using rawaudio_frame_delivered [where maxds = 5 and buf = "[1, 2, 3, 4, 5, 6, 7, 8, 0]" and out =
      "fst (rawaudio_process_frame 8 100
        \<lparr>rawaudio_len = 0, ra_format = 64, sampsize = 2, channels = 2, ra_rate = 8000, ra_ts_incr = 0, ra_timestamp = 0\<rparr>)"]
  by (auto simp: rawaudio_process_frame_def)

end
