(* ===== verification/SendRing.thy ===== *)
theory SendRing
  imports Wire
begin

text \<open>
  The send side of a TCP connection: the 64 KiB ring buffer of \<^verbatim>\<open>struct conn\<close>, \<open>avail_send_buf\<close> and
  \<open>send_data\<close> (\<^verbatim>\<open>tcp.c\<close>), the write loop shared by \<open>conn_write\<close> (\<^verbatim>\<open>tcp.c\<close>) and \<open>tcp_conn_flush\<close>
  (\<^verbatim>\<open>rtsp.c\<close>), and the framing of interleaved packets, \<open>interleave_send\<close> (\<^verbatim>\<open>rtsp.c\<close>).

  The interface is the locale \<open>byte_queue\<close>: a bounded first-in first-out queue of bytes with an
  all-or-nothing \<open>put\<close> and a contiguous \<open>window\<close> that a write may consume from. The write
  loop is verified once against it, and the ring is an interpretation of it.

  The results of \<^verbatim>\<open>write\<close> are a parameter: a list of outcomes, one per call.
\<close>

section \<open>Model\<close>

text \<open>The fields \<^verbatim>\<open>send_buf\<close>, \<^verbatim>\<open>send_buf_r\<close>, \<^verbatim>\<open>send_buf_w\<close> of \<^verbatim>\<open>struct conn\<close>.\<close>

record send_ring =
  send_buf :: "byte list"
  send_buf_r :: nat
  send_buf_w :: nat

definition avail_send_buf :: "send_ring \<Rightarrow> int" where
  "avail_send_buf c =
     (if send_buf_r c > send_buf_w c then int (send_buf_r c) - int (send_buf_w c) - 1
      else int (length (send_buf c)) - int (send_buf_w c) + int (send_buf_r c) - 1)"

text \<open>The copy loop of \<open>send_data\<close>.\<close>

fun put_bytes :: "send_ring \<Rightarrow> byte list \<Rightarrow> send_ring" where
  "put_bytes c [] = c"
| "put_bytes c (b # d) =
     put_bytes (c\<lparr>send_buf := (send_buf c)[send_buf_w c := b],
                  send_buf_w := (if send_buf_w c + 1 = length (send_buf c) then 0 else send_buf_w c + 1)\<rparr>) d"

definition send_data :: "send_ring \<Rightarrow> byte list \<Rightarrow> send_ring \<times> int" where
  "send_data c d = (if avail_send_buf c < int (length d) then (c, 1) else (put_bytes c d, 0))"

text \<open>What the write loop hands to \<^verbatim>\<open>write\<close>, and how it moves the read index.\<close>

definition send_pending :: "send_ring \<Rightarrow> bool" where
  "send_pending c \<longleftrightarrow> send_buf_r c \<noteq> send_buf_w c"

definition send_window :: "send_ring \<Rightarrow> byte list" where
  "send_window c =
     (let len = (if send_buf_w c < send_buf_r c then length (send_buf c) - send_buf_r c
                 else send_buf_w c - send_buf_r c)
      in take len (drop (send_buf_r c) (send_buf c)))"

definition send_advance :: "send_ring \<Rightarrow> nat \<Rightarrow> send_ring" where
  "send_advance c ret =
     (let r = send_buf_r c + ret
      in c\<lparr>send_buf_r := (if r = length (send_buf c) then 0 else r)\<rparr>)"

text \<open>
  Outcomes of \<^verbatim>\<open>write(fd, p, len)\<close>: \<open>Wrote k\<close> returns \<open>min k len\<close> (0 when \<open>k = 0\<close>), \<open>Again\<close> is -1 with
  \<^verbatim>\<open>EAGAIN\<close>, \<open>Failed\<close> any other error. The loop returns the bytes handed over, the queue, whether it
  gave up on an error, and the outcomes not consumed; \<open>None\<close> when the outcomes run out in the loop.
\<close>

datatype wres = Wrote nat | Again | Failed

fun write_loop :: "('q \<Rightarrow> bool) \<Rightarrow> ('q \<Rightarrow> byte list) \<Rightarrow> ('q \<Rightarrow> nat \<Rightarrow> 'q) \<Rightarrow> wres list \<Rightarrow> 'q
    \<Rightarrow> (byte list \<times> 'q \<times> bool \<times> wres list) option" where
  "write_loop pending window advance [] q = (if pending q then None else Some ([], q, False, []))"
| "write_loop pending window advance (w # ws) q =
     (if \<not> pending q then Some ([], q, False, w # ws)
      else case w of
        Again \<Rightarrow> write_loop pending window advance ws q
      | Failed \<Rightarrow> Some ([], q, True, ws)
      | Wrote k \<Rightarrow>
          if k = 0 then Some ([], q, True, ws)
          else let n = min k (length (window q)) in
               map_option (\<lambda>(sent, r). (take n (window q) @ sent, r))
                 (write_loop pending window advance ws (advance q n)))"

definition tcp_conn_flush :: "wres list \<Rightarrow> send_ring \<Rightarrow> (byte list \<times> send_ring \<times> bool \<times> wres list) option" where
  "tcp_conn_flush = write_loop send_pending send_window send_advance"

text \<open>\<open>interleave_send\<close>: the result is the C result with the bytes written by the flush, if any.\<close>

definition interleave_head :: "nat \<Rightarrow> nat \<Rightarrow> byte list" where
  "interleave_head chan len = [0x24, of_nat chan] @ PUT_16 (of_nat len)"

fun send_all :: "send_ring \<Rightarrow> byte list list \<Rightarrow> send_ring" where
  "send_all c [] = c"
| "send_all c (v # vs) = send_all (fst (send_data c v)) vs"

definition interleave_send :: "wres list \<Rightarrow> send_ring \<Rightarrow> nat \<Rightarrow> byte list list
    \<Rightarrow> (int \<times> byte list \<times> send_ring \<times> wres list) option" where
  "interleave_send ws c chan v =
     (let len = sum_list (map length v);
          queue = (\<lambda>c. send_all (fst (send_data c (interleave_head chan len))) v)
      in if avail_send_buf c < int len + 4
         then (case tcp_conn_flush ws c of
                 None \<Rightarrow> None
               | Some (sent, c, _, ws) \<Rightarrow>
                   if avail_send_buf c < int len + 4 then Some (1, sent, c, ws)
                   else Some (0, sent, queue c, ws))
         else Some (0, [], queue c, ws))"

section \<open>The interface: a bounded byte queue\<close>

locale byte_queue =
  fixes inv :: "'q \<Rightarrow> bool"
    and contents :: "'q \<Rightarrow> byte list"
    and room :: "'q \<Rightarrow> int"
    and put :: "'q \<Rightarrow> byte list \<Rightarrow> 'q \<times> int"
    and pending :: "'q \<Rightarrow> bool"
    and window :: "'q \<Rightarrow> byte list"
    and advance :: "'q \<Rightarrow> nat \<Rightarrow> 'q"
  assumes put_fits: "inv q \<Longrightarrow> int (length d) \<le> room q \<Longrightarrow>
      snd (put q d) = 0 \<and> inv (fst (put q d)) \<and> contents (fst (put q d)) = contents q @ d \<and>
      room (fst (put q d)) = room q - int (length d)"
    and put_full: "inv q \<Longrightarrow> room q < int (length d) \<Longrightarrow> put q d = (q, 1)"
    and pending_iff: "inv q \<Longrightarrow> pending q \<longleftrightarrow> contents q \<noteq> []"
    and window_prefix: "inv q \<Longrightarrow> contents q = window q @ drop (length (window q)) (contents q)"
    and window_some: "inv q \<Longrightarrow> contents q \<noteq> [] \<Longrightarrow> window q \<noteq> []"
    and advance_law: "inv q \<Longrightarrow> k \<le> length (window q) \<Longrightarrow>
      inv (advance q k) \<and> contents (advance q k) = drop k (contents q)"
begin

lemma put_accepted:
  assumes "inv q" "put q d = (q', 0)"
  shows "inv q' \<and> contents q' = contents q @ d"
proof -
  have "\<not> room q < int (length d)"
  proof
    assume "room q < int (length d)"
    from put_full [OF assms(1) this] assms(2) show False by simp
  qed
  with put_fits [OF assms(1), of d] assms(2) show ?thesis by simp
qed

text \<open>The loop neither loses, duplicates nor reorders bytes, and without an error it empties the queue.\<close>

lemma write_loop_conserves:
  "inv q \<Longrightarrow> write_loop pending window advance ws q = Some (sent, q', err, ws') \<Longrightarrow>
   inv q' \<and> sent @ contents q' = contents q \<and> (\<not> err \<longrightarrow> contents q' = [])"
proof (induction ws arbitrary: q sent q' err ws')
  case Nil
  then show ?case using pending_iff by (auto split: if_splits)
next
  case (Cons w ws)
  consider (idle) "\<not> pending q" | (again) "pending q" "w = Again"
    | (fail) "pending q" "w = Failed \<or> w = Wrote 0"
    | (some) k where "w = Wrote k" "k \<noteq> 0" "pending q"
    by (cases w) auto
  then show ?case
  proof cases
    case idle
    with Cons.prems pending_iff [OF Cons.prems(1)] show ?thesis by simp
  next
    case again
    with Cons.prems(2) have "write_loop pending window advance ws q = Some (sent, q', err, ws')" by simp
    from Cons.IH [OF Cons.prems(1) this] show ?thesis .
  next
    case fail
    with Cons.prems show ?thesis by auto
  next
    case some
    note w = this
    let ?n = "min k (length (window q))"
    obtain s' where s': "write_loop pending window advance ws (advance q ?n) = Some (s', q', err, ws')"
        "sent = take ?n (window q) @ s'"
      using Cons.prems(2) w by (auto simp: Let_def)
    have adv: "inv (advance q ?n)" "contents (advance q ?n) = drop ?n (contents q)"
      using advance_law [OF Cons.prems(1), of ?n] by simp_all
    have "take ?n (window q @ drop (length (window q)) (contents q)) = take ?n (window q)"
      by simp
    then have t: "take ?n (contents q) = take ?n (window q)"
      by (simp only: window_prefix [OF Cons.prems(1), symmetric])
    have "inv q' \<and> s' @ contents q' = drop ?n (contents q) \<and> (\<not> err \<longrightarrow> contents q' = [])"
      using Cons.IH [OF adv(1) s'(1)] unfolding adv(2) .
    moreover have "sent @ contents q' = take ?n (contents q) @ s' @ contents q'"
      by (simp only: s'(2) t append_assoc)
    ultimately show ?thesis by (simp only: append_take_drop_id) blast
  qed
qed

text \<open>It returns once the outcomes hold enough results other than \<^verbatim>\<open>EAGAIN\<close>.\<close>

lemma write_loop_returns:
  "inv q \<Longrightarrow> length (contents q) \<le> length (filter (\<lambda>w. w \<noteq> Again) ws) \<Longrightarrow>
   \<exists>r. write_loop pending window advance ws q = Some r"
proof (induction ws arbitrary: q)
  case Nil
  then show ?case using pending_iff [of q] by auto
next
  case (Cons w ws)
  show ?case
  proof (cases "pending q \<and> (\<exists>k. w = Wrote k \<and> k \<noteq> 0)")
    case False
    with Cons show ?thesis by (cases w) auto
  next
    case True
    then obtain k where w: "w = Wrote k" "k \<noteq> 0" "pending q" by blast
    let ?n = "min k (length (window q))"
    have adv: "inv (advance q ?n)" "contents (advance q ?n) = drop ?n (contents q)"
      using advance_law [OF Cons.prems(1), of ?n] by simp_all
    have "0 < ?n"
      using w window_some pending_iff Cons.prems(1) by simp
    then have "length (contents (advance q ?n)) \<le> length (filter (\<lambda>w. w \<noteq> Again) ws)"
      using Cons.prems(2) w(1) unfolding adv(2) length_drop by (cases "?n") auto
    from Cons.IH [OF adv(1) this] w show ?thesis by (auto simp: Let_def)
  qed
qed

end

section \<open>The ring implements the queue\<close>

definition ring_inv :: "send_ring \<Rightarrow> bool" where
  "ring_inv c \<longleftrightarrow> send_buf_r c < length (send_buf c) \<and> send_buf_w c < length (send_buf c)"

definition ring_contents :: "send_ring \<Rightarrow> byte list" where
  "ring_contents c =
     (if send_buf_r c \<le> send_buf_w c then take (send_buf_w c - send_buf_r c) (drop (send_buf_r c) (send_buf c))
      else drop (send_buf_r c) (send_buf c) @ take (send_buf_w c) (send_buf c))"

lemma length_ring_contents:
  "ring_inv c \<Longrightarrow> int (length (ring_contents c)) + avail_send_buf c = int (length (send_buf c)) - 1"
  by (auto simp: ring_inv_def ring_contents_def avail_send_buf_def)

lemma put_byte:
  assumes "ring_inv c" "0 < avail_send_buf c"
    and c': "c' = c\<lparr>send_buf := (send_buf c)[send_buf_w c := b],
               send_buf_w := (if send_buf_w c + 1 = length (send_buf c) then 0 else send_buf_w c + 1)\<rparr>"
  shows "ring_inv c' \<and> ring_contents c' = ring_contents c @ [b] \<and> length (send_buf c') = length (send_buf c)"
proof -
  let ?r = "send_buf_r c" and ?w = "send_buf_w c" and ?B = "send_buf c"
  have i: "?r < length ?B" "?w < length ?B" using assms(1) by (simp_all add: ring_inv_def)
  consider "?r \<le> ?w" "?w + 1 < length ?B" | "?r \<le> ?w" "?w + 1 = length ?B" | "?w < ?r" using i by linarith
  then show ?thesis
  proof cases
    case 1
    then have "take (Suc ?w - ?r) (drop ?r (?B[?w := b])) = take (?w - ?r) (drop ?r ?B) @ [b]"
      by (simp add: Suc_diff_le take_Suc_conv_app_nth drop_update_swap)
    then show ?thesis using 1 i by (simp add: c' ring_inv_def ring_contents_def)
  next
    case 2
    then have "0 < ?r" using assms(2) by (simp add: avail_send_buf_def)
    moreover have "drop ?r (?B[?w := b]) = take (?w - ?r) (drop ?r ?B) @ [b]"
    proof -
      have "length (drop ?r ?B) = Suc (?w - ?r)" using 2 by simp
      then show ?thesis
        using 2 by (simp add: drop_update_swap upd_conv_take_nth_drop drop_take)
    qed
    moreover have "?B \<noteq> []" using i by auto
    ultimately show ?thesis using 2 i by (simp add: c' ring_inv_def ring_contents_def)
  next
    case 3
    then have "?w + 1 < ?r" using assms(2) by (simp add: avail_send_buf_def)
    moreover have "take (Suc ?w) (?B[?w := b]) = take ?w ?B @ [b]"
      using i by (simp add: take_Suc_conv_app_nth)
    ultimately show ?thesis using i by (simp add: c' ring_inv_def ring_contents_def)
  qed
qed

lemma put_bytes_contents:
  "ring_inv c \<Longrightarrow> int (length d) \<le> avail_send_buf c \<Longrightarrow>
   ring_inv (put_bytes c d) \<and> ring_contents (put_bytes c d) = ring_contents c @ d \<and>
   length (send_buf (put_bytes c d)) = length (send_buf c)"
proof (induction d arbitrary: c)
  case (Cons b d)
  define c' where "c' = c\<lparr>send_buf := (send_buf c)[send_buf_w c := b],
      send_buf_w := (if send_buf_w c + 1 = length (send_buf c) then 0 else send_buf_w c + 1)\<rparr>"
  have p: "ring_inv c' \<and> ring_contents c' = ring_contents c @ [b] \<and> length (send_buf c') = length (send_buf c)"
    by (rule put_byte [OF Cons.prems(1) _ c'_def]) (use Cons.prems(2) in simp)
  then have "avail_send_buf c' = avail_send_buf c - 1"
    using length_ring_contents [OF Cons.prems(1)] length_ring_contents [of c'] by simp
  with Cons.IH [of c'] Cons.prems(2) p have
    "ring_inv (put_bytes c' d) \<and> ring_contents (put_bytes c' d) = ring_contents c @ b # d \<and>
     length (send_buf (put_bytes c' d)) = length (send_buf c)" by simp
  then show ?case unfolding put_bytes.simps c'_def .
qed simp

lemma send_window_prefix:
  "ring_inv c \<Longrightarrow> ring_contents c = send_window c @ drop (length (send_window c)) (ring_contents c)"
  by (auto simp: ring_inv_def ring_contents_def send_window_def Let_def)

lemma send_advance_contents:
  assumes "ring_inv c" "k \<le> length (send_window c)"
  shows "ring_inv (send_advance c k) \<and> ring_contents (send_advance c k) = drop k (ring_contents c)"
proof (cases "send_buf_w c < send_buf_r c")
  case True
  then show ?thesis
    using assms by (auto simp: ring_inv_def ring_contents_def send_window_def send_advance_def Let_def add.commute)
next
  case False
  then show ?thesis
    using assms by (auto simp: ring_inv_def ring_contents_def send_window_def send_advance_def Let_def
        drop_take add.commute)
qed

interpretation ring: byte_queue ring_inv ring_contents avail_send_buf send_data
  send_pending send_window send_advance
proof unfold_locales
  fix c and d :: "byte list"
  assume c: "ring_inv c" and d: "int (length d) \<le> avail_send_buf c"
  note p = put_bytes_contents [OF c d]
  have "avail_send_buf (put_bytes c d) = avail_send_buf c - int (length d)"
    using length_ring_contents [OF c] length_ring_contents [of "put_bytes c d"] p by simp
  with p d show "snd (send_data c d) = 0 \<and> ring_inv (fst (send_data c d)) \<and>
      ring_contents (fst (send_data c d)) = ring_contents c @ d \<and>
      avail_send_buf (fst (send_data c d)) = avail_send_buf c - int (length d)"
    by (simp add: send_data_def)
next
  fix c :: send_ring and d :: "byte list"
  assume "avail_send_buf c < int (length d)"
  then show "send_data c d = (c, 1)" by (simp add: send_data_def)
next
  fix c
  assume "ring_inv c"
  then show "send_pending c \<longleftrightarrow> ring_contents c \<noteq> []" "ring_contents c \<noteq> [] \<Longrightarrow> send_window c \<noteq> []"
    by (auto simp: send_pending_def ring_inv_def ring_contents_def send_window_def Let_def)
next
  fix c
  assume "ring_inv c"
  then show "ring_contents c = send_window c @ drop (length (send_window c)) (ring_contents c)"
    by (rule send_window_prefix)
next
  fix c k
  assume "ring_inv c" "k \<le> length (send_window c)"
  then show "ring_inv (send_advance c k) \<and> ring_contents (send_advance c k) = drop k (ring_contents c)"
    by (rule send_advance_contents)
qed

lemma send_all_contents:
  "ring_inv c \<Longrightarrow> int (sum_list (map length v)) \<le> avail_send_buf c \<Longrightarrow>
   ring_inv (send_all c v) \<and> ring_contents (send_all c v) = ring_contents c @ concat v \<and>
   length (send_buf (send_all c v)) = length (send_buf c)"
proof (induction v arbitrary: c)
  case (Cons d v)
  have fits: "int (length d) \<le> avail_send_buf c" using Cons.prems(2) by simp
  note p = ring.put_fits [OF Cons.prems(1) fits]
  have "length (send_buf (fst (send_data c d))) = length (send_buf c)"
    using put_bytes_contents [OF Cons.prems(1) fits] by (simp add: send_data_def)
  with Cons.IH [of "fst (send_data c d)"] p Cons.prems(2) show ?case by simp
qed simp

section \<open>Framing\<close>

text \<open>The receiver of RFC 2326, section 10.12: a stream of \<^verbatim>\<open>$\<close>, channel, 16-bit length, data.\<close>

definition interleave_frame :: "nat \<Rightarrow> byte list list \<Rightarrow> byte list" where
  "interleave_frame chan v = interleave_head chan (length (concat v)) @ concat v"

function deframe :: "byte list \<Rightarrow> (nat \<times> byte list) list option" where
  "deframe bs =
     (if bs = [] then Some []
      else if length bs < 4 \<or> bs ! 0 \<noteq> 0x24 then None
      else let n = unat (GET_16 (bs ! 2) (bs ! 3))
           in if length bs < 4 + n then None
              else map_option (\<lambda>fs. (unat (bs ! 1), take n (drop 4 bs)) # fs) (deframe (drop (4 + n) bs)))"
  by pat_completeness auto
termination
  by (relation "measure length") auto

declare deframe.simps [simp del]

lemma deframe_frame:
  assumes "chan < 256" "length (concat v) < 2 ^ 16"
  shows "deframe (interleave_frame chan v @ rest) = map_option (\<lambda>fs. (chan, concat v) # fs) (deframe rest)"
proof -
  obtain a b where ab: "PUT_16 (of_nat (length (concat v))) = [a, b]" by (simp add: PUT_16_def)
  have "GET_16 a b = take_bit 16 (of_nat (length (concat v)))" by (rule GET_16_PUT_16 [OF ab])
  then have n: "unat (GET_16 a b) = length (concat v)"
    using assms(2)
    by (simp add: unsigned_take_bit_eq unat_of_nat take_bit_nat_eq_self take_bit_take_bit del: take_bit_of_nat)
  have c: "unat (of_nat chan :: byte) = chan"
    using assms(1) by (simp add: unat_of_nat take_bit_nat_eq_self)
  have f: "interleave_frame chan v @ rest = 0x24 # of_nat chan # a # b # (concat v @ rest)"
    by (simp add: interleave_frame_def interleave_head_def ab)
  have "drop (4 + length (concat v)) (0x24 # of_nat chan # a # b # (concat v @ rest)) = rest"
    by (simp add: numeral_eq_Suc)
  then show ?thesis
    unfolding f by (subst deframe.simps) (simp add: n c)
qed

lemma write_loop_buf:
  "write_loop send_pending send_window send_advance ws c = Some (sent, c', err, ws') \<Longrightarrow> send_buf c' = send_buf c"
proof (induction ws arbitrary: c sent)
  case (Cons w ws)
  have "send_buf (send_advance c n) = send_buf c" for c n by (simp add: send_advance_def Let_def)
  then show ?case
    using Cons.prems Cons.IH by (cases w) (auto simp: Let_def split: if_splits)
qed (simp split: if_splits)

text \<open>What \<open>interleave_send\<close> does to the stream of bytes: whole frame or nothing.\<close>

lemma queue_frame:
  assumes "ring_inv c" "int (sum_list (map length v)) + 4 \<le> avail_send_buf c"
    and "c' = send_all (fst (send_data c (interleave_head chan (sum_list (map length v))))) v"
  shows "ring_inv c' \<and> length (send_buf c') = length (send_buf c) \<and>
         ring_contents c' = ring_contents c @ interleave_frame chan v"
proof -
  let ?h = "interleave_head chan (sum_list (map length v))"
  have h: "length ?h = 4" by (simp add: interleave_head_def)
  have fits: "int (length ?h) \<le> avail_send_buf c" using assms(2) h by simp
  note p = ring.put_fits [OF assms(1) fits]
  have "length (send_buf (fst (send_data c ?h))) = length (send_buf c)"
    using put_bytes_contents [OF assms(1) fits] fits by (simp add: send_data_def)
  moreover have "int (sum_list (map length v)) \<le> avail_send_buf (fst (send_data c ?h))"
    using p assms(2) h by simp
  ultimately show ?thesis
    using send_all_contents [of "fst (send_data c ?h)" v] p assms(3)
    by (simp add: interleave_frame_def length_concat)
qed

lemma avail_bound: "ring_inv c \<Longrightarrow> avail_send_buf c < int (length (send_buf c))"
  using length_ring_contents [of c] by simp

lemma interleave_send_stream:
  assumes c: "ring_inv c" and r: "interleave_send ws c chan v = Some (ret, sent, c', ws')"
  shows "ring_inv c' \<and> length (send_buf c') = length (send_buf c) \<and> ret \<in> {0, 1} \<and>
         sent @ ring_contents c' = ring_contents c @ (if ret = 0 then interleave_frame chan v else []) \<and>
         (ret = 0 \<longrightarrow> length (concat v) + 4 < length (send_buf c))"
proof (cases "avail_send_buf c < int (sum_list (map length v)) + 4")
  case False
  then have "int (sum_list (map length v)) + 4 \<le> avail_send_buf c" by simp
  from queue_frame [OF c this refl, of chan] avail_bound [OF c] this False r show ?thesis
    by (auto simp: interleave_send_def Let_def length_concat)
next
  case True
  then obtain s' d err w' where fl: "tcp_conn_flush ws c = Some (s', d, err, w')"
    using r by (auto simp: interleave_send_def Let_def split: option.splits)
  then have d: "ring_inv d" "s' @ ring_contents d = ring_contents c" "send_buf d = send_buf c"
    using ring.write_loop_conserves [OF c] write_loop_buf unfolding tcp_conn_flush_def by blast+
  show ?thesis
  proof (cases "avail_send_buf d < int (sum_list (map length v)) + 4")
    case t: True
    with True r fl d show ?thesis by (simp add: interleave_send_def Let_def)
  next
    case f: False
    then have "int (sum_list (map length v)) + 4 \<le> avail_send_buf d" by simp
    from queue_frame [OF d(1) this refl, of chan] avail_bound [OF d(1)] this True r fl d f show ?thesis
      by (auto simp: interleave_send_def Let_def length_concat simp flip: append_assoc)
  qed
qed

section \<open>A whole connection\<close>

text \<open>The operations that touch the ring: interleaved packets, replies (\<open>send_data\<close>), and the write
  event (\<open>conn_write\<close>), each with its outcomes of \<^verbatim>\<open>write\<close>. A run collects the bytes given to the
  socket and the units that were accepted; it stops when the outcomes run out.\<close>

datatype ring_op =
    Interleave "wres list" nat "byte list list"
  | Reply "byte list"
  | Writable "wres list"

definition ring_step :: "send_ring \<Rightarrow> ring_op \<Rightarrow> (byte list \<times> byte list \<times> send_ring) option" where
  "ring_step c op =
     (case op of
        Interleave ws chan v \<Rightarrow>
          map_option (\<lambda>(ret, sent, c', _). (sent, if ret = 0 then interleave_frame chan v else [], c'))
            (interleave_send ws c chan v)
      | Reply d \<Rightarrow> (case send_data c d of (c', ret) \<Rightarrow> Some ([], if ret = 0 then d else [], c'))
      | Writable ws \<Rightarrow>
          map_option (\<lambda>(sent, c', _, _). (sent, [], c'))
            (write_loop send_pending send_window send_advance ws c))"

fun ring_run :: "send_ring \<Rightarrow> ring_op list \<Rightarrow> (byte list \<times> byte list \<times> send_ring) option" where
  "ring_run c [] = Some ([], [], c)"
| "ring_run c (op # ops) =
     (case ring_step c op of
        None \<Rightarrow> None
      | Some (sent, acc, c') \<Rightarrow>
          map_option (\<lambda>(sent', acc', c''). (sent @ sent', acc @ acc', c'')) (ring_run c' ops))"

lemma ring_step_conserves:
  assumes "ring_inv c" "ring_step c op = Some (sent, acc, c')"
  shows "ring_inv c' \<and> sent @ ring_contents c' = ring_contents c @ acc"
proof (cases op)
  case (Interleave ws chan v)
  then obtain ret w' where "interleave_send ws c chan v = Some (ret, sent, c', w')"
      "acc = (if ret = 0 then interleave_frame chan v else [])"
    using assms(2) by (auto simp: ring_step_def)
  with interleave_send_stream [OF assms(1), of ws chan v ret sent c' w'] show ?thesis by simp
next
  case (Reply d)
  show ?thesis
  proof (cases "avail_send_buf c < int (length d)")
    case True
    with Reply assms show ?thesis by (simp add: ring_step_def send_data_def)
  next
    case False
    with Reply assms put_bytes_contents [of c d] show ?thesis
      by (auto simp: ring_step_def send_data_def)
  qed
next
  case (Writable ws)
  then obtain err w' where
    "write_loop send_pending send_window send_advance ws c = Some (sent, c', err, w')" "acc = []"
    using assms(2) by (auto simp: ring_step_def)
  with ring.write_loop_conserves [OF assms(1) this(1)] show ?thesis by simp
qed

lemma ring_run_conserves:
  "ring_inv c \<Longrightarrow> ring_run c ops = Some (sent, acc, c') \<Longrightarrow>
   ring_inv c' \<and> sent @ ring_contents c' = ring_contents c @ acc"
proof (induction ops arbitrary: c sent acc)
  case (Cons op ops)
  then obtain s1 a1 c1 s2 a2 where
    1: "ring_step c op = Some (s1, a1, c1)" "ring_run c1 ops = Some (s2, a2, c')"
       "sent = s1 @ s2" "acc = a1 @ a2"
    by (auto split: option.splits)
  have a: "ring_inv c1" "s1 @ ring_contents c1 = ring_contents c @ a1"
    using ring_step_conserves [OF Cons.prems(1) 1(1)] by simp_all
  from Cons.IH [OF a(1) 1(2)] have "ring_inv c'" "s2 @ ring_contents c' = ring_contents c1 @ a2"
    by simp_all
  with a(2) 1(3,4) show ?case by (metis append_assoc)
qed simp

section \<open>Properties\<close>

text \<open>A connection's ring as \<open>do_accept\<close> leaves it, of \<open>n\<close> bytes.\<close>

definition fresh_ring :: "nat \<Rightarrow> send_ring" where
  "fresh_ring n = \<lparr>send_buf = replicate n 0, send_buf_r = 0, send_buf_w = 0\<rparr>"

text \<open>C6. The ring is a first-in first-out queue of whole units: after any sequence of interleaved
  packets, replies and write events on a fresh connection, with any outcomes of \<^verbatim>\<open>write\<close>, the bytes
  given to the socket followed by the bytes still queued are exactly the concatenation of the units
  accepted, in order, and both indices stay inside the buffer.\<close>

theorem send_ring_is_fifo:
  assumes "0 < n" "ring_run (fresh_ring n) ops = Some (sent, acc, c')"
  shows "sent @ ring_contents c' = acc \<and>
         send_buf_r c' < length (send_buf c') \<and> send_buf_w c' < length (send_buf c')"
  using ring_run_conserves [OF _ assms(2)] assms(1)
  by (simp add: fresh_ring_def ring_inv_def ring_contents_def)

definition sample_ops :: "ring_op list" where
  "sample_ops = [Interleave [] 0 [[1, 2], [3]], Writable [Wrote 2, Again, Wrote 9], Reply [9, 9, 9],
                 Interleave [Wrote 1, Failed] 2 [[4, 5, 6, 7]], Reply [8, 8, 8, 8]]"

theorem send_ring_is_fifo_witness:
  "\<exists>sent acc c'. ring_run (fresh_ring 10) sample_ops = Some (sent, acc, c') \<and> sent @ ring_contents c' = acc
     \<and> acc = [0x24, 0, 0, 3, 1, 2, 3, 9, 9, 9, 8, 8, 8, 8]"
proof -
  have "map_option (\<lambda>(sent, acc, c'). (sent, acc)) (ring_run (fresh_ring 10) sample_ops)
      = Some ([0x24, 0, 0, 3, 1, 2, 3, 9], [0x24, 0, 0, 3, 1, 2, 3, 9, 9, 9, 8, 8, 8, 8])"
    by code_simp
  then obtain c' where "ring_run (fresh_ring 10) sample_ops
      = Some ([0x24, 0, 0, 3, 1, 2, 3, 9], [0x24, 0, 0, 3, 1, 2, 3, 9, 9, 9, 8, 8, 8, 8], c')"
    by (auto simp: map_option_case split: option.splits)
  with send_ring_is_fifo [OF _ this] show ?thesis by simp
qed

text \<open>C12. An interleaved packet is queued whole or not at all: \<^verbatim>\<open>interleave_send\<close> on a 65536-byte ring
  returns 0 or 1 and never a negative value; on 0 exactly one frame has been appended, whose length
  field is not truncated, so that a receiver parses it back to the channel and the bytes of the
  vector; on 1 nothing has been appended.\<close>

theorem interleave_send_atomic:
  assumes "ring_inv c" "length (send_buf c) = 65536" "chan < 256"
    and "interleave_send ws c chan v = Some (ret, sent, c', ws')"
  shows "ret = 0 \<and> sent @ ring_contents c' = ring_contents c @ interleave_frame chan v
             \<and> deframe (interleave_frame chan v) = Some [(chan, concat v)]
         \<or> ret = 1 \<and> sent @ ring_contents c' = ring_contents c"
proof -
  note s = interleave_send_stream [OF assms(1,4)]
  have "deframe (interleave_frame chan v) = Some [(chan, concat v)]" if "ret = 0"
  proof -
    have "length (concat v) < 2 ^ 16" using s that assms(2) by simp
    from deframe_frame [OF assms(3) this, of "[]"] show ?thesis
      by (simp add: deframe.simps [of "[]"])
  qed
  with s show ?thesis by auto
qed

theorem interleave_send_atomic_witness:
  "interleave_send [] (fresh_ring 65536) 1 [[5], [6, 7]]
     = Some (0, [], send_all (fst (send_data (fresh_ring 65536) (interleave_head 1 3))) [[5], [6, 7]], []) \<and>
   deframe (interleave_frame 1 [[5], [6, 7]]) = Some [(1, [5, 6, 7])]"
proof -
  have r: "interleave_send [] (fresh_ring 65536) 1 [[5], [6, 7]]
     = Some (0, [], send_all (fst (send_data (fresh_ring 65536) (interleave_head 1 3))) [[5], [6, 7]], [])"
    by (simp add: interleave_send_def avail_send_buf_def fresh_ring_def numeral_3_eq_3)
  have "ring_inv (fresh_ring 65536)" "length (send_buf (fresh_ring 65536)) = 65536"
    by (simp_all add: ring_inv_def fresh_ring_def)
  with interleave_send_atomic [OF this _ r] r show ?thesis by simp
qed

text \<open>C17. The write loop of \<^verbatim>\<open>conn_write\<close> and \<^verbatim>\<open>tcp_conn_flush\<close> ends: whenever the socket gives as many
  results other than \<^verbatim>\<open>EAGAIN\<close> as there are bytes queued, the loop returns, and then either everything
  queued has been written, in order, or it gave up on an error with the rest still queued.\<close>

theorem flush_terminates:
  assumes "ring_inv c" "length (ring_contents c) \<le> length (filter (\<lambda>w. w \<noteq> Again) ws)"
  shows "\<exists>sent c' err ws'. tcp_conn_flush ws c = Some (sent, c', err, ws') \<and> ring_inv c' \<and>
           sent @ ring_contents c' = ring_contents c \<and> (err \<or> ring_contents c' = [])"
proof -
  obtain sent c' err ws' where
    "write_loop send_pending send_window send_advance ws c = Some (sent, c', err, ws')"
    using ring.write_loop_returns [OF assms] by (metis prod_cases4)
  with ring.write_loop_conserves [OF assms(1) this] show ?thesis
    by (auto simp: tcp_conn_flush_def)
qed

theorem flush_terminates_witness:
  "\<exists>sent c' err ws'. tcp_conn_flush [Again, Wrote 1, Wrote 5, Wrote 5]
      \<lparr>send_buf = [7, 0, 5, 6], send_buf_r = 2, send_buf_w = 1\<rparr> = Some (sent, c', err, ws')
     \<and> sent = [5, 6, 7]"
proof -
  let ?c = "\<lparr>send_buf = [7, 0, 5, 6], send_buf_r = 2, send_buf_w = 1\<rparr>"
  have "tcp_conn_flush [Again, Wrote 1, Wrote 5, Wrote 5] ?c = Some ([5, 6, 7], \<lparr>send_buf = [7, 0, 5, 6], send_buf_r = 1, send_buf_w = 1\<rparr>, False, [])"
    by (simp add: tcp_conn_flush_def send_pending_def send_window_def send_advance_def Let_def)
  then show ?thesis
    using flush_terminates [of ?c "[Again, Wrote 1, Wrote 5, Wrote 5]"]
    by (simp add: ring_inv_def ring_contents_def)
qed

end
