(* ===== verification/Base64.thy ===== *)
theory Base64
  imports Prelude
begin

text \<open>
  The decoder of tunnelled requests: the table of \<^verbatim>\<open>base64_table.h\<close>, \<open>unbase64\<close> (\<^verbatim>\<open>tcp.c\<close>), which
  decodes in place and keeps an unfinished group of characters for the next read, and the part of
  \<open>do_read\<close> that appends what was read to the request buffer. The reference is a pure decoder over
  the characters of the alphabet and the encoder of RFC 4648.
\<close>

unbundle bit_operations_syntax

section \<open>Model\<close>

definition base64 :: "int list" where
  "base64 =
     replicate 32 (-1) @
     [-1, -1, -1, -1, -1, -1, -1, -1, -1, -1, -1, 62, -1, -1, -1, 63,
      52, 53, 54, 55, 56, 57, 58, 59, 60, 61, -1, -1, -1,  0, -1, -1,
      -1,  0,  1,  2,  3,  4,  5,  6,  7,  8,  9, 10, 11, 12, 13, 14,
      15, 16, 17, 18, 19, 20, 21, 22, 23, 24, 25, -1, -1, -1, -1, -1,
      -1, 26, 27, 28, 29, 30, 31, 32, 33, 34, 35, 36, 37, 38, 39, 40,
      41, 42, 43, 44, 45, 46, 47, 48, 49, 50, 51, -1, -1, -1, -1, -1] @
     replicate 128 (-1)"

text \<open>\<^verbatim>\<open>base64[b]\<close>, an access to a table of 256 entries with an \<^verbatim>\<open>unsigned char\<close>.\<close>

definition b64 :: "byte \<Rightarrow> int" where
  "b64 b = base64 ! unat b"

definition sextet :: "byte \<Rightarrow> byte" where
  "sextet b = of_int (b64 b)"

text \<open>The three bytes stored for a group.\<close>

definition group0 :: "byte \<Rightarrow> byte \<Rightarrow> byte" where
  "group0 e0 e1 = (push_bit 2 (sextet e0) AND 0xFC) OR drop_bit 4 (sextet e1)"

definition group1 :: "byte \<Rightarrow> byte \<Rightarrow> byte" where
  "group1 e1 e2 = (push_bit 4 (sextet e1) AND 0xF0) OR drop_bit 2 (sextet e2)"

definition group2 :: "byte \<Rightarrow> byte \<Rightarrow> byte" where
  "group2 e2 e3 = (push_bit 6 (sextet e2) AND 0xC0) OR sextet e3"

text \<open>
  The loops of \<open>unbase64\<close>: \<open>enc\<close> is the part of the array of that name filled so far, \<open>d\<close> the
  buffer that is read at \<open>src\<close> and written at \<open>dest\<close>. The result is the buffer, the number of bytes
  and \<^verbatim>\<open>*remain\<close>.
\<close>

function unbase64_loop :: "byte list \<Rightarrow> nat \<Rightarrow> nat \<Rightarrow> nat \<Rightarrow> byte list \<Rightarrow> byte list \<times> nat \<times> nat" where
  "unbase64_loop d len src dest enc =
     (if length enc < 4 then
        (if src \<ge> len then
           (take dest d @ enc @ drop (dest + length enc) d, dest + length enc, length enc)
         else if b64 (d ! src) < 0 then unbase64_loop d len (src + 1) dest enc
         else unbase64_loop d len (src + 1) dest (enc @ [d ! src]))
      else
        unbase64_loop
          (d[dest := group0 (enc ! 0) (enc ! 1), dest + 1 := group1 (enc ! 1) (enc ! 2),
             dest + 2 := group2 (enc ! 2) (enc ! 3)])
          len src
          (dest + (if enc ! 3 = 0x3D then (if enc ! 2 = 0x3D then 1 else 2) else 3))
          [])"
  by pat_completeness auto
termination
  by (relation "measure (\<lambda>(d, len, src, dest, enc). 5 * (len - src) + length enc)") auto

declare unbase64_loop.simps [simp del]

definition unbase64 :: "byte list \<Rightarrow> nat \<Rightarrow> byte list \<times> nat \<times> nat" where
  "unbase64 d len = unbase64_loop d len 0 0 []"

text \<open>The request side of \<^verbatim>\<open>struct conn\<close>; \<open>base64_count\<close> is -1 when the data is not encoded.\<close>

record req_state =
  req_buf :: "byte list"
  req_len :: nat
  base64_count :: int

text \<open>One successful read of \<open>do_read\<close>: \<open>data\<close> was stored at \<open>req_buf + req_len\<close>.\<close>

definition req_append :: "req_state \<Rightarrow> byte list \<Rightarrow> req_state" where
  "req_append c data =
     (let buf = take (req_len c) (req_buf c) @ data @ drop (req_len c + length data) (req_buf c)
      in if base64_count c \<ge> 0
         then let start = req_len c - nat (base64_count c);
                  (d, n, remain) = unbase64 (drop start buf) (length data + nat (base64_count c))
              in c\<lparr>req_buf := take start buf @ d, req_len := start + n, base64_count := int remain\<rparr>
         else c\<lparr>req_buf := buf, req_len := req_len c + length data\<rparr>)"

section \<open>Reference\<close>

definition decode_group :: "byte \<Rightarrow> byte \<Rightarrow> byte \<Rightarrow> byte \<Rightarrow> byte list" where
  "decode_group a b c d =
     (if d = 0x3D then (if c = 0x3D then [group0 a b] else [group0 a b, group1 b c])
      else [group0 a b, group1 b c, group2 c d])"

fun decode :: "byte list \<Rightarrow> byte list" where
  "decode (a # b # c # d # es) = decode_group a b c d @ decode es"
| "decode _ = []"

fun leftover :: "byte list \<Rightarrow> byte list" where
  "leftover (a # b # c # d # es) = leftover es"
| "leftover es = es"

definition coded :: "byte list \<Rightarrow> byte list" where
  "coded xs = filter (\<lambda>b. 0 \<le> b64 b) xs"

lemma decode_full: "length enc = 4 \<Longrightarrow> decode (enc @ es) = decode_group (enc ! 0) (enc ! 1) (enc ! 2) (enc ! 3) @ decode es"
  by (auto simp: eval_nat_numeral length_Suc_conv)

lemma leftover_full: "length enc = 4 \<Longrightarrow> leftover (enc @ es) = leftover es"
  by (auto simp: eval_nat_numeral length_Suc_conv)

lemma short_group: "length enc < 4 \<Longrightarrow> decode enc = []" "length enc < 4 \<Longrightarrow> leftover enc = enc"
  by (cases enc rule: decode.cases; simp)+

lemma length_leftover: "length (leftover es) = length es mod 4"
  by (induction es rule: leftover.induct) auto

lemma length_decode: "length (decode es) + length (leftover es) \<le> length es"
  by (induction es rule: leftover.induct) (auto simp: decode_group_def)

text \<open>Decoding can be resumed from the unfinished group.\<close>

lemma decode_append: "decode (xs @ ys) = decode xs @ decode (leftover xs @ ys)"
  by (induction xs rule: leftover.induct) auto

lemma leftover_append: "leftover (xs @ ys) = leftover (leftover xs @ ys)"
  by (induction xs rule: leftover.induct) auto

lemma coded_leftover: "coded (leftover (coded xs)) = leftover (coded xs)"
proof -
  have "set (leftover es) \<subseteq> set es" for es
    by (induction es rule: leftover.induct) auto
  from this [of "coded xs"] show ?thesis by (auto simp: coded_def filter_id_conv)
qed

section \<open>Decoding in place\<close>

lemma length_decode_group: "length (decode_group a b c d) = (if d = 0x3D then (if c = 0x3D then 1 else 2) else 3)"
  by (simp add: decode_group_def)

lemma write_group:
  assumes "dest + 3 \<le> length d" "length enc = 4"
  shows "take (dest + length (decode_group (enc ! 0) (enc ! 1) (enc ! 2) (enc ! 3)))
           (d[dest := group0 (enc ! 0) (enc ! 1), dest + 1 := group1 (enc ! 1) (enc ! 2),
              dest + 2 := group2 (enc ! 2) (enc ! 3)])
         = take dest d @ decode_group (enc ! 0) (enc ! 1) (enc ! 2) (enc ! 3)"
  using assms
  by (intro nth_equalityI) (auto simp: decode_group_def nth_append nth_list_update nth_Cons split: nat.splits)

text \<open>The invariant of the loop: what is decoded so far, the characters read but not decoded, and
  the unread part, which the writes have not reached.\<close>

lemma unbase64_loop_decodes:
  assumes "dest + length enc \<le> src" "src \<le> len" "len \<le> length d" "length enc \<le> 4"
  shows "\<exists>d' n. unbase64_loop d len src dest enc = (d', n, length (leftover (enc @ coded (drop src (take len d))))) \<and>
           length d' = length d \<and> n \<le> len \<and>
           take n d' = take dest d @ decode (enc @ coded (drop src (take len d)))
                        @ leftover (enc @ coded (drop src (take len d))) \<and>
           drop len d' = drop len d"
  using assms
proof (induction d len src dest enc rule: unbase64_loop.induct)
  case (1 d len src dest enc)
  show ?case
  proof (cases "length enc < 4")
    case short: True
    show ?thesis
    proof (cases "src \<ge> len")
      case True
      then show ?thesis
        using "1.prems" short
        by (subst unbase64_loop.simps) (auto simp: short_group coded_def)
    next
      case False
      have unread: "drop src (take len d) = d ! src # drop (src + 1) (take len d)"
        using False "1.prems" by (simp add: Cons_nth_drop_Suc [symmetric])
      show ?thesis
        using "1.IH"(1,2) [OF short False] "1.prems" False short unread
        by (subst unbase64_loop.simps) (auto simp: coded_def)
    qed
  next
    case False
    then have full: "length enc = 4" using "1.prems"(4) by simp
    let ?g = "decode_group (enc ! 0) (enc ! 1) (enc ! 2) (enc ! 3)"
    let ?d = "d[dest := group0 (enc ! 0) (enc ! 1), dest + 1 := group1 (enc ! 1) (enc ! 2),
                dest + 2 := group2 (enc ! 2) (enc ! 3)]"
    have rest: "drop src (take len ?d) = drop src (take len d)" "drop len ?d = drop len d"
      using "1.prems"(1,2) full by (auto simp: drop_update_cancel take_update_swap)
    have w: "take (dest + length ?g) ?d = take dest d @ ?g"
      by (rule write_group) (use "1.prems" full in auto)
    have le: "dest + length ?g + length [] \<le> src" using "1.prems"(1) full by (simp add: length_decode_group)
    show ?thesis
      using "1.IH"(3) [OF False] le "1.prems" full w rest
      by (subst unbase64_loop.simps) (simp add: decode_full leftover_full length_decode_group)
  qed
qed

lemma unbase64_decodes_lemma:
  assumes "len \<le> length d"
  shows "\<exists>d' n. unbase64 d len = (d', n, length (leftover (coded (take len d)))) \<and>
           length d' = length d \<and> n \<le> len \<and>
           take n d' = decode (coded (take len d)) @ leftover (coded (take len d)) \<and>
           drop len d' = drop len d"
  using unbase64_loop_decodes [of 0 "[]" 0 len d] assms by (simp add: unbase64_def)

section \<open>Reading in pieces\<close>

text \<open>The request buffer after the encoded bytes \<open>xs\<close> have been read behind \<open>pre\<close>.\<close>

definition req_holds :: "req_state \<Rightarrow> byte list \<Rightarrow> byte list \<Rightarrow> bool" where
  "req_holds c pre xs \<longleftrightarrow>
     take (req_len c) (req_buf c) = pre @ decode (coded xs) @ leftover (coded xs) \<and>
     req_len c = length (pre @ decode (coded xs) @ leftover (coded xs)) \<and>
     base64_count c = int (length (leftover (coded xs)))"

lemma req_append_holds:
  assumes h: "req_holds c pre xs" and fits: "req_len c + length data \<le> length (req_buf c)"
  shows "req_holds (req_append c data) pre (xs @ data) \<and> length (req_buf (req_append c data)) = length (req_buf c)"
proof -
  define dec where "dec = decode (coded xs)"
  define lo where "lo = leftover (coded xs)"
  define tl where "tl = drop (req_len c + length data) (req_buf c)"
  define buf where "buf = take (req_len c) (req_buf c) @ data @ tl"
  define start where "start = req_len c - nat (base64_count c)"
  have hs: "take (req_len c) (req_buf c) = pre @ dec @ lo" "req_len c = length (pre @ dec @ lo)"
    "base64_count c = int (length lo)"
    using h unfolding req_holds_def dec_def lo_def by blast+
  have st: "start = length (pre @ dec)" using hs(2,3) by (simp add: start_def)
  have buf: "buf = (pre @ dec) @ (lo @ data) @ tl" unfolding buf_def hs(1) by simp
  have d0: "drop start buf = (lo @ data) @ tl" "take start buf = pre @ dec"
    unfolding buf st by simp_all
  have co: "coded (lo @ data) = lo @ coded data"
    using coded_leftover [of xs] by (simp add: coded_def lo_def)
  let ?n = "length data + length lo"
  have tk: "take ?n (drop start buf) = lo @ data" unfolding d0(1) by simp
  have le: "?n \<le> length (drop start buf)" unfolding d0(1) by simp
  obtain d' n where u: "unbase64 (drop start buf) ?n = (d', n, length (leftover (lo @ coded data)))"
      "length d' = length (drop start buf)" "n \<le> ?n"
      "take n d' = decode (lo @ coded data) @ leftover (lo @ coded data)"
    using unbase64_decodes_lemma [OF le] unfolding tk co by blast
  have full: "decode (coded (xs @ data)) = dec @ decode (lo @ coded data)"
    "leftover (coded (xs @ data)) = leftover (lo @ coded data)"
    by (simp_all add: coded_def dec_def lo_def decode_append [symmetric] leftover_append [symmetric])
  have "n \<le> length d'" using u(2,3) le by simp
  then have len_n: "n = length (decode (lo @ coded data) @ leftover (lo @ coded data))"
    using arg_cong [OF u(4), of length] by simp
  have app: "req_append c data = c\<lparr>req_buf := (pre @ dec) @ d', req_len := start + n,
      base64_count := int (length (leftover (lo @ coded data)))\<rparr>"
    unfolding req_append_def Let_def tl_def [symmetric] buf_def [symmetric] start_def [symmetric]
    using u(1) hs(3) d0(2) by simp
  have "length buf = length (req_buf c)" using fits hs(2) by (simp add: buf_def tl_def)
  then have "length ((pre @ dec) @ d') = length (req_buf c)"
    using u(2) st by (simp add: buf)
  then show ?thesis
    unfolding req_holds_def app full using u(4) len_n st by simp
qed

lemma req_chunks_hold:
  assumes "req_holds c pre xs" "length (pre @ xs @ concat chunks) \<le> length (req_buf c)"
  shows "req_holds (foldl req_append c chunks) pre (xs @ concat chunks)"
  using assms
proof (induction chunks arbitrary: c xs)
  case (Cons d chunks)
  have "req_len c \<le> length (pre @ xs)"
    using Cons.prems(1) length_decode [of "coded xs"] length_filter_le [of _ xs]
    by (fastforce simp: req_holds_def coded_def intro: order_trans)
  then have fits: "req_len c + length d \<le> length (req_buf c)"
    using Cons.prems(2) by simp
  from req_append_holds [OF Cons.prems(1) fits] Cons.IH [of "req_append c d" "xs @ d"] Cons.prems(2)
  show ?case by simp
qed simp

section \<open>Round trip\<close>

text \<open>The encoder of RFC 4648.\<close>

definition b64_codes :: "nat list" where
  "b64_codes = [65..<91] @ [97..<123] @ [48..<58] @ [43, 47]"

definition b64_alphabet :: "byte list" where
  "b64_alphabet = map of_nat b64_codes"

definition enc6 :: "byte \<Rightarrow> byte" where
  "enc6 w = b64_alphabet ! unat w"

fun b64_encode :: "byte list \<Rightarrow> byte list" where
  "b64_encode [] = []"
| "b64_encode [a] = [enc6 (drop_bit 2 a), enc6 (push_bit 4 (a AND 0x03)), 0x3D, 0x3D]"
| "b64_encode [a, b] =
     [enc6 (drop_bit 2 a), enc6 (push_bit 4 (a AND 0x03) OR drop_bit 4 b), enc6 (push_bit 2 (b AND 0x0F)), 0x3D]"
| "b64_encode (a # b # c # r) =
     [enc6 (drop_bit 2 a), enc6 (push_bit 4 (a AND 0x03) OR drop_bit 4 b),
      enc6 (push_bit 2 (b AND 0x0F) OR drop_bit 6 c), enc6 (c AND 0x3F)] @ b64_encode r"

lemma codes_table: "map (\<lambda>i. base64 ! i) b64_codes = map int [0..<64]" "list_all (\<lambda>i. i < 256 \<and> i \<noteq> 61) b64_codes"
    "length b64_codes = 64"
  by code_simp+

lemma alphabet_table:
  assumes "i < 64"
  shows "b64 (b64_alphabet ! i) = int i" "b64_alphabet ! i \<noteq> 0x3D"
proof -
  have c: "b64_codes ! i < 256" "b64_codes ! i \<noteq> 61"
    using codes_table(2,3) assms by (auto simp: list_all_length)
  have u: "unat (b64_alphabet ! i) = b64_codes ! i"
    using c assms by (simp add: b64_alphabet_def codes_table(3) unat_of_nat take_bit_nat_eq_self)
  have "map (\<lambda>i. base64 ! i) b64_codes ! i = map int [0..<64] ! i"
    by (simp only: codes_table(1))
  then show "b64 (b64_alphabet ! i) = int i"
    using assms by (simp add: b64_def u codes_table(3))
  show "b64_alphabet ! i \<noteq> 0x3D"
    using u c(2) by auto
qed

lemma enc6_table:
  assumes "unat w < 64"
  shows "b64 (enc6 w) = int (unat w)" "enc6 w \<noteq> 0x3D" "sextet (enc6 w) = w"
proof -
  have "b64 (b64_alphabet ! unat w) = int (unat w)" "b64_alphabet ! unat w \<noteq> 0x3D"
    by (rule alphabet_table [OF assms])+
  then show 1: "b64 (enc6 w) = int (unat w)" and "enc6 w \<noteq> 0x3D"
    by (simp_all add: enc6_def)
  show "sextet (enc6 w) = w" by (simp add: sextet_def 1)
qed

lemma sextet_pad: "sextet 0x3D = 0" "b64 0x3D = 0"
  by code_simp+

lemma byte_bits:
  "bit (x :: byte) 0 = bit y 0 \<Longrightarrow> bit x 1 = bit y 1 \<Longrightarrow> bit x 2 = bit y 2 \<Longrightarrow> bit x 3 = bit y 3 \<Longrightarrow>
   bit x 4 = bit y 4 \<Longrightarrow> bit x 5 = bit y 5 \<Longrightarrow> bit x 6 = bit y 6 \<Longrightarrow> bit x 7 = bit y 7 \<Longrightarrow> x = y"
proof (rule bit_word_eqI)
  fix n
  assume b: "bit x 0 = bit y 0" "bit x 1 = bit y 1" "bit x 2 = bit y 2" "bit x 3 = bit y 3"
    "bit x 4 = bit y 4" "bit x 5 = bit y 5" "bit x 6 = bit y 6" "bit x 7 = bit y 7"
  assume "n < LENGTH(8)"
  then have "n = 0 \<or> n = 1 \<or> n = 2 \<or> n = 3 \<or> n = 4 \<or> n = 5 \<or> n = 6 \<or> n = 7" by auto
  with b show "bit x n = bit y n" by blast
qed

lemma small_byte: "\<not> bit w 6 \<Longrightarrow> \<not> bit w 7 \<Longrightarrow> unat (w :: byte) < 64"
proof -
  assume "\<not> bit w 6" "\<not> bit w 7"
  then have "take_bit 6 w = w"
    by (intro byte_bits) (simp_all add: bit_take_bit_iff)
  then have "unat w = take_bit 6 (unat w)" by (metis unsigned_take_bit_eq)
  then show ?thesis using take_bit_nat_less_exp [of 6 "unat w"] by simp
qed

lemma no_high_bits: "8 \<le> n \<Longrightarrow> \<not> bit (a :: byte) n"
  by (auto dest: bit_imp_le_length)

lemma sextets_small:
  "unat (drop_bit 2 (a :: byte)) < 64" "unat (push_bit 4 (a AND 0x03)) < 64"
  "unat (push_bit 4 (a AND 0x03) OR drop_bit 4 b) < 64" "unat (push_bit 2 (b AND 0x0F)) < 64"
  "unat (push_bit 2 (b AND 0x0F) OR drop_bit 6 (c :: byte)) < 64" "unat (c AND 0x3F) < 64"
  by (intro small_byte; simp add: bit_simps no_high_bits)+

lemma sextets_join:
  fixes a b c :: byte
  shows "(push_bit 2 (drop_bit 2 a) AND 0xFC) OR drop_bit 4 (push_bit 4 (a AND 0x03) OR drop_bit 4 b) = a"
    and "(push_bit 2 (drop_bit 2 a) AND 0xFC) OR drop_bit 4 (push_bit 4 (a AND 0x03)) = a"
    and "(push_bit 4 (push_bit 4 (a AND 0x03) OR drop_bit 4 b) AND 0xF0)
           OR drop_bit 2 (push_bit 2 (b AND 0x0F) OR drop_bit 6 c) = b"
    and "(push_bit 4 (push_bit 4 (a AND 0x03) OR drop_bit 4 b) AND 0xF0)
           OR drop_bit 2 (push_bit 2 (b AND 0x0F)) = b"
    and "(push_bit 6 (push_bit 2 (b AND 0x0F) OR drop_bit 6 c) AND 0xC0) OR (c AND 0x3F) = c"
  by (rule byte_bits; simp add: bit_simps)+

lemmas enc6_simps = enc6_table(1) [OF sextets_small(1)] enc6_table(1) [OF sextets_small(2)]
  enc6_table(1) [OF sextets_small(3)] enc6_table(1) [OF sextets_small(4)]
  enc6_table(1) [OF sextets_small(5)] enc6_table(1) [OF sextets_small(6)]
  enc6_table(2) [OF sextets_small(5)] enc6_table(2) [OF sextets_small(6)]
  enc6_table(2) [OF sextets_small(4)]

lemmas sextet_simps = enc6_table(3) [OF sextets_small(1)] enc6_table(3) [OF sextets_small(2)]
  enc6_table(3) [OF sextets_small(3)] enc6_table(3) [OF sextets_small(4)]
  enc6_table(3) [OF sextets_small(5)] enc6_table(3) [OF sextets_small(6)]

lemma groups_join:
  "group0 (enc6 (drop_bit 2 a)) (enc6 (push_bit 4 (a AND 0x03) OR drop_bit 4 b)) = a"
  "group0 (enc6 (drop_bit 2 a)) (enc6 (push_bit 4 (a AND 0x03))) = a"
  "group1 (enc6 (push_bit 4 (a AND 0x03) OR drop_bit 4 b)) (enc6 (push_bit 2 (b AND 0x0F) OR drop_bit 6 c)) = b"
  "group1 (enc6 (push_bit 4 (a AND 0x03) OR drop_bit 4 b)) (enc6 (push_bit 2 (b AND 0x0F))) = b"
  "group2 (enc6 (push_bit 2 (b AND 0x0F) OR drop_bit 6 c)) (enc6 (c AND 0x3F)) = c"
  by (simp_all only: group0_def group1_def group2_def sextet_simps sextets_join)

lemma decode_encode:
  "decode (b64_encode m) = m \<and> leftover (b64_encode m) = [] \<and> coded (b64_encode m) = b64_encode m"
  by (induction m rule: b64_encode.induct)
     (simp_all add: decode_group_def groups_join enc6_simps sextet_pad coded_def del: push_bit_and)

section \<open>Properties\<close>

text \<open>C16. Decoding in place is decoding: on any buffer, \<^verbatim>\<open>unbase64\<close> leaves in the buffer the decoded
  groups of the alphabet characters among its first \<open>len\<close> bytes, followed by the characters of the
  unfinished group, whose number it stores in \<^verbatim>\<open>remain\<close>; it never writes beyond \<open>len\<close>, so no
  write overtakes the reads.\<close>

theorem unbase64_in_place:
  assumes "len \<le> length d"
  shows "\<exists>d' n. unbase64 d len = (d', n, length (leftover (coded (take len d)))) \<and>
           take n d' = decode (coded (take len d)) @ leftover (coded (take len d)) \<and>
           length d' = length d \<and> n \<le> len \<and> drop len d' = drop len d"
  using unbase64_decodes_lemma [OF assms] by blast

theorem unbase64_in_place_witness:
  "\<exists>d' n. unbase64 (bytes_of ''TVRF LmFi!'') 9 = (d', n, 0) \<and> take n d' = bytes_of ''MTE.ab''"
proof -
  have "coded (take 9 (bytes_of ''TVRF LmFi!'')) = bytes_of ''TVRFLmFi''" by code_simp
  moreover have "decode (bytes_of ''TVRFLmFi'') = bytes_of ''MTE.ab''" "leftover (bytes_of ''TVRFLmFi'') = []"
    by code_simp+
  ultimately show ?thesis
    using unbase64_in_place [of 9 "bytes_of ''TVRF LmFi!''"] by auto
qed

text \<open>C13. A tunnelled request survives encoding and segmentation: when the alphabet characters of the
  bytes read from the second connection spell the RFC 4648 encoding of \<open>m\<close> (with any other
  characters, such as line breaks, in between), then however the reads cut them, the request buffer holds
  exactly \<open>m\<close> and no unfinished group.\<close>

theorem tunnel_round_trip:
  assumes "coded (concat chunks) = b64_encode m" "length (concat chunks) \<le> length buf"
  shows "let c = foldl req_append \<lparr>req_buf = buf, req_len = 0, base64_count = 0\<rparr> chunks
         in take (req_len c) (req_buf c) = m \<and> req_len c = length m \<and> base64_count c = 0"
proof -
  have "req_holds \<lparr>req_buf = buf, req_len = 0, base64_count = 0\<rparr> [] []"
    by (simp add: req_holds_def coded_def)
  from req_chunks_hold [OF this, of chunks]
  have h: "req_holds (foldl req_append \<lparr>req_buf = buf, req_len = 0, base64_count = 0\<rparr> chunks) [] (concat chunks)"
    using assms(2) by simp
  have d: "decode (coded (concat chunks)) = m" "leftover (coded (concat chunks)) = []"
    using assms(1) decode_encode [of m] by simp_all
  show ?thesis
    unfolding Let_def
    using h [unfolded req_holds_def d, simplified] .
qed

theorem tunnel_round_trip_witness:
  "let c = foldl req_append \<lparr>req_buf = replicate 16 0, req_len = 0, base64_count = 0\<rparr>
             [bytes_of ''TV'', bytes_of ''RF L'', bytes_of ''mE='']
   in take (req_len c) (req_buf c) = bytes_of ''MTE.a'' \<and> req_len c = 5 \<and> base64_count c = 0"
proof -
  have "coded (concat [bytes_of ''TV'', bytes_of ''RF L'', bytes_of ''mE='']) = b64_encode (bytes_of ''MTE.a'')"
    by code_simp
  note t = tunnel_round_trip [OF this, of "replicate 16 0"]
  have len: "length (bytes_of ''MTE.a'') = 5" by simp
  show ?thesis by (rule t [unfolded len]) simp
qed

end
