(* ===== verification/SoftQueue.thy ===== *)
theory SoftQueue
  imports Prelude
begin

text \<open>
  The soft event queue of \<^verbatim>\<open>event.c\<close>: a pool of \<^verbatim>\<open>struct soft_event\<close> nodes on two circular doubly
  linked lists, one of free nodes and one of queued events. The model is at pointer level: \<open>nxt\<close> and
  \<open>prv\<close> are the link fields of the nodes, and the list operations do the assignments of the code in the
  code's order. The interface is the locale \<open>bounded_fifo\<close>; the queue is an interpretation of it,
  through the abstraction of a circular list to the list of its nodes.
\<close>

section \<open>Model\<close>

type_synonym ptr = nat

record 'd se_heap =
  nxt :: "ptr \<Rightarrow> ptr"
  prv :: "ptr \<Rightarrow> ptr"
  event_data :: "ptr \<Rightarrow> 'd"

text \<open>The fields of \<^verbatim>\<open>struct soft_queue\<close> that concern the lists, with the heap they point into;
  \<open>waiting\<close> is the number of bytes in the pipe to the event loop.\<close>

record 'd soft_queue = "'d se_heap" +
  empty_se_list :: "ptr option"
  se_list :: "ptr option"
  sq_fd_event :: bool
  pipe_bytes :: nat

definition remove_from_list :: "('d, 'z) se_heap_scheme \<Rightarrow> ptr \<Rightarrow> ('d, 'z) se_heap_scheme \<times> ptr option" where
  "remove_from_list h se =
     (if nxt h se \<noteq> se
      then let h = h\<lparr>nxt := (nxt h)(prv h se := nxt h se)\<rparr>;
               h = h\<lparr>prv := (prv h)(nxt h se := prv h se)\<rparr>
           in (h, Some (nxt h se))
      else (h, None))"

definition add_to_list :: "('d, 'z) se_heap_scheme \<Rightarrow> ptr \<Rightarrow> ptr option \<Rightarrow> ('d, 'z) se_heap_scheme \<times> ptr option" where
  "add_to_list h se list =
     (case list of
        Some l \<Rightarrow>
          let h = h\<lparr>nxt := (nxt h)(se := l)\<rparr>;
              h = h\<lparr>prv := (prv h)(se := prv h l)\<rparr>;
              h = h\<lparr>prv := (prv h)(nxt h se := se)\<rparr>;
              h = h\<lparr>nxt := (nxt h)(prv h se := se)\<rparr>
          in (h, Some l)
      | None \<Rightarrow>
          let h = h\<lparr>nxt := (nxt h)(se := se)\<rparr>;
              h = h\<lparr>prv := (prv h)(se := se)\<rparr>
          in (h, Some se))"

text \<open>\<open>new_soft_queue\<close>: the nodes are the addresses \<open>malloc\<close> returns, one per round of the loop.\<close>

fun fill_pool :: "'d soft_queue \<Rightarrow> ptr list \<Rightarrow> 'd soft_queue" where
  "fill_pool sq [] = sq"
| "fill_pool sq (se # ses) =
     (case add_to_list sq se (empty_se_list sq) of (sq, l) \<Rightarrow> fill_pool (sq\<lparr>empty_se_list := l\<rparr>) ses)"

definition new_soft_queue :: "'d soft_queue \<Rightarrow> ptr list \<Rightarrow> 'd soft_queue" where
  "new_soft_queue mem ses =
     fill_pool (mem\<lparr>empty_se_list := None, se_list := None, sq_fd_event := False, pipe_bytes := 0\<rparr>) ses"

definition locked_get_next_event :: "'d soft_queue \<Rightarrow> 'd soft_queue \<times> 'd option" where
  "locked_get_next_event sq =
     (case se_list sq of
        None \<Rightarrow> (sq, None)
      | Some se \<Rightarrow>
          let (sq, l) = remove_from_list sq se;
              sq = sq\<lparr>se_list := l\<rparr>;
              d = event_data sq se;
              (sq, e) = add_to_list sq se (empty_se_list sq)
          in (sq\<lparr>empty_se_list := e\<rparr>, Some d))"

definition soft_queue_add :: "'d soft_queue \<Rightarrow> 'd \<Rightarrow> 'd soft_queue \<times> int" where
  "soft_queue_add sq d =
     (case empty_se_list sq of
        None \<Rightarrow> (sq, -1)
      | Some se \<Rightarrow>
          let (sq, e) = remove_from_list sq se;
              sq = sq\<lparr>empty_se_list := e\<rparr>;
              (sq, l) = add_to_list sq se (se_list sq);
              sq = sq\<lparr>se_list := l\<rparr>;
              sq = sq\<lparr>event_data := (event_data sq)(se := d)\<rparr>;
              sq = (if sq_fd_event sq then sq\<lparr>pipe_bytes := pipe_bytes sq + 1\<rparr> else sq)
          in (sq, 0))"

section \<open>The interface: a bounded first-in first-out queue\<close>

text \<open>\<open>rel q xs n\<close>: the queue \<open>q\<close> holds the items \<open>xs\<close>, oldest first, and has room for \<open>n\<close> more.\<close>

locale bounded_fifo =
  fixes rel :: "'q \<Rightarrow> 'd list \<Rightarrow> nat \<Rightarrow> bool"
    and enq :: "'q \<Rightarrow> 'd \<Rightarrow> 'q \<times> int"
    and deq :: "'q \<Rightarrow> 'q \<times> 'd option"
  assumes enq_free: "rel q xs (Suc n) \<Longrightarrow> \<exists>q'. enq q d = (q', 0) \<and> rel q' (xs @ [d]) n"
    and enq_full: "rel q xs 0 \<Longrightarrow> enq q d = (q, -1)"
    and deq_some: "rel q (d # ds) n \<Longrightarrow> \<exists>q'. deq q = (q', Some d) \<and> rel q' ds (Suc n)"
    and deq_none: "rel q [] n \<Longrightarrow> deq q = (q, None)"

text \<open>A schedule of producer and consumer steps (\<open>Some d\<close> adds, \<open>None\<close> takes): what was delivered, what was
  accepted, and the queue at the end.\<close>

fun fifo_run :: "('q \<Rightarrow> 'd \<Rightarrow> 'q \<times> int) \<Rightarrow> ('q \<Rightarrow> 'q \<times> 'd option) \<Rightarrow> 'q \<Rightarrow> 'd option list
    \<Rightarrow> 'd list \<times> 'd list \<times> 'q" where
  "fifo_run enq deq q [] = ([], [], q)"
| "fifo_run enq deq q (Some d # ops) =
     (case enq q d of (q1, r) \<Rightarrow> case fifo_run enq deq q1 ops of (out, acc, q') \<Rightarrow>
        (out, (if r = 0 then d # acc else acc), q'))"
| "fifo_run enq deq q (None # ops) =
     (case deq q of (q1, r) \<Rightarrow> case fifo_run enq deq q1 ops of (out, acc, q') \<Rightarrow>
        ((case r of None \<Rightarrow> out | Some d \<Rightarrow> d # out), acc, q'))"

context bounded_fifo
begin

lemma run_fifo:
  "rel q xs n \<Longrightarrow> fifo_run enq deq q ops = (out, acc, q') \<Longrightarrow>
   \<exists>ys k. rel q' ys k \<and> out @ ys = xs @ acc \<and> length ys + k = length xs + n"
proof (induction ops arbitrary: q xs n out acc q')
  case (Cons op ops)
  show ?case
  proof (cases op)
    case op: (Some d)
    show ?thesis
    proof (cases n)
      case 0
      then have e: "enq q d = (q, -1)" using enq_full Cons.prems(1) by simp
      obtain out' acc' q2 where r: "fifo_run enq deq q ops = (out', acc', q2)"
        by (metis prod_cases3)
      with Cons.IH [OF Cons.prems(1) r] Cons.prems(2) op e show ?thesis by auto
    next
      case (Suc k)
      then obtain q1 where e: "enq q d = (q1, 0)" "rel q1 (xs @ [d]) k"
        using enq_free Cons.prems(1) by blast
      obtain out' acc' q2 where r: "fifo_run enq deq q1 ops = (out', acc', q2)"
        by (metis prod_cases3)
      with Cons.IH [OF e(2) r] Cons.prems(2) op e Suc show ?thesis by auto
    qed
  next
    case op: None
    show ?thesis
    proof (cases xs)
      case Nil
      then have e: "deq q = (q, None)" using deq_none Cons.prems(1) by simp
      obtain out' acc' q2 where r: "fifo_run enq deq q ops = (out', acc', q2)"
        by (metis prod_cases3)
      with Cons.IH [OF Cons.prems(1) r] Cons.prems(2) op e show ?thesis by auto
    next
      case xs: (Cons d ds)
      then obtain q1 where e: "deq q = (q1, Some d)" "rel q1 ds (Suc n)"
        using deq_some Cons.prems(1) by blast
      obtain out' acc' q2 where r: "fifo_run enq deq q1 ops = (out', acc', q2)"
        by (metis prod_cases3)
      from Cons.IH [OF e(2) r] obtain ys k
        where "rel q2 ys k" "out' @ ys = ds @ acc'" "length ys + k = length ds + Suc n" by blast
      then show ?thesis
        using Cons.prems(2) op e r xs by (intro exI [of _ ys] exI [of _ k]) auto
    qed
  qed
qed auto

end

section \<open>Circular lists\<close>

definition is_ring :: "('d, 'z) se_heap_scheme \<Rightarrow> ptr option \<Rightarrow> ptr list \<Rightarrow> bool" where
  "is_ring h l xs \<longleftrightarrow>
     (case l of None \<Rightarrow> xs = [] | Some p \<Rightarrow> xs \<noteq> [] \<and> hd xs = p) \<and> distinct xs \<and>
     (\<forall>i < length xs. nxt h (xs ! i) = xs ! (Suc i mod length xs) \<and> prv h (xs ! (Suc i mod length xs)) = xs ! i)"

lemma is_ring_frame:
  assumes "is_ring h l xs" "\<And>p. p \<in> set xs \<Longrightarrow> nxt h' p = nxt h p \<and> prv h' p = prv h p"
  shows "is_ring h' l xs"
proof -
  have "xs ! i \<in> set xs" "xs ! (Suc i mod length xs) \<in> set xs" if "i < length xs" for i
    using that by (auto intro!: nth_mem mod_less_divisor)
  with assms show ?thesis by (simp add: is_ring_def)
qed

lemma is_ring_hd:
  assumes "is_ring h (Some p) xs"
  shows "xs \<noteq> []" "p = xs ! 0" "p \<in> set xs" "prv h p = last xs" "nxt h (last xs) = p"
proof -
  show 1: "xs \<noteq> []" and 2: "p = xs ! 0" using assms by (auto simp: is_ring_def hd_conv_nth)
  show "p \<in> set xs" using 1 2 by simp
  have l: "Suc (length xs - 1) mod length xs = 0" "length xs - 1 < length xs" using 1 by simp_all
  then have "nxt h (xs ! (length xs - 1)) = xs ! (Suc (length xs - 1) mod length xs) \<and>
      prv h (xs ! (Suc (length xs - 1) mod length xs)) = xs ! (length xs - 1)"
    using assms unfolding is_ring_def by blast
  then show "prv h p = last xs" "nxt h (last xs) = p"
    unfolding l 2 using 1 by (simp_all add: last_conv_nth)
qed

lemma add_to_list_some:
  assumes "is_ring h (Some p) xs" "se \<notin> set xs" "add_to_list h se (Some p) = (h', l')"
  shows "nxt h' = (nxt h)(se := p, last xs := se)" "prv h' = (prv h)(se := last xs, p := se)"
    "l' = Some p"
proof -
  have "last xs \<in> set xs" using is_ring_hd(1) [OF assms(1)] by simp
  then have "se \<noteq> last xs" "se \<noteq> p" "prv h p = last xs" using is_ring_hd [OF assms(1)] assms(2) by auto
  then show "nxt h' = (nxt h)(se := p, last xs := se)" "prv h' = (prv h)(se := last xs, p := se)"
    "l' = Some p"
    using assms(3) by (auto simp: add_to_list_def Let_def)
qed

lemma add_to_list_ring:
  assumes "is_ring h l xs" "se \<notin> set xs" "add_to_list h se l = (h', l')"
  shows "is_ring h' l' (xs @ [se])"
proof (cases l)
  case None
  then show ?thesis using assms by (auto simp: is_ring_def add_to_list_def Let_def)
next
  case (Some p)
  note a = add_to_list_some [OF assms(1) [unfolded Some] assms(2) assms(3) [unfolded Some]]
  note hd = is_ring_hd [OF assms(1) [unfolded Some]]
  let ?n = "length xs"
  have dist: "distinct xs" and links: "\<And>i. i < ?n \<Longrightarrow>
      nxt h (xs ! i) = xs ! (Suc i mod ?n) \<and> prv h (xs ! (Suc i mod ?n)) = xs ! i"
    using assms(1) by (simp_all add: is_ring_def)
  have "nxt h' ((xs @ [se]) ! i) = (xs @ [se]) ! (Suc i mod Suc ?n) \<and>
        prv h' ((xs @ [se]) ! (Suc i mod Suc ?n)) = (xs @ [se]) ! i" if i: "i < Suc ?n" for i
  proof -
    consider "Suc i < ?n" | "Suc i = ?n" | "i = ?n" using i by linarith
    then show ?thesis
    proof cases
      case 1
      then have "xs ! i \<noteq> last xs" "xs ! Suc i \<noteq> p" "xs ! i \<noteq> se" "xs ! Suc i \<noteq> se"
        using dist hd(1,2) assms(2) by (auto simp: last_conv_nth nth_eq_iff_index_eq)
      then show ?thesis using 1 links [of i] by (simp add: a nth_append)
    next
      case 2
      then have "xs ! i = last xs" "last xs \<in> set xs" using hd(1) by (auto simp: last_conv_nth simp flip: 2)
      then show ?thesis using 2 assms(2) hd(3) by (auto simp: a nth_append)
    next
      case 3
      have "last xs \<in> set xs" using hd(1) by simp
      then show ?thesis using 3 hd(1,2) assms(2) by (auto simp: a nth_append)
    qed
  qed
  then show ?thesis
    using dist hd assms(2) a(3) by (simp add: is_ring_def hd_append hd_conv_nth)
qed

lemma add_to_list_frame:
  assumes "is_ring h l xs" "se \<notin> set xs" "add_to_list h se l = (h', l')"
  shows "p \<notin> set xs \<Longrightarrow> p \<noteq> se \<Longrightarrow> nxt h' p = nxt h p \<and> prv h' p = prv h p"
    and "h' = h\<lparr>nxt := nxt h', prv := prv h'\<rparr>"
proof -
  show "nxt h' p = nxt h p \<and> prv h' p = prv h p" if "p \<notin> set xs" "p \<noteq> se"
  proof (cases l)
    case None
    then show ?thesis using assms(3) that by (auto simp: add_to_list_def Let_def)
  next
    case (Some q)
    note hd = is_ring_hd [OF assms(1) [unfolded Some]]
    have "last xs \<in> set xs" using hd(1) by simp
    then show ?thesis
      using add_to_list_some [OF assms(1) [unfolded Some] assms(2) assms(3) [unfolded Some]] that hd(3) by auto
  qed
  show "h' = h\<lparr>nxt := nxt h', prv := prv h'\<rparr>"
    using assms(3) by (auto simp: add_to_list_def Let_def split: option.splits)
qed

lemma remove_from_list_ring:
  assumes "is_ring h (Some se) (se # xs)" "remove_from_list h se = (h', l')"
  shows "is_ring h' l' xs"
    and "p \<notin> set (se # xs) \<Longrightarrow> nxt h' p = nxt h p \<and> prv h' p = prv h p"
    and "h' = h\<lparr>nxt := nxt h', prv := prv h'\<rparr>"
proof -
  let ?ys = "se # xs"
  note hd = is_ring_hd [OF assms(1)]
  have dist: "distinct ?ys" and links: "\<And>i. i < length ?ys \<Longrightarrow>
      nxt h (?ys ! i) = ?ys ! (Suc i mod length ?ys) \<and> prv h (?ys ! (Suc i mod length ?ys)) = ?ys ! i"
    using assms(1) by (simp_all add: is_ring_def)
  show "h' = h\<lparr>nxt := nxt h', prv := prv h'\<rparr>"
    using assms(2) by (auto simp: remove_from_list_def Let_def split: if_splits)
  have "is_ring h' l' xs \<and> (p \<notin> set (se # xs) \<longrightarrow> nxt h' p = nxt h p \<and> prv h' p = prv h p)"
  proof (cases xs)
    case Nil
    then have "nxt h se = se" using links [of 0] by simp
    then show ?thesis using assms(2) Nil by (auto simp: remove_from_list_def is_ring_def)
  next
    case (Cons x r)
    have n0: "nxt h se = x" "x \<noteq> se" using links [of 0] dist Cons by auto
    have pl: "prv h se = last xs" "last xs \<noteq> se" "last xs \<in> set xs" using hd(4) dist Cons by auto
    have e: "nxt h' = (nxt h)(last xs := x)" "prv h' = (prv h)(x := last xs)" "l' = Some x"
      using assms(2) n0 pl by (auto simp: remove_from_list_def Let_def)
    have "nxt h' (xs ! i) = xs ! (Suc i mod length xs) \<and> prv h' (xs ! (Suc i mod length xs)) = xs ! i"
      if i: "i < length xs" for i
    proof (cases "Suc i = length xs")
      case True
      then have "xs ! i = last xs" by (metis Cons diff_Suc_1 last_conv_nth list.simps(3))
      then show ?thesis using True Cons by (simp add: e)
    next
      case False
      then have s: "Suc i < length xs" using i by simp
      then have "xs ! i \<noteq> last xs" "xs ! Suc i \<noteq> x"
        using dist Cons by (auto simp: last_conv_nth nth_eq_iff_index_eq nth_Cons')
      then show ?thesis using s links [of "Suc i"] by (simp add: e)
    qed
    moreover have "x \<in> set xs" using Cons by simp
    ultimately show ?thesis
      using e dist Cons pl by (auto simp: is_ring_def)
  qed
  then show "is_ring h' l' xs"
    and "p \<notin> set (se # xs) \<Longrightarrow> nxt h' p = nxt h p \<and> prv h' p = prv h p" by blast+
qed

lemma is_ring_cong: "nxt h' = nxt h \<Longrightarrow> prv h' = prv h \<Longrightarrow> is_ring h' l xs = is_ring h l xs"
  by (simp add: is_ring_def)

lemma is_ring_None [simp]: "is_ring h None xs \<longleftrightarrow> xs = []"
  by (auto simp: is_ring_def)

lemma is_ring_Some_Cons: "is_ring h (Some p) xs \<Longrightarrow> \<exists>ys. xs = p # ys"
  by (cases xs) (auto simp: is_ring_def)

text \<open>Taking the head of one circular list and appending it to another.\<close>

lemma move_node:
  assumes a: "is_ring h (Some se) (se # as)" and b: "is_ring h l bs"
    and disj: "set (se # as) \<inter> set bs = {}"
    and rm: "remove_from_list h se = (h1, a')"
    and same: "nxt h2 = nxt h1" "prv h2 = prv h1"
    and ad: "add_to_list h2 se l = (h3, b')"
  shows "is_ring h3 a' as" "is_ring h3 b' (bs @ [se])"
proof -
  note r = remove_from_list_ring [OF a rm]
  have as2: "is_ring h2 a' as" using r(1) by (simp add: is_ring_cong [OF same])
  have bs2: "is_ring h2 l bs"
  proof (rule is_ring_frame [OF b])
    fix p assume "p \<in> set bs"
    then have "p \<notin> set (se # as)" using disj by blast
    then show "nxt h2 p = nxt h p \<and> prv h2 p = prv h p" using r(2) same by metis
  qed
  have nb: "se \<notin> set bs" using disj by auto
  show "is_ring h3 b' (bs @ [se])" by (rule add_to_list_ring [OF bs2 nb ad])
  have "se \<notin> set as" using a by (simp add: is_ring_def)
  then show "is_ring h3 a' as"
    by (intro is_ring_frame [OF as2] add_to_list_frame(1) [OF bs2 nb ad]) (use disj in auto)
qed

lemma remove_from_list_fields: "\<exists>N P. fst (remove_from_list h se) = h\<lparr>nxt := N, prv := P\<rparr>"
proof -
  have "fst (remove_from_list h se) =
      h\<lparr>nxt := nxt (fst (remove_from_list h se)), prv := prv (fst (remove_from_list h se))\<rparr>"
    by (simp add: remove_from_list_def Let_def)
  then show ?thesis by blast
qed

lemma add_to_list_fields: "\<exists>N P. fst (add_to_list h se l) = h\<lparr>nxt := N, prv := P\<rparr>"
proof -
  have "fst (add_to_list h se l) =
      h\<lparr>nxt := nxt (fst (add_to_list h se l)), prv := prv (fst (add_to_list h se l))\<rparr>"
    by (simp add: add_to_list_def Let_def split: option.split)
  then show ?thesis by blast
qed

section \<open>The queue implements the interface\<close>

definition sq_holds :: "'d soft_queue \<Rightarrow> 'd list \<Rightarrow> nat \<Rightarrow> bool" where
  "sq_holds sq ds n \<longleftrightarrow>
     (\<exists>qs es. is_ring sq (se_list sq) qs \<and> is_ring sq (empty_se_list sq) es \<and> set qs \<inter> set es = {} \<and>
        map (event_data sq) qs = ds \<and> length es = n)"

lemma soft_queue_add_room:
  assumes "sq_holds sq ds (Suc n)"
  shows "\<exists>sq'. soft_queue_add sq d = (sq', 0) \<and> sq_holds sq' (ds @ [d]) n"
proof -
  from assms obtain qs es where q: "is_ring sq (se_list sq) qs" "is_ring sq (empty_se_list sq) es"
      "set qs \<inter> set es = {}" "map (event_data sq) qs = ds" "length es = Suc n"
    by (auto simp: sq_holds_def)
  then obtain se where se: "empty_se_list sq = Some se" by (cases "empty_se_list sq") auto
  then obtain es' where es: "es = se # es'" using q(2) is_ring_Some_Cons by metis
  obtain s1 e where r: "remove_from_list sq se = (s1, e)" by fastforce
  let ?s2 = "s1\<lparr>empty_se_list := e\<rparr>"
  obtain s3 l where a: "add_to_list ?s2 se (se_list ?s2) = (s3, l)" by fastforce
  obtain N P N' P' where s1: "s1 = sq\<lparr>nxt := N, prv := P\<rparr>" and s3: "s3 = ?s2\<lparr>nxt := N', prv := P'\<rparr>"
    using remove_from_list_fields [of sq se] add_to_list_fields [of ?s2 se "se_list ?s2"] r a by auto
  have l2: "se_list ?s2 = se_list sq" by (simp add: s1)
  have m: "is_ring s3 e es'" "is_ring s3 l (qs @ [se])"
    using move_node [OF _ q(1) _ r _ _ a [unfolded l2], of es'] q(2,3) se es by (auto simp: Int_commute)
  let ?s4 = "s3\<lparr>se_list := l\<rparr>\<lparr>event_data := (event_data s3)(se := d)\<rparr>"
  let ?s5 = "if sq_fd_event ?s4 then ?s4\<lparr>pipe_bytes := pipe_bytes ?s4 + 1\<rparr> else ?s4"
  have add: "soft_queue_add sq d = (?s5, 0)"
    using se r a by (simp add: soft_queue_add_def Let_def)
  have fr: "nxt ?s5 = nxt s3" "prv ?s5 = prv s3" by simp_all
  have "is_ring ?s5 e es'" "is_ring ?s5 l (qs @ [se])"
    using m is_ring_cong [OF fr] by blast+
  moreover have "se_list ?s5 = l" "empty_se_list ?s5 = e" "event_data ?s5 = (event_data sq)(se := d)"
    using s1 s3 by simp_all
  moreover have "se \<notin> set qs" "set (qs @ [se]) \<inter> set es' = {}" using q(2,3) es by (auto simp: is_ring_def)
  ultimately have "sq_holds ?s5 (ds @ [d]) n"
    unfolding sq_holds_def using q(4,5) es
    by (intro exI [of _ "qs @ [se]"] exI [of _ es']) auto
  with add show ?thesis by blast
qed

lemma locked_get_next_event_head:
  assumes "sq_holds sq (d # ds) n"
  shows "\<exists>sq'. locked_get_next_event sq = (sq', Some d) \<and> sq_holds sq' ds (Suc n)"
proof -
  from assms obtain qs es where q: "is_ring sq (se_list sq) qs" "is_ring sq (empty_se_list sq) es"
      "set qs \<inter> set es = {}" "map (event_data sq) qs = d # ds" "length es = n"
    by (auto simp: sq_holds_def)
  then obtain se where se: "se_list sq = Some se" by (cases "se_list sq") auto
  then obtain qs' where qs: "qs = se # qs'" using q(1) is_ring_Some_Cons by metis
  obtain s1 l where r: "remove_from_list sq se = (s1, l)" by fastforce
  let ?s2 = "s1\<lparr>se_list := l\<rparr>"
  obtain s3 e where a: "add_to_list ?s2 se (empty_se_list ?s2) = (s3, e)" by fastforce
  obtain N P N' P' where s1: "s1 = sq\<lparr>nxt := N, prv := P\<rparr>" and s3: "s3 = ?s2\<lparr>nxt := N', prv := P'\<rparr>"
    using remove_from_list_fields [of sq se] add_to_list_fields [of ?s2 se "empty_se_list ?s2"] r a by auto
  have l2: "empty_se_list ?s2 = empty_se_list sq" by (simp add: s1)
  have m: "is_ring s3 l qs'" "is_ring s3 e (es @ [se])"
    using move_node [OF _ q(2) _ r _ _ a [unfolded l2], of qs'] q(1,3) se qs by auto
  let ?s4 = "s3\<lparr>empty_se_list := e\<rparr>"
  have get: "locked_get_next_event sq = (?s4, Some d)"
    using se r a s1 q(4) qs by (simp add: locked_get_next_event_def Let_def)
  have fr: "nxt ?s4 = nxt s3" "prv ?s4 = prv s3" by simp_all
  have "is_ring ?s4 l qs'" "is_ring ?s4 e (es @ [se])" using m is_ring_cong [OF fr] by blast+
  moreover have "se_list ?s4 = l" "empty_se_list ?s4 = e" "event_data ?s4 = event_data sq"
    using s1 s3 by simp_all
  moreover have "set qs' \<inter> set (es @ [se]) = {}" using q(1,3) qs by (auto simp: is_ring_def)
  ultimately have "sq_holds ?s4 ds (Suc n)"
    unfolding sq_holds_def using q(4,5) qs by (intro exI [of _ qs'] exI [of _ "es @ [se]"]) simp
  with get show ?thesis by blast
qed

interpretation soft_q: bounded_fifo sq_holds soft_queue_add locked_get_next_event
proof
  show "sq_holds sq ds (Suc n) \<Longrightarrow> \<exists>q'. soft_queue_add sq d = (q', 0) \<and> sq_holds q' (ds @ [d]) n"
    for sq :: "'d soft_queue" and ds n d by (rule soft_queue_add_room)
  show "soft_queue_add sq d = (sq, -1)" if "sq_holds sq ds 0" for sq :: "'d soft_queue" and ds d
    using that by (auto simp: sq_holds_def soft_queue_add_def is_ring_def split: option.splits)
  show "sq_holds sq (d # ds) n \<Longrightarrow> \<exists>q'. locked_get_next_event sq = (q', Some d) \<and> sq_holds q' ds (Suc n)"
    for sq :: "'d soft_queue" and d ds n by (rule locked_get_next_event_head)
  show "locked_get_next_event sq = (sq, None)" if "sq_holds sq [] n" for sq :: "'d soft_queue" and n
    using that by (auto simp: sq_holds_def locked_get_next_event_def is_ring_def split: option.splits)
qed

lemma fill_pool_holds:
  "is_ring sq (empty_se_list sq) es \<Longrightarrow> se_list sq = None \<Longrightarrow> distinct (es @ ses) \<Longrightarrow>
   sq_holds (fill_pool sq ses) [] (length es + length ses)"
proof (induction ses arbitrary: sq es)
  case Nil
  then show ?case by (auto simp: sq_holds_def)
next
  case (Cons se ses)
  obtain s l where a: "add_to_list sq se (empty_se_list sq) = (s, l)" by fastforce
  then obtain N P where s: "s = sq\<lparr>nxt := N, prv := P\<rparr>"
    using add_to_list_fields [of sq se "empty_se_list sq"] by auto
  have "is_ring s l (es @ [se])" using add_to_list_ring [OF Cons.prems(1) _ a] Cons.prems(3) by simp
  then have "is_ring (s\<lparr>empty_se_list := l\<rparr>) l (es @ [se])" by (simp add: is_ring_def)
  then have "sq_holds (fill_pool (s\<lparr>empty_se_list := l\<rparr>) ses) [] (length (es @ [se]) + length ses)"
    by (intro Cons.IH) (use Cons.prems s in simp_all)
  then show ?case using a by simp
qed

lemma new_soft_queue_holds: "distinct ses \<Longrightarrow> sq_holds (new_soft_queue mem ses) [] (length ses)"
  unfolding new_soft_queue_def
  using fill_pool_holds [of "mem\<lparr>empty_se_list := None, se_list := None, sq_fd_event := False, pipe_bytes := 0\<rparr>" "[]" ses]
  by simp

text \<open>C10. A soft queue made with \<open>length ses\<close> nodes is a first-in first-out queue of that capacity: for every
  interleaving of \<open>soft_queue_add\<close> and \<open>locked_get_next_event\<close> calls, the items delivered are a prefix of the
  items accepted, in order, the items not yet delivered are never more than the capacity, and the pool loses
  no node: the queued items and the free nodes always add up to the capacity.\<close>

theorem soft_queue_fifo:
  assumes "distinct ses"
    and "fifo_run soft_queue_add locked_get_next_event (new_soft_queue mem ses) ops = (delivered, accepted, sq)"
  shows "\<exists>pending free. accepted = delivered @ pending \<and> sq_holds sq pending free \<and>
    length pending + free = length ses"
  using soft_q.run_fifo [OF new_soft_queue_holds [OF assms(1), of mem] assms(2)] by fastforce

theorem soft_queue_fifo_witness:
  "let mem = \<lparr>nxt = (\<lambda>_. 0), prv = (\<lambda>_. 0), event_data = (\<lambda>_. 0 :: nat), empty_se_list = None, se_list = None,
              sq_fd_event = False, pipe_bytes = 0\<rparr>;
       ops = [Some 1, Some 2, Some 3, None, Some 4, None]
   in \<exists>sq. fifo_run soft_queue_add locked_get_next_event (new_soft_queue mem [16, 32]) ops = ([1, 2], [1, 2, 4], sq) \<and>
        sq_holds sq [4] 1"
proof -
  let ?mem = "\<lparr>nxt = (\<lambda>_. 0), prv = (\<lambda>_. 0), event_data = (\<lambda>_. 0 :: nat), empty_se_list = None, se_list = None,
              sq_fd_event = False, pipe_bytes = 0\<rparr>"
  let ?run = "fifo_run soft_queue_add locked_get_next_event (new_soft_queue ?mem [16, 32]) [Some 1, Some 2, Some 3, None, Some 4, None]"
  obtain sq where r: "?run = ([1, 2], [1, 2, 4], sq)"
    by (simp add: new_soft_queue_def add_to_list_def remove_from_list_def soft_queue_add_def
        locked_get_next_event_def Let_def)
  from soft_queue_fifo [OF _ r] obtain pending free
    where "[1, 2, 4] = [1, 2] @ pending" "sq_holds sq pending free" "length pending + free = length [16 :: nat, 32]"
    by force
  then have "sq_holds sq [4] 1" by auto
  with r show ?thesis by auto
qed

end
