(* ===== verification/Event.thy ===== *)
theory Event
  imports Prelude "HOL-Library.Signed_Division"
begin

text \<open>
  The event loop of \<^verbatim>\<open>event.c\<close>: times, events and their flags, the lists of timer, descriptor and always
  events, and the dispatch passes of \<open>event_loop\<close>.

  Events are numbered in the order in which they are allocated; the code never frees one. The three global
  lists are lists of event numbers: an event is linked in at the head and only \<open>strip_events\<close> unlinks,
  between passes, so a traversal visits the list as it was when it started. The readings of
  \<^verbatim>\<open>gettimeofday\<close>, the results of \<^verbatim>\<open>select\<close> and the callbacks are parameters. A callback acts on the
  loop through the operations of \<^verbatim>\<open>event.h\<close> only, so its effect is a list of such operations; it sees the
  whole state. An operation on a number that was never allocated is a wild pointer.
\<close>

unbundle bit_operations_syntax

section \<open>Times\<close>

record time_ref =
  tv_sec :: int
  tv_usec :: int

text \<open>The value of a 32-bit \<^verbatim>\<open>int\<close> or \<^verbatim>\<open>long\<close> computation of the target.\<close>

definition s32 :: "int \<Rightarrow> int" where
  "s32 x = signed_take_bit 31 x"

definition time_diff :: "time_ref \<Rightarrow> time_ref \<Rightarrow> int" where
  "time_diff tr_start tr_end =
     s32 ((tv_sec tr_end - tv_sec tr_start) * 1000000 + tv_usec tr_end - tv_usec tr_start + 500) sdiv 1000"

definition time_add :: "time_ref \<Rightarrow> int \<Rightarrow> time_ref" where
  "time_add tr msec =
     (let tr = tr\<lparr>tv_sec := s32 (tv_sec tr + msec sdiv 1000)\<rparr>;
          tr = tr\<lparr>tv_usec := s32 (tv_usec tr + (msec smod 1000) * 1000)\<rparr>
      in if tv_usec tr \<ge> 1000000
         then tr\<lparr>tv_usec := tv_usec tr - 1000000, tv_sec := s32 (tv_sec tr + 1)\<rparr> else tr)"

section \<open>Events\<close>

abbreviation EVENT_F_ENABLED :: u32 where "EVENT_F_ENABLED \<equiv> 1"
abbreviation EVENT_F_REMOVE :: u32 where "EVENT_F_REMOVE \<equiv> 2"
abbreviation EVENT_F_ONESHOT :: u32 where "EVENT_F_ONESHOT \<equiv> 4"
abbreviation EVENT_F_RUNNING :: u32 where "EVENT_F_RUNNING \<equiv> 8"

datatype etype = EVENT_NONE | EVENT_TIME | EVENT_FD | EVENT_ALWAYS | EVENT_SOFT_QUEUE

type_synonym evid = nat

text \<open>The union \<^verbatim>\<open>ev\<close> is flattened: each member is only used for events of its own type.\<close>

record ('f, 'd) event =
  func :: 'f
  data :: 'd
  etype :: etype
  eflags :: u32
  fire :: time_ref
  ival :: int
  efd :: int
  ewrite :: bool

text \<open>The global variables of the file; \<open>next_id\<close> counts allocations, \<open>readings\<close> the calls of
  \<^verbatim>\<open>gettimeofday\<close>.\<close>

record ('f, 'd) events =
  evs :: "evid \<Rightarrow> ('f, 'd) event"
  time_event_list :: "evid list"
  fd_event_list :: "evid list"
  always_event_list :: "evid list"
  end_loop :: bool
  next_id :: nat
  readings :: nat

type_synonym clock = "nat \<Rightarrow> time_ref"

definition time_now :: "clock \<Rightarrow> ('f, 'd) events \<Rightarrow> time_ref \<times> ('f, 'd) events" where
  "time_now gtod s = (gtod (readings s), s\<lparr>readings := readings s + 1\<rparr>)"

definition time_ago :: "clock \<Rightarrow> ('f, 'd) events \<Rightarrow> time_ref \<Rightarrow> int \<times> ('f, 'd) events" where
  "time_ago gtod s tr = (case time_now gtod s of (now, s) \<Rightarrow> (time_diff tr now, s))"

definition time_future :: "clock \<Rightarrow> ('f, 'd) events \<Rightarrow> int \<Rightarrow> time_ref \<times> ('f, 'd) events" where
  "time_future gtod s msec = (case time_now gtod s of (now, s) \<Rightarrow> (time_add now msec, s))"

definition upd :: "('f, 'd) events \<Rightarrow> evid \<Rightarrow> (('f, 'd) event \<Rightarrow> ('f, 'd) event) \<Rightarrow> ('f, 'd) events" where
  "upd s e f = s\<lparr>evs := (evs s)(e := f (evs s e))\<rparr>"

definition set_flags :: "('f, 'd) events \<Rightarrow> evid \<Rightarrow> u32 \<Rightarrow> ('f, 'd) events" where
  "set_flags s e fl = upd s e (\<lambda>ev. ev\<lparr>eflags := eflags ev OR fl\<rparr>)"

definition clear_flags :: "('f, 'd) events \<Rightarrow> evid \<Rightarrow> u32 \<Rightarrow> ('f, 'd) events" where
  "clear_flags s e fl = upd s e (\<lambda>ev. ev\<lparr>eflags := eflags ev AND NOT fl\<rparr>)"

definition has_flag :: "('f, 'd) events \<Rightarrow> evid \<Rightarrow> u32 \<Rightarrow> bool" where
  "has_flag s e fl \<longleftrightarrow> eflags (evs s e) AND fl \<noteq> 0"

definition new_event :: "('f, 'd) events \<Rightarrow> 'f \<Rightarrow> 'd \<Rightarrow> evid \<times> ('f, 'd) events" where
  "new_event s f d =
     (next_id s,
      s\<lparr>evs := (evs s)(next_id s := \<lparr>func = f, data = d, etype = EVENT_NONE, eflags = 0,
                  fire = fire (evs s (next_id s)), ival = ival (evs s (next_id s)),
                  efd = efd (evs s (next_id s)), ewrite = ewrite (evs s (next_id s))\<rparr>),
         next_id := next_id s + 1\<rparr>)"

definition resched_event :: "clock \<Rightarrow> ('f, 'd) events \<Rightarrow> evid \<Rightarrow> time_ref option \<Rightarrow> ('f, 'd) events" where
  "resched_event gtod s e tr =
     (let s = (case tr of
                 Some t \<Rightarrow> upd s e (\<lambda>ev. ev\<lparr>fire := t\<rparr>)
               | None \<Rightarrow>
                   if has_flag s e EVENT_F_ENABLED
                   then upd s e (\<lambda>ev. ev\<lparr>fire := time_add (fire ev) (ival ev)\<rparr>)
                   else case time_future gtod s (ival (evs s e)) of (t, s) \<Rightarrow> upd s e (\<lambda>ev. ev\<lparr>fire := t\<rparr>))
      in set_flags (clear_flags s e EVENT_F_REMOVE) e EVENT_F_ENABLED)"

definition add_timer_event :: "clock \<Rightarrow> ('f, 'd) events \<Rightarrow> int \<Rightarrow> u32 \<Rightarrow> 'f \<Rightarrow> 'd \<Rightarrow> evid \<times> ('f, 'd) events" where
  "add_timer_event gtod s msec flags f d =
     (let (e, s) = new_event s f d;
          s = upd s e (\<lambda>ev. ev\<lparr>etype := EVENT_TIME, eflags := flags, ival := msec\<rparr>);
          s = s\<lparr>time_event_list := e # time_event_list s\<rparr>;
          (now, s) = time_now gtod s;
          s = upd s e (\<lambda>ev. ev\<lparr>fire := now\<rparr>)
      in (e, resched_event gtod s e None))"

definition add_alarm_event :: "clock \<Rightarrow> ('f, 'd) events \<Rightarrow> time_ref option \<Rightarrow> u32 \<Rightarrow> 'f \<Rightarrow> 'd \<Rightarrow> evid \<times> ('f, 'd) events" where
  "add_alarm_event gtod s t flags f d =
     (let (e, s) = new_event s f d;
          s = upd s e (\<lambda>ev. ev\<lparr>etype := EVENT_TIME, eflags := flags OR EVENT_F_ONESHOT\<rparr>);
          s = s\<lparr>time_event_list := e # time_event_list s\<rparr>
      in (e, resched_event gtod s e t))"

definition add_fd_event :: "('f, 'd) events \<Rightarrow> int \<Rightarrow> bool \<Rightarrow> u32 \<Rightarrow> 'f \<Rightarrow> 'd \<Rightarrow> evid \<times> ('f, 'd) events" where
  "add_fd_event s fd wr flags f d =
     (let (e, s) = new_event s f d;
          s = upd s e (\<lambda>ev. ev\<lparr>etype := EVENT_FD, eflags := flags OR EVENT_F_ENABLED, efd := fd, ewrite := wr\<rparr>)
      in (e, s\<lparr>fd_event_list := e # fd_event_list s\<rparr>))"

definition add_always_event :: "('f, 'd) events \<Rightarrow> u32 \<Rightarrow> 'f \<Rightarrow> 'd \<Rightarrow> evid \<times> ('f, 'd) events" where
  "add_always_event s flags f d =
     (let (e, s) = new_event s f d;
          s = upd s e (\<lambda>ev. ev\<lparr>etype := EVENT_ALWAYS, eflags := flags OR EVENT_F_ENABLED\<rparr>)
      in (e, s\<lparr>always_event_list := e # always_event_list s\<rparr>))"

definition remove_event :: "('f, 'd) events \<Rightarrow> evid \<Rightarrow> ('f, 'd) events" where
  "remove_event s e =
     clear_flags (set_flags s e EVENT_F_REMOVE) e (EVENT_F_RUNNING OR EVENT_F_ENABLED)"

definition set_event_interval :: "clock \<Rightarrow> ('f, 'd) events \<Rightarrow> evid \<Rightarrow> int \<Rightarrow> ('f, 'd) events" where
  "set_event_interval gtod s e msec =
     (let s = upd s e (\<lambda>ev. ev\<lparr>ival := msec\<rparr>)
      in if has_flag s e EVENT_F_ENABLED then resched_event gtod s e None else s)"

definition set_event_enabled :: "('f, 'd) events \<Rightarrow> evid \<Rightarrow> bool \<Rightarrow> ('f, 'd) events" where
  "set_event_enabled s e enabled =
     (let s = clear_flags s e EVENT_F_ENABLED
      in if enabled then set_flags s e EVENT_F_ENABLED else s)"

definition get_event_enabled :: "('f, 'd) events \<Rightarrow> evid \<Rightarrow> bool" where
  "get_event_enabled s e = has_flag s e EVENT_F_ENABLED"

definition exit_event_loop :: "('f, 'd) events \<Rightarrow> ('f, 'd) events" where
  "exit_event_loop s = s\<lparr>end_loop := True\<rparr>"

definition strip_events :: "('f, 'd) events \<Rightarrow> evid list \<Rightarrow> evid list" where
  "strip_events s list = filter (\<lambda>e. \<not> has_flag s e EVENT_F_REMOVE) list"

section \<open>Dispatch\<close>

text \<open>What a callback may do to the loop.\<close>

datatype ('f, 'd) ev_op =
    Add_timer int u32 'f 'd
  | Add_alarm "time_ref option" u32 'f 'd
  | Add_fd int bool u32 'f 'd
  | Add_always u32 'f 'd
  | Resched evid "time_ref option"
  | Remove evid
  | Set_interval evid int
  | Set_enabled evid bool
  | Exit_loop

definition valid_event :: "('f, 'd) events \<Rightarrow> evid \<Rightarrow> ('f, 'd) events \<Rightarrow> ('f, 'd) events res" where
  "valid_event s e s' = (if e < next_id s then Inr s' else Inl OutOfBounds)"

fun do_op :: "clock \<Rightarrow> ('f, 'd) events \<Rightarrow> ('f, 'd) ev_op \<Rightarrow> ('f, 'd) events res" where
  "do_op gtod s (Add_timer msec fl f d) = Inr (snd (add_timer_event gtod s msec fl f d))"
| "do_op gtod s (Add_alarm t fl f d) = Inr (snd (add_alarm_event gtod s t fl f d))"
| "do_op gtod s (Add_fd fd wr fl f d) = Inr (snd (add_fd_event s fd wr fl f d))"
| "do_op gtod s (Add_always fl f d) = Inr (snd (add_always_event s fl f d))"
| "do_op gtod s (Resched e t) = valid_event s e (resched_event gtod s e t)"
| "do_op gtod s (Remove e) = valid_event s e (remove_event s e)"
| "do_op gtod s (Set_interval e msec) = valid_event s e (set_event_interval gtod s e msec)"
| "do_op gtod s (Set_enabled e b) = valid_event s e (set_event_enabled s e b)"
| "do_op gtod s Exit_loop = Inr (exit_event_loop s)"

text \<open>A run is recorded: \<open>Fired e\<close> when the callback of \<open>e\<close> starts, \<open>Did op\<close> for every operation it performs.\<close>

datatype ('f, 'd) step = Fired evid | Did "('f, 'd) ev_op"

type_synonym ('f, 'd, 'w) run = "('f, 'd) step list \<times> ('f, 'd) events \<times> 'w"

type_synonym ('f, 'd, 'w) callback = "'f \<Rightarrow> 'd \<Rightarrow> evid \<Rightarrow> ('f, 'd) events \<Rightarrow> 'w \<Rightarrow> ('f, 'd) ev_op list \<times> 'w"

fun do_ops :: "clock \<Rightarrow> ('f, 'd) events \<Rightarrow> ('f, 'd) ev_op list \<Rightarrow> (('f, 'd) step list \<times> ('f, 'd) events) res" where
  "do_ops gtod s [] = Inr ([], s)"
| "do_ops gtod s (op # ops) =
     rbind (do_op gtod s op) (\<lambda>s. rbind (do_ops gtod s ops) (\<lambda>(tr, s). Inr (Did op # tr, s)))"

text \<open>\<^verbatim>\<open>(*e->func)(&ei, e->data)\<close>\<close>

definition call_func :: "clock \<Rightarrow> ('f, 'd, 'w) callback \<Rightarrow> evid \<Rightarrow> ('f, 'd) events \<Rightarrow> 'w \<Rightarrow> ('f, 'd, 'w) run res" where
  "call_func gtod cb e s w =
     (let (ops, w) = cb (func (evs s e)) (data (evs s e)) e s w
      in rbind (do_ops gtod s ops) (\<lambda>(tr, s). Inr (Fired e # tr, s, w)))"

text \<open>The body of a dispatch loop for a running event: it prepares the event (marks it for removal or
  reschedules it) and says whether it fires.\<close>

definition time_step :: "clock \<Rightarrow> evid \<Rightarrow> ('f, 'd) events \<Rightarrow> bool \<times> ('f, 'd) events" where
  "time_step gtod e s =
     (let (ago, s) = time_ago gtod s (fire (evs s e)) in
      if - ago < 5 then
        (True, if \<not> has_flag s e EVENT_F_ONESHOT then resched_event gtod s e None
               else set_flags s e EVENT_F_REMOVE)
      else (False, s))"

definition always_step :: "evid \<Rightarrow> ('f, 'd) events \<Rightarrow> bool \<times> ('f, 'd) events" where
  "always_step e s = (True, if has_flag s e EVENT_F_ONESHOT then set_flags s e EVENT_F_REMOVE else s)"

definition fd_step :: "(int \<Rightarrow> bool) \<Rightarrow> (int \<Rightarrow> bool) \<Rightarrow> evid \<Rightarrow> ('f, 'd) events \<Rightarrow> bool \<times> ('f, 'd) events" where
  "fd_step rfds wfds e s =
     (if (if ewrite (evs s e) then wfds else rfds) (efd (evs s e))
      then (True, if has_flag s e EVENT_F_ONESHOT then set_flags s e EVENT_F_REMOVE else s)
      else (False, s))"

fun dispatch :: "clock \<Rightarrow> ('f, 'd, 'w) callback \<Rightarrow> (evid \<Rightarrow> ('f, 'd) events \<Rightarrow> bool \<times> ('f, 'd) events)
    \<Rightarrow> evid list \<Rightarrow> ('f, 'd) events \<Rightarrow> 'w \<Rightarrow> ('f, 'd, 'w) run res" where
  "dispatch gtod cb step [] s w = Inr ([], s, w)"
| "dispatch gtod cb step (e # es) s w =
     (if \<not> has_flag s e EVENT_F_RUNNING then dispatch gtod cb step es s w
      else if end_loop s then Inr ([], s, w)
      else case step e s of (fires, s) \<Rightarrow>
        if fires then
          rbind (call_func gtod cb e s w) (\<lambda>(tr, s, w).
          rbind (dispatch gtod cb step es s w) (\<lambda>(tr', s, w). Inr (tr @ tr', s, w)))
        else dispatch gtod cb step es s w)"

text \<open>The marking loops before \<^verbatim>\<open>select\<close>: the running flag of each event, and the timeout, where \<open>None\<close> is
  \<^verbatim>\<open>st == NULL\<close>.\<close>

definition mark :: "('f, 'd) events \<Rightarrow> evid \<Rightarrow> ('f, 'd) events" where
  "mark s e = (if has_flag s e EVENT_F_ENABLED then set_flags s e EVENT_F_RUNNING
               else clear_flags s e EVENT_F_RUNNING)"

fun mark_time :: "clock \<Rightarrow> evid list \<Rightarrow> ('f, 'd) events \<Rightarrow> int option \<Rightarrow> int option \<times> ('f, 'd) events" where
  "mark_time gtod [] s nexttime = (nexttime, s)"
| "mark_time gtod (e # es) s nexttime =
     (if has_flag s e EVENT_F_ENABLED then
        let (ago, s) = time_ago gtod s (fire (evs s e));
            diff = (if - ago < 5 then 0 else - ago);
            nexttime = (case nexttime of None \<Rightarrow> Some diff
                        | Some n \<Rightarrow> Some (if diff < n then diff else n))
        in mark_time gtod es (mark s e) nexttime
      else mark_time gtod es (mark s e) nexttime)"

fun mark_always :: "evid list \<Rightarrow> ('f, 'd) events \<Rightarrow> int option \<Rightarrow> int option \<times> ('f, 'd) events" where
  "mark_always [] s nexttime = (nexttime, s)"
| "mark_always (e # es) s nexttime =
     mark_always es (mark s e) (if has_flag s e EVENT_F_ENABLED then Some 0 else nexttime)"

definition mark_fd :: "evid list \<Rightarrow> ('f, 'd) events \<Rightarrow> ('f, 'd) events" where
  "mark_fd es s = foldl mark s es"

text \<open>The result of \<^verbatim>\<open>select\<close>: its value and the two descriptor sets it leaves.\<close>

record sel =
  ret :: int
  rfds :: "int \<Rightarrow> bool"
  wfds :: "int \<Rightarrow> bool"

definition strip_all :: "('f, 'd) events \<Rightarrow> ('f, 'd) events" where
  "strip_all s =
     (let s = s\<lparr>time_event_list := strip_events s (time_event_list s)\<rparr>;
          s = s\<lparr>fd_event_list := strip_events s (fd_event_list s)\<rparr>
      in s\<lparr>always_event_list := strip_events s (always_event_list s)\<rparr>)"

definition mark_all :: "clock \<Rightarrow> ('f, 'd) events \<Rightarrow> int option \<times> ('f, 'd) events" where
  "mark_all gtod s =
     (let (n, s) = mark_time gtod (time_event_list s) s None;
          (n, s) = mark_always (always_event_list s) s n
      in (n, mark_fd (fd_event_list s) s))"

definition loop_pass :: "clock \<Rightarrow> ('f, 'd, 'w) callback \<Rightarrow> (int option \<Rightarrow> sel) \<Rightarrow> ('f, 'd) events \<Rightarrow> 'w \<Rightarrow> ('f, 'd, 'w) run res" where
  "loop_pass gtod cb select s w =
     (let (nexttime, s) = mark_all gtod s; r = select nexttime in
      rbind (dispatch gtod cb (time_step gtod) (time_event_list s) s w) (\<lambda>(t1, s, w).
      rbind (dispatch gtod cb always_step (always_event_list s) s w) (\<lambda>(t2, s, w).
      rbind (if ret r > 0 then dispatch gtod cb (fd_step (rfds r) (wfds r)) (fd_event_list s) s w
             else Inr ([], s, w)) (\<lambda>(t3, s, w).
      Inr (t1 @ t2 @ t3, strip_all s, w)))))"

text \<open>\<open>event_loop\<close>: one function from the timeout to the result of \<^verbatim>\<open>select\<close> per pass. The result is the run up to
  the end of the loop, or up to the end of the list when the loop is still running there.\<close>

fun loop_from :: "clock \<Rightarrow> ('f, 'd, 'w) callback \<Rightarrow> (int option \<Rightarrow> sel) list \<Rightarrow> bool \<Rightarrow> ('f, 'd) events \<Rightarrow> 'w \<Rightarrow> ('f, 'd, 'w) run res" where
  "loop_from gtod cb [] single s w = Inr ([], s, w)"
| "loop_from gtod cb (sl # sels) single s w =
     rbind (loop_pass gtod cb sl s w) (\<lambda>(tr, s, w).
       if \<not> end_loop s \<and> \<not> single
       then rbind (loop_from gtod cb sels single s w) (\<lambda>(tr', s, w). Inr (tr @ tr', s, w))
       else Inr (tr, s, w))"

definition event_loop :: "clock \<Rightarrow> ('f, 'd, 'w) callback \<Rightarrow> (int option \<Rightarrow> sel) list \<Rightarrow> bool \<Rightarrow> ('f, 'd) events \<Rightarrow> 'w \<Rightarrow> ('f, 'd, 'w) run res" where
  "event_loop gtod cb sels single s w = loop_from gtod cb sels single (s\<lparr>end_loop := False\<rparr>) w"

section \<open>Flags\<close>

lemma has_flag_bits:
  "has_flag s e EVENT_F_ENABLED \<longleftrightarrow> bit (eflags (evs s e)) 0"
  "has_flag s e EVENT_F_REMOVE \<longleftrightarrow> bit (eflags (evs s e)) 1"
  "has_flag s e EVENT_F_ONESHOT \<longleftrightarrow> bit (eflags (evs s e)) 2"
  "has_flag s e EVENT_F_RUNNING \<longleftrightarrow> bit (eflags (evs s e)) 3"
proof -
  have *: "x AND push_bit n 1 \<noteq> 0 \<longleftrightarrow> bit x n" for x :: u32 and n
    by (metis and_exp_eq_0_iff_not_bit push_bit_of_1)
  show "has_flag s e EVENT_F_ENABLED \<longleftrightarrow> bit (eflags (evs s e)) 0" 
    "has_flag s e EVENT_F_REMOVE \<longleftrightarrow> bit (eflags (evs s e)) 1"
    "has_flag s e EVENT_F_ONESHOT \<longleftrightarrow> bit (eflags (evs s e)) 2"
    "has_flag s e EVENT_F_RUNNING \<longleftrightarrow> bit (eflags (evs s e)) 3"
    using * [of _ 0] * [of _ 1] * [of _ 2] * [of _ 3]
    by (simp_all add: has_flag_def push_bit_eq_mult)
qed

lemma flag_consts [simp]:
  "bit (1 :: u32) 0" "\<not> bit (1 :: u32) 1" "\<not> bit (1 :: u32) 2" "\<not> bit (1 :: u32) 3"
  "\<not> bit (2 :: u32) 0" "bit (2 :: u32) 1" "\<not> bit (2 :: u32) 2" "\<not> bit (2 :: u32) 3"
  "\<not> bit (4 :: u32) 0" "\<not> bit (4 :: u32) 1" "bit (4 :: u32) 2" "\<not> bit (4 :: u32) 3"
  "\<not> bit (8 :: u32) 0" "\<not> bit (8 :: u32) 1" "\<not> bit (8 :: u32) 2" "bit (8 :: u32) 3"
  by (simp_all add: bit_numeral_word_iff bit_1_iff)

section \<open>What the operations leave alone\<close>

lemma upd_frame [simp]:
  "x \<noteq> e \<Longrightarrow> evs (upd s x f) e = evs s e"
  "evs (upd s e f) e = f (evs s e)"
  "time_event_list (upd s x f) = time_event_list s" "fd_event_list (upd s x f) = fd_event_list s"
  "always_event_list (upd s x f) = always_event_list s" "next_id (upd s x f) = next_id s"
  "end_loop (upd s x f) = end_loop s"
  by (simp_all add: upd_def)

lemma time_now_frame [simp]:
  "evs (snd (time_now gtod s)) = evs s" "next_id (snd (time_now gtod s)) = next_id s"
  "time_event_list (snd (time_now gtod s)) = time_event_list s"
  "fd_event_list (snd (time_now gtod s)) = fd_event_list s"
  "always_event_list (snd (time_now gtod s)) = always_event_list s"
  "end_loop (snd (time_now gtod s)) = end_loop s"
  by (simp_all add: time_now_def)

lemma time_ago_snd [simp]: "snd (time_ago gtod s t) = snd (time_now gtod s)"
  by (simp add: time_ago_def split: prod.split)

lemma time_future_snd [simp]: "snd (time_future gtod s t) = snd (time_now gtod s)"
  by (simp add: time_future_def split: prod.split)

text \<open>Two states that agree on the lists and on every event but \<open>x\<close>.\<close>

definition only :: "evid \<Rightarrow> ('f, 'd) events \<Rightarrow> ('f, 'd) events \<Rightarrow> bool" where
  "only x s s' \<longleftrightarrow> (\<forall>e. e \<noteq> x \<longrightarrow> evs s' e = evs s e) \<and> next_id s' = next_id s \<and>
     time_event_list s' = time_event_list s \<and> fd_event_list s' = fd_event_list s \<and>
     always_event_list s' = always_event_list s"

lemma only_refl [simp, intro]: "only x s s"
  by (simp add: only_def)

lemma only_trans: "only x s s' \<Longrightarrow> only x s' s'' \<Longrightarrow> only x s s''"
  by (simp add: only_def)

lemma only_upd [simp, intro]: "only x s (upd s x f)"
  by (simp add: only_def)

lemma only_flags [simp, intro]: "only x s (set_flags s x fl)" "only x s (clear_flags s x fl)"
  by (simp_all add: set_flags_def clear_flags_def)

lemma only_now [simp, intro]: "only x s (snd (time_now gtod s))"
  by (simp add: only_def)

lemma only_resched [simp, intro]: "only x s (resched_event gtod s x t)"
proof -
  let ?s1 = "case t of Some t \<Rightarrow> upd s x (\<lambda>ev. ev\<lparr>fire := t\<rparr>)
       | None \<Rightarrow> if has_flag s x EVENT_F_ENABLED then upd s x (\<lambda>ev. ev\<lparr>fire := time_add (fire ev) (ival ev)\<rparr>)
           else case time_future gtod s (ival (evs s x)) of (t, s) \<Rightarrow> upd s x (\<lambda>ev. ev\<lparr>fire := t\<rparr>)"
  have "only x s ?s1"
  proof -
    have "only x s (upd s' x f)" if "s' = snd (time_future gtod s i)" for s' f i
      using only_trans [OF only_now only_upd] that by simp
    then show ?thesis by (auto split: option.split prod.split simp: prod_eq_iff)
  qed
  then show ?thesis
    unfolding resched_event_def Let_def by (meson only_flags only_trans)
qed

lemma only_remove [simp, intro]: "only x s (remove_event s x)"
  unfolding remove_event_def by (meson only_flags only_trans)

lemma only_enabled [simp, intro]: "only x s (set_event_enabled s x b)"
  unfolding set_event_enabled_def Let_def by (auto intro: only_trans [OF only_flags(2) only_flags(1)])

lemma only_interval [simp, intro]: "only x s (set_event_interval gtod s x i)"
  unfolding set_event_interval_def Let_def by (auto intro: only_trans [OF only_upd only_resched])

lemma only_mark [simp, intro]: "only x s (mark s x)"
  by (simp add: mark_def)

lemma only_steps [simp, intro]:
  "only x s (snd (time_step gtod x s))" "only x s (snd (always_step x s))" "only x s (snd (fd_step r w x s))"
proof -
  have "only x s (f (snd (time_now gtod s)))" if "\<And>s. only x s (f s)" for f
    using only_trans [OF only_now that] .
  then show "only x s (snd (time_step gtod x s))"
    by (auto simp: time_step_def Let_def split_beta intro: only_trans [OF only_now])
  show "only x s (snd (always_step x s))" "only x s (snd (fd_step r w x s))"
    by (auto simp: always_step_def fd_step_def)
qed

text \<open>What a new event leaves alone: every event allocated before it.\<close>

definition grows :: "('f, 'd) events \<Rightarrow> ('f, 'd) events \<Rightarrow> bool" where
  "grows s s' \<longleftrightarrow> next_id s \<le> next_id s' \<and> (\<forall>e < next_id s. evs s' e = evs s e \<and>
     (e \<in> set (time_event_list s') \<longleftrightarrow> e \<in> set (time_event_list s)) \<and>
     (e \<in> set (fd_event_list s') \<longleftrightarrow> e \<in> set (fd_event_list s)) \<and>
     (e \<in> set (always_event_list s') \<longleftrightarrow> e \<in> set (always_event_list s)))"

lemma grows_new_event: "new_event s f d = (x, s') \<Longrightarrow> grows s s' \<and> x = next_id s"
  by (auto simp: new_event_def grows_def)

lemma grows_only: "grows s s1 \<Longrightarrow> next_id s \<le> x \<Longrightarrow> only x s1 s2 \<Longrightarrow> grows s s2"
  by (auto simp: grows_def only_def)

lemma grows_link:
  "grows s s1 \<Longrightarrow> next_id s \<le> x \<Longrightarrow> grows s (s1\<lparr>time_event_list := x # time_event_list s1\<rparr>)"
  "grows s s1 \<Longrightarrow> next_id s \<le> x \<Longrightarrow> grows s (s1\<lparr>fd_event_list := x # fd_event_list s1\<rparr>)"
  "grows s s1 \<Longrightarrow> next_id s \<le> x \<Longrightarrow> grows s (s1\<lparr>always_event_list := x # always_event_list s1\<rparr>)"
  by (auto simp: grows_def)

lemma adds_grow:
  "grows s (snd (add_timer_event gtod s msec fl f d))" "grows s (snd (add_alarm_event gtod s t fl f d))"
  "grows s (snd (add_fd_event s fd wr fl f d))" "grows s (snd (add_always_event s fl f d))"
proof -
  obtain x s1 where n: "new_event s f d = (x, s1)" by fastforce
  then have g: "grows s s1" and x: "next_id s \<le> x" using grows_new_event by fastforce+
  have u: "grows s (upd s1 x h)" for h using grows_only [OF g x only_upd] .
  have l: "grows s ((upd s1 x h)\<lparr>time_event_list := x # time_event_list s1\<rparr>)" for h
    using grows_link(1) [OF u [of h] x] by simp
  show "grows s (snd (add_alarm_event gtod s t fl f d))"
    using grows_only [OF l x only_resched] by (simp add: add_alarm_event_def n)
  have "grows s (resched_event gtod (upd (snd (time_now gtod ((upd s1 x h)\<lparr>time_event_list := x # time_event_list s1\<rparr>))) x k) x None)" for h k
    using l [of h] x by (meson grows_only only_now only_upd only_resched)
  then show "grows s (snd (add_timer_event gtod s msec fl f d))"
    by (simp add: add_timer_event_def n split_beta Let_def)
  show "grows s (snd (add_fd_event s fd wr fl f d))" "grows s (snd (add_always_event s fl f d))"
    using grows_link(2,3) [OF u x] by (simp_all add: add_fd_event_def add_always_event_def n)
qed

section \<open>A removed event is gone\<close>

definition listed :: "('f, 'd) events \<Rightarrow> evid \<Rightarrow> bool" where
  "listed s e \<longleftrightarrow> e \<in> set (time_event_list s) \<union> set (fd_event_list s) \<union> set (always_event_list s)"

definition gone :: "evid \<Rightarrow> ('f, 'd) events \<Rightarrow> bool" where
  "gone e s \<longleftrightarrow> e < next_id s \<and> \<not> has_flag s e EVENT_F_RUNNING \<and>
     (has_flag s e EVENT_F_REMOVE \<or> \<not> listed s e)"

lemma only_gone: "only x s s' \<Longrightarrow> x \<noteq> e \<Longrightarrow> gone e s' = gone e s"
  by (auto simp: only_def gone_def listed_def has_flag_def)

lemma only_listed: "only x s s' \<Longrightarrow> listed s' = listed s"
  by (auto simp: only_def listed_def fun_eq_iff)

text \<open>The operations that bring an event back.\<close>

fun revives :: "evid \<Rightarrow> ('f, 'd) ev_op \<Rightarrow> bool" where
  "revives e (Resched x t) = (x = e)"
| "revives e (Set_interval x i) = (x = e)"
| "revives e _ = False"

lemma gone_remove: "e < next_id s \<Longrightarrow> gone e (remove_event s e)"
  by (simp add: gone_def has_flag_bits remove_event_def set_flags_def clear_flags_def bit_simps)

lemma gone_set_enabled: "gone e s \<Longrightarrow> gone e (set_event_enabled s e b)"
  by (auto simp: gone_def has_flag_bits set_event_enabled_def set_flags_def clear_flags_def bit_simps listed_def Let_def)

lemma gone_only: "gone e s \<Longrightarrow> x \<noteq> e \<Longrightarrow> only x s s' \<Longrightarrow> gone e s'"
  by (simp add: only_gone)

lemma gone_adds:
  assumes "gone e s"
  shows "gone e (snd (add_timer_event gtod s msec fl f d))" "gone e (snd (add_alarm_event gtod s t fl f d))"
    "gone e (snd (add_fd_event s fd wr fl f d))" "gone e (snd (add_always_event s fl f d))"
proof -
  have *: "gone e s'" if "grows s s'" for s'
    using assms that by (auto simp: gone_def grows_def listed_def has_flag_def)
  show "gone e (snd (add_timer_event gtod s msec fl f d))" "gone e (snd (add_alarm_event gtod s t fl f d))"
    "gone e (snd (add_fd_event s fd wr fl f d))" "gone e (snd (add_always_event s fl f d))"
    by (intro * adds_grow)+
qed

lemma gone_do_op:
  assumes "gone e s" "do_op gtod s op = Inr s'" "\<not> revives e op"
  shows "gone e s'"
  using assms(2,3) assms(1)
proof (cases op)
  case (Remove x)
  then show ?thesis
    using assms gone_remove [of e s] gone_only [OF assms(1) _ only_remove, of x]
    by (cases "x = e") (auto simp: valid_event_def split: if_splits)
next
  case (Set_enabled x b)
  then show ?thesis
    using assms gone_set_enabled [of e s] gone_only [OF assms(1) _ only_enabled, of x]
    by (cases "x = e") (auto simp: valid_event_def split: if_splits)
next
  case Exit_loop
  then show ?thesis using assms by (auto simp: exit_event_loop_def gone_def has_flag_def listed_def)
qed (use assms gone_adds [OF assms(1)] gone_only [OF assms(1) _ only_resched] gone_only [OF assms(1) _ only_interval]
     in \<open>auto simp: valid_event_def split: if_splits\<close>)

text \<open>A monitor of a run: whether \<open>e\<close> is removed and not yet revived, \<open>None\<close> when it fired in between.\<close>

fun watch :: "evid \<Rightarrow> bool \<Rightarrow> ('f, 'd) step list \<Rightarrow> bool option" where
  "watch e dead [] = Some dead"
| "watch e dead (Fired x # tr) = (if dead \<and> x = e then None else watch e dead tr)"
| "watch e dead (Did (Remove x) # tr) = watch e (dead \<or> x = e) tr"
| "watch e dead (Did op # tr) = watch e (dead \<and> \<not> revives e op) tr"

lemma watch_append: "watch e dead (a @ b) = Option.bind (watch e dead a) (\<lambda>dead. watch e dead b)"
  by (induction e dead a rule: watch.induct) auto

lemma watch_never:
  "watch e True tr \<noteq> None \<Longrightarrow> (\<And>op. Did op \<in> set tr \<Longrightarrow> \<not> revives e op) \<Longrightarrow> Fired e \<notin> set tr"
proof (induction tr)
  case (Cons x tr)
  have "watch e True (Did op # tr) = watch e True tr" if "\<not> revives e op" for op
    using that by (cases op) auto
  with Cons show ?case by (cases x) (auto split: if_splits)
qed simp

text \<open>A run is sound when the monitor accepts it and an event the monitor holds removed is gone.\<close>

definition sound :: "evid \<Rightarrow> (bool \<Rightarrow> ('f, 'd) events \<Rightarrow> bool) \<Rightarrow> bool \<Rightarrow> ('f, 'd, 'w) run \<Rightarrow> bool" where
  "sound e good dead r = (case r of (tr, s, w) \<Rightarrow> \<exists>dead'. watch e dead tr = Some dead' \<and> good dead' s)"

abbreviation held :: "evid \<Rightarrow> bool \<Rightarrow> ('f, 'd) events \<Rightarrow> bool" where
  "held e dead s \<equiv> dead \<longrightarrow> gone e s"

lemma do_ops_sound:
  "held e dead s \<Longrightarrow> do_ops gtod s ops = Inr (tr, s') \<Longrightarrow> sound e (held e) dead (tr, s', w)"
proof (induction ops arbitrary: s dead tr)
  case (Cons op ops)
  from Cons.prems(2) obtain s1 tr1 where s1: "do_op gtod s op = Inr s1" "do_ops gtod s1 ops = Inr (tr1, s')"
      "tr = Did op # tr1"
    by (auto simp: rbind_def split: sum.splits)
  let ?dead = "if \<exists>x. op = Remove x then dead \<or> op = Remove e else dead \<and> \<not> revives e op"
  have w: "watch e dead tr = watch e ?dead tr1" using s1(3) by (cases op) auto
  have "held e ?dead s1"
  proof (cases "op = Remove e")
    case True
    then show ?thesis using s1(1) gone_remove by (auto simp: valid_event_def split: if_splits)
  next
    case False
    then show ?thesis using gone_do_op [OF _ s1(1)] Cons.prems(1) by (cases op) auto
  qed
  from Cons.IH [OF this s1(2)] w show ?case by (simp add: sound_def)
qed (simp add: sound_def)

lemma call_func_sound:
  assumes "held e dead s" "\<not> (dead \<and> x = e)" "call_func gtod cb x s w = Inr r"
  shows "sound e (held e) dead r"
proof -
  obtain ops w1 where c: "cb (func (evs s x)) (data (evs s x)) x s w = (ops, w1)" by fastforce
  with assms(3) obtain tr s1 where "do_ops gtod s ops = Inr (tr, s1)" "r = (Fired x # tr, s1, w1)"
    by (auto simp: call_func_def rbind_def split: sum.splits)
  then show ?thesis using do_ops_sound [OF assms(1), of gtod ops tr s1 w1] assms(2) by (auto simp: sound_def)
qed

lemma sound_append:
  assumes "sound e good dead (tr, s, w)" "\<And>dead'. good dead' s \<Longrightarrow> sound e good' dead' (tr', s', w')"
  shows "sound e good' dead (tr @ tr', s', w')"
  using assms by (fastforce simp: sound_def watch_append)

lemma dispatch_sound:
  assumes step: "\<And>x s. only x s (snd (step x s))"
  shows "held e dead s \<Longrightarrow> dispatch gtod cb step es s w = Inr r \<Longrightarrow> sound e (held e) dead r"
proof (induction es arbitrary: dead s w r)
  case (Cons x es)
  show ?case
  proof (cases "has_flag s x EVENT_F_RUNNING \<and> \<not> end_loop s")
    case False
    then show ?thesis using Cons.prems Cons.IH [OF Cons.prems(1)] by (auto simp: sound_def split: if_splits)
  next
    case True
    obtain fires s1 where st: "step x s = (fires, s1)" by fastforce
    have ne: "\<not> (dead \<and> x = e)" using True Cons.prems(1) by (auto simp: gone_def)
    then have h1: "held e dead s1"
      using Cons.prems(1) only_gone [OF step, of x e s] st by auto
    show ?thesis
    proof (cases fires)
      case False
      then show ?thesis using Cons.prems(2) Cons.IH [OF h1] True st by simp
    next
      case fires: True
      with Cons.prems(2) True st have "rbind (call_func gtod cb x s1 w) (\<lambda>(tr, s, w).
          rbind (dispatch gtod cb step es s w) (\<lambda>(tr', s, w). Inr (tr @ tr', s, w))) = Inr r" by simp
      then obtain tr s2 w2 tr' s3 w3 where
        c: "call_func gtod cb x s1 w = Inr (tr, s2, w2)" and
        d: "dispatch gtod cb step es s2 w2 = Inr (tr', s3, w3)" and r: "r = (tr @ tr', s3, w3)"
        by (auto simp only: rbind_eq_Inr split_paired_Ex prod.case sum.inject)
      show ?thesis
        unfolding r by (rule sound_append [OF call_func_sound [OF h1 ne c]]) (rule Cons.IH [OF _ d])
    qed
  qed
qed (auto simp: sound_def)

text \<open>Between passes an event that is held removed is in no list.\<close>

abbreviation unlisted :: "evid \<Rightarrow> bool \<Rightarrow> ('f, 'd) events \<Rightarrow> bool" where
  "unlisted e dead s \<equiv> dead \<longrightarrow> gone e s \<and> \<not> listed s e"

lemma only_unlisted: "only x s s' \<Longrightarrow> x \<noteq> e \<Longrightarrow> gone e s \<and> \<not> listed s e \<Longrightarrow> gone e s' \<and> \<not> listed s' e"
  by (simp add: only_gone only_listed)

lemma mark_time_unlisted:
  "gone e s \<and> \<not> listed s e \<Longrightarrow> e \<notin> set es \<Longrightarrow> gone e (snd (mark_time gtod es s n)) \<and> \<not> listed (snd (mark_time gtod es s n)) e"
proof (induction es arbitrary: s n)
  case (Cons x es)
  then have "gone e (mark s x) \<and> \<not> listed (mark s x) e"
    "gone e (mark (snd (time_now gtod s)) x) \<and> \<not> listed (mark (snd (time_now gtod s)) x) e"
    by (auto intro!: only_unlisted [OF only_mark] only_unlisted [OF only_now [of x]])
  then show ?case using Cons.IH Cons.prems by (simp add: Let_def split_beta)
qed simp

lemma mark_always_unlisted:
  "gone e s \<and> \<not> listed s e \<Longrightarrow> e \<notin> set es \<Longrightarrow> gone e (snd (mark_always es s n)) \<and> \<not> listed (snd (mark_always es s n)) e"
proof (induction es arbitrary: s n)
  case (Cons x es)
  then have "gone e (mark s x) \<and> \<not> listed (mark s x) e" by (auto intro!: only_unlisted [OF only_mark])
  then show ?case using Cons.IH Cons.prems by simp
qed simp

lemma mark_fd_unlisted:
  "gone e s \<and> \<not> listed s e \<Longrightarrow> e \<notin> set es \<Longrightarrow> gone e (mark_fd es s)"
proof (induction es arbitrary: s)
  case (Cons x es)
  then have "gone e (mark s x) \<and> \<not> listed (mark s x) e" by (auto intro!: only_unlisted [OF only_mark])
  then show ?case using Cons.IH Cons.prems by (simp add: mark_fd_def)
qed (simp add: mark_fd_def)

lemma mark_all_gone:
  assumes "gone e s \<and> \<not> listed s e"
  shows "gone e (snd (mark_all gtod s))"
proof -
  obtain n s1 where 1: "mark_time gtod (time_event_list s) s None = (n, s1)" by fastforce
  obtain m s2 where 2: "mark_always (always_event_list s1) s1 n = (m, s2)" by fastforce
  have "gone e s1 \<and> \<not> listed s1 e"
    using mark_time_unlisted [OF assms, of "time_event_list s" gtod None] assms 1 by (simp add: listed_def)
  then have "gone e s2 \<and> \<not> listed s2 e"
    using mark_always_unlisted [of e s1 "always_event_list s1" n] 2 by (simp add: listed_def)
  then have "gone e (mark_fd (fd_event_list s2) s2)"
    using mark_fd_unlisted by (metis UnCI listed_def)
  then show ?thesis using 1 2 by (simp add: mark_all_def)
qed

lemma strip_all_gone: "gone e s \<Longrightarrow> gone e (strip_all s) \<and> \<not> listed (strip_all s) e"
  by (auto simp: gone_def listed_def strip_all_def strip_events_def has_flag_def Let_def)

lemma loop_pass_sound:
  assumes "unlisted e dead s" "loop_pass gtod cb sl s w = Inr r"
  shows "sound e (unlisted e) dead r"
proof -
  obtain n s0 where m: "mark_all gtod s = (n, s0)" by fastforce
  have h: "held e dead s0" using mark_all_gone [of e s gtod] assms(1) m by auto
  from assms(2) m obtain t1 s1 w1 t2 s2 w2 t3 s3 w3 where
    d1: "dispatch gtod cb (time_step gtod) (time_event_list s0) s0 w = Inr (t1, s1, w1)" and
    d2: "dispatch gtod cb always_step (always_event_list s1) s1 w1 = Inr (t2, s2, w2)" and
    d3: "(if ret (sl n) > 0 then dispatch gtod cb (fd_step (rfds (sl n)) (wfds (sl n))) (fd_event_list s2) s2 w2
          else Inr ([], s2, w2)) = Inr (t3, s3, w3)" and
    r: "r = (t1 @ t2 @ t3, strip_all s3, w3)"
    by (auto simp only: loop_pass_def Let_def rbind_eq_Inr split_paired_Ex prod.case sum.inject)
  have s3: "sound e (held e) dead' (t3, s3, w3)" if "held e dead' s2" for dead'
    using dispatch_sound [OF only_steps(3) that, of gtod cb _ _ _ w2 "(t3, s3, w3)"] d3 that
    by (fastforce simp: sound_def split: if_splits)
  have "sound e (held e) dead (t1 @ t2 @ t3, s3, w3)"
    by (rule sound_append [OF dispatch_sound [OF only_steps(1) h d1]],
        rule sound_append [OF dispatch_sound [OF only_steps(2) _ d2]]) (auto intro: s3)
  then show ?thesis using strip_all_gone by (fastforce simp: r sound_def)
qed

lemma loop_from_sound:
  "unlisted e dead s \<Longrightarrow> loop_from gtod cb sels single s w = Inr r \<Longrightarrow> sound e (unlisted e) dead r"
proof (induction sels arbitrary: dead s w r)
  case (Cons sl sels)
  from Cons.prems(2) obtain tr s1 w1 where p: "loop_pass gtod cb sl s w = Inr (tr, s1, w1)"
    and rest: "(if \<not> end_loop s1 \<and> \<not> single
       then rbind (loop_from gtod cb sels single s1 w1) (\<lambda>(tr', s, w). Inr (tr @ tr', s, w))
       else Inr (tr, s1, w1)) = Inr r"
    by (auto simp only: loop_from.simps rbind_eq_Inr split_paired_Ex prod.case)
  note s1 = loop_pass_sound [OF Cons.prems(1) p]
  show ?case
  proof (cases "\<not> end_loop s1 \<and> \<not> single")
    case True
    with rest obtain tr' s2 w2 where l: "loop_from gtod cb sels single s1 w1 = Inr (tr', s2, w2)"
      and r: "r = (tr @ tr', s2, w2)"
      by (auto simp: rbind_eq_Inr)
    show ?thesis unfolding r by (rule sound_append [OF s1]) (rule Cons.IH [OF _ l])
  next
    case False
    with rest s1 show ?thesis by auto
  qed
qed (auto simp: sound_def)

text \<open>C5. Removing an event is final: in every run of the event loop, for any callbacks, clock and descriptor
  activity, once a callback has called \<open>remove_event\<close> on an event, the event's own callback is never called
  again, in the current pass or in any later one, unless the event is rescheduled (\<open>resched_event\<close> or
  \<open>set_event_interval\<close>) after the removal.\<close>

theorem removed_event_never_fires:
  assumes "event_loop gtod cb sels single s w = Inr (before @ Did (Remove e) # after, s', w')"
    and "\<And>op. Did op \<in> set after \<Longrightarrow> \<not> revives e op"
  shows "Fired e \<notin> set after"
proof -
  have "sound e (unlisted e) False (before @ Did (Remove e) # after, s', w')"
    by (rule loop_from_sound [OF _ assms(1) [unfolded event_loop_def]]) simp
  then have "\<exists>dead. watch e dead (Did (Remove e) # after) \<noteq> None"
    by (auto simp: sound_def watch_append bind_eq_Some_conv simp del: watch.simps)
  then have "watch e True after \<noteq> None" by simp
  then show ?thesis using watch_never assms(2) by blast
qed

text \<open>Two descriptor events are ready in the same pass; the callback of the first removes both.\<close>

definition two_fds :: "(nat, nat) events" where
  "two_fds =
     (let z = \<lparr>tv_sec = 0, tv_usec = 0\<rparr>;
          s = \<lparr>evs = (\<lambda>_. \<lparr>func = 0, data = 0, etype = EVENT_NONE, eflags = 0, fire = z, ival = 0, efd = 0, ewrite = False\<rparr>),
               time_event_list = [], fd_event_list = [], always_event_list = [], end_loop = False,
               next_id = 0, readings = 0\<rparr>;
          (_, s) = add_fd_event s 3 False 0 1 1;
          (_, s) = add_fd_event s 4 False 0 1 1
      in s)"

theorem removed_event_never_fires_witness:
  "\<exists>s' w'. event_loop (\<lambda>_. \<lparr>tv_sec = 0, tv_usec = 0\<rparr>) (\<lambda>f d e s w. ([Remove 0, Remove 1], w + e))
      [\<lambda>_. \<lparr>ret = 2, rfds = (\<lambda>fd. True), wfds = (\<lambda>fd. False)\<rparr>] True two_fds 0 =
      Inr ([Fired 1] @ Did (Remove 0) # [Did (Remove 1)], s', w') \<and> Fired 0 \<notin> set [Did (Remove 1) :: (nat, nat) step]"
proof -
  let ?run = "event_loop (\<lambda>_. \<lparr>tv_sec = 0, tv_usec = 0\<rparr>) (\<lambda>f d e s w. ([Remove 0, Remove 1], w + e))
      [\<lambda>_. \<lparr>ret = 2, rfds = (\<lambda>fd. True), wfds = (\<lambda>fd. False)\<rparr>] True two_fds 0"
  obtain s' w' where r: "?run = Inr ([Fired 1] @ Did (Remove 0) # [Did (Remove 1)], s', w')"
    by (simp add: event_loop_def two_fds_def loop_pass_def mark_all_def mark_fd_def mark_def add_fd_event_def
        new_event_def upd_def has_flag_def set_flags_def fd_step_def call_func_def remove_event_def clear_flags_def
        valid_event_def Let_def)
  from removed_event_never_fires [OF r] have "Fired 0 \<notin> set [Did (Remove 1) :: (nat, nat) step]" by auto
  with r show ?thesis by blast
qed

section \<open>Times\<close>

definition norm_time :: "time_ref \<Rightarrow> bool" where
  "norm_time t \<longleftrightarrow> 0 \<le> tv_usec t \<and> tv_usec t < 1000000"

definition usecs :: "time_ref \<Rightarrow> int" where
  "usecs t = tv_sec t * 1000000 + tv_usec t"

lemma sdiv_nonneg: "0 \<le> (x :: int) \<Longrightarrow> 0 < y \<Longrightarrow> x sdiv y = x div y"
  by (simp add: signed_divide_int_def sgn_if)

lemma smod_nonneg: "0 \<le> (x :: int) \<Longrightarrow> 0 < y \<Longrightarrow> x smod y = x mod y"
  by (simp add: signed_modulo_int_def sgn_if)

lemma s32_id: "- 2147483648 \<le> x \<Longrightarrow> x < 2147483648 \<Longrightarrow> s32 x = x"
  unfolding s32_def by (simp add: signed_take_bit_int_eq_self_iff)

lemma s32_wraps: "s32 (x + k * 4294967296) = s32 x"
proof -
  have "take_bit 32 (x + k * 4294967296) = take_bit 32 x" by (simp add: take_bit_eq_mod)
  then show ?thesis
    unfolding s32_def by (metis Suc_numeral semiring_norm(2) semiring_norm(8) signed_take_bit_eq_iff_take_bit_eq)
qed

lemma s32_diff: "\<exists>k. s32 x = x + k * 4294967296"
proof -
  have "s32 x = x - 4294967296 * ((x + 2147483648) div 4294967296)"
    unfolding s32_def by (simp add: signed_take_bit_eq_take_bit_shift take_bit_eq_mod minus_mult_div_eq_mod [symmetric])
  then show ?thesis by (intro exI [of _ "- ((x + 2147483648) div 4294967296)"]) simp
qed

text \<open>The normalised time that is a number of microseconds after the epoch, its seconds kept in 32 bits.\<close>

definition at_usecs :: "int \<Rightarrow> time_ref" where
  "at_usecs u = \<lparr>tv_sec = s32 (u div 1000000), tv_usec = u mod 1000000\<rparr>"

lemma at_usecs_norm [simp]: "norm_time (at_usecs u)"
  by (simp add: norm_time_def at_usecs_def)

lemma usecs_at_usecs: "\<exists>k. usecs (at_usecs u) = u + k * (4294967296 * 1000000)"
proof -
  obtain k where k: "s32 (u div 1000000) = u div 1000000 + k * 4294967296" using s32_diff by blast
  have "usecs (at_usecs u) = (u div 1000000 * 1000000 + u mod 1000000) + k * (4294967296 * 1000000)"
    by (simp add: usecs_def at_usecs_def k algebra_simps)
  then show ?thesis by (metis div_mult_mod_eq)
qed

lemma at_usecs_wraps: "at_usecs (u + k * (4294967296 * 1000000)) = at_usecs u"
proof -
  have e: "u + k * (4294967296 * 1000000) = u + (k * 4294967296) * 1000000" by simp
  have "(u + k * (4294967296 * 1000000)) div 1000000 = u div 1000000 + k * 4294967296"
    "(u + k * (4294967296 * 1000000)) mod 1000000 = u mod 1000000"
    unfolding e by (simp, simp only: mod_mult_self1)
  then show ?thesis by (simp add: at_usecs_def s32_wraps)
qed

lemma at_usecs_add: "at_usecs (usecs (at_usecs u) + x) = at_usecs (u + x)"
proof -
  obtain k where "usecs (at_usecs u) = u + k * (4294967296 * 1000000)" using usecs_at_usecs by blast
  then have "usecs (at_usecs u) + x = (u + x) + k * (4294967296 * 1000000)" by simp
  then show ?thesis by (simp only: at_usecs_wraps)
qed

lemma time_add_at_usecs:
  assumes "norm_time t" "0 \<le> ms"
  shows "time_add t ms = at_usecs (usecs t + ms * 1000)"
proof -
  define q where "q = ms div 1000"
  define r where "r = ms mod 1000"
  have ms: "ms * 1000 = q * 1000000 + r * 1000"
    using div_mult_mod_eq [of ms 1000] unfolding q_def r_def by linarith
  have million: "(1000000 :: int) \<noteq> 0" by simp
  have r: "0 \<le> r" "r < 1000" by (simp_all add: r_def)
  have u: "0 \<le> tv_usec t" "tv_usec t < 1000000" using assms(1) by (simp_all add: norm_time_def)
  have s: "s32 (tv_usec t + r * 1000) = tv_usec t + r * 1000" using r u by (intro s32_id) simp_all
  have split: "usecs t + ms * 1000 = (tv_sec t + q) * 1000000 + (tv_usec t + r * 1000)"
    by (simp add: usecs_def ms algebra_simps)
  have sms: "ms sdiv 1000 = q" "ms smod 1000 = r"
    using assms(2) by (simp_all add: sdiv_nonneg smod_nonneg q_def r_def)
  show ?thesis
  proof (cases "tv_usec t + r * 1000 \<ge> 1000000")
    case True
    have e: "usecs t + ms * 1000 = (tv_usec t + r * 1000 - 1000000) + (tv_sec t + q + 1) * 1000000"
      by (simp add: split algebra_simps)
    have d: "(usecs t + ms * 1000) div 1000000 = tv_sec t + q + 1"
      "(usecs t + ms * 1000) mod 1000000 = tv_usec t + r * 1000 - 1000000"
      unfolding e div_mult_self1 [OF million] mod_mult_self1 using True r u
      by (simp_all add: mod_pos_pos_trivial del: minus_mod_self2)
    obtain k where "s32 (tv_sec t + q) = tv_sec t + q + k * 4294967296" using s32_diff by blast
    then have "s32 (s32 (tv_sec t + q) + 1) = s32 (tv_sec t + q + 1)"
      using s32_wraps [of "tv_sec t + q + 1" k] by (simp add: algebra_simps)
    then show ?thesis using True s by (simp add: time_add_def Let_def sms at_usecs_def d)
  next
    case False
    have e: "usecs t + ms * 1000 = (tv_usec t + r * 1000) + (tv_sec t + q) * 1000000"
      by (simp add: split algebra_simps)
    have d: "(usecs t + ms * 1000) div 1000000 = tv_sec t + q"
      "(usecs t + ms * 1000) mod 1000000 = tv_usec t + r * 1000"
      unfolding e div_mult_self1 [OF million] mod_mult_self1 using False r u by simp_all
    then show ?thesis using False s by (simp add: time_add_def Let_def sms at_usecs_def d)
  qed
qed

lemma time_diff_usecs: "time_diff a b = s32 (usecs b - usecs a + 500) sdiv 1000"
  by (simp add: time_diff_def usecs_def algebra_simps)

text \<open>C19. \<open>time_add\<close> and \<open>time_diff\<close> agree, in 32-bit arithmetic, for every interval up to 2147483 milliseconds
  (about 35 minutes): adding an interval to a normalised time gives a normalised time that many milliseconds
  later.\<close>

theorem time_diff_time_add:
  assumes "norm_time t" "0 \<le> ms" "ms \<le> 2147483"
  shows "norm_time (time_add t ms) \<and> time_diff t (time_add t ms) = ms"
proof -
  obtain k where k: "usecs (time_add t ms) = usecs t + ms * 1000 + k * (4294967296 * 1000000)"
    using usecs_at_usecs assms by (metis time_add_at_usecs)
  then have "s32 (usecs (time_add t ms) - usecs t + 500) = s32 (ms * 1000 + 500)"
    using s32_wraps [of "ms * 1000 + 500" "k * 1000000"] by (simp add: algebra_simps)
  then have "time_diff t (time_add t ms) = (ms * 1000 + 500) sdiv 1000"
    using assms by (simp add: time_diff_usecs s32_id)
  also have "\<dots> = ms" using assms(2) by (simp add: sdiv_nonneg)
  finally show ?thesis using assms by (simp add: time_add_at_usecs)
qed

theorem time_diff_time_add_witness:
  "let t = \<lparr>tv_sec = 1700000000, tv_usec = 999500\<rparr> in
   time_add t 5000 = \<lparr>tv_sec = 1700000005, tv_usec = 999500\<rparr> \<and> time_diff t (time_add t 5000) = 5000"
  using time_diff_time_add [of "\<lparr>tv_sec = 1700000000, tv_usec = 999500\<rparr>" 5000]
  by (simp add: norm_time_def time_add_def sdiv_nonneg smod_nonneg s32_id Let_def)

section \<open>Periodic timers\<close>

lemma resched_enabled:
  assumes "has_flag s e EVENT_F_ENABLED"
  shows "fire (evs (resched_event gtod s e None) e) = time_add (fire (evs s e)) (ival (evs s e))"
    "ival (evs (resched_event gtod s e None) e) = ival (evs s e)"
    "has_flag (resched_event gtod s e None) e EVENT_F_ENABLED"
    "has_flag (resched_event gtod s e None) e EVENT_F_ONESHOT = has_flag s e EVENT_F_ONESHOT"
  using assms
  by (simp_all add: resched_event_def Let_def set_flags_def clear_flags_def has_flag_bits bit_simps upd_def)

text \<open>The operations that act on an event.\<close>

fun targets :: "evid \<Rightarrow> ('f, 'd) ev_op \<Rightarrow> bool" where
  "targets e (Resched x t) = (x = e)"
| "targets e (Remove x) = (x = e)"
| "targets e (Set_interval x i) = (x = e)"
| "targets e (Set_enabled x b) = (x = e)"
| "targets e _ = False"

text \<open>An enabled periodic timer with interval \<open>iv\<close> that is due \<open>due\<close> microseconds after the epoch.\<close>

definition periodic :: "evid \<Rightarrow> int \<Rightarrow> int \<Rightarrow> ('f, 'd) events \<Rightarrow> bool" where
  "periodic e iv due s \<longleftrightarrow> e < next_id s \<and> e \<notin> set (fd_event_list s) \<and> e \<notin> set (always_event_list s) \<and>
     has_flag s e EVENT_F_ENABLED \<and> \<not> has_flag s e EVENT_F_ONESHOT \<and>
     ival (evs s e) = iv \<and> fire (evs s e) = at_usecs due"

lemma periodic_only: "only x s s' \<Longrightarrow> x \<noteq> e \<Longrightarrow> periodic e iv due s \<Longrightarrow> periodic e iv due s'"
  by (auto simp: only_def periodic_def has_flag_def)

lemma periodic_grows: "grows s s' \<Longrightarrow> periodic e iv due s \<Longrightarrow> periodic e iv due s'"
  by (auto simp: grows_def periodic_def has_flag_def)

lemma periodic_now: "periodic e iv due (snd (time_now gtod s)) = periodic e iv due s"
  by (simp add: periodic_def has_flag_def)

lemma periodic_mark: "periodic e iv due s \<Longrightarrow> periodic e iv due (mark s x)"
proof (cases "x = e")
  case True
  assume "periodic e iv due s"
  then show ?thesis
    using True by (simp add: periodic_def mark_def set_flags_def has_flag_bits bit_simps)
qed (rule periodic_only [OF only_mark])

lemma periodic_resched:
  assumes "0 \<le> iv" "periodic e iv due s"
  shows "periodic e iv (due + iv * 1000) (resched_event gtod s e None)"
proof -
  have "time_add (at_usecs due) iv = at_usecs (due + iv * 1000)"
    using assms(1) by (simp add: time_add_at_usecs at_usecs_add)
  then show ?thesis
    using assms(2) only_resched [of e s gtod None] by (simp add: periodic_def resched_enabled only_def)
qed

lemma periodic_time_step:
  assumes "0 \<le> iv" "periodic e iv due s"
  shows "periodic e iv (if fst (time_step gtod e s) then due + iv * 1000 else due) (snd (time_step gtod e s))"
proof -
  let ?s = "snd (time_now gtod s)"
  have p: "periodic e iv due ?s" using assms(2) by (simp add: periodic_now)
  then have "\<not> has_flag ?s e EVENT_F_ONESHOT" by (simp add: periodic_def)
  then show ?thesis
    using p periodic_resched [OF assms(1) p] by (simp add: time_step_def Let_def split_beta)
qed

lemma periodic_do_op:
  assumes "periodic e iv due s" "do_op gtod s op = Inr s'" "\<not> targets e op"
  shows "periodic e iv due s'"
proof (cases op)
  case Exit_loop
  then show ?thesis using assms by (auto simp: exit_event_loop_def periodic_def has_flag_def)
qed (use assms periodic_grows [OF adds_grow(1) assms(1)] periodic_grows [OF adds_grow(2) assms(1)]
      periodic_grows [OF adds_grow(3) assms(1)] periodic_grows [OF adds_grow(4) assms(1)]
      periodic_only [OF only_resched _ assms(1)] periodic_only [OF only_remove _ assms(1)]
      periodic_only [OF only_interval _ assms(1)] periodic_only [OF only_enabled _ assms(1)]
     in \<open>auto simp: valid_event_def split: if_splits\<close>)

text \<open>A run that leaves the timer alone moves it by one interval per firing.\<close>

definition advances :: "evid \<Rightarrow> int \<Rightarrow> int \<Rightarrow> ('f, 'd, 'w) run \<Rightarrow> bool" where
  "advances e iv due r = (case r of (tr, s, w) \<Rightarrow> (\<forall>op. Did op \<in> set tr \<longrightarrow> \<not> targets e op) \<longrightarrow>
     periodic e iv (due + int (count_list tr (Fired e)) * (iv * 1000)) s)"

lemma advances_append:
  assumes "advances e iv due (tr, s, w)" "\<And>due'. periodic e iv due' s \<Longrightarrow> advances e iv due' (tr', s', w')"
  shows "advances e iv due (tr @ tr', s', w')"
  using assms by (fastforce simp: advances_def algebra_simps)

lemma advances_Nil [simp]: "advances e iv due ([], s, w) = periodic e iv due s"
  by (simp add: advances_def)

lemma do_ops_advances:
  "periodic e iv due s \<Longrightarrow> do_ops gtod s ops = Inr (tr, s') \<Longrightarrow> advances e iv due (tr, s', w)"
proof (induction ops arbitrary: s tr)
  case (Cons op ops)
  from Cons.prems(2) obtain s1 tr1 where s1: "do_op gtod s op = Inr s1" "do_ops gtod s1 ops = Inr (tr1, s')"
      "tr = Did op # tr1"
    by (auto simp: rbind_def split: sum.splits)
  show ?case
  proof (cases "targets e op")
    case False
    then show ?thesis
      using Cons.IH [OF periodic_do_op [OF Cons.prems(1) s1(1)] s1(2)] s1(3) by (simp add: advances_def)
  qed (use s1(3) in \<open>auto simp: advances_def\<close>)
qed simp

lemma call_func_advances:
  assumes "periodic e iv (if x = e then due + iv * 1000 else due) s" "call_func gtod cb x s w = Inr r"
  shows "advances e iv due r"
proof -
  obtain ops w1 where c: "cb (func (evs s x)) (data (evs s x)) x s w = (ops, w1)" by fastforce
  with assms(2) obtain tr s1 where d: "do_ops gtod s ops = Inr (tr, s1)" and r: "r = (Fired x # tr, s1, w1)"
    by (auto simp: call_func_def rbind_def split: sum.splits)
  show ?thesis
    using do_ops_advances [OF assms(1) d, of w1] by (auto simp: r advances_def algebra_simps split: if_splits)
qed

lemma dispatch_advances:
  assumes only: "\<And>x s. only x s (snd (step x s))"
    and own: "\<And>due s. periodic e iv due s \<Longrightarrow> e \<in> set es \<Longrightarrow>
      periodic e iv (if fst (step e s) then due + iv * 1000 else due) (snd (step e s))"
  shows "periodic e iv due s \<Longrightarrow> dispatch gtod cb step es s w = Inr r \<Longrightarrow> advances e iv due r"
  using own
proof (induction es arbitrary: due s w r)
  case (Cons x es)
  have IH: "periodic e iv due s \<Longrightarrow> dispatch gtod cb step es s w = Inr r \<Longrightarrow> advances e iv due r" for due s w r
    using Cons.IH Cons.prems(3) by simp
  show ?case
  proof (cases "has_flag s x EVENT_F_RUNNING \<and> \<not> end_loop s")
    case False
    then show ?thesis using Cons.prems(1,2) IH [OF Cons.prems(1)] by (auto split: if_splits)
  next
    case True
    obtain fires s1 where st: "step x s = (fires, s1)" by fastforce
    have p: "periodic e iv (if x = e \<and> fires then due + iv * 1000 else due) s1"
      using periodic_only [OF only _ Cons.prems(1), of x] Cons.prems(3) [OF Cons.prems(1)] st
      by (cases "x = e") auto
    show ?thesis
    proof (cases fires)
      case False
      then show ?thesis using Cons.prems(2) IH [of due s1 w r] p True st by simp
    next
      case fires: True
      with Cons.prems(2) True st have "rbind (call_func gtod cb x s1 w) (\<lambda>(tr, s, w).
          rbind (dispatch gtod cb step es s w) (\<lambda>(tr', s, w). Inr (tr @ tr', s, w))) = Inr r" by simp
      then obtain tr s2 w2 tr' s3 w3 where
        c: "call_func gtod cb x s1 w = Inr (tr, s2, w2)" and
        d: "dispatch gtod cb step es s2 w2 = Inr (tr', s3, w3)" and r: "r = (tr @ tr', s3, w3)"
        by (auto simp only: rbind_eq_Inr split_paired_Ex prod.case sum.inject)
      have "periodic e iv (if x = e then due + iv * 1000 else due) s1" using p fires by simp
      from call_func_advances [OF this c] show ?thesis
        unfolding r by (rule advances_append) (rule IH [OF _ d])
    qed
  qed
qed auto

lemma mark_time_periodic: "periodic e iv due s \<Longrightarrow> periodic e iv due (snd (mark_time gtod es s n))"
proof (induction es arbitrary: s n)
  case (Cons x es)
  then have "periodic e iv due (mark (snd (time_now gtod s)) x)" "periodic e iv due (mark s x)"
    by (simp_all add: periodic_mark periodic_now)
  then show ?case using Cons.IH by (simp add: Let_def split_beta)
qed simp

lemma mark_all_periodic:
  assumes "periodic e iv due s"
  shows "periodic e iv due (snd (mark_all gtod s))"
proof -
  have always: "periodic e iv due s \<Longrightarrow> periodic e iv due (snd (mark_always es s n))" for es n and s :: "('a, 'b) events"
    by (induction es arbitrary: s n) (simp_all add: periodic_mark)
  have fd: "periodic e iv due s \<Longrightarrow> periodic e iv due (mark_fd es s)" for es and s :: "('a, 'b) events"
    unfolding mark_fd_def by (induction es arbitrary: s) (simp_all add: periodic_mark)
  show ?thesis
    using fd [OF always [OF mark_time_periodic [OF assms]]] by (simp add: mark_all_def Let_def split_beta)
qed

lemma strip_all_periodic: "periodic e iv due s \<Longrightarrow> periodic e iv due (strip_all s)"
  by (simp add: periodic_def strip_all_def strip_events_def has_flag_def Let_def)

lemma loop_pass_advances:
  assumes "0 \<le> iv" "periodic e iv due s" "loop_pass gtod cb sl s w = Inr r"
  shows "advances e iv due r"
proof -
  obtain n s0 where m: "mark_all gtod s = (n, s0)" by fastforce
  have p0: "periodic e iv due s0" using mark_all_periodic [OF assms(2), of gtod] m by simp
  from assms(3) m obtain t1 s1 w1 t2 s2 w2 t3 s3 w3 where
    d1: "dispatch gtod cb (time_step gtod) (time_event_list s0) s0 w = Inr (t1, s1, w1)" and
    d2: "dispatch gtod cb always_step (always_event_list s1) s1 w1 = Inr (t2, s2, w2)" and
    d3: "(if ret (sl n) > 0 then dispatch gtod cb (fd_step (rfds (sl n)) (wfds (sl n))) (fd_event_list s2) s2 w2
          else Inr ([], s2, w2)) = Inr (t3, s3, w3)" and
    r: "r = (t1 @ t2 @ t3, strip_all s3, w3)"
    by (auto simp only: loop_pass_def Let_def rbind_eq_Inr split_paired_Ex prod.case sum.inject)
  have 2: "advances e iv due' (t2, s2, w2)" if "periodic e iv due' s1" for due'
    by (rule dispatch_advances [OF only_steps(2) _ that d2]) (use that in \<open>simp add: periodic_def\<close>)
  have 3: "advances e iv due' (t3, s3, w3)" if "periodic e iv due' s2" for due'
  proof (cases "ret (sl n) > 0")
    case True
    have d3': "dispatch gtod cb (fd_step (rfds (sl n)) (wfds (sl n))) (fd_event_list s2) s2 w2 = Inr (t3, s3, w3)"
      using d3 True by simp
    show ?thesis
      by (rule dispatch_advances [OF only_steps(3) _ that d3']) (use that in \<open>simp add: periodic_def\<close>)
  qed (use d3 that in simp)
  have "advances e iv due (t1 @ t2 @ t3, s3, w3)"
    by (rule advances_append [OF dispatch_advances [OF only_steps(1) periodic_time_step [OF assms(1)] p0 d1]],
        assumption, rule advances_append [OF 2], assumption, rule 3)
  then show ?thesis by (auto simp: r advances_def strip_all_periodic)
qed

lemma loop_from_advances:
  assumes "0 \<le> iv"
  shows "periodic e iv due s \<Longrightarrow> loop_from gtod cb sels single s w = Inr r \<Longrightarrow> advances e iv due r"
proof (induction sels arbitrary: due s w r)
  case (Cons sl sels)
  from Cons.prems(2) obtain tr s1 w1 where p: "loop_pass gtod cb sl s w = Inr (tr, s1, w1)"
    and rest: "(if \<not> end_loop s1 \<and> \<not> single
       then rbind (loop_from gtod cb sels single s1 w1) (\<lambda>(tr', s, w). Inr (tr @ tr', s, w))
       else Inr (tr, s1, w1)) = Inr r"
    by (auto simp only: loop_from.simps rbind_eq_Inr split_paired_Ex prod.case)
  note s1 = loop_pass_advances [OF assms Cons.prems(1) p]
  show ?case
  proof (cases "\<not> end_loop s1 \<and> \<not> single")
    case True
    with rest obtain tr' s2 w2 where l: "loop_from gtod cb sels single s1 w1 = Inr (tr', s2, w2)"
      and r: "r = (tr @ tr', s2, w2)"
      by (auto simp: rbind_eq_Inr)
    show ?thesis unfolding r by (rule advances_append [OF s1]) (rule Cons.IH [OF _ l])
  next
    case False
    with rest s1 show ?thesis by auto
  qed
qed auto

text \<open>C20. A periodic timer does not drift. Take any run of the event loop, with any clock, callbacks and descriptor
  activity, in which no callback reschedules, removes, enables or disables the timer. Every firing of the timer
  moves its due time by exactly one interval from the previous due time, however late the loop got round to it:
  after a run in which the timer fired n times it is due n intervals after it was due at first, its seconds
  taken modulo 2^32 as the 32-bit \<^verbatim>\<open>time_t\<close> keeps them, and it is still enabled and periodic.\<close>

theorem timer_no_drift:
  assumes "event_loop gtod cb sels single s w = Inr (tr, s', w')"
    and "periodic e iv due s" and "0 \<le> iv" and "\<And>op. Did op \<in> set tr \<Longrightarrow> \<not> targets e op"
  shows "periodic e iv (due + int (count_list tr (Fired e)) * (iv * 1000)) s'"
proof -
  have "periodic e iv due (s\<lparr>end_loop := False\<rparr>)" using assms(2) by (simp add: periodic_def has_flag_def)
  from loop_from_advances [OF assms(3) this assms(1) [unfolded event_loop_def]]
  show ?thesis using assms(4) by (simp add: advances_def)
qed

text \<open>A timer of five seconds, due at 10.9 seconds, whose loop runs late: two passes read the clock at 12 and at 17
  seconds.\<close>

definition one_timer :: "(nat, nat) events" where
  "one_timer = two_fds\<lparr>time_event_list := [0], fd_event_list := [],
     evs := (evs two_fds)(0 := (evs two_fds 0)\<lparr>fire := at_usecs 10900000, ival := 5000\<rparr>)\<rparr>"

definition late_clock :: clock where
  "late_clock k = \<lparr>tv_sec = (if k < 2 then 12 else 17), tv_usec = 0\<rparr>"

theorem timer_no_drift_witness:
  "\<exists>s' w'. event_loop late_clock (\<lambda>f d e s w. ([], w + 1)) [\<lambda>_. \<lparr>ret = 0, rfds = (\<lambda>fd. False), wfds = (\<lambda>fd. False)\<rparr>,
       \<lambda>_. \<lparr>ret = 0, rfds = (\<lambda>fd. False), wfds = (\<lambda>fd. False)\<rparr>] False one_timer (0 :: nat) = Inr ([Fired 0, Fired 0], s', w') \<and>
     fire (evs s' 0) = \<lparr>tv_sec = 20, tv_usec = 900000\<rparr>"
proof -
  have s: "s32 10 = 10" "s32 15 = 15" "s32 16 = 16" "s32 20 = 20" "s32 21 = 21" "s32 900000 = 900000" "s32 (- 1099500) = - 1099500"
    "s32 1100500 = 1100500" "s32 1099500 = 1099500" by (simp_all add: s32_id)
  have p: "periodic 0 5000 10900000 one_timer"
    by (simp add: periodic_def one_timer_def two_fds_def add_fd_event_def new_event_def upd_def has_flag_def Let_def)
  let ?run = "event_loop late_clock (\<lambda>f d e s w. ([], w + 1)) [\<lambda>_. \<lparr>ret = 0, rfds = (\<lambda>fd. False), wfds = (\<lambda>fd. False)\<rparr>,
       \<lambda>_. \<lparr>ret = 0, rfds = (\<lambda>fd. False), wfds = (\<lambda>fd. False)\<rparr>] False one_timer (0 :: nat)"
  obtain s' w' where r: "?run = Inr ([Fired 0, Fired 0], s', w')"
    by (simp add: event_loop_def one_timer_def two_fds_def loop_pass_def mark_all_def mark_fd_def mark_def add_fd_event_def
        new_event_def upd_def has_flag_def set_flags_def clear_flags_def time_step_def time_ago_def time_now_def resched_event_def
        time_add_def time_diff_def at_usecs_def late_clock_def strip_all_def strip_events_def
        call_func_def sdiv_nonneg smod_nonneg s signed_divide_int_def Let_def)
  have "periodic 0 5000 (10900000 + 2 * (5000 * 1000)) s'"
    using timer_no_drift [OF r p] by simp
  with r show ?thesis by (auto simp: periodic_def at_usecs_def s)
qed

section \<open>How long a pass sleeps\<close>

definition wait_of :: "time_ref \<Rightarrow> ('f, 'd) event \<Rightarrow> int" where
  "wait_of now ev = (let diff = - time_diff (fire ev) now in if diff < 5 then 0 else diff)"

lemma mark_keeps:
  "has_flag (mark s x) e EVENT_F_ENABLED = has_flag s e EVENT_F_ENABLED" "fire (evs (mark s x) e) = fire (evs s e)"
  by (cases "x = e"; simp add: mark_def set_flags_def clear_flags_def has_flag_bits bit_simps upd_def)+

definition min_opt :: "int set \<Rightarrow> int option" where
  "min_opt W = (if W = {} then None else Some (Min W))"

lemma Min_insert_min:
  "finite X \<Longrightarrow> Min (insert (min a b) X) = Min (insert a (insert b X))" for a b :: int
  by (cases "X = {}") (simp_all add: min.assoc)

text \<open>The waits of the enabled timers, in the order of the list: the clock is read anew for each of them.\<close>

fun waits :: "clock \<Rightarrow> nat \<Rightarrow> ('f, 'd) event list \<Rightarrow> int list" where
  "waits gtod k [] = []"
| "waits gtod k (ev # es) = wait_of (gtod k) ev # waits gtod (Suc k) es"

definition timer_waits :: "clock \<Rightarrow> ('f, 'd) events \<Rightarrow> int list" where
  "timer_waits gtod s =
     waits gtod (readings s) (map (evs s) (filter (\<lambda>e. has_flag s e EVENT_F_ENABLED) (time_event_list s)))"

lemma waits_Nil: "waits gtod k es = [] \<longleftrightarrow> es = []"
  by (cases es) simp_all

lemma waits_same_fire: "map fire es = map fire es' \<Longrightarrow> waits gtod k es = waits gtod k es'"
proof (induction es arbitrary: es' k)
  case (Cons x es)
  then show ?case by (cases es') (auto simp: wait_of_def)
qed simp

lemma mark_time_wait:
  "fst (mark_time gtod es s n) =
     min_opt (set (waits gtod (readings s) (map (evs s) (filter (\<lambda>e. has_flag s e EVENT_F_ENABLED) es))) \<union> set_option n)"
proof (induction es arbitrary: s n)
  case Nil
  then show ?case by (cases n) (simp_all add: min_opt_def)
next
  case (Cons x es)
  let ?en = "\<lambda>s. filter (\<lambda>e. has_flag s e EVENT_F_ENABLED) es"
  have en: "?en (mark s' x) = ?en s'" "waits gtod k (map (evs (mark s' x)) es') = waits gtod k (map (evs s') es')"
    for s' :: "('a, 'b) events" and k es'
    by (auto simp: mark_keeps comp_def intro!: waits_same_fire)
  have rd: "readings (mark s' x) = readings s'" for s' :: "('a, 'b) events"
    by (simp add: mark_def set_flags_def clear_flags_def upd_def)
  show ?case
  proof (cases "has_flag s x EVENT_F_ENABLED")
    case False
    then show ?thesis using Cons.IH [of "mark s x" n] by (simp add: en rd)
  next
    case True
    let ?s1 = "snd (time_now gtod s)"
    let ?W = "set (waits gtod (Suc (readings s)) (map (evs s) (?en s)))"
    let ?w = "wait_of (gtod (readings s)) (evs s x)"
    let ?n = "case n of None \<Rightarrow> Some ?w | Some m \<Rightarrow> Some (if ?w < m then ?w else m)"
    have s1: "?en ?s1 = ?en s" "readings ?s1 = Suc (readings s)" by (simp_all add: has_flag_def time_now_def)
    have "fst (mark_time gtod (x # es) s n) = fst (mark_time gtod es (mark ?s1 x) ?n)"
      using True by (cases n) (auto simp: time_ago_def time_now_def wait_of_def Let_def)
    also have "\<dots> = min_opt (?W \<union> set_option ?n)"
      using Cons.IH [of "mark ?s1 x" ?n] by (simp add: en rd s1)
    also have "\<dots> = min_opt (insert ?w ?W \<union> set_option n)"
    proof (cases n)
      case (Some m)
      have "Min (insert (min ?w m) ?W) = Min (insert ?w (insert m ?W))"
        by (rule Min_insert_min) simp
      moreover have "(if ?w < m then ?w else m) = min ?w m" by simp
      ultimately show ?thesis using Some by (simp add: min_opt_def insert_commute)
    qed (simp add: min_opt_def insert_commute)
    finally show ?thesis using True by simp
  qed
qed

lemma mark_time_enabled:
  "has_flag (snd (mark_time gtod es s n)) e EVENT_F_ENABLED = has_flag s e EVENT_F_ENABLED \<and>
   always_event_list (snd (mark_time gtod es s n)) = always_event_list s"
proof (induction es arbitrary: s n)
  case (Cons x es)
  have "has_flag (mark (snd (time_now gtod s)) x) e EVENT_F_ENABLED = has_flag s e EVENT_F_ENABLED"
    unfolding mark_keeps by (simp add: has_flag_def)
  moreover have "always_event_list (mark s x) = always_event_list s" for s :: "('a, 'b) events"
    using only_mark [of x s] by (simp add: only_def)
  ultimately show ?case using Cons by (simp add: Let_def split_beta mark_keeps)
qed simp

lemma mark_always_wait:
  "fst (mark_always es s n) = (if \<exists>e \<in> set es. has_flag s e EVENT_F_ENABLED then Some 0 else n)"
  by (induction es arbitrary: s n) (auto simp: mark_keeps)

text \<open>C18. How long a pass sleeps, for any clock: the timeout given to \<^verbatim>\<open>select\<close> is 0 when an always event is
  enabled; otherwise it is the smallest wait of the enabled timers, where the wait of a timer is the time (as
  \<open>time_diff\<close> computes it in 32 bits) from the clock reading taken for that timer to its due time, or 0 when that is
  less than 5 milliseconds; and there is no timeout when nothing is enabled.\<close>

theorem select_timeout:
  "fst (mark_all gtod s) =
     (if \<exists>e \<in> set (always_event_list s). has_flag s e EVENT_F_ENABLED then Some 0
      else if \<nexists>e. e \<in> set (time_event_list s) \<and> has_flag s e EVENT_F_ENABLED then None
      else Some (Min (set (timer_waits gtod s))))"
proof -
  obtain n s1 where 1: "mark_time gtod (time_event_list s) s None = (n, s1)" by fastforce
  then have n: "n = min_opt (set (timer_waits gtod s))"
    using mark_time_wait [of gtod "time_event_list s" s None] by (simp add: timer_waits_def)
  have e: "timer_waits gtod s = [] \<longleftrightarrow> (\<nexists>e. e \<in> set (time_event_list s) \<and> has_flag s e EVENT_F_ENABLED)"
    unfolding timer_waits_def waits_Nil by (simp add: filter_empty_conv Ball_def)
  have "fst (mark_all gtod s) = fst (mark_always (always_event_list s1) s1 n)"
    using 1 by (simp add: mark_all_def split_beta Let_def)
  also have "\<dots> = (if \<exists>e \<in> set (always_event_list s). has_flag s e EVENT_F_ENABLED then Some 0 else n)"
    using mark_time_enabled [of gtod "time_event_list s" s None] 1 by (simp add: mark_always_wait)
  finally show ?thesis using e by (simp add: n min_opt_def)
qed

end
