(* ===== verification/Md5.thy ===== *)
theory Md5
  imports Prelude
begin

text \<open>
  The MD5 implementation (\<^verbatim>\<open>md5.c\<close>, \<^verbatim>\<open>md5.h\<close>): \<open>MD5Init\<close>, \<open>MD5Update\<close>, \<open>MD5Final\<close> over a
  context of four chaining words, a 64-bit bit count kept as two 32-bit words, and a 64-byte
  input block. The reference is RFC 1321: pad the message, cut it into 64-byte blocks, run
  the table-driven compression function over them. The theorems show that the unrolled
  \<open>MD5Transform\<close> is the compression function of the RFC, and that a message hashed in any
  number of \<open>MD5Update\<close> chunks has the digest of its concatenation.

  The target is little-endian (\<^verbatim>\<open>byteReverse\<close> is empty there), so the bytes of the input block
  read as words least significant byte first.
\<close>

unbundle bit_operations_syntax

section \<open>The implementation\<close>

record MD5Context =
  buf :: "u32 list"
  bits0 :: u32
  bits1 :: u32
  inb :: "byte list"

text \<open>The four core functions; \<open>F1\<close> is the optimised form used by the source.\<close>

definition F1 :: "u32 \<Rightarrow> u32 \<Rightarrow> u32 \<Rightarrow> u32" where
  "F1 x y z = z XOR (x AND (y XOR z))"

definition F2 :: "u32 \<Rightarrow> u32 \<Rightarrow> u32 \<Rightarrow> u32" where
  "F2 x y z = F1 z x y"

definition F3 :: "u32 \<Rightarrow> u32 \<Rightarrow> u32 \<Rightarrow> u32" where
  "F3 x y z = x XOR y XOR z"

definition F4 :: "u32 \<Rightarrow> u32 \<Rightarrow> u32 \<Rightarrow> u32" where
  "F4 x y z = y XOR (x OR NOT z)"

definition MD5STEP :: "(u32 \<Rightarrow> u32 \<Rightarrow> u32 \<Rightarrow> u32) \<Rightarrow> u32 \<Rightarrow> u32 \<Rightarrow> u32 \<Rightarrow> u32 \<Rightarrow> u32 \<Rightarrow> nat \<Rightarrow> u32" where
  "MD5STEP f w x y z data s =
     (let w = w + (f x y z + data);
          w = push_bit s w OR drop_bit (32 - s) w
      in w + x)"

text \<open>
  \<open>MD5Transform\<close> is a straight-line list of 64 \<^verbatim>\<open>MD5STEP\<close> statements on the registers
  \<^verbatim>\<open>a\<close>, \<^verbatim>\<open>b\<close>, \<^verbatim>\<open>c\<close>, \<^verbatim>\<open>d\<close>. The statements are kept as data, line by line: function, the four
  registers in the order of the macro's arguments, index of the input word, constant, shift.
\<close>

datatype reg = A | B | C | D

datatype corefn = CF1 | CF2 | CF3 | CF4

fun corefn_of :: "corefn \<Rightarrow> u32 \<Rightarrow> u32 \<Rightarrow> u32 \<Rightarrow> u32" where
  "corefn_of CF1 = F1"
| "corefn_of CF2 = F2"
| "corefn_of CF3 = F3"
| "corefn_of CF4 = F4"

type_synonym stmt = "corefn \<times> reg \<times> reg \<times> reg \<times> reg \<times> nat \<times> u32 \<times> nat"

type_synonym quad = "u32 \<times> u32 \<times> u32 \<times> u32"

fun rget :: "quad \<Rightarrow> reg \<Rightarrow> u32" where
  "rget (a, b, c, d) A = a"
| "rget (a, b, c, d) B = b"
| "rget (a, b, c, d) C = c"
| "rget (a, b, c, d) D = d"

fun rset :: "quad \<Rightarrow> reg \<Rightarrow> u32 \<Rightarrow> quad" where
  "rset (a, b, c, d) A v = (v, b, c, d)"
| "rset (a, b, c, d) B v = (a, v, c, d)"
| "rset (a, b, c, d) C v = (a, b, v, d)"
| "rset (a, b, c, d) D v = (a, b, c, v)"

definition exec :: "u32 list \<Rightarrow> quad \<Rightarrow> stmt \<Rightarrow> quad" where
  "exec inp r st = (case st of (f, w, x, y, z, i, k, s) \<Rightarrow>
     rset r w (MD5STEP (corefn_of f) (rget r w) (rget r x) (rget r y) (rget r z) (inp ! i + k) s))"

definition transform_code :: "stmt list" where
  "transform_code = [
    (CF1, A, B, C, D, 0, 0xd76aa478, 7),
    (CF1, D, A, B, C, 1, 0xe8c7b756, 12),
    (CF1, C, D, A, B, 2, 0x242070db, 17),
    (CF1, B, C, D, A, 3, 0xc1bdceee, 22),
    (CF1, A, B, C, D, 4, 0xf57c0faf, 7),
    (CF1, D, A, B, C, 5, 0x4787c62a, 12),
    (CF1, C, D, A, B, 6, 0xa8304613, 17),
    (CF1, B, C, D, A, 7, 0xfd469501, 22),
    (CF1, A, B, C, D, 8, 0x698098d8, 7),
    (CF1, D, A, B, C, 9, 0x8b44f7af, 12),
    (CF1, C, D, A, B, 10, 0xffff5bb1, 17),
    (CF1, B, C, D, A, 11, 0x895cd7be, 22),
    (CF1, A, B, C, D, 12, 0x6b901122, 7),
    (CF1, D, A, B, C, 13, 0xfd987193, 12),
    (CF1, C, D, A, B, 14, 0xa679438e, 17),
    (CF1, B, C, D, A, 15, 0x49b40821, 22),

    (CF2, A, B, C, D, 1, 0xf61e2562, 5),
    (CF2, D, A, B, C, 6, 0xc040b340, 9),
    (CF2, C, D, A, B, 11, 0x265e5a51, 14),
    (CF2, B, C, D, A, 0, 0xe9b6c7aa, 20),
    (CF2, A, B, C, D, 5, 0xd62f105d, 5),
    (CF2, D, A, B, C, 10, 0x02441453, 9),
    (CF2, C, D, A, B, 15, 0xd8a1e681, 14),
    (CF2, B, C, D, A, 4, 0xe7d3fbc8, 20),
    (CF2, A, B, C, D, 9, 0x21e1cde6, 5),
    (CF2, D, A, B, C, 14, 0xc33707d6, 9),
    (CF2, C, D, A, B, 3, 0xf4d50d87, 14),
    (CF2, B, C, D, A, 8, 0x455a14ed, 20),
    (CF2, A, B, C, D, 13, 0xa9e3e905, 5),
    (CF2, D, A, B, C, 2, 0xfcefa3f8, 9),
    (CF2, C, D, A, B, 7, 0x676f02d9, 14),
    (CF2, B, C, D, A, 12, 0x8d2a4c8a, 20),

    (CF3, A, B, C, D, 5, 0xfffa3942, 4),
    (CF3, D, A, B, C, 8, 0x8771f681, 11),
    (CF3, C, D, A, B, 11, 0x6d9d6122, 16),
    (CF3, B, C, D, A, 14, 0xfde5380c, 23),
    (CF3, A, B, C, D, 1, 0xa4beea44, 4),
    (CF3, D, A, B, C, 4, 0x4bdecfa9, 11),
    (CF3, C, D, A, B, 7, 0xf6bb4b60, 16),
    (CF3, B, C, D, A, 10, 0xbebfbc70, 23),
    (CF3, A, B, C, D, 13, 0x289b7ec6, 4),
    (CF3, D, A, B, C, 0, 0xeaa127fa, 11),
    (CF3, C, D, A, B, 3, 0xd4ef3085, 16),
    (CF3, B, C, D, A, 6, 0x04881d05, 23),
    (CF3, A, B, C, D, 9, 0xd9d4d039, 4),
    (CF3, D, A, B, C, 12, 0xe6db99e5, 11),
    (CF3, C, D, A, B, 15, 0x1fa27cf8, 16),
    (CF3, B, C, D, A, 2, 0xc4ac5665, 23),

    (CF4, A, B, C, D, 0, 0xf4292244, 6),
    (CF4, D, A, B, C, 7, 0x432aff97, 10),
    (CF4, C, D, A, B, 14, 0xab9423a7, 15),
    (CF4, B, C, D, A, 5, 0xfc93a039, 21),
    (CF4, A, B, C, D, 12, 0x655b59c3, 6),
    (CF4, D, A, B, C, 3, 0x8f0ccc92, 10),
    (CF4, C, D, A, B, 10, 0xffeff47d, 15),
    (CF4, B, C, D, A, 1, 0x85845dd1, 21),
    (CF4, A, B, C, D, 8, 0x6fa87e4f, 6),
    (CF4, D, A, B, C, 15, 0xfe2ce6e0, 10),
    (CF4, C, D, A, B, 6, 0xa3014314, 15),
    (CF4, B, C, D, A, 13, 0x4e0811a1, 21),
    (CF4, A, B, C, D, 4, 0xf7537e82, 6),
    (CF4, D, A, B, C, 11, 0xbd3af235, 10),
    (CF4, C, D, A, B, 2, 0x2ad7d2bb, 15),
    (CF4, B, C, D, A, 9, 0xeb86d391, 21)]"

definition MD5Transform :: "u32 list \<Rightarrow> u32 list \<Rightarrow> u32 list" where
  "MD5Transform bf inp =
     (case foldl (exec inp) (bf ! 0, bf ! 1, bf ! 2, bf ! 3) transform_code of (a, b, c, d) \<Rightarrow>
        [bf ! 0 + a, bf ! 1 + b, bf ! 2 + c, bf ! 3 + d])"

text \<open>The cast \<^verbatim>\<open>(u32 *) ctx->in\<close> on a little-endian machine, and the one back to bytes.\<close>

definition le32 :: "byte list \<Rightarrow> u32" where
  "le32 bs = ucast (bs ! 0) OR push_bit 8 (ucast (bs ! 1))
             OR push_bit 16 (ucast (bs ! 2)) OR push_bit 24 (ucast (bs ! 3))"

definition le_words :: "byte list \<Rightarrow> u32 list" where
  "le_words bs = map (\<lambda>i. le32 (take 4 (drop (4 * i) bs))) [0..<length bs div 4]"

definition bytes_le32 :: "u32 \<Rightarrow> byte list" where
  "bytes_le32 w = [ucast w, ucast (drop_bit 8 w), ucast (drop_bit 16 w), ucast (drop_bit 24 w)]"

definition MD5Init :: "MD5Context \<Rightarrow> MD5Context" where
  "MD5Init ctx = ctx\<lparr>buf := [0x67452301, 0xefcdab89, 0x98badcfe, 0x10325476],
                     bits0 := 0, bits1 := 0\<rparr>"

text \<open>\<^verbatim>\<open>memcpy(dst + o, src, n)\<close> with \<open>n = length src\<close>, inside a block of bytes.\<close>

definition memcpy_at :: "byte list \<Rightarrow> nat \<Rightarrow> byte list \<Rightarrow> byte list" where
  "memcpy_at dst off src = take off dst @ src @ drop (off + length src) dst"

text \<open>The \<^verbatim>\<open>while (len >= 64)\<close> loop and the copy of the remaining bytes.\<close>

function update_blocks :: "MD5Context \<Rightarrow> byte list \<Rightarrow> MD5Context" where
  "update_blocks ctx bs =
     (if length bs \<ge> 64
      then update_blocks
             (ctx\<lparr>inb := memcpy_at (inb ctx) 0 (take 64 bs),
                  buf := MD5Transform (buf ctx) (le_words (memcpy_at (inb ctx) 0 (take 64 bs)))\<rparr>)
             (drop 64 bs)
      else ctx\<lparr>inb := memcpy_at (inb ctx) 0 bs\<rparr>)"
  by pat_completeness auto
termination
  by (relation "measure (\<lambda>(ctx, bs). length bs)") auto

declare update_blocks.simps [simp del]

definition MD5Update :: "MD5Context \<Rightarrow> byte list \<Rightarrow> MD5Context" where
  "MD5Update ctx bs =
     (let len = (of_nat (length bs) :: u32);
          t = bits0 ctx;
          ctx = ctx\<lparr>bits0 := t + push_bit 3 len\<rparr>;
          ctx = (if bits0 ctx < t then ctx\<lparr>bits1 := bits1 ctx + 1\<rparr> else ctx);
          ctx = ctx\<lparr>bits1 := bits1 ctx + drop_bit 29 len\<rparr>;
          t = unat (drop_bit 3 t AND 0x3f)
      in if t \<noteq> 0
         then (if length bs < 64 - t
               then ctx\<lparr>inb := memcpy_at (inb ctx) t bs\<rparr>
               else let inb' = memcpy_at (inb ctx) t (take (64 - t) bs);
                        ctx = ctx\<lparr>inb := inb', buf := MD5Transform (buf ctx) (le_words inb')\<rparr>
                    in update_blocks ctx (drop (64 - t) bs))
         else update_blocks ctx bs)"

text \<open>
  \<open>MD5Final\<close> returns the digest and the context it leaves behind: the closing
  \<^verbatim>\<open>memset(ctx, 0, sizeof(ctx))\<close> clears \<^verbatim>\<open>sizeof(ctx)\<close> bytes, the size of the pointer, which is
  the first chaining word on the 32-bit target.
\<close>

definition MD5Final :: "MD5Context \<Rightarrow> byte list \<times> MD5Context" where
  "MD5Final ctx =
     (let count = unat (drop_bit 3 (bits0 ctx) AND 0x3F);
          blk = (inb ctx)[count := 0x80];
          p = count + 1;
          count = 64 - 1 - count;
          (bf, blk) =
            (if count < 8
             then let blk = memcpy_at blk p (replicate count 0)
                  in (MD5Transform (buf ctx) (le_words blk), memcpy_at blk 0 (replicate 56 0))
             else (buf ctx, memcpy_at blk p (replicate (count - 8) 0)));
          blk = memcpy_at blk 56 (bytes_le32 (bits0 ctx));
          blk = memcpy_at blk 60 (bytes_le32 (bits1 ctx));
          bf = MD5Transform bf (le_words blk)
      in (concat (map bytes_le32 bf), ctx\<lparr>inb := blk, buf := bf[0 := 0]\<rparr>))"

section \<open>The reference: RFC 1321\<close>

definition rfc_fun :: "nat \<Rightarrow> u32 \<Rightarrow> u32 \<Rightarrow> u32 \<Rightarrow> u32" where
  "rfc_fun r x y z =
     (if r = 0 then (x AND y) OR (NOT x AND z)
      else if r = 1 then (x AND z) OR (y AND NOT z)
      else if r = 2 then x XOR y XOR z
      else y XOR (x OR NOT z))"

definition rfc_index :: "nat \<Rightarrow> nat" where
  "rfc_index i =
     (if i < 16 then i
      else if i < 32 then (5 * i + 1) mod 16
      else if i < 48 then (3 * i + 5) mod 16
      else (7 * i) mod 16)"

definition rfc_shift :: "nat \<Rightarrow> nat" where
  "rfc_shift i =
     [[7, 12, 17, 22], [5, 9, 14, 20], [4, 11, 16, 23], [6, 10, 15, 21]] ! (i div 16) ! (i mod 4)"

definition rfc_T :: "u32 list" where
  "rfc_T = [
    0xd76aa478, 0xe8c7b756, 0x242070db, 0xc1bdceee, 0xf57c0faf, 0x4787c62a, 0xa8304613, 0xfd469501,
    0x698098d8, 0x8b44f7af, 0xffff5bb1, 0x895cd7be, 0x6b901122, 0xfd987193, 0xa679438e, 0x49b40821,
    0xf61e2562, 0xc040b340, 0x265e5a51, 0xe9b6c7aa, 0xd62f105d, 0x02441453, 0xd8a1e681, 0xe7d3fbc8,
    0x21e1cde6, 0xc33707d6, 0xf4d50d87, 0x455a14ed, 0xa9e3e905, 0xfcefa3f8, 0x676f02d9, 0x8d2a4c8a,
    0xfffa3942, 0x8771f681, 0x6d9d6122, 0xfde5380c, 0xa4beea44, 0x4bdecfa9, 0xf6bb4b60, 0xbebfbc70,
    0x289b7ec6, 0xeaa127fa, 0xd4ef3085, 0x04881d05, 0xd9d4d039, 0xe6db99e5, 0x1fa27cf8, 0xc4ac5665,
    0xf4292244, 0x432aff97, 0xab9423a7, 0xfc93a039, 0x655b59c3, 0x8f0ccc92, 0xffeff47d, 0x85845dd1,
    0x6fa87e4f, 0xfe2ce6e0, 0xa3014314, 0x4e0811a1, 0xf7537e82, 0xbd3af235, 0x2ad7d2bb, 0xeb86d391]"

definition rfc_step :: "u32 list \<Rightarrow> quad \<Rightarrow> nat \<Rightarrow> quad" where
  "rfc_step X st i = (case st of (a, b, c, d) \<Rightarrow>
     (d,
      b + word_rotl (rfc_shift i)
            (a + rfc_fun (i div 16) b c d + X ! rfc_index i + rfc_T ! i),
      b, c))"

definition rfc_compress :: "u32 list \<Rightarrow> byte list \<Rightarrow> u32 list" where
  "rfc_compress h blk =
     (case foldl (rfc_step (le_words blk)) (h ! 0, h ! 1, h ! 2, h ! 3) [0..<64] of (a, b, c, d) \<Rightarrow>
        [h ! 0 + a, h ! 1 + b, h ! 2 + c, h ! 3 + d])"

function blocks64 :: "byte list \<Rightarrow> byte list list" where
  "blocks64 bs = (if length bs \<ge> 64 then take 64 bs # blocks64 (drop 64 bs) else [])"
  by pat_completeness auto
termination
  by (relation "measure length") auto

declare blocks64.simps [simp del]

definition rfc_pad :: "byte list \<Rightarrow> byte list" where
  "rfc_pad m = m @ [0x80] @ replicate ((119 - length m mod 64) mod 64) 0
               @ bytes_le32 (of_nat (8 * length m)) @ bytes_le32 (of_int (8 * int (length m) div 2 ^ 32))"

definition rfc_init :: "u32 list" where
  "rfc_init = [0x67452301, 0xefcdab89, 0x98badcfe, 0x10325476]"

definition md5_rfc :: "byte list \<Rightarrow> byte list" where
  "md5_rfc m = concat (map bytes_le32 (foldl rfc_compress rfc_init (blocks64 (rfc_pad m))))"

section \<open>The unrolled transform is the compression function\<close>

lemma core_functions [simp]:
  "F1 = rfc_fun 0" "F2 = rfc_fun 1" "F3 = rfc_fun 2" "F4 = rfc_fun 3"
proof -
  show "F1 = rfc_fun 0"
    by (intro ext, rule bit_eqI) (auto simp: F1_def rfc_fun_def bit_simps)
  show "F2 = rfc_fun 1"
    by (intro ext, rule bit_eqI) (auto simp: F2_def F1_def rfc_fun_def bit_simps)
qed (auto simp: F3_def F4_def rfc_fun_def fun_eq_iff)

lemma rotl_shifts:
  assumes "0 < s" "s < 32"
  shows "push_bit s w OR drop_bit (32 - s) w = word_rotl s (w :: u32)"
proof (rule bit_eqI)
  fix n
  assume "possible_bit TYPE(u32) n"
  then have n: "n < 32" by (simp add: possible_bit_word)
  have R: "bit (word_rotl s w) n \<longleftrightarrow> bit w ((n + (32 - s)) mod 32)"
    using n assms by (simp add: bit_word_rotl_iff)
  have L: "bit (push_bit s w OR drop_bit (32 - s) w) n
             \<longleftrightarrow> s \<le> n \<and> bit w (n - s) \<or> bit w (32 - s + n)"
    using n by (simp add: bit_simps)
  show "bit (push_bit s w OR drop_bit (32 - s) w) n \<longleftrightarrow> bit (word_rotl s w) n"
  proof (cases "s \<le> n")
    case True
    then have "n + (32 - s) = n - s + 32"
      using assms by simp
    then have "(n + (32 - s)) mod 32 = n - s"
      using n by (simp only: mod_add_self2) simp
    moreover have "\<not> bit w (32 - s + n)"
      using True assms by (auto dest: bit_imp_le_length)
    ultimately show ?thesis using True unfolding L R by simp
  next
    case False
    then have "(n + (32 - s)) mod 32 = 32 - s + n"
      using assms by simp
    with False show ?thesis unfolding L R by simp
  qed
qed

text \<open>Four consecutive statements of the source, and the four RFC steps they implement.\<close>

definition quad_code :: "nat \<Rightarrow> stmt list" where
  "quad_code j =
     (let f = [CF1, CF2, CF3, CF4] ! (j div 4);
          op = (\<lambda>i. (rfc_index i, rfc_T ! i, rfc_shift i))
      in [(f, A, B, C, D, op (4 * j)), (f, D, A, B, C, op (4 * j + 1)),
          (f, C, D, A, B, op (4 * j + 2)), (f, B, C, D, A, op (4 * j + 3))])"

lemma transform_code_quads: "transform_code = concat (map quad_code [0..<16])"
  by code_simp

lemma rfc_shift_bounds: "i < 64 \<Longrightarrow> 0 < rfc_shift i \<and> rfc_shift i < 32"
proof -
  have "\<forall>i < 64. 0 < rfc_shift i \<and> rfc_shift i < 32" by code_simp
  then show "i < 64 \<Longrightarrow> 0 < rfc_shift i \<and> rfc_shift i < 32" by blast
qed

lemma corefn_of_round: "r < 4 \<Longrightarrow> corefn_of ([CF1, CF2, CF3, CF4] ! r) = rfc_fun r"
  by (auto simp: less_Suc_eq numeral_eq_Suc)

lemma MD5STEP_rfc:
  "0 < s \<Longrightarrow> s < 32 \<Longrightarrow>
   MD5STEP f w x y z (X + k) s = x + word_rotl s (w + f x y z + X + k)"
  by (simp add: MD5STEP_def Let_def rotl_shifts ac_simps)

lemma quad_step:
  assumes "j < 16"
  shows "foldl (exec X) st (quad_code j) = foldl (rfc_step X) st [4 * j..<4 * j + 4]"
proof -
  obtain a b c d where st: "st = (a, b, c, d)" by (cases st)
  have upt: "[4 * j..<4 * j + 4] = [4 * j, 4 * j + 1, 4 * j + 2, 4 * j + 3]"
    by (simp add: upt_rec)
  have rnd: "corefn_of ([CF1, CF2, CF3, CF4] ! (j div 4)) = rfc_fun (j div 4)"
    using assms by (intro corefn_of_round) simp
  have dv: "4 * j div 16 = j div 4" "(4 * j + 1) div 16 = j div 4"
    "(4 * j + 2) div 16 = j div 4" "(4 * j + 3) div 16 = j div 4"
    by auto
  have sh: "0 < rfc_shift (4 * j)" "rfc_shift (4 * j) < 32"
    "0 < rfc_shift (4 * j + 1)" "rfc_shift (4 * j + 1) < 32"
    "0 < rfc_shift (4 * j + 2)" "rfc_shift (4 * j + 2) < 32"
    "0 < rfc_shift (4 * j + 3)" "rfc_shift (4 * j + 3) < 32"
    using assms rfc_shift_bounds by auto
  show ?thesis
    unfolding st upt quad_code_def Let_def
    by (simp only: foldl.simps exec_def rfc_step_def prod.case rget.simps rset.simps rnd dv
        MD5STEP_rfc sh)
qed

lemma foldl_concat_quads:
  "(\<And>st. foldl f st (quad_code j) = foldl g st [4 * j..<4 * j + 4]) \<Longrightarrow>
   foldl f st (xs @ quad_code j) = foldl g (foldl f st xs) [4 * j..<4 * j + 4]"
  by simp

lemma transform_steps: "foldl (exec X) st transform_code = foldl (rfc_step X) st [0..<64]"
proof -
  have "n \<le> 16 \<Longrightarrow>
    foldl (exec X) st (concat (map quad_code [0..<n])) = foldl (rfc_step X) st [0..<4 * n]" for n
  proof (induction n)
    case 0
    show ?case by simp
  next
    case (Suc n)
    have "[0..<4 * Suc n] = [0..<4 * n] @ [4 * n..<4 * n + 4]"
      using upt_add_eq_append [of 0 "4 * n" 4] by (simp add: add.commute)
    with Suc show ?case by (simp add: quad_step)
  qed
  from this [of 16] show ?thesis by (simp add: transform_code_quads)
qed

lemma MD5Transform_eq: "MD5Transform h (le_words blk) = rfc_compress h blk"
  by (simp only: MD5Transform_def rfc_compress_def transform_steps)

section \<open>Hashing in chunks\<close>

lemma length_memcpy_at [simp]:
  "off + length src \<le> length dst \<Longrightarrow> length (memcpy_at dst off src) = length dst"
  by (simp add: memcpy_at_def)

lemma take_memcpy_at: "off \<le> length dst \<Longrightarrow>
  take (off + length src) (memcpy_at dst off src) = take off dst @ src"
  by (simp add: memcpy_at_def)

lemma memcpy_at_full: "off + length src = length dst \<Longrightarrow> memcpy_at dst off src = take off dst @ src"
  by (simp add: memcpy_at_def)

lemma blocks64_short: "length bs < 64 \<Longrightarrow> blocks64 bs = []"
  by (subst blocks64.simps) simp

lemma blocks64_long: "64 \<le> length bs \<Longrightarrow> blocks64 bs = take 64 bs # blocks64 (drop 64 bs)"
  by (subst blocks64.simps) simp

lemma blocks64_append:
  "length xs mod 64 = 0 \<Longrightarrow> blocks64 (xs @ ys) = blocks64 xs @ blocks64 ys"
proof (induction xs rule: blocks64.induct)
  case (1 xs)
  show ?case
  proof (cases "64 \<le> length xs")
    case True
    with "1.prems" have "length (drop 64 xs) mod 64 = 0"
      by (simp add: le_mod_geq)
    with "1.IH" True show ?thesis by (simp add: blocks64_long)
  next
    case False
    with "1.prems" have "xs = []" by simp
    then show ?thesis by (simp add: blocks64_short)
  qed
qed

lemma blocks64_full:
  "length xs = 64 \<Longrightarrow> blocks64 (xs @ ys) = xs # blocks64 ys"
  by (simp add: blocks64_long)

definition run :: "byte list \<Rightarrow> u32 list" where
  "run m = foldl rfc_compress rfc_init (blocks64 m)"

text \<open>What a context says about the message hashed so far.\<close>

definition ctx_data :: "MD5Context \<Rightarrow> byte list \<Rightarrow> bool" where
  "ctx_data ctx m \<longleftrightarrow>
     length (inb ctx) = 64 \<and>
     buf ctx = run m \<and>
     take (length m mod 64) (inb ctx) = drop (64 * (length m div 64)) m"

definition ctx_of :: "MD5Context \<Rightarrow> byte list \<Rightarrow> bool" where
  "ctx_of ctx m \<longleftrightarrow>
     ctx_data ctx m \<and>
     unat (bits0 ctx) + 2 ^ 32 * unat (bits1 ctx) = (8 * length m) mod 2 ^ 64"

lemma update_blocks_spec:
  assumes "length (inb ctx) = 64"
  shows "length (inb (update_blocks ctx bs)) = 64 \<and>
         buf (update_blocks ctx bs) = foldl rfc_compress (buf ctx) (blocks64 bs) \<and>
         take (length bs mod 64) (inb (update_blocks ctx bs)) = drop (64 * (length bs div 64)) bs \<and>
         bits0 (update_blocks ctx bs) = bits0 ctx \<and> bits1 (update_blocks ctx bs) = bits1 ctx"
  using assms
proof (induction ctx bs rule: update_blocks.induct)
  case (1 ctx bs)
  show ?case
  proof (cases "64 \<le> length bs")
    case True
    have len: "length bs mod 64 = length (drop 64 bs) mod 64"
      "length bs div 64 = Suc (length (drop 64 bs) div 64)"
      using True by (simp_all add: le_mod_geq le_div_geq)
    have "memcpy_at (inb ctx) 0 (take 64 bs) = take 64 bs"
      using True "1.prems" by (simp add: memcpy_at_def)
    with "1.IH" [OF True] True show ?thesis
      unfolding len
      by (simp add: update_blocks.simps [of ctx bs] blocks64_long MD5Transform_eq add.commute)
  next
    case False
    with "1.prems" show ?thesis
      by (simp add: update_blocks.simps [of ctx bs] blocks64_short memcpy_at_def)
  qed
qed

lemma unat_push_bit_3: "unat (push_bit 3 (l :: u32)) = 8 * unat l mod 2 ^ 32"
  by (simp add: push_bit_eq_mult unat_word_ariths mult.commute)

lemma mod_64_split:
  "a < 2 ^ 32 \<Longrightarrow> (a + 2 ^ 32 * b) mod 2 ^ 64 = a + 2 ^ 32 * (b mod 2 ^ 32)" for a b :: nat
  using mod_mult2_eq [of "a + 2 ^ 32 * b" "2 ^ 32" "2 ^ 32"] by simp

lemma bit_count_step:
  fixes t l b1 :: u32
  defines "n0 \<equiv> t + push_bit 3 l"
  shows "unat n0 + 2 ^ 32 * unat ((if n0 < t then b1 + 1 else b1) + drop_bit 29 l)
         = (unat t + 2 ^ 32 * unat b1 + 8 * unat l) mod 2 ^ 64"
proof -
  define q where "q = 8 * unat l mod 2 ^ 32"
  define h where "h = unat l div 2 ^ 29"
  define cy :: nat where "cy = (if n0 < t then 1 else 0)"
  have q: "q < 2 ^ 32" by (simp add: q_def)
  have t: "unat t < 2 ^ 32" by (rule unat_u32)
  have split: "8 * unat l = q + 2 ^ 32 * h"
    using mult_div_mod_eq [of "2 ^ 32" "8 * unat l"] div_mult2_eq [of "8 * unat l" 8 "2 ^ 29"]
    by (simp add: q_def h_def)
  have n0: "unat n0 = (unat t + q) mod 2 ^ 32"
    by (simp add: n0_def unat_word_ariths unat_push_bit_3 q_def)
  have cy: "unat t + q = unat n0 + 2 ^ 32 * cy"
  proof (cases "unat t + q < 2 ^ 32")
    case True
    then have "unat n0 = unat t + q" by (simp add: n0)
    then show ?thesis by (simp add: cy_def word_less_nat_alt)
  next
    case False
    then have "unat n0 = unat t + q - 2 ^ 32"
      using q t by (simp add: n0 mod_if)
    then show ?thesis using False q by (simp add: cy_def word_less_nat_alt)
  qed
  have b: "unat ((if n0 < t then b1 + 1 else b1) + drop_bit 29 l) = (unat b1 + cy + h) mod 2 ^ 32"
    by (simp add: cy_def h_def unat_word_ariths unat_drop_bit_eq drop_bit_eq_div mod_simps)
  have "(unat t + 2 ^ 32 * unat b1 + 8 * unat l) = unat n0 + 2 ^ 32 * (unat b1 + cy + h)"
    using cy split by (simp add: algebra_simps)
  also have "\<dots> mod 2 ^ 64 = unat n0 + 2 ^ 32 * ((unat b1 + cy + h) mod 2 ^ 32)"
  proof -
    have "unat n0 < 2 ^ 32" by (rule unat_u32)
    then show ?thesis by (rule mod_64_split)
  qed
  finally show ?thesis by (simp add: b)
qed

lemma of_nat_mod_word32: "(of_nat (x mod 2 ^ 32) :: u32) = of_nat x"
  by (rule word_unat_eq_iff [THEN iffD2]) (simp add: unat_of_nat take_bit_eq_mod)

lemma ctx_of_bits0: "ctx_of ctx m \<Longrightarrow> unat (bits0 ctx) = 8 * length m mod 2 ^ 32"
proof -
  assume "ctx_of ctx m"
  then have "(unat (bits0 ctx) + 2 ^ 32 * unat (bits1 ctx)) mod 2 ^ 32 = 8 * length m mod 2 ^ 64 mod 2 ^ 32"
    by (simp only: ctx_of_def)
  moreover have "unat (bits0 ctx) < 2 ^ 32" by (rule unat_u32)
  ultimately show ?thesis by (simp add: mod_mod_cancel)
qed

lemma ctx_of_offset:
  assumes "ctx_of ctx m"
  shows "unat (drop_bit 3 (bits0 ctx) AND 0x3f) = length m mod 64"
proof -
  have "drop_bit 3 (bits0 ctx) AND 0x3f = take_bit 6 (drop_bit 3 (bits0 ctx))"
    by (simp add: take_bit_eq_mask mask_eq_exp_minus_1)
  then have "unat (drop_bit 3 (bits0 ctx) AND 0x3f) = 8 * length m mod 2 ^ 32 div 8 mod 64"
    by (simp only: unsigned_take_bit_eq unat_drop_bit_eq ctx_of_bits0 [OF assms])
       (simp add: take_bit_eq_mod drop_bit_eq_div)
  also have "\<dots> = length m mod 64"
  proof -
    have "8 * length m mod 2 ^ 32 = 8 * (length m mod 2 ^ 29)"
      by (simp add: mult_mod_right)
    then show ?thesis by (simp add: mod_mod_cancel)
  qed
  finally show ?thesis .
qed

lemma run_append_full:
  "length m mod 64 = 0 \<Longrightarrow> run (m @ bs) = foldl rfc_compress (run m) (blocks64 bs)"
  by (simp add: run_def blocks64_append)

text \<open>Only whole blocks count: a tail shorter than a block does not change the chaining value.\<close>

lemma run_tail: "run m = run (take (64 * (length m div 64)) m)"
proof -
  let ?k = "64 * (length m div 64)"
  have "length (drop ?k m) = length m mod 64"
    by (simp add: minus_mult_div_eq_mod)
  then have "blocks64 (drop ?k m) = []"
    by (intro blocks64_short) (metis mod_less_divisor zero_less_numeral)
  moreover have "blocks64 (take ?k m @ drop ?k m) = blocks64 (take ?k m) @ blocks64 (drop ?k m)"
    by (rule blocks64_append) (simp add: min_absorb2)
  ultimately show ?thesis by (simp add: run_def)
qed

lemma div_mod_64_short:
  assumes "a mod 64 + b < (64 :: nat)"
  shows "(a + b) div 64 = a div 64" "(a + b) mod 64 = a mod 64 + b"
  using assms mod_add_left_eq [of a 64 b] by (simp_all add: div_add1_eq [of a b])

lemma div_mod_64_full:
  assumes "a mod 64 = (0 :: nat)"
  shows "(a + b) div 64 = a div 64 + b div 64" "(a + b) mod 64 = b mod 64" "64 * (a div 64) = a"
  using assms mod_add_left_eq [of a 64 b] by (auto simp: div_add1_eq [of a b])

lemma run_short_tail:
  "length m mod 64 + length bs < 64 \<Longrightarrow> run (m @ bs) = run m"
proof -
  assume *: "length m mod 64 + length bs < 64"
  then have "(length m + length bs) div 64 = length m div 64"
    by (rule div_mod_64_short)
  then show ?thesis
    using run_tail [of "m @ bs"] run_tail [of m] by simp
qed

lemma ctx_data_update_blocks:
  assumes "length (inb ctx) = 64" "buf ctx = run m" "length m mod 64 = 0"
  shows "ctx_data (update_blocks ctx bs) (m @ bs)"
proof -
  note div = div_mod_64_full [OF assms(3)]
  have "drop (64 * ((length m + length bs) div 64)) (m @ bs) = drop (64 * (length bs div 64)) bs"
    by (simp add: div)
  then show ?thesis
    using update_blocks_spec [OF assms(1), of bs] assms
    by (simp add: ctx_data_def run_append_full div)
qed

lemma ctx_data_fill:
  assumes "ctx_data ctx m" "length m mod 64 + length bs < 64"
  shows "ctx_data (ctx\<lparr>inb := memcpy_at (inb ctx) (length m mod 64) bs\<rparr>) (m @ bs)"
proof -
  note div = div_mod_64_short [OF assms(2)]
  show ?thesis
    using assms
    by (simp add: ctx_data_def memcpy_at_def div run_short_tail minus_mult_div_eq_mod)
qed

lemma run_complete_block:
  assumes "ctx_data ctx m" "length m mod 64 \<noteq> 0" "length bs = 64 - length m mod 64"
  shows "run (m @ bs) = rfc_compress (run m) (memcpy_at (inb ctx) (length m mod 64) bs)"
    and "length (m @ bs) mod 64 = 0"
proof -
  let ?k = "64 * (length m div 64)"
  have k: "length (take ?k m) mod 64 = 0" "?k \<le> length m"
    by (simp_all add: min_absorb2)
  have m: "m @ bs = take ?k m @ (drop ?k m @ bs)" by simp
  have blk: "memcpy_at (inb ctx) (length m mod 64) bs = drop ?k m @ bs"
    using assms by (simp add: ctx_data_def memcpy_at_def)
  have "length (drop ?k m @ bs) = 64"
    using assms(3) by (simp add: minus_mult_div_eq_mod)
  then have "blocks64 (drop ?k m @ bs) = [drop ?k m @ bs]"
    using blocks64_full [of "drop ?k m @ bs" "[]"] by (simp add: blocks64_short)
  then have "run (m @ bs) = rfc_compress (run (take ?k m)) (drop ?k m @ bs)"
    using run_append_full [OF k(1), of "drop ?k m @ bs"] by (simp flip: m)
  then show "run (m @ bs) = rfc_compress (run m) (memcpy_at (inb ctx) (length m mod 64) bs)"
    by (simp only: blk run_tail [of m, symmetric])
  show "length (m @ bs) mod 64 = 0"
    using assms(3) mod_less_divisor [of 64 "length m"] mod_add_left_eq [of "length m" 64 "length bs"]
    by simp
qed

lemma ctx_data_bits [simp]:
  "ctx_data (ctx\<lparr>bits0 := x\<rparr>) m = ctx_data ctx m"
  "ctx_data (ctx\<lparr>bits1 := x\<rparr>) m = ctx_data ctx m"
  by (simp_all add: ctx_data_def)

lemma ctx_data_MD5Update:
  assumes "ctx_of ctx m"
  shows "ctx_data (MD5Update ctx bs) (m @ bs)"
proof -
  let ?t = "length m mod 64"
  have off: "unat (drop_bit 3 (bits0 ctx) AND 0x3f) = ?t"
    by (rule ctx_of_offset [OF assms])
  have data: "ctx_data ctx m" using assms by (simp add: ctx_of_def)
  then have len: "length (inb ctx) = 64" "buf ctx = run m" by (simp_all add: ctx_data_def)
  consider "?t = 0" | "?t \<noteq> 0" "length bs < 64 - ?t" | "?t \<noteq> 0" "64 - ?t \<le> length bs" by linarith
  then show ?thesis
  proof cases
    case 1
    then show ?thesis
      unfolding MD5Update_def Let_def by (simp add: off ctx_data_update_blocks len)
  next
    case 2
    then show ?thesis
      unfolding MD5Update_def Let_def using ctx_data_fill [OF data, of bs] len
      by (simp add: off ctx_data_def)
  next
    case 3
    let ?x = "take (64 - ?t) bs"
    have "length ?x = 64 - ?t" using 3 by simp
    note blk = run_complete_block [OF data 3(1) this]
    have "ctx_data (update_blocks c (drop (64 - ?t) bs)) ((m @ ?x) @ drop (64 - ?t) bs)"
      if "length (inb c) = 64" "buf c = run (m @ ?x)" for c
      by (rule ctx_data_update_blocks [OF that blk(2)])
    moreover have "length (memcpy_at (inb ctx) ?t ?x) = 64"
      using len 3 by (simp add: memcpy_at_def)
    ultimately show ?thesis
      unfolding MD5Update_def Let_def using 3 len
      by (simp add: off blk(1) MD5Transform_eq)
  qed
qed

lemma update_blocks_bits [simp]:
  "bits0 (update_blocks ctx bs) = bits0 ctx" "bits1 (update_blocks ctx bs) = bits1 ctx"
  by (induction ctx bs rule: update_blocks.induct)
     (subst update_blocks.simps, simp)+

lemma ctx_of_MD5Update:
  assumes "ctx_of ctx m" "length bs < 2 ^ 32"
  shows "ctx_of (MD5Update ctx bs) (m @ bs)"
proof -
  let ?l = "of_nat (length bs) :: u32"
  let ?n0 = "bits0 ctx + push_bit 3 ?l"
  have l: "unat ?l = length bs"
    using assms(2) by (simp add: unat_of_nat take_bit_eq_mod)
  have b: "bits0 (MD5Update ctx bs) = ?n0"
    "bits1 (MD5Update ctx bs)
       = (if ?n0 < bits0 ctx then bits1 ctx + 1 else bits1 ctx) + drop_bit 29 ?l"
    unfolding MD5Update_def Let_def by (simp_all del: push_bit_of_nat drop_bit_of_nat)
  have "unat (bits0 (MD5Update ctx bs)) + 2 ^ 32 * unat (bits1 (MD5Update ctx bs))
          = (8 * length m mod 2 ^ 64 + 8 * length bs) mod 2 ^ 64"
    using bit_count_step [of "bits0 ctx" ?l "bits1 ctx"] assms(1)
    unfolding b l ctx_of_def by simp
  then show ?thesis
    using ctx_data_MD5Update [OF assms(1)] by (simp add: ctx_of_def mod_add_left_eq)
qed

lemma ctx_of_MD5Init: "length (inb ctx) = 64 \<Longrightarrow> ctx_of (MD5Init ctx) []"
  by (simp add: ctx_of_def ctx_data_def MD5Init_def run_def blocks64_short rfc_init_def)

lemma blocks64_split:
  "blocks64 (m @ xs) = blocks64 m @ blocks64 (drop (64 * (length m div 64)) m @ xs)"
proof -
  let ?k = "64 * (length m div 64)"
  have k: "length (take ?k m) mod 64 = 0"
    by (simp add: min_absorb2)
  have short: "blocks64 (drop ?k m) = []"
    by (rule blocks64_short) (simp add: minus_mult_div_eq_mod)
  have "blocks64 (take ?k m @ drop ?k m) = blocks64 (take ?k m) @ blocks64 (drop ?k m)"
    by (rule blocks64_append [OF k])
  moreover have "blocks64 (take ?k m @ (drop ?k m @ xs)) = blocks64 (take ?k m) @ blocks64 (drop ?k m @ xs)"
    by (rule blocks64_append [OF k])
  moreover have "m @ xs = take ?k m @ (drop ?k m @ xs)" by simp
  ultimately show ?thesis by (simp only: short append_take_drop_id append_Nil2)
qed

lemma ctx_of_length_words:
  assumes "ctx_of ctx m"
  shows "bits0 ctx = of_nat (8 * length m)" "bits1 ctx = of_nat (8 * length m div 2 ^ 32)"
proof -
  have b0: "unat (bits0 ctx) = 8 * length m mod 2 ^ 32"
    by (rule ctx_of_bits0 [OF assms])
  then have "of_nat (unat (bits0 ctx)) = (of_nat (8 * length m) :: u32)"
    by (simp only: of_nat_mod_word32)
  then show "bits0 ctx = of_nat (8 * length m)" by simp
  have "(unat (bits0 ctx) + 2 ^ 32 * unat (bits1 ctx)) div 2 ^ 32 = 8 * length m mod 2 ^ 64 div 2 ^ 32"
    using assms by (simp add: ctx_of_def)
  then have "unat (bits1 ctx) = 8 * length m mod (2 ^ 32 * 2 ^ 32) div 2 ^ 32"
    using unat_u32 [of "bits0 ctx"] by simp
  also have "\<dots> = 8 * length m div 2 ^ 32 mod 2 ^ 32"
    by (simp only: mod_mult2_eq) simp
  finally have "of_nat (unat (bits1 ctx)) = (of_nat (8 * length m div 2 ^ 32) :: u32)"
    by (simp only: of_nat_mod_word32)
  then show "bits1 ctx = of_nat (8 * length m div 2 ^ 32)" by simp
qed

lemma high_word: "(of_int (8 * int n div 2 ^ 32) :: u32) = of_nat (8 * n div 2 ^ 32)"
proof -
  have "8 * int n div 2 ^ 32 = int (8 * n div 2 ^ 32)" by (simp add: zdiv_int)
  then show ?thesis by (simp only: of_int_of_nat_eq)
qed

lemma length_bytes_le32 [simp]: "length (bytes_le32 w) = 4"
  by (simp add: bytes_le32_def)

lemma memcpy_length_words:
  "length blk = 64 \<Longrightarrow>
   memcpy_at (memcpy_at blk 56 (bytes_le32 x)) 60 (bytes_le32 y)
     = take 56 blk @ bytes_le32 x @ bytes_le32 y"
  by (simp add: memcpy_at_def)

lemma list_update_at: "r < length xs \<Longrightarrow> xs[r := v] = take r xs @ v # drop (Suc r) xs"
  by (rule upd_conv_take_nth_drop)

lemma MD5Final_digest:
  assumes "ctx_of ctx m"
  shows "fst (MD5Final ctx) = md5_rfc m"
proof -
  define r where "r = length m mod 64"
  define tl where "tl = drop (64 * (length m div 64)) m"
  define lw where "lw = bytes_le32 (bits0 ctx) @ bytes_le32 (bits1 ctx)"
  have r: "r < 64" by (simp add: r_def)
  have off: "unat (drop_bit 3 (bits0 ctx) AND 0x3F) = r"
    unfolding r_def by (rule ctx_of_offset [OF assms])
  have ctx: "length (inb ctx) = 64" "buf ctx = run m" "take r (inb ctx) = tl" "length tl = r"
    using assms by (simp_all add: ctx_of_def ctx_data_def r_def tl_def minus_mult_div_eq_mod)
  have lw: "length lw = 8" by (simp add: lw_def)
  have pad: "blocks64 (rfc_pad m)
      = blocks64 m @ blocks64 (tl @ [0x80] @ replicate ((119 - r) mod 64) 0 @ lw)"
    unfolding rfc_pad_def tl_def r_def lw_def ctx_of_length_words [OF assms] high_word
    by (rule blocks64_split)
  show ?thesis
  proof (cases "r < 56")
    case True
    then have "(119 - r) mod 64 = 55 - r" by (simp add: mod_if)
    then have "blocks64 (rfc_pad m) = blocks64 m @ [tl @ [0x80] @ replicate (55 - r) 0 @ lw]"
      using blocks64_full [of "tl @ [0x80] @ replicate (55 - r) 0 @ lw" "[]"] True
      by (simp add: pad ctx(4) lw blocks64_short)
    moreover have "\<not> 63 - r < 8" "56 - r = Suc (55 - r)" using True by auto
    ultimately show ?thesis
      using True ctx
      by (simp add: MD5Final_def Let_def off memcpy_length_words list_update_at md5_rfc_def
          memcpy_at_def MD5Transform_eq run_def lw_def)
  next
    case False
    then have "replicate ((119 - r) mod 64) (0 :: byte) = replicate (63 - r) 0 @ replicate 56 0"
      using r by (simp flip: replicate_add)
    then have "blocks64 (rfc_pad m) = blocks64 m @ [tl @ [0x80] @ replicate (63 - r) 0, replicate 56 0 @ lw]"
      using blocks64_full [of "tl @ [0x80] @ replicate (63 - r) 0" "replicate 56 0 @ lw"]
        blocks64_full [of "replicate 56 0 @ lw" "[]"] r
      by (simp add: pad ctx(4) lw blocks64_short)
    moreover have "63 - r < 8" using False by auto
    ultimately show ?thesis
      using False r ctx
      by (simp add: MD5Final_def Let_def off memcpy_length_words list_update_at md5_rfc_def
          memcpy_at_def MD5Transform_eq run_def lw_def)
  qed
qed

lemma ctx_of_chunks:
  assumes "ctx_of ctx m" "list_all (\<lambda>c. length c < 2 ^ 32) chunks"
  shows "ctx_of (foldl MD5Update ctx chunks) (m @ concat chunks)"
  using assms
proof (induction chunks arbitrary: ctx m)
  case (Cons c cs)
  then have "ctx_of (MD5Update ctx c) (m @ c)"
    by (intro ctx_of_MD5Update) simp_all
  with Cons.IH [of "MD5Update ctx c" "m @ c"] Cons.prems show ?case by simp
qed simp

section \<open>Properties\<close>

text \<open>C14. The 64 unrolled statements of \<^verbatim>\<open>MD5Transform\<close> (\<^verbatim>\<open>md5.c\<close>), with their rotating register
  arguments and literal constants, compute the table-driven compression function of RFC 1321 on every chaining value and
  every input block.\<close>

theorem MD5Transform_is_rfc_compress:
  "MD5Transform h (le_words blk) = rfc_compress h blk"
  by (rule MD5Transform_eq)

text \<open>C9. A message hashed through \<^verbatim>\<open>MD5Init\<close>, any sequence of \<^verbatim>\<open>MD5Update\<close> calls (each chunk
  shorter than \<open>2 ^ 32\<close> bytes, the range of its \<^verbatim>\<open>unsigned len\<close>) and \<^verbatim>\<open>MD5Final\<close> has the RFC 1321
  digest of the concatenation of the chunks, whatever the context held before.\<close>

theorem md5_streaming:
  assumes "length (inb ctx) = 64"
    and "list_all (\<lambda>c. length c < 2 ^ 32) chunks"
  shows "fst (MD5Final (foldl MD5Update (MD5Init ctx) chunks)) = md5_rfc (concat chunks)"
  using MD5Final_digest [OF ctx_of_chunks [OF ctx_of_MD5Init [OF assms(1)] assms(2)]] by simp

theorem md5_streaming_witness:
  "fst (MD5Final (foldl MD5Update
      (MD5Init \<lparr>buf = [1, 2, 3, 4], bits0 = 5, bits1 = 6, inb = replicate 64 7\<rparr>)
      [[0x61, 0x62], [], [0x63]]))
   = [0x90, 0x01, 0x50, 0x98, 0x3c, 0xd2, 0x4f, 0xb0, 0xd6, 0x96, 0x3f, 0x7d, 0x28, 0xe1, 0x7f, 0x72]"
proof -
  have "md5_rfc [0x61, 0x62, 0x63]
    = [0x90, 0x01, 0x50, 0x98, 0x3c, 0xd2, 0x4f, 0xb0, 0xd6, 0x96, 0x3f, 0x7d, 0x28, 0xe1, 0x7f, 0x72]"
    by code_simp
  then show ?thesis
    using md5_streaming [of "\<lparr>buf = [1, 2, 3, 4], bits0 = 5, bits1 = 6, inb = replicate 64 7\<rparr>"
        "[[0x61, 0x62], [], [0x63]]"] by simp
qed

end
