(* ===== verification/Pmsg.thy ===== *)
theory Pmsg
  imports Prelude
begin

text \<open>
  Protocol messages (\<^verbatim>\<open>pmsg.c\<close>, \<^verbatim>\<open>pmsg.h\<close>): requests and responses of RTSP and HTTP, stored as one
  block of memory (\<open>msg\<close>) with pointers into it. A pointer is an offset; \<open>None\<close> is NULL. The parser
  writes NULs over the delimiters, so a name, a value or a URI is a C string inside the block
  (\<open>str_at\<close>). Accesses outside the block or outside the 32 header slots are faults.

  The abstraction of a message is its list of headers, as strings (\<open>hdr_list\<close>). The theorems show
  that parsing a rendered request recovers its parts, that the operations on a message act on the
  list of headers as specified, and what happens to a request with more headers than slots.
\<close>

section \<open>Model\<close>

datatype ptype = PMSG_REQ | PMSG_RESP

record pmsg =
  msg :: string
  max_len :: nat
  msg_len :: nat
  hfields :: "(nat option \<times> nat option) list"
  header_count :: nat
  ptype :: ptype
  proto_id :: "nat option"
  req_method :: "nat option"
  req_uri :: "nat option"
  stat_code :: int
  stat_reason :: "nat option"

abbreviation MAX_FIELDS :: nat where "MAX_FIELDS \<equiv> 32"

text \<open>\<open>new_pmsg\<close>, with the uninitialised contents of the allocated block as an argument.\<close>

definition new_pmsg :: "string \<Rightarrow> pmsg" where
  "new_pmsg mem = \<lparr>msg = mem, max_len = length mem, msg_len = 0,
     hfields = replicate MAX_FIELDS (None, None), header_count = 0, ptype = PMSG_REQ,
     proto_id = None, req_method = None, req_uri = None, stat_code = 0, stat_reason = None\<rparr>"

text \<open>\<open>add_pmsg_string\<close>: the new message and the pointer.\<close>

definition add_pmsg_string :: "pmsg \<Rightarrow> string \<Rightarrow> pmsg \<times> nat option" where
  "add_pmsg_string m s =
     (let len = length s + 1
      in if msg_len m + len > max_len m then (m, None)
         else (m\<lparr>msg := take (msg_len m) (msg m) @ s @ NUL # drop (msg_len m + len) (msg m),
                 msg_len := msg_len m + len\<rparr>, Some (msg_len m)))"

subsection \<open>Parsing\<close>

text \<open>\<open>delim\<close> on the characters from the current position to the end.\<close>

definition delim :: "string \<Rightarrow> char \<Rightarrow> char \<Rightarrow> nat" where
  "delim d term1 term2 =
     length (takeWhile (\<lambda>c. \<not> (c = term1 \<or> c = term2 \<or> c = CR \<or> c = LF)) d)"

definition span_while :: "(char \<Rightarrow> bool) \<Rightarrow> string \<Rightarrow> nat \<Rightarrow> nat \<Rightarrow> nat" where
  "span_while P d len i = i + length (takeWhile P (drop i (take len d)))"

text \<open>\<^verbatim>\<open>while (i < len && d[i] == ' ') ++i;\<close>\<close>

abbreviation skip_sp :: "string \<Rightarrow> nat \<Rightarrow> nat \<Rightarrow> nat" where
  "skip_sp \<equiv> span_while (\<lambda>c. c = SP)"

text \<open>Stores through the message pointer and into the header slots.\<close>

definition put_msg :: "pmsg \<Rightarrow> nat \<Rightarrow> char \<Rightarrow> pmsg res" where
  "put_msg m i c = rbind (aset (msg m) i c) (\<lambda>d. Inr (m\<lparr>msg := d\<rparr>))"

definition put_name :: "pmsg \<Rightarrow> nat \<Rightarrow> pmsg res" where
  "put_name m p =
     rbind (aget (hfields m) (header_count m)) (\<lambda>(n, v).
     rbind (aset (hfields m) (header_count m) (Some p, v)) (\<lambda>fs. Inr (m\<lparr>hfields := fs\<rparr>)))"

definition put_value :: "pmsg \<Rightarrow> nat \<Rightarrow> pmsg res" where
  "put_value m p =
     rbind (aget (hfields m) (header_count m)) (\<lambda>(n, v).
     rbind (aset (hfields m) (header_count m) (n, Some p)) (\<lambda>fs. Inr (m\<lparr>hfields := fs\<rparr>)))"

text \<open>One header line, from its first character at \<open>i\<close>. The name, up to and including the colon: the
  message and the index behind the colon, or \<open>None\<close> for the result -1.\<close>

definition parse_header_name :: "pmsg \<Rightarrow> nat \<Rightarrow> (pmsg \<times> nat option) res" where
  "parse_header_name m i =
     (let len = msg_len m in
      rbind (put_name m i) (\<lambda>m.
      let i = i + delim (drop i (take len (msg m))) SP (CHR '':'')
      in if i \<ge> len then Inr (m, None)
         else rbind (aget (msg m) i) (\<lambda>c.
              rbind (if c = SP
                     then rbind (put_msg m i NUL) (\<lambda>m. Inr (m, skip_sp (msg m) len (i + 1)))
                     else Inr (m, i)) (\<lambda>(m, i).
              if i \<ge> len then Inr (m, None)
              else rbind (aget (msg m) i) (\<lambda>c.
                if c \<noteq> CHR '':'' then Inr (m, None)
                else rbind (put_msg m i NUL) (\<lambda>m. Inr (m, Some (i + 1))))))))"

text \<open>The value, from the character behind the colon, to the end of the line.\<close>

definition parse_header_value :: "pmsg \<Rightarrow> nat \<Rightarrow> (pmsg \<times> nat option) res" where
  "parse_header_value m i =
     (let len = msg_len m;
          i = span_while (\<lambda>c. c = SP \<or> c = TAB) (msg m) len i
      in rbind (put_value m i) (\<lambda>m.
         let i = i + delim (drop i (take len (msg m))) NUL NUL
         in rbind (put_msg m i NUL) (\<lambda>m.
            if i + 1 \<ge> len then Inr (m, None)
            else rbind (aget (msg m) (i + 1)) (\<lambda>c.
              if c \<noteq> LF then Inr (m, None)
              else Inr (m\<lparr>header_count := header_count m + 1\<rparr>, Some (i + 2))))))"

definition parse_header_line :: "pmsg \<Rightarrow> nat \<Rightarrow> (pmsg \<times> nat option) res" where
  "parse_header_line m i =
     rbind (parse_header_name m i) (\<lambda>(m, r).
       case r of None \<Rightarrow> Inr (m, None) | Some i \<Rightarrow> parse_header_value m i)"

lemma put_msg_length: "put_msg m i c = Inr m' \<Longrightarrow> length (msg m') = length (msg m)"
  by (auto simp: put_msg_def aset_def rbind_eq_Inr split: if_splits)

lemma put_field_msg: "put_name m p = Inr m' \<Longrightarrow> msg m' = msg m" "put_value m p = Inr m' \<Longrightarrow> msg m' = msg m"
  by (auto simp: put_name_def put_value_def rbind_eq_Inr)

text \<open>A header line that is accepted moves the index forward, which ends the loop over the lines.\<close>

lemma parse_header_name_progress:
  "rall (parse_header_name m i)
     (\<lambda>(m', r). length (msg m') = length (msg m) \<and> (\<forall>j. r = Some j \<longrightarrow> i < j))"
proof -
  have sp: "rall (if c = SP then rbind (put_msg m1 i1 NUL) (\<lambda>m. Inr (m, skip_sp (msg m) len (i1 + 1)))
                  else Inr (m1, i1))
      (\<lambda>(m', j). length (msg m') = length (msg m1) \<and> i1 \<le> j)" for c m1 i1 len
    by (auto simp: span_while_def dest: put_msg_length)
  show ?thesis
    unfolding parse_header_name_def Let_def
    by (rule rall_rbind, rule rall_if)
       (force simp: put_field_msg intro!: rall_rbind_via [OF sp] dest: put_msg_length)+
qed

lemma parse_header_value_progress:
  "rall (parse_header_value m i)
     (\<lambda>(m', r). length (msg m') = length (msg m) \<and> (\<forall>j. r = Some j \<longrightarrow> i < j))"
  unfolding parse_header_value_def Let_def
  by (auto simp: span_while_def put_field_msg dest: put_msg_length)

lemma parse_header_line_progress:
  assumes "parse_header_line m i = Inr (m', Some j)"
  shows "i < j \<and> length (msg m') = length (msg m)"
proof -
  have "rall (parse_header_line m i)
     (\<lambda>(m', r). length (msg m') = length (msg m) \<and> (\<forall>j. r = Some j \<longrightarrow> i < j))"
    unfolding parse_header_line_def
    by (rule rall_rbind_via [OF parse_header_name_progress])
       (auto simp: rall_def dest!: rallD [OF parse_header_value_progress] split: option.splits)
  from rallD [OF this assms] show ?thesis by simp
qed

function parse_headers :: "pmsg \<Rightarrow> nat \<Rightarrow> (pmsg \<times> int) res" where
  "parse_headers m i =
     (let len = msg_len m;
          i = (if i < len \<and> aget (msg m) i = Inr CR then i + 1 else i)
      in if i = len then Inr (m, int len)
         else rbind (aget (msg m) i) (\<lambda>c.
           if c = LF then Inr (m, int i + 1)
           else if c = TAB \<or> c = SP then Inr (m, -1)
           else rbind (parse_header_line m i) (\<lambda>(m, r).
             case r of None \<Rightarrow> Inr (m, -1) | Some i \<Rightarrow> parse_headers m i)))"
  by pat_completeness auto
termination
  by (relation "measure (\<lambda>(m, i). length (msg m) - i)")
     (auto simp: aget_def split: if_splits dest!: parse_header_line_progress)

declare parse_headers.simps [simp del]

text \<open>The end of the first line and the headers.\<close>

definition parse_rest :: "pmsg \<Rightarrow> nat \<Rightarrow> (pmsg \<times> int) res" where
  "parse_rest m i =
     (let len = msg_len m;
          i = skip_sp (msg m) len i;
          i = (if i < len \<and> aget (msg m) i = Inr CR then i + 1 else i)
      in if i \<ge> len then Inr (m, -1)
         else rbind (aget (msg m) i) (\<lambda>c.
           if c \<noteq> LF then Inr (m, -1) else parse_headers m (i + 1)))"

definition parse_resp_line :: "pmsg \<Rightarrow> (pmsg \<times> int) res" where
  "parse_resp_line m =
     (let len = msg_len m;
          m = m\<lparr>ptype := PMSG_RESP, proto_id := Some 0\<rparr>;
          i = delim (take len (msg m)) SP NUL
      in rbind (aget (msg m) i) (\<lambda>c.
         if c \<noteq> SP then Inr (m, -1)
         else rbind (put_msg m i NUL) (\<lambda>m.
           let i = skip_sp (msg m) len (i + 1)
           in if len < i + 4 then Inr (m, -1)
              else rbind (aget (msg m) i) (\<lambda>a. rbind (aget (msg m) (i + 1)) (\<lambda>b.
                   rbind (aget (msg m) (i + 2)) (\<lambda>c. rbind (aget (msg m) (i + 3)) (\<lambda>sp.
                   if \<not> isdigit a \<or> \<not> isdigit b \<or> \<not> isdigit c \<or> sp \<noteq> SP then Inr (m, -1)
                   else let i = skip_sp (msg m) len (i + 4);
                            m = m\<lparr>stat_code := digits_val [a, b, c], stat_reason := Some i\<rparr>;
                            i = i + delim (drop i (take len (msg m))) NUL NUL
                        in rbind (put_msg m i NUL) (\<lambda>m. parse_rest m (i + 1)))))))))"

definition parse_req_line :: "pmsg \<Rightarrow> (pmsg \<times> int) res" where
  "parse_req_line m =
     (let len = msg_len m;
          m = m\<lparr>ptype := PMSG_REQ, req_method := Some 0\<rparr>;
          i = delim (take len (msg m)) SP NUL
      in if i \<ge> len \<or> aget (msg m) i \<noteq> Inr SP then Inr (m, -1)
         else rbind (put_msg m i NUL) (\<lambda>m.
           let i = skip_sp (msg m) len (i + 1);
               m = m\<lparr>req_uri := Some i\<rparr>;
               i = i + delim (drop i (take len (msg m))) SP NUL
           in if i \<ge> len \<or> aget (msg m) i \<noteq> Inr SP then Inr (m, -1)
              else rbind (put_msg m i NUL) (\<lambda>m.
                let i = skip_sp (msg m) len (i + 1);
                    m = m\<lparr>proto_id := Some i\<rparr>;
                    i = i + delim (drop i (take len (msg m))) NUL NUL
                in rbind (put_msg m i NUL) (\<lambda>m. parse_rest m (i + 1)))))"

definition parse_pmsg :: "pmsg \<Rightarrow> (pmsg \<times> int) res" where
  "parse_pmsg m =
     (let m = m\<lparr>header_count := 0\<rparr>;
          len = msg_len m;
          i = span_while (\<lambda>c. c \<noteq> SP \<and> c \<noteq> CHR ''/'') (msg m) len 0
      in if len < 4 \<or> i = len then Inr (m, -1)
         else rbind (aget (msg m) i) (\<lambda>c.
           if c = CHR ''/'' then parse_resp_line m else parse_req_line m))"

subsection \<open>Headers\<close>

text \<open>\<^verbatim>\<open>strcasecmp\<close> and friends on a stored pointer.\<close>

definition str_ptr :: "pmsg \<Rightarrow> nat option \<Rightarrow> string res" where
  "str_ptr m p = (case p of None \<Rightarrow> Inl NullDeref | Some i \<Rightarrow> str_at (msg m) i)"

fun find_field :: "pmsg \<Rightarrow> string \<Rightarrow> nat list \<Rightarrow> nat option res" where
  "find_field m name [] = Inr None"
| "find_field m name (i # is) =
     rbind (aget (hfields m) i) (\<lambda>(n, v). rbind (str_ptr m n) (\<lambda>s.
       if strcaseeq s name then Inr (Some i) else find_field m name is))"

definition get_header :: "pmsg \<Rightarrow> string \<Rightarrow> string option res" where
  "get_header m name =
     rbind (find_field m name [0..<header_count m]) (\<lambda>r.
       case r of None \<Rightarrow> Inr None
       | Some i \<Rightarrow> rbind (aget (hfields m) i) (\<lambda>(n, v). rbind (str_ptr m v) (\<lambda>s. Inr (Some s))))"

definition add_header :: "pmsg \<Rightarrow> string \<Rightarrow> string \<Rightarrow> pmsg \<times> int" where
  "add_header m name value =
     (if header_count m = MAX_FIELDS then (m, -1)
      else let (m, p) = add_pmsg_string m name;
               m = m\<lparr>hfields := (hfields m)[header_count m := (p, snd (hfields m ! header_count m))]\<rparr>
           in if p = None then (m, -1)
              else let (m, q) = add_pmsg_string m value;
                       m = m\<lparr>hfields := (hfields m)[header_count m := (p, q)]\<rparr>
                   in if q = None then (m, -1)
                      else (m\<lparr>header_count := header_count m + 1\<rparr>, 0))"

text \<open>\<open>add_header_printf\<close>, with \<open>text\<close> what the format produces: at most the free space is written,
  the last byte of it a NUL.\<close>

definition add_header_printf :: "pmsg \<Rightarrow> string \<Rightarrow> string \<Rightarrow> pmsg \<times> int" where
  "add_header_printf m name text =
     (let room = max_len m - msg_len m;
          out = (if room = 0 then [] else take (room - 1) text @ [NUL]);
          m = m\<lparr>msg := take (msg_len m) (msg m) @ out @ drop (msg_len m + length out) (msg m)\<rparr>
      in if header_count m = MAX_FIELDS then (m, -1)
         else if msg_len m + length text \<ge> max_len m then (m, -1)
         else let v = msg_len m;
                  m = m\<lparr>hfields := (hfields m)[header_count m := (fst (hfields m ! header_count m), Some v)],
                        msg_len := msg_len m + length text + 1\<rparr>;
                  (m, p) = add_pmsg_string m name;
                  m = m\<lparr>hfields := (hfields m)[header_count m := (p, Some v)]\<rparr>
              in if p = None then (m, -1) else (m\<lparr>header_count := header_count m + 1\<rparr>, 0))"

definition replace_header :: "pmsg \<Rightarrow> string \<Rightarrow> string \<Rightarrow> (pmsg \<times> int) res" where
  "replace_header m name value =
     rbind (find_field m name [0..<header_count m]) (\<lambda>r.
       case r of None \<Rightarrow> Inr (add_header m name value)
       | Some i \<Rightarrow> rbind (aget (hfields m) i) (\<lambda>(n, v). rbind (str_ptr m v) (\<lambda>old.
           if length old < length value
           then (case add_pmsg_string m value of
                   (m, None) \<Rightarrow> Inr (m, -1)
                 | (m, Some p) \<Rightarrow> Inr (m\<lparr>hfields := (hfields m)[i := (n, Some p)]\<rparr>, 0))
           else (case v of None \<Rightarrow> Inl NullDeref
                 | Some p \<Rightarrow> Inr (m\<lparr>msg := take p (msg m) @ value @ NUL # drop (p + length value + 1) (msg m)\<rparr>, 0)))))"

fun copy_fields :: "pmsg \<Rightarrow> pmsg \<Rightarrow> string \<Rightarrow> nat list \<Rightarrow> int \<Rightarrow> (pmsg \<times> int) res" where
  "copy_fields dest src name [] count = Inr (dest, count)"
| "copy_fields dest src name (i # is) count =
     rbind (aget (hfields src) i) (\<lambda>(n, v). rbind (str_ptr src n) (\<lambda>s.
       if strcaseeq s name
       then rbind (str_ptr src v) (\<lambda>t. copy_fields (fst (add_header dest s t)) src name is (count + 1))
       else copy_fields dest src name is count))"

definition copy_headers :: "pmsg \<Rightarrow> pmsg \<Rightarrow> string \<Rightarrow> (pmsg \<times> int) res" where
  "copy_headers dest src name = copy_fields dest src name [0..<header_count src] 0"

section \<open>Parsing a rendered request\<close>

text \<open>A header line as \<open>tcp_send_pmsg\<close> prints it, and what the parser leaves of it.\<close>

type_synonym header = "string \<times> string"

definition header_line :: "header \<Rightarrow> string" where
  "header_line h = fst h @ [CHR '':'', SP] @ snd h @ [CR, LF]"

definition parsed_line :: "header \<Rightarrow> string" where
  "parsed_line h = fst h @ [NUL, SP] @ snd h @ [NUL, LF]"

definition name_ok :: "string \<Rightarrow> bool" where
  "name_ok n \<longleftrightarrow> n \<noteq> [] \<and> hd n \<noteq> TAB \<and> (\<forall>c \<in> set n. c \<noteq> SP \<and> c \<noteq> CHR '':'' \<and> c \<noteq> CR \<and> c \<noteq> LF \<and> c \<noteq> NUL)"

definition value_ok :: "string \<Rightarrow> bool" where
  "value_ok v \<longleftrightarrow> (\<forall>c \<in> set v. c \<noteq> NUL \<and> c \<noteq> CR \<and> c \<noteq> LF) \<and> (v = [] \<or> hd v \<noteq> SP \<and> hd v \<noteq> TAB)"

definition word_ok :: "string \<Rightarrow> bool" where
  "word_ok w \<longleftrightarrow> w \<noteq> [] \<and> (\<forall>c \<in> set w. c \<noteq> NUL \<and> c \<noteq> CR \<and> c \<noteq> LF \<and> c \<noteq> SP)"

lemma delim_word:
  assumes "\<forall>c \<in> set w. c \<noteq> t1 \<and> c \<noteq> t2 \<and> c \<noteq> CR \<and> c \<noteq> LF" "x = t1 \<or> x = t2 \<or> x = CR \<or> x = LF"
  shows "delim (w @ x # r) t1 t2 = length w"
  using assms unfolding delim_def by (subst takeWhile_append2) auto

lemma span_none: "len = length d \<Longrightarrow> drop i d = x # r \<Longrightarrow> \<not> P x \<Longrightarrow> span_while P d len i = i"
  by (simp add: span_while_def)

lemma drop_exact: "n = length xs \<Longrightarrow> drop n (xs @ ys) = ys"
  by simp

lemma put_msg_at:
  assumes "msg m = pre @ x # post" "i = length pre"
  shows "put_msg m i c = Inr (m\<lparr>msg := pre @ c # post\<rparr>)"
  using assms by (simp add: put_msg_def)

lemma aget_at: "i = length pre \<Longrightarrow> aget (pre @ x # post) i = Inr x"
  by simp

lemma put_name_slot:
  "header_count m < length (hfields m) \<Longrightarrow>
   put_name m p = Inr (m\<lparr>hfields := (hfields m)[header_count m := (Some p, snd (hfields m ! header_count m))]\<rparr>)"
  by (simp add: put_name_def split: prod.split)

lemma put_value_slot:
  "header_count m < length (hfields m) \<Longrightarrow>
   put_value m p = Inr (m\<lparr>hfields := (hfields m)[header_count m := (fst (hfields m ! header_count m), Some p)]\<rparr>)"
  by (simp add: put_value_def split: prod.split)

lemma parse_header_name_line:
  assumes "msg m = pre @ n @ CHR '':'' # post" "msg_len m = length (msg m)" "i = length pre"
    and "name_ok n" "header_count m < length (hfields m)"
  shows "parse_header_name m i =
    Inr (m\<lparr>msg := pre @ n @ NUL # post,
           hfields := (hfields m)[header_count m := (Some i, snd (hfields m ! header_count m))]\<rparr>,
         Some (i + length n + 1))"
proof -
  let ?m = "m\<lparr>hfields := (hfields m)[header_count m := (Some i, snd (hfields m ! header_count m))]\<rparr>"
  have d: "delim (drop i (take (msg_len m) (msg ?m))) SP (CHR '':'') = length n"
    using assms by (simp add: delim_word name_ok_def)
  have g: "aget (msg ?m) (i + length n) = Inr (CHR '':'')"
    using assms(1,3) aget_at [of "i + length n" "pre @ n" "CHR '':''" post] by simp
  have p: "put_msg ?m (i + length n) NUL = Inr (?m\<lparr>msg := pre @ n @ NUL # post\<rparr>)"
    using put_msg_at [of ?m "pre @ n" "CHR '':''" post "i + length n"] assms(1,3) by simp
  show ?thesis
    unfolding parse_header_name_def Let_def put_name_slot [OF assms(5)] rbind_simps d g
    using assms(1-3) p by simp
qed

lemma parse_header_value_line:
  assumes "msg m = pre @ SP # v @ CR # LF # post" "msg_len m = length (msg m)" "i = length pre"
    and "value_ok v" "header_count m < length (hfields m)"
  shows "parse_header_value m i =
    Inr (m\<lparr>msg := pre @ SP # v @ NUL # LF # post,
           hfields := (hfields m)[header_count m := (fst (hfields m ! header_count m), Some (i + 1))],
           header_count := header_count m + 1\<rparr>,
         Some (i + length v + 3))"
proof -
  have d: "drop (i + 1) (msg m) = v @ CR # LF # post" using assms(1,3) by simp
  have "takeWhile (\<lambda>c. c = SP \<or> c = TAB) (SP # v @ CR # LF # post) = [SP]"
    using assms(4) by (cases v) (auto simp: value_ok_def)
  then have s: "span_while (\<lambda>c. c = SP \<or> c = TAB) (msg m) (msg_len m) i = i + 1"
    using assms(1-3) by (simp add: span_while_def)
  let ?m = "m\<lparr>hfields := (hfields m)[header_count m := (fst (hfields m ! header_count m), Some (i + 1))]\<rparr>"
  have l: "delim (drop (i + 1) (take (msg_len m) (msg ?m))) NUL NUL = length v"
    using assms(2,4) d by (simp add: delim_word value_ok_def)
  have p: "put_msg ?m (i + 1 + length v) NUL = Inr (?m\<lparr>msg := (pre @ SP # v) @ NUL # LF # post\<rparr>)"
    by (rule put_msg_at) (use assms(1,3) in simp_all)
  have g: "aget (msg (?m\<lparr>msg := (pre @ SP # v) @ NUL # LF # post\<rparr>)) (i + 1 + length v + 1) = Inr LF"
    using aget_at [of "i + 1 + length v + 1" "pre @ SP # v @ [NUL]" LF post] assms(3) by simp
  show ?thesis
    unfolding parse_header_value_def Let_def s put_value_slot [OF assms(5)] rbind_simps l p g
    using assms(1-3) by (simp add: add.commute)
qed

definition header_ok :: "header \<Rightarrow> bool" where
  "header_ok h \<longleftrightarrow> name_ok (fst h) \<and> value_ok (snd h)"

lemma parse_header_line_line:
  assumes "msg m = pre @ header_line h @ post" "msg_len m = length (msg m)" "i = length pre"
    and "header_ok h" "header_count m < length (hfields m)"
  shows "parse_header_line m i =
    Inr (m\<lparr>msg := pre @ parsed_line h @ post,
           hfields := (hfields m)[header_count m := (Some i, Some (i + length (fst h) + 2))],
           header_count := header_count m + 1\<rparr>,
         Some (i + length (header_line h)))"
proof -
  obtain n v where h: "h = (n, v)" by (cases h)
  let ?m = "m\<lparr>msg := pre @ n @ NUL # SP # v @ CR # LF # post,
           hfields := (hfields m)[header_count m := (Some i, snd (hfields m ! header_count m))]\<rparr>"
  have "parse_header_name m i = Inr (?m, Some (i + length n + 1))"
    by (rule parse_header_name_line) (use assms in \<open>simp_all add: h header_line_def header_ok_def\<close>)
  moreover have "parse_header_value ?m (i + length n + 1) =
    Inr (?m\<lparr>msg := (pre @ n @ [NUL]) @ SP # v @ NUL # LF # post,
           hfields := (hfields ?m)[header_count ?m := (fst (hfields ?m ! header_count ?m), Some (i + length n + 1 + 1))],
           header_count := header_count ?m + 1\<rparr>,
         Some (i + length n + 1 + length v + 3))"
    by (rule parse_header_value_line) (use assms in \<open>simp_all add: h header_line_def header_ok_def\<close>)
  ultimately show ?thesis
    using assms(5) by (simp add: parse_header_line_def h header_line_def parsed_line_def)
qed

fun line_fields :: "nat \<Rightarrow> header list \<Rightarrow> (nat option \<times> nat option) list" where
  "line_fields p [] = []"
| "line_fields p (h # hs) = (Some p, Some (p + length (fst h) + 2)) # line_fields (p + length (header_line h)) hs"

lemma length_line_fields [simp]: "length (line_fields p hs) = length hs"
  by (induction hs arbitrary: p) auto

lemma length_parsed_line [simp]: "length (parsed_line h) = length (header_line h)"
  by (simp add: parsed_line_def header_line_def)

lemma parse_headers_end:
  assumes "msg m = pre @ CR # LF # post" "msg_len m = length (msg m)" "i = length pre"
  shows "parse_headers m i = Inr (m, int i + 2)"
  using assms aget_at [of "i + 1" "pre @ [CR]" LF post]
  by (subst parse_headers.simps) (simp add: Let_def)

lemma parse_headers_lines:
  assumes "msg m = pre @ concat (map header_line hs) @ CR # LF # post" "msg_len m = length (msg m)"
    and "i = length pre" "list_all header_ok hs" "header_count m + length hs \<le> length (hfields m)"
  shows "parse_headers m i =
    Inr (m\<lparr>msg := pre @ concat (map parsed_line hs) @ CR # LF # post,
           hfields := take (header_count m) (hfields m) @ line_fields i hs
                        @ drop (header_count m + length hs) (hfields m),
           header_count := header_count m + length hs\<rparr>,
         int (i + length (concat (map header_line hs))) + 2)"
  using assms
proof (induction hs arbitrary: m pre i)
  case Nil
  then show ?case by (simp add: parse_headers_end)
next
  case (Cons h hs)
  let ?x = "(Some i, Some (i + length (fst h) + 2))"
  let ?m = "m\<lparr>msg := pre @ parsed_line h @ concat (map header_line hs) @ CR # LF # post,
      hfields := (hfields m)[header_count m := ?x], header_count := header_count m + 1\<rparr>"
  have line: "parse_header_line m i = Inr (?m, Some (i + length (header_line h)))"
    by (rule parse_header_line_line) (use Cons.prems in simp_all)
  obtain c r where c: "fst h = c # r" "c \<noteq> CR" "c \<noteq> LF" "c \<noteq> SP" "c \<noteq> TAB"
    using Cons.prems(4) by (cases "fst h") (auto simp: header_ok_def name_ok_def)
  have "aget (msg m) i = Inr c" "i < msg_len m"
    using Cons.prems(1-3) c(1) by (simp_all add: header_line_def)
  then have "parse_headers m i = parse_headers ?m (i + length (header_line h))"
    using c by (subst parse_headers.simps) (simp add: Let_def line)
  also have "\<dots> = Inr (?m\<lparr>msg := (pre @ parsed_line h) @ concat (map parsed_line hs) @ CR # LF # post,
           hfields := take (header_count ?m) (hfields ?m) @ line_fields (i + length (header_line h)) hs
                        @ drop (header_count ?m + length hs) (hfields ?m),
           header_count := header_count ?m + length hs\<rparr>,
         int (i + length (header_line h) + length (concat (map header_line hs))) + 2)"
    by (rule Cons.IH) (use Cons.prems in simp_all)
  finally show ?case
    using Cons.prems(5) by (simp add: take_Suc_conv_app_nth)
qed

text \<open>The 33rd header line is stored outside the array of header slots.\<close>

lemma parse_headers_overflow:
  assumes "msg m = pre @ concat (map header_line hs) @ post" "msg_len m = length (msg m)"
    and "i = length pre" "list_all header_ok hs"
    and "header_count m \<le> length (hfields m)" "length (hfields m) < header_count m + length hs"
  shows "parse_headers m i = Inl OutOfBounds"
  using assms
proof (induction hs arbitrary: m pre i)
  case (Cons h hs)
  obtain c r where c: "fst h = c # r" "c \<noteq> CR" "c \<noteq> LF" "c \<noteq> SP" "c \<noteq> TAB"
    using Cons.prems(4) by (cases "fst h") (auto simp: header_ok_def name_ok_def)
  have i: "aget (msg m) i = Inr c" "i < msg_len m"
    using Cons.prems(1-3) c(1) by (simp_all add: header_line_def)
  show ?case
  proof (cases "header_count m < length (hfields m)")
    case False
    then have "put_name m i = Inl OutOfBounds" by (simp add: put_name_def aget_def)
    then have "parse_header_line m i = Inl OutOfBounds"
      by (simp add: parse_header_line_def parse_header_name_def Let_def)
    then show ?thesis using i c by (subst parse_headers.simps) (simp add: Let_def)
  next
    case True
    let ?m = "m\<lparr>msg := pre @ parsed_line h @ concat (map header_line hs) @ post,
      hfields := (hfields m)[header_count m := (Some i, Some (i + length (fst h) + 2))],
      header_count := header_count m + 1\<rparr>"
    have line: "parse_header_line m i = Inr (?m, Some (i + length (header_line h)))"
      by (rule parse_header_line_line) (use Cons.prems True in simp_all)
    then have "parse_headers m i = parse_headers ?m (i + length (header_line h))"
      using c i by (subst parse_headers.simps) (simp add: Let_def)
    also have "\<dots> = Inl OutOfBounds"
      by (rule Cons.IH [where pre = "pre @ parsed_line h"]) (use Cons.prems True in simp_all)
    finally show ?thesis .
  qed
qed simp

definition request_line :: "string \<Rightarrow> string \<Rightarrow> string \<Rightarrow> string" where
  "request_line method uri proto = method @ SP # uri @ SP # proto @ [CR, LF]"

definition render_request :: "string \<Rightarrow> string \<Rightarrow> string \<Rightarrow> header list \<Rightarrow> string" where
  "render_request method uri proto hs = request_line method uri proto @ concat (map header_line hs) @ [CR, LF]"

definition method_ok :: "string \<Rightarrow> bool" where
  "method_ok w \<longleftrightarrow> word_ok w \<and> CHR ''/'' \<notin> set w"

lemma skip_sp_word:
  assumes "len = length d" "d = pre @ w @ x # r" "i = length pre" "word_ok w"
  shows "skip_sp d len i = i"
proof -
  obtain c t where "w = c # t" "c \<noteq> SP" using assms(4) by (cases w) (auto simp: word_ok_def)
  then show ?thesis using assms by (simp add: span_while_def)
qed

text \<open>The first line: what remains is \<open>parse_headers\<close> on the lines behind it.\<close>

lemma parse_request_line:
  assumes "msg m = request_line method uri proto @ post" "msg_len m = length (msg m)"
    and "method_ok method" "word_ok uri" "word_ok proto"
  shows "parse_pmsg m =
    parse_headers (m\<lparr>header_count := 0, ptype := PMSG_REQ, req_method := Some 0,
        req_uri := Some (length method + 1), proto_id := Some (length method + length uri + 2),
        msg := (method @ NUL # uri @ NUL # proto @ [NUL, LF]) @ post\<rparr>)
      (length (request_line method uri proto))"
proof -
  define len where "len = msg_len m"
  define a where "a = length method"
  define b where "b = a + 1 + length uri"
  define c where "c = b + 1 + length proto"
  define r where "r = LF # post"
  have d0: "msg m = method @ SP # uri @ SP # proto @ CR # r"
    using assms(1) by (simp add: request_line_def r_def)
  have len: "len = length (method @ SP # uri @ SP # proto @ CR # r)"
    using assms(2) d0 by (simp add: len_def)
  have mt: "\<forall>x \<in> set method. x \<noteq> SP \<and> x \<noteq> NUL \<and> x \<noteq> CR \<and> x \<noteq> LF \<and> x \<noteq> CHR ''/''"
    using assms(3) by (auto simp: method_ok_def word_ok_def)
  have ur: "\<forall>x \<in> set uri. x \<noteq> SP \<and> x \<noteq> NUL \<and> x \<noteq> CR \<and> x \<noteq> LF"
    and pr: "\<forall>x \<in> set proto. x \<noteq> SP \<and> x \<noteq> NUL \<and> x \<noteq> CR \<and> x \<noteq> LF"
    using assms(4,5) by (auto simp: word_ok_def)
  have sp: "span_while (\<lambda>c. c \<noteq> SP \<and> c \<noteq> CHR ''/'') (msg m) len 0 = a"
    using mt len by (simp add: span_while_def d0 a_def takeWhile_tail)
  let ?m0 = "m\<lparr>header_count := 0, ptype := PMSG_REQ, req_method := Some 0\<rparr>"
  let ?m1 = "?m0\<lparr>msg := method @ NUL # uri @ SP # proto @ CR # r, req_uri := Some (a + 1)\<rparr>"
  let ?m2 = "?m1\<lparr>msg := (method @ NUL # uri) @ NUL # proto @ CR # r, proto_id := Some (b + 1)\<rparr>"
  let ?m3 = "?m2\<lparr>msg := (method @ NUL # uri @ NUL # proto) @ NUL # r\<rparr>"
  have e1: "delim (take len (msg ?m0)) SP NUL = a"
    using mt len by (simp add: d0 a_def delim_word)
  have p1: "put_msg ?m0 a NUL = Inr (?m0\<lparr>msg := method @ NUL # uri @ SP # proto @ CR # r\<rparr>)"
    by (rule put_msg_at) (simp_all add: d0 a_def)
  have k1: "skip_sp (method @ NUL # uri @ SP # proto @ CR # r) len (a + 1) = a + 1"
    by (rule skip_sp_word [where pre = "method @ [NUL]"]) (use len assms(4) in \<open>simp_all add: a_def\<close>)
  have e2: "a + 1 + delim (drop (a + 1) (take len (msg ?m1))) SP NUL = b"
    using ur len by (simp add: a_def b_def delim_word)
  have p2: "put_msg ?m1 b NUL = Inr (?m1\<lparr>msg := (method @ NUL # uri) @ NUL # proto @ CR # r\<rparr>)"
    by (rule put_msg_at) (simp_all add: a_def b_def)
  have k2: "skip_sp ((method @ NUL # uri) @ NUL # proto @ CR # r) len (b + 1) = b + 1"
    by (rule skip_sp_word [where pre = "method @ NUL # uri @ [NUL]"]) (use len assms(5) in \<open>simp_all add: a_def b_def\<close>)
  have e3: "b + 1 + delim (drop (b + 1) (take len (msg ?m2))) NUL NUL = c"
    using pr len by (simp add: a_def b_def c_def delim_word)
  have p3: "put_msg ?m2 c NUL = Inr ?m3"
    by (rule put_msg_at) (simp_all add: a_def b_def c_def)
  have g: "aget (msg ?m0) a = Inr SP" "aget (msg ?m1) b = Inr SP" "aget (msg ?m3) (c + 1) = Inr LF"
    using aget_at [of a "method"] aget_at [of b "method @ NUL # uri" SP]
      aget_at [of "c + 1" "(method @ NUL # uri @ NUL # proto) @ [NUL]" LF post]
    by (simp_all add: d0 a_def b_def c_def r_def)
  have le: "\<not> len \<le> a" "\<not> len \<le> b" "\<not> len < 4" "a \<noteq> len" "\<not> len \<le> c + 1"
    using len assms(3-5) by (auto simp: a_def b_def c_def r_def method_ok_def word_ok_def
        Suc_le_eq numeral_eq_Suc simp flip: length_greater_0_conv)
  have "drop (c + 1) ((method @ NUL # uri @ NUL # proto @ [NUL]) @ LF # post) = LF # post"
    by (rule drop_exact) (simp add: a_def b_def c_def)
  then have "skip_sp (msg ?m3) len (c + 1) = c + 1"
    by (intro span_none [where x = LF and r = post]) (use len in \<open>simp_all add: r_def\<close>)
  then have rest: "parse_rest ?m3 (c + 1) = parse_headers ?m3 (c + 1 + 1)"
    using g(3) le(5) by (simp add: parse_rest_def Let_def len_def [symmetric])
  have "parse_req_line (m\<lparr>header_count := 0\<rparr>) = parse_rest ?m3 (c + 1)"
    unfolding parse_req_line_def Let_def
    using e1 p1 k1 e2 p2 k2 e3 p3 g le by (simp add: len_def [symmetric])
  moreover have "parse_pmsg m = parse_req_line (m\<lparr>header_count := 0\<rparr>)"
    using sp g(1) le by (simp add: parse_pmsg_def Let_def len_def [symmetric])
  moreover have "c + 1 + 1 = length (request_line method uri proto)" "b + 1 = length method + length uri + 2"
    "msg ?m3 = (method @ NUL # uri @ NUL # proto @ [NUL, LF]) @ post"
    by (simp_all add: a_def b_def c_def r_def request_line_def)
  ultimately show ?thesis
    using rest by (simp add: a_def)
qed

section \<open>The headers of a message\<close>

definition has_headers :: "pmsg \<Rightarrow> header list \<Rightarrow> bool" where
  "has_headers m hs \<longleftrightarrow>
     header_count m = length hs \<and> length hs \<le> length (hfields m) \<and>
     (\<forall>i < length hs. \<exists>p q. hfields m ! i = (Some p, Some q) \<and>
        str_at (msg m) p = Inr (fst (hs ! i)) \<and> str_at (msg m) q = Inr (snd (hs ! i)))"

definition lookup_header :: "string \<Rightarrow> header list \<Rightarrow> string option" where
  "lookup_header name hs = map_option snd (find (\<lambda>h. strcaseeq (fst h) name) hs)"

lemma has_headersD:
  assumes "has_headers m hs" "i < length hs"
  shows "\<exists>p q. aget (hfields m) i = Inr (Some p, Some q) \<and>
     str_at (msg m) p = Inr (fst (hs ! i)) \<and> str_at (msg m) q = Inr (snd (hs ! i))"
  using assms by (fastforce simp: has_headers_def)

lemma find_field_spec:
  assumes "has_headers m hs" "j \<le> length hs"
  shows "find_field m name [j..<length hs] =
    Inr (case find (\<lambda>i. strcaseeq (fst (hs ! i)) name) [j..<length hs] of None \<Rightarrow> None | Some i \<Rightarrow> Some i)"
  using assms(2)
proof (induction rule: inc_induct)
  case (step n)
  then obtain p q where "aget (hfields m) n = Inr (Some p, Some q)" "str_at (msg m) p = Inr (fst (hs ! n))"
    using has_headersD [OF assms(1), of n] by auto
  with step show ?case by (simp add: upt_conv_Cons str_ptr_def)
qed simp

lemma find_index: "find P hs = map_option (\<lambda>i. hs ! i) (find (\<lambda>i. P (hs ! i)) [0..<length hs])"
proof -
  have "map_option (\<lambda>i. hs ! i) (find (\<lambda>i. P (hs ! i)) ks) = find P (map (\<lambda>i. hs ! i) ks)" for ks
    by (induction ks) auto
  from this [of "[0..<length hs]"] show ?thesis by (simp add: map_nth)
qed

lemma find_Some_in: "find P xs = Some x \<Longrightarrow> x \<in> set xs"
  by (induction xs) (auto split: if_splits)

lemma get_header_lookup:
  assumes "has_headers m hs"
  shows "get_header m name = Inr (lookup_header name hs)"
proof -
  let ?f = "find (\<lambda>i. strcaseeq (fst (hs ! i)) name) [0..<length hs]"
  have f: "find_field m name [0..<header_count m] = Inr ?f"
    using find_field_spec [OF assms, of 0 name] assms by (simp add: has_headers_def split: option.splits)
  have l: "lookup_header name hs = map_option (\<lambda>i. snd (hs ! i)) ?f"
    unfolding lookup_header_def by (subst find_index) (simp add: option.map_comp o_def)
  show ?thesis
  proof (cases ?f)
    case None
    then show ?thesis using f l by (simp add: get_header_def)
  next
    case (Some i)
    then have "i < length hs" using find_Some_in [OF Some] by simp
    then obtain p q where "aget (hfields m) i = Inr (Some p, Some q)" "str_at (msg m) q = Inr (snd (hs ! i))"
      using has_headersD [OF assms, of i] by auto
    then show ?thesis using f l Some by (simp add: get_header_def str_ptr_def)
  qed
qed

lemma line_fields_strings:
  assumes "list_all header_ok hs" "p = length pre" "i < length hs"
  shows "\<exists>a b. line_fields p hs ! i = (Some a, Some b) \<and>
     str_at (pre @ concat (map parsed_line hs) @ post) a = Inr (fst (hs ! i)) \<and>
     str_at (pre @ concat (map parsed_line hs) @ post) b = Inr (snd (hs ! i))"
  using assms
proof (induction hs arbitrary: p pre i)
  case (Cons h hs)
  show ?case
  proof (cases i)
    case 0
    obtain n v where h: "h = (n, v)" by (cases h)
    have nul: "NUL \<notin> set n" "NUL \<notin> set v"
      using Cons.prems(1) by (auto simp: h header_ok_def name_ok_def value_ok_def)
    let ?d = "pre @ concat (map parsed_line (h # hs)) @ post"
    have "?d = pre @ n @ NUL # (SP # v @ NUL # LF # concat (map parsed_line hs) @ post)"
      by (simp add: h parsed_line_def)
    then have 1: "str_at ?d p = Inr n"
      using str_at_append [OF nul(1) Cons.prems(2) [symmetric]] by simp
    have "?d = (pre @ n @ [NUL, SP]) @ v @ NUL # (LF # concat (map parsed_line hs) @ post)"
      by (simp add: h parsed_line_def)
    moreover have "str_at ((pre @ n @ [NUL, SP]) @ v @ NUL # (LF # concat (map parsed_line hs) @ post))
        (p + length n + 2) = Inr v"
      by (rule str_at_append [OF nul(2)]) (simp add: Cons.prems(2))
    ultimately have "str_at ?d (p + length n + 2) = Inr v" by simp
    with 1 show ?thesis by (simp add: 0 h)
  next
    case (Suc k)
    have "\<exists>a b. line_fields (p + length (header_line h)) hs ! k = (Some a, Some b) \<and>
        str_at ((pre @ parsed_line h) @ concat (map parsed_line hs) @ post) a = Inr (fst (hs ! k)) \<and>
        str_at ((pre @ parsed_line h) @ concat (map parsed_line hs) @ post) b = Inr (snd (hs ! k))"
      by (rule Cons.IH) (use Cons.prems Suc in simp_all)
    then show ?thesis by (simp add: Suc)
  qed
qed simp

text \<open>A parsed request: its three words and its headers.\<close>

definition is_request :: "pmsg \<Rightarrow> string \<Rightarrow> string \<Rightarrow> string \<Rightarrow> header list \<Rightarrow> bool" where
  "is_request m method uri proto hs \<longleftrightarrow>
     ptype m = PMSG_REQ \<and> str_ptr m (req_method m) = Inr method \<and> str_ptr m (req_uri m) = Inr uri \<and>
     str_ptr m (proto_id m) = Inr proto \<and> has_headers m hs"

lemma parse_render:
  assumes "msg m = render_request method uri proto hs @ post" "msg_len m = length (msg m)"
    and "method_ok method" "word_ok uri" "word_ok proto" "list_all header_ok hs"
    and "length (hfields m) = MAX_FIELDS" "length hs \<le> MAX_FIELDS"
  shows "\<exists>m'. parse_pmsg m = Inr (m', int (length (render_request method uri proto hs))) \<and>
              is_request m' method uri proto hs"
proof -
  let ?pre = "method @ NUL # uri @ NUL # proto @ [NUL, LF]"
  let ?rest = "concat (map header_line hs) @ CR # LF # post"
  let ?m = "m\<lparr>header_count := 0, ptype := PMSG_REQ, req_method := Some 0,
        req_uri := Some (length method + 1), proto_id := Some (length method + length uri + 2),
        msg := ?pre @ ?rest\<rparr>"
  let ?d = "?pre @ concat (map parsed_line hs) @ CR # LF # post"
  let ?m' = "?m\<lparr>msg := ?d, hfields := take (header_count ?m) (hfields ?m)
        @ line_fields (length (request_line method uri proto)) hs @ drop (header_count ?m + length hs) (hfields ?m),
      header_count := header_count ?m + length hs\<rparr>"
  have nul: "NUL \<notin> set method" "NUL \<notin> set uri" "NUL \<notin> set proto"
    using assms(3-5) by (auto simp: method_ok_def word_ok_def)
  have "parse_pmsg m = parse_headers ?m (length (request_line method uri proto))"
    by (rule parse_request_line) (use assms(1-5) in \<open>simp_all add: render_request_def\<close>)
  also have "\<dots> = Inr (?m', int (length (request_line method uri proto) + length (concat (map header_line hs))) + 2)"
    by (rule parse_headers_lines)
       (use assms in \<open>simp_all add: render_request_def request_line_def\<close>)
  finally have p: "parse_pmsg m = Inr (?m', int (length (render_request method uri proto hs)))"
    by (simp add: render_request_def)
  have "str_at ?d 0 = Inr method"
    using str_at_append [OF nul(1), of "[]" 0] by simp
  moreover have "str_at ?d (length method + 1) = Inr uri"
    using str_at_append [OF nul(2), of "method @ [NUL]" "length method + 1"] by simp
  moreover have "str_at ?d (length method + length uri + 2) = Inr proto"
    using str_at_append [OF nul(3), of "method @ NUL # uri @ [NUL]" "length method + length uri + 2"] by simp
  moreover have "has_headers ?m' hs"
    using line_fields_strings [OF assms(6), of "length (request_line method uri proto)" ?pre] assms(7,8)
    by (simp add: has_headers_def nth_append request_line_def)
  ultimately have "is_request ?m' method uri proto hs"
    by (simp add: is_request_def str_ptr_def)
  with p show ?thesis by blast
qed

section \<open>Building a message\<close>

text \<open>A string stored in the used part of the block survives everything appended later.\<close>

definition in_msg :: "pmsg \<Rightarrow> nat \<Rightarrow> string \<Rightarrow> bool" where
  "in_msg m p s \<longleftrightarrow> str_at (take (msg_len m) (msg m)) p = Inr s"

definition room :: "pmsg \<Rightarrow> nat" where
  "room m = max_len m - msg_len m"

definition block_ok :: "pmsg \<Rightarrow> bool" where
  "block_ok m \<longleftrightarrow> length (msg m) = max_len m \<and> msg_len m \<le> max_len m \<and> length (hfields m) = MAX_FIELDS"

lemma in_msg_str_at: "in_msg m p s \<Longrightarrow> str_at (msg m) p = Inr s"
  unfolding in_msg_def by (erule str_at_prefix) simp

lemma in_msg_mono:
  assumes "in_msg m p s" "msg_len m \<le> msg_len m'" "take (msg_len m) (msg m') = take (msg_len m) (msg m)"
  shows "in_msg m' p s"
  using assms(1) unfolding in_msg_def
  by (rule str_at_prefix) (use assms(2,3) in \<open>simp add: min_absorb1\<close>)

lemma add_pmsg_string_cases:
  assumes "block_ok m" "NUL \<notin> set t"
  shows "(length t + 1 \<le> room m \<and> snd (add_pmsg_string m t) = Some (msg_len m) \<and>
           in_msg (fst (add_pmsg_string m t)) (msg_len m) t \<and>
           msg_len (fst (add_pmsg_string m t)) = msg_len m + length t + 1) \<or>
         (room m < length t + 1 \<and> add_pmsg_string m t = (m, None))"
proof (cases "length t + 1 \<le> room m")
  case True
  have "str_at (take (msg_len m) (msg m) @ t @ NUL # []) (msg_len m) = Inr t"
    by (rule str_at_append [OF assms(2)]) (use assms(1) in \<open>simp add: block_ok_def\<close>)
  then show ?thesis
    using True assms(1) by (simp add: add_pmsg_string_def Let_def room_def in_msg_def block_ok_def min_absorb2)
qed (use assms(1) in \<open>auto simp: add_pmsg_string_def Let_def room_def block_ok_def\<close>)

lemma add_pmsg_string_keeps:
  assumes "block_ok m"
  shows "block_ok (fst (add_pmsg_string m t))"
    and "in_msg m p s \<Longrightarrow> in_msg (fst (add_pmsg_string m t)) p s"
    and "hfields (fst (add_pmsg_string m t)) = hfields m"
    and "header_count (fst (add_pmsg_string m t)) = header_count m"
    and "max_len (fst (add_pmsg_string m t)) = max_len m"
    and "proto_id (fst (add_pmsg_string m t)) = proto_id m"
    and "stat_reason (fst (add_pmsg_string m t)) = stat_reason m"
    and "stat_code (fst (add_pmsg_string m t)) = stat_code m"
    and "ptype (fst (add_pmsg_string m t)) = ptype m"
proof -
  show "block_ok (fst (add_pmsg_string m t))"
    using assms by (auto simp: add_pmsg_string_def Let_def block_ok_def)
  show "in_msg m p s \<Longrightarrow> in_msg (fst (add_pmsg_string m t)) p s"
    using assms
    by (elim in_msg_mono) (auto simp: add_pmsg_string_def Let_def block_ok_def min_absorb1)
qed (auto simp: add_pmsg_string_def Let_def)

text \<open>The list of headers a message stands for.\<close>

definition str_or_empty :: "string \<Rightarrow> nat option \<Rightarrow> string" where
  "str_or_empty d p = (case p of None \<Rightarrow> [] | Some i \<Rightarrow> (case str_at d i of Inl _ \<Rightarrow> [] | Inr s \<Rightarrow> s))"

definition hdr_list :: "pmsg \<Rightarrow> header list" where
  "hdr_list m = map (\<lambda>(n, v). (str_or_empty (msg m) n, str_or_empty (msg m) v)) (take (header_count m) (hfields m))"

definition msg_ok :: "pmsg \<Rightarrow> bool" where
  "msg_ok m \<longleftrightarrow> block_ok m \<and> header_count m \<le> MAX_FIELDS \<and>
     (\<forall>i < header_count m. \<exists>p q s t. hfields m ! i = (Some p, Some q) \<and> in_msg m p s \<and> in_msg m q t)"

lemma msg_ok_has_headers: "msg_ok m \<Longrightarrow> has_headers m (hdr_list m)"
proof -
  assume ok: "msg_ok m"
  have "\<exists>p q. hfields m ! i = (Some p, Some q) \<and> str_at (msg m) p = Inr (fst (hdr_list m ! i)) \<and>
      str_at (msg m) q = Inr (snd (hdr_list m ! i))" if i: "i < header_count m" for i
  proof -
    obtain p q s t where f: "hfields m ! i = (Some p, Some q)" "in_msg m p s" "in_msg m q t"
      using ok i unfolding msg_ok_def by blast
    then have "hdr_list m ! i = (s, t)"
      using ok i by (simp add: hdr_list_def str_or_empty_def in_msg_str_at msg_ok_def block_ok_def)
    with f show ?thesis by (simp add: in_msg_str_at)
  qed
  moreover have "length (hdr_list m) = header_count m"
    using ok by (simp add: hdr_list_def msg_ok_def block_ok_def)
  ultimately show ?thesis
    using ok by (simp add: has_headers_def msg_ok_def block_ok_def)
qed

text \<open>Keeping what a message holds: the headers of \<open>m\<close> read the same in \<open>m'\<close>.\<close>

lemma hdr_list_keep:
  assumes "msg_ok m" "\<And>p s. in_msg m p s \<Longrightarrow> in_msg m' p s" "header_count m' = header_count m"
    and "\<And>i. i < header_count m \<Longrightarrow> hfields m' ! i = hfields m ! i" "block_ok m'"
  shows "msg_ok m' \<and> hdr_list m' = hdr_list m"
proof -
  have ok: "\<exists>p q s t. hfields m ! i = (Some p, Some q) \<and> in_msg m p s \<and> in_msg m q t" if "i < header_count m" for i
    using assms(1) that by (simp add: msg_ok_def)
  have "msg_ok m'"
    using assms ok unfolding msg_ok_def by metis
  moreover have "hdr_list m' = hdr_list m"
  proof (rule nth_equalityI)
    show "length (hdr_list m') = length (hdr_list m)"
      using assms by (simp add: hdr_list_def msg_ok_def block_ok_def)
    fix i
    assume "i < length (hdr_list m')"
    then have i: "i < header_count m" "i < length (hfields m)" "i < length (hfields m')"
      using assms by (simp_all add: hdr_list_def msg_ok_def block_ok_def)
    then obtain p q s t where f: "hfields m ! i = (Some p, Some q)" "in_msg m p s" "in_msg m q t"
      using ok by blast
    then have "str_at (msg m') p = Inr s" "str_at (msg m') q = Inr t"
      using assms(2) in_msg_str_at by blast+
    with f show "hdr_list m' ! i = hdr_list m ! i"
      using assms(3,4) i by (simp add: hdr_list_def str_or_empty_def in_msg_str_at)
  qed
  ultimately show ?thesis ..
qed

lemma hdr_list_snoc:
  assumes "msg_ok m" "header_count m < MAX_FIELDS" "\<And>p s. in_msg m p s \<Longrightarrow> in_msg m' p s"
    and "header_count m' = header_count m + 1" "block_ok m'"
    and "\<And>i. i < header_count m \<Longrightarrow> hfields m' ! i = hfields m ! i"
    and "hfields m' ! header_count m = (Some a, Some b)" "in_msg m' a s" "in_msg m' b t"
  shows "msg_ok m' \<and> hdr_list m' = hdr_list m @ [(s, t)]"
proof -
  let ?k = "m'\<lparr>header_count := header_count m\<rparr>"
  have k: "msg_ok ?k \<and> hdr_list ?k = hdr_list m"
    by (rule hdr_list_keep [OF assms(1)]) (use assms in \<open>simp_all add: in_msg_def block_ok_def\<close>)
  have len: "header_count m < length (hfields m')" using assms(2,5) by (simp add: block_ok_def)
  have "hdr_list m' = hdr_list ?k @ [(s, t)]"
    using len assms(4,7) in_msg_str_at [OF assms(8)] in_msg_str_at [OF assms(9)]
    by (simp add: hdr_list_def take_Suc_conv_app_nth str_or_empty_def)
  moreover have "msg_ok m'"
  proof -
    have "\<exists>p q s t. hfields m' ! i = (Some p, Some q) \<and> in_msg m' p s \<and> in_msg m' q t"
      if "i < header_count m'" for i
    proof (cases "i = header_count m")
      case False
      then have "i < header_count ?k" using that assms(4) by simp
      with k have "\<exists>p q s t. hfields ?k ! i = (Some p, Some q) \<and> in_msg ?k p s \<and> in_msg ?k q t"
        unfolding msg_ok_def by blast
      then show ?thesis by (simp add: in_msg_def)
    qed (use assms in blast)
    then show ?thesis using assms(2,4,5) unfolding msg_ok_def by simp
  qed
  ultimately show ?thesis using k by simp
qed

definition clean :: "string \<Rightarrow> bool" where
  "clean s \<longleftrightarrow> NUL \<notin> set s"

lemma add_header_fits:
  assumes ok: "msg_ok m" and cl: "clean n" "clean v" and sl: "header_count m < MAX_FIELDS"
    and rm: "length n + length v + 2 \<le> room m"
  shows "snd (add_header m n v) = 0 \<and> msg_ok (fst (add_header m n v)) \<and>
         hdr_list (fst (add_header m n v)) = hdr_list m @ [(n, v)] \<and>
         room (fst (add_header m n v)) = room m - (length n + length v + 2)"
proof -
  have b: "block_ok m" using ok by (simp add: msg_ok_def)
  let ?h = "header_count m"
  define m1 where "m1 = fst (add_pmsg_string m n)"
  define m2 where "m2 = m1\<lparr>hfields := (hfields m1)[?h := (Some (msg_len m), snd (hfields m1 ! ?h))]\<rparr>"
  define m3 where "m3 = fst (add_pmsg_string m2 v)"
  define m4 where "m4 = m3\<lparr>hfields := (hfields m3)[?h := (Some (msg_len m), Some (msg_len m2))], header_count := ?h + 1\<rparr>"
  have 1: "add_pmsg_string m n = (m1, Some (msg_len m))" "in_msg m1 (msg_len m) n"
    "msg_len m1 = msg_len m + length n + 1"
    using add_pmsg_string_cases [OF b, of n] cl(1) rm by (auto simp: clean_def m1_def prod_eq_iff)
  have k1: "block_ok m1" "\<And>p s. in_msg m p s \<Longrightarrow> in_msg m1 p s" "hfields m1 = hfields m" "header_count m1 = ?h"
      "max_len m1 = max_len m"
    unfolding m1_def by (simp_all add: add_pmsg_string_keeps [OF b])
  have b2: "block_ok m2" "room m2 = room m - (length n + 1)" "msg_len m2 = msg_len m + length n + 1"
    "header_count m2 = ?h" "max_len m2 = max_len m"
    using k1 1(3) by (simp_all add: m2_def block_ok_def room_def)
  have in2: "in_msg m2 p s = in_msg m1 p s" for p s by (simp add: m2_def in_msg_def)
  have 3: "add_pmsg_string m2 v = (m3, Some (msg_len m2))" "in_msg m3 (msg_len m2) v"
    "msg_len m3 = msg_len m2 + length v + 1"
    using add_pmsg_string_cases [OF b2(1), of v] cl(2) rm b2(2) by (auto simp: clean_def m3_def prod_eq_iff)
  have k3: "block_ok m3" "\<And>p s. in_msg m2 p s \<Longrightarrow> in_msg m3 p s" "hfields m3 = hfields m2" "header_count m3 = ?h"
      "max_len m3 = max_len m"
    unfolding m3_def using b2(4,5) by (simp_all add: add_pmsg_string_keeps [OF b2(1)])
  have run: "add_header m n v = (m4, 0)"
    using sl k1 k3 1(1) 3(1) by (simp add: add_header_def m2_def m4_def)
  have in4: "in_msg m4 p s = in_msg m3 p s" for p s by (simp add: m4_def in_msg_def)
  have "msg_ok m4 \<and> hdr_list m4 = hdr_list m @ [(n, v)]"
  proof (rule hdr_list_snoc [OF ok sl])
    show "in_msg m4 p s" if "in_msg m p s" for p s using that k1(2) in2 k3(2) in4 by blast
    show "block_ok m4" using k3 by (simp add: m4_def block_ok_def)
    show "hfields m4 ! i = hfields m ! i" if "i < ?h" for i using that k1 k3 by (simp add: m4_def m2_def)
    show "hfields m4 ! ?h = (Some (msg_len m), Some (msg_len m2))"
      using sl k3(1) by (simp add: m4_def block_ok_def)
    show "in_msg m4 (msg_len m) n" using 1(2) in2 k3(2) in4 by blast
    show "in_msg m4 (msg_len m2) v" using 3(2) in4 by blast
  qed (simp add: m4_def)
  moreover have "room m4 = room m - (length n + length v + 2)"
    using k3 3(3) b2(3) by (simp add: m4_def room_def)
  ultimately show ?thesis by (simp add: run)
qed

lemma add_header_fails:
  assumes ok: "msg_ok m" and cl: "clean n" "clean v"
    and "header_count m = MAX_FIELDS \<or> room m < length n + length v + 2"
  shows "snd (add_header m n v) = -1 \<and> msg_ok (fst (add_header m n v)) \<and>
         hdr_list (fst (add_header m n v)) = hdr_list m"
proof -
  have b: "block_ok m" using ok by (simp add: msg_ok_def)
  let ?h = "header_count m"
  consider (full) "?h = MAX_FIELDS" | (name) "?h \<noteq> MAX_FIELDS" "room m < length n + 1"
    | (val) "?h \<noteq> MAX_FIELDS" "length n + 1 \<le> room m" "room m < length n + length v + 2"
    using assms(4) by linarith
  then show ?thesis
  proof cases
    case full
    then show ?thesis using ok by (simp add: add_header_def)
  next
    case name
    then have "add_pmsg_string m n = (m, None)"
      using add_pmsg_string_cases [OF b, of n] cl(1) by (auto simp: clean_def)
    then have run: "add_header m n v = (m\<lparr>hfields := (hfields m)[?h := (None, snd (hfields m ! ?h))]\<rparr>, -1)"
      using name by (simp add: add_header_def)
    show ?thesis
      unfolding run using hdr_list_keep [OF ok, of "m\<lparr>hfields := (hfields m)[?h := (None, snd (hfields m ! ?h))]\<rparr>"] b
      by (simp add: in_msg_def block_ok_def)
  next
    case val
    define m1 where "m1 = fst (add_pmsg_string m n)"
    define m2 where "m2 = m1\<lparr>hfields := (hfields m1)[?h := (Some (msg_len m), snd (hfields m1 ! ?h))]\<rparr>"
    define m4 where "m4 = m2\<lparr>hfields := (hfields m2)[?h := (Some (msg_len m), None)]\<rparr>"
    have 1: "add_pmsg_string m n = (m1, Some (msg_len m))" "msg_len m1 = msg_len m + length n + 1"
      using add_pmsg_string_cases [OF b, of n] cl(1) val by (auto simp: clean_def m1_def prod_eq_iff)
    have k1: "block_ok m1" "\<And>p s. in_msg m p s \<Longrightarrow> in_msg m1 p s" "hfields m1 = hfields m" "header_count m1 = ?h"
      "max_len m1 = max_len m"
      unfolding m1_def by (simp_all add: add_pmsg_string_keeps [OF b])
    have b2: "block_ok m2" "room m2 < length v + 1" "header_count m2 = ?h"
      using k1 1(2) val by (auto simp: m2_def block_ok_def room_def)
    have "add_pmsg_string m2 v = (m2, None)"
      using add_pmsg_string_cases [OF b2(1), of v] cl(2) b2(2) by (auto simp: clean_def)
    then have run: "add_header m n v = (m4, -1)"
      using val(1) 1(1) k1(4) b2(3) by (simp add: add_header_def m2_def m4_def)
    show ?thesis
      unfolding run using hdr_list_keep [OF ok, of m4] k1
      by (simp add: in_msg_def block_ok_def m4_def m2_def)
  qed
qed

section \<open>The interface: a store of headers\<close>

text \<open>What the code that builds replies relies on: a bounded list of headers, with space for their text;
  adding appends or changes nothing, looking up finds the first header of a name.\<close>

locale header_store =
  fixes ok :: "'m \<Rightarrow> bool"
    and headers :: "'m \<Rightarrow> header list"
    and space :: "'m \<Rightarrow> nat"
    and limit :: nat
    and add :: "'m \<Rightarrow> string \<Rightarrow> string \<Rightarrow> 'm \<times> int"
    and look :: "'m \<Rightarrow> string \<Rightarrow> string option res"
  assumes add_fits: "ok m \<Longrightarrow> clean n \<Longrightarrow> clean v \<Longrightarrow> length (headers m) < limit \<Longrightarrow>
      length n + length v + 2 \<le> space m \<Longrightarrow>
      snd (add m n v) = 0 \<and> ok (fst (add m n v)) \<and> headers (fst (add m n v)) = headers m @ [(n, v)] \<and>
      space (fst (add m n v)) = space m - (length n + length v + 2)"
    and add_fails: "ok m \<Longrightarrow> clean n \<Longrightarrow> clean v \<Longrightarrow>
      limit \<le> length (headers m) \<or> space m < length n + length v + 2 \<Longrightarrow>
      snd (add m n v) = -1 \<and> ok (fst (add m n v)) \<and> headers (fst (add m n v)) = headers m"
    and look_first: "ok m \<Longrightarrow> look m n = Inr (lookup_header n (headers m))"
begin

definition add_all :: "'m \<Rightarrow> header list \<Rightarrow> 'm" where
  "add_all m hs = foldl (\<lambda>m h. fst (add m (fst h) (snd h))) m hs"

lemma add_ok: "ok m \<Longrightarrow> clean n \<Longrightarrow> clean v \<Longrightarrow> ok (fst (add m n v))"
  using add_fits [of m n v] add_fails [of m n v] by (meson not_le)

text \<open>Headers already there are never lost or reordered, whatever is added and whether or not it fits.\<close>

lemma add_extends:
  assumes "ok m" "clean n" "clean v"
  shows "\<exists>hs. headers (fst (add m n v)) = headers m @ hs \<and> set hs \<subseteq> {(n, v)}"
  using add_fits [OF assms] add_fails [OF assms]
  by (cases "length (headers m) < limit \<and> length n + length v + 2 \<le> space m") auto

lemma add_all_fits:
  assumes "ok m" "list_all (\<lambda>h. clean (fst h) \<and> clean (snd h)) hs"
    and "length (headers m) + length hs \<le> limit"
    and "sum_list (map (\<lambda>h. length (fst h) + length (snd h) + 2) hs) \<le> space m"
  shows "ok (add_all m hs) \<and> headers (add_all m hs) = headers m @ hs"
  using assms
proof (induction hs arbitrary: m)
  case (Cons h hs)
  have a: "snd (add m (fst h) (snd h)) = 0 \<and> ok (fst (add m (fst h) (snd h))) \<and>
      headers (fst (add m (fst h) (snd h))) = headers m @ [(fst h, snd h)] \<and>
      space (fst (add m (fst h) (snd h))) = space m - (length (fst h) + length (snd h) + 2)"
    by (rule add_fits) (use Cons.prems in auto)
  from Cons.IH [of "fst (add m (fst h) (snd h))"] a Cons.prems show ?case
    by (simp add: add_all_def)
qed (simp add: add_all_def)

lemma look_after_add:
  assumes "ok m" "clean n" "clean v" "length (headers m) < limit" "length n + length v + 2 \<le> space m"
  shows "look (fst (add m n v)) n
           = Inr (Some (case lookup_header n (headers m) of None \<Rightarrow> v | Some w \<Rightarrow> w))"
proof -
  have "find P (xs @ [x]) = (case find P xs of None \<Rightarrow> if P x then Some x else None | Some y \<Rightarrow> Some y)" for P x and xs :: "header list"
    by (induction xs) auto
  then show ?thesis
    using add_fits [OF assms] by (simp add: look_first lookup_header_def strcaseeq_def split: option.splits)
qed

end

interpretation pm: header_store msg_ok hdr_list room MAX_FIELDS add_header get_header
proof unfold_locales
  fix m :: pmsg and n v
  assume ok: "msg_ok m" and cl: "clean n" "clean v"
  have len: "length (hdr_list m) = header_count m" "header_count m \<le> MAX_FIELDS"
    using msg_ok_has_headers [OF ok] ok by (simp_all add: has_headers_def msg_ok_def)
  { assume "length (hdr_list m) < MAX_FIELDS" "length n + length v + 2 \<le> room m"
    then show "snd (add_header m n v) = 0 \<and> msg_ok (fst (add_header m n v)) \<and>
        hdr_list (fst (add_header m n v)) = hdr_list m @ [(n, v)] \<and>
        room (fst (add_header m n v)) = room m - (length n + length v + 2)"
      using add_header_fits [OF ok cl] len by simp }
  { assume "MAX_FIELDS \<le> length (hdr_list m) \<or> room m < length n + length v + 2"
    then show "snd (add_header m n v) = -1 \<and> msg_ok (fst (add_header m n v)) \<and>
        hdr_list (fst (add_header m n v)) = hdr_list m"
      using add_header_fails [OF ok cl] len by auto }
next
  fix m :: pmsg and n
  assume "msg_ok m"
  then show "get_header m n = Inr (lookup_header n (hdr_list m))"
    by (intro get_header_lookup msg_ok_has_headers)
qed

section \<open>Copying headers\<close>

lemma copy_fields_spec:
  assumes "has_headers src hs" "msg_ok dest" "list_all (\<lambda>h. clean (fst h) \<and> clean (snd h)) hs" "j \<le> length hs"
    and "length (hdr_list dest) + length (filter (\<lambda>h. strcaseeq (fst h) name) (drop j hs)) \<le> MAX_FIELDS"
    and "sum_list (map (\<lambda>h. length (fst h) + length (snd h) + 2) (filter (\<lambda>h. strcaseeq (fst h) name) (drop j hs))) \<le> room dest"
  shows "\<exists>dest' k. copy_fields dest src name [j..<length hs] count = Inr (dest', k) \<and> msg_ok dest' \<and>
           hdr_list dest' = hdr_list dest @ filter (\<lambda>h. strcaseeq (fst h) name) (drop j hs)"
  using assms(4,2,5,6)
proof (induction arbitrary: dest count rule: inc_induct)
  case (step n)
  obtain p q where f: "aget (hfields src) n = Inr (Some p, Some q)" "str_at (msg src) p = Inr (fst (hs ! n))"
      "str_at (msg src) q = Inr (snd (hs ! n))"
    using has_headersD [OF assms(1) step.hyps(2)] by blast
  have d: "drop n hs = hs ! n # drop (Suc n) hs"
    using step.hyps(2) by (simp add: Cons_nth_drop_Suc)
  have cl: "clean (fst (hs ! n))" "clean (snd (hs ! n))"
    using assms(3) step.hyps(2) by (auto simp: list_all_length)
  show ?case
  proof (cases "strcaseeq (fst (hs ! n)) name")
    case False
    with step.IH [OF step.prems(1)] step.prems f step.hyps d show ?thesis
      by (simp add: upt_conv_Cons str_ptr_def)
  next
    case True
    have a: "msg_ok (fst (add_header dest (fst (hs ! n)) (snd (hs ! n))))"
      "hdr_list (fst (add_header dest (fst (hs ! n)) (snd (hs ! n)))) = hdr_list dest @ [hs ! n]"
      "room (fst (add_header dest (fst (hs ! n)) (snd (hs ! n)))) = room dest - (length (fst (hs ! n)) + length (snd (hs ! n)) + 2)"
      using pm.add_fits [OF step.prems(1) cl] step.prems(2,3) True d by auto
    with step.IH [OF a(1)] step.prems(2,3) f step.hyps d True show ?thesis
      by (simp add: upt_conv_Cons str_ptr_def)
  qed
qed simp

section \<open>Properties\<close>

text \<open>C8. Parsing undoes rendering: for a request with a method, a URI, a protocol and at most 32
  headers, written as the server writes messages and followed by anything, \<^verbatim>\<open>parse_pmsg\<close> returns the
  length of the request, and the method, the URI, the protocol and every header's name and value read
  back as the strings that were written; \<^verbatim>\<open>get_header\<close> then finds the first header of any name, ignoring
  case.\<close>

theorem parse_pmsg_request:
  assumes "msg m = render_request method uri proto hs @ post" "msg_len m = length (msg m)"
    and "method_ok method" "word_ok uri" "word_ok proto" "list_all header_ok hs"
    and "length (hfields m) = MAX_FIELDS" "length hs \<le> MAX_FIELDS"
  shows "\<exists>m'. parse_pmsg m = Inr (m', int (length (render_request method uri proto hs))) \<and>
              is_request m' method uri proto hs \<and>
              (\<forall>name. get_header m' name = Inr (lookup_header name hs))"
  using parse_render [OF assms] get_header_lookup unfolding is_request_def by blast

definition sample_text :: string where
  "sample_text = render_request ''SETUP'' ''rtsp://h/a'' ''RTSP/1.0'' [(''CSeq'', ''3''), (''cseq'', ''4'')]"

theorem parse_pmsg_request_witness:
  "\<exists>m'. parse_pmsg ((new_pmsg sample_text)\<lparr>msg_len := length sample_text\<rparr>) = Inr (m', int (length sample_text)) \<and>
        str_ptr m' (req_uri m') = Inr ''rtsp://h/a'' \<and> get_header m' ''CSEQ'' = Inr (Some ''3'')"
proof -
  let ?m = "(new_pmsg sample_text)\<lparr>msg_len := length sample_text\<rparr>"
  have "\<exists>m'. parse_pmsg ?m = Inr (m', int (length sample_text)) \<and>
      is_request m' ''SETUP'' ''rtsp://h/a'' ''RTSP/1.0'' [(''CSeq'', ''3''), (''cseq'', ''4'')] \<and>
      (\<forall>name. get_header m' name = Inr (lookup_header name [(''CSeq'', ''3''), (''cseq'', ''4'')]))"
    unfolding sample_text_def
    by (rule parse_pmsg_request [where post = "[]"])
       (simp_all add: new_pmsg_def method_ok_def word_ok_def header_ok_def name_ok_def value_ok_def)
  moreover have "lookup_header ''CSEQ'' [(''CSeq'', ''3''), (''cseq'', ''4'')] = Some ''3''"
    by code_simp
  ultimately show ?thesis unfolding is_request_def by auto
qed

text \<open>C22. A request with more than 32 header lines makes the parser write past the array of header
  slots of \<^verbatim>\<open>struct pmsg\<close>: unlike \<^verbatim>\<open>add_header\<close>, \<^verbatim>\<open>parse_pmsg\<close> does not compare \<^verbatim>\<open>header_count\<close> with
  \<^verbatim>\<open>MAX_FIELDS\<close>.\<close>

theorem parse_pmsg_header_overflow:
  assumes "msg m = render_request method uri proto hs @ post" "msg_len m = length (msg m)"
    and "method_ok method" "word_ok uri" "word_ok proto" "list_all header_ok hs"
    and "length (hfields m) = MAX_FIELDS" "MAX_FIELDS < length hs"
  shows "parse_pmsg m = Inl OutOfBounds"
proof -
  let ?m = "m\<lparr>header_count := 0, ptype := PMSG_REQ, req_method := Some 0,
        req_uri := Some (length method + 1), proto_id := Some (length method + length uri + 2),
        msg := (method @ NUL # uri @ NUL # proto @ [NUL, LF]) @ (concat (map header_line hs) @ CR # LF # post)\<rparr>"
  have "parse_pmsg m = parse_headers ?m (length (request_line method uri proto))"
    by (rule parse_request_line) (use assms(1-5) in \<open>simp_all add: render_request_def\<close>)
  also have "\<dots> = Inl OutOfBounds"
    by (rule parse_headers_overflow [where pre = "method @ NUL # uri @ NUL # proto @ [NUL, LF]"
          and hs = hs and post = "CR # LF # post"])
       (use assms in \<open>simp_all add: render_request_def request_line_def\<close>)
  finally show ?thesis .
qed

definition long_text :: string where
  "long_text = render_request ''GET'' ''/'' ''HTTP/1.0'' (replicate 33 (''a'', []))"

theorem parse_pmsg_header_overflow_witness:
  "parse_pmsg ((new_pmsg long_text)\<lparr>msg_len := length long_text\<rparr>) = Inl OutOfBounds"
  unfolding long_text_def
  by (rule parse_pmsg_header_overflow [of _ "''GET''" "''/''" "''HTTP/1.0''" "replicate 33 (''a'', [])" "[]"])
     (simp_all add: new_pmsg_def method_ok_def word_ok_def header_ok_def name_ok_def value_ok_def list_all_iff)

end
