(* ===== verification/HttpAuth.thy ===== *)
theory HttpAuth
  imports Md5 Wire Pmsg
begin

text \<open>
  Digest authentication (\<^verbatim>\<open>http-auth.c\<close>): the nonce, the parser of the \<^verbatim>\<open>Authorization\<close> header, the expected
  response, and the check. Character arrays of \<^verbatim>\<open>struct digest_auth_info\<close> are strings, with the size checks of
  the code; the header is the C string \<open>get_header\<close> returns, without its terminator. The clock, the random bytes
  and the secret are arguments. The reference is the response of RFC 2069 over the MD5 of RFC 1321.
\<close>

unbundle bit_operations_syntax

section \<open>Model\<close>

record digest_auth_info =
  da_realm :: string
  da_uri :: string
  da_nonce :: string
  da_opaque :: string
  da_username :: string
  da_response :: string

definition no_auth :: digest_auth_info where
  "no_auth = \<lparr>da_realm = [], da_uri = [], da_nonce = [], da_opaque = [], da_username = [], da_response = []\<rparr>"

text \<open>\<^verbatim>\<open>%02x\<close>\<close>

definition hexdigit :: "nat \<Rightarrow> char" where
  "hexdigit n = (if n < 10 then char_of (48 + n) else char_of (87 + n))"

definition hex2 :: "byte \<Rightarrow> string" where
  "hex2 b = [hexdigit (unat b div 16), hexdigit (unat b mod 16)]"

definition hexstr :: "byte list \<Rightarrow> string" where
  "hexstr bs = concat (map hex2 bs)"

text \<open>\<open>random_id\<close> of \<^verbatim>\<open>spook.c\<close>: upper case, from random bytes.\<close>

definition hexdigit_upper :: "nat \<Rightarrow> char" where
  "hexdigit_upper n = (if n < 10 then char_of (48 + n) else char_of (55 + n))"

definition random_id :: "byte list \<Rightarrow> string" where
  "random_id rnd = concat (map (\<lambda>b. [hexdigit_upper (unat b div 16), hexdigit_upper (unat b mod 16)]) rnd)"

text \<open>\<open>md5_hash\<close>: \<open>stack\<close> is what the context variable holds before \<open>MD5Init\<close>.\<close>

fun hash_parts :: "MD5Context \<Rightarrow> string list \<Rightarrow> nat \<Rightarrow> MD5Context" where
  "hash_parts c [] i = c"
| "hash_parts c (v # vs) i =
     (let c = (if i > 0 then MD5Update c (bytes_of '':'') else c)
      in hash_parts (MD5Update c (bytes_of v)) vs (i + 1))"

definition md5_hash :: "MD5Context \<Rightarrow> string list \<Rightarrow> string" where
  "md5_hash stack v = hexstr (fst (MD5Final (hash_parts (MD5Init stack) v 0)))"

text \<open>\<open>create_nonce\<close> at time \<open>now\<close> with the random bytes \<open>rnd\<close>.\<close>

definition create_nonce :: "MD5Context \<Rightarrow> string \<Rightarrow> u32 \<Rightarrow> byte list \<Rightarrow> string" where
  "create_nonce stack secret now rnd =
     (let token = hexstr (PUT_32 now @ rnd) in token @ md5_hash stack [token, secret])"

definition set_directive :: "string \<Rightarrow> string \<Rightarrow> nat \<Rightarrow> digest_auth_info \<Rightarrow> digest_auth_info option" where
  "set_directive n v len auth =
     (if strncaseeq n ''realm='' 6 then
        (if len \<ge> 128 then None else Some (auth\<lparr>da_realm := take len v\<rparr>))
      else if strncaseeq n ''uri='' 4 then
        (if len \<ge> 512 then None else Some (auth\<lparr>da_uri := take len v\<rparr>))
      else if strncaseeq n ''nonce='' 6 then
        (if len \<ge> 128 then None else Some (auth\<lparr>da_nonce := take len v\<rparr>))
      else if strncaseeq n ''opaque='' 7 then
        (if len \<ge> 128 then None else Some (auth\<lparr>da_opaque := take len v\<rparr>))
      else if strncaseeq n ''username='' 9 then
        (if len \<ge> 128 then None else Some (auth\<lparr>da_username := take len v\<rparr>))
      else if strncaseeq n ''response='' 9 then
        (if len \<ge> 33 then None else Some (auth\<lparr>da_response := take len v\<rparr>))
      else if strncaseeq n ''algorithm='' 10 then
        (if strncaseeq v ''md5'' 3 then Some auth else None)
      else Some auth)"

definition QUOTE :: char where "QUOTE = CHR 0x22"

text \<open>Where the value of a directive starts and how long it is; \<open>None\<close> is the return of -1.\<close>

definition directive_value :: "string \<Rightarrow> (string \<times> nat) option" where
  "directive_value n =
     (case dropWhile (\<lambda>c. c \<noteq> CHR ''='') n of
        [] \<Rightarrow> None
      | _ # [] \<Rightarrow> None
      | _ # c # v \<Rightarrow>
          if c = QUOTE
          then (if QUOTE \<in> set v then Some (v, length (takeWhile (\<lambda>c. c \<noteq> QUOTE) v)) else None)
          else Some (c # v, length (takeWhile (\<lambda>c. c \<noteq> CHR '','' \<and> c \<noteq> SP) (c # v))))"

definition next_directive :: "string \<Rightarrow> string" where
  "next_directive n = dropWhile (\<lambda>c. c = QUOTE \<or> c = CHR '','' \<or> c = SP) n"

lemma directive_value_length: "directive_value n = Some (v, len) \<Longrightarrow> length v < length n"
  using length_dropWhile_le [of "\<lambda>c. c \<noteq> CHR ''=''" n]
  by (auto simp: directive_value_def split: list.splits if_splits)

function parse_directives :: "string \<Rightarrow> digest_auth_info \<Rightarrow> digest_auth_info option" where
  "parse_directives n auth =
     (if n = [] then Some auth
      else case directive_value n of
        None \<Rightarrow> None
      | Some (v, len) \<Rightarrow>
          (case set_directive n v len auth of
             None \<Rightarrow> None
           | Some auth \<Rightarrow> parse_directives (next_directive (drop len v)) auth))"
  by pat_completeness auto
termination
proof (relation "measure (length \<circ> fst)", goal_cases)
  case (2 n auth x v len auth')
  then have "length v < length n" using directive_value_length by blast
  moreover have "length (next_directive (drop len v)) \<le> length v"
    unfolding next_directive_def by (metis diff_le_self dual_order.trans length_drop length_dropWhile_le)
  ultimately show ?case by simp
qed simp

declare parse_directives.simps [simp del]

definition parse_auth_header :: "string \<Rightarrow> digest_auth_info \<Rightarrow> digest_auth_info option" where
  "parse_auth_header header auth =
     (if strncaseeq header ''digest '' 7 then parse_directives (drop 7 header) auth else None)"

definition create_response :: "MD5Context \<Rightarrow> digest_auth_info \<Rightarrow> string \<Rightarrow> string \<Rightarrow> string" where
  "create_response stack auth method password =
     (let ha1 = md5_hash stack [da_username auth, da_realm auth, password];
          ha2 = md5_hash stack [method, da_uri auth]
      in md5_hash stack [ha1, da_nonce auth, ha2])"

fun get_hex_u32_from :: "string \<Rightarrow> u32 \<Rightarrow> u32" where
  "get_hex_u32_from [] val = val"
| "get_hex_u32_from (c # hex) val =
     (let n = of_char c :: nat in
      if 48 \<le> n \<and> n \<le> 57 then get_hex_u32_from hex (push_bit 4 val OR of_nat (n - 0))
      else if 65 \<le> n \<and> n \<le> 70 then get_hex_u32_from hex (push_bit 4 val OR of_nat (n - 65 + 10))
      else if 97 \<le> n \<and> n \<le> 102 then get_hex_u32_from hex (push_bit 4 val OR of_nat (n - 97 + 10))
      else val)"

definition get_hex_u32 :: "string \<Rightarrow> u32" where
  "get_hex_u32 hex = get_hex_u32_from (take 8 hex) 0"

text \<open>\<open>check_digest_response\<close>: \<open>secret\<close> is \<open>None\<close> until \<^verbatim>\<open>secret_created\<close>. The comparison of the times is
  unsigned, as one operand is.\<close>

definition check_digest_response :: "MD5Context \<Rightarrow> string option \<Rightarrow> u32 \<Rightarrow> pmsg \<Rightarrow> string \<Rightarrow> string \<Rightarrow> string \<Rightarrow> int res" where
  "check_digest_response stack secret now m realm username password =
     rbind (get_header m ''authorization'') (\<lambda>h.
     case h of None \<Rightarrow> Inr (-1)
     | Some hdr \<Rightarrow>
     case parse_auth_header hdr no_auth of None \<Rightarrow> Inr (-1)
     | Some auth \<Rightarrow>
     if da_realm auth \<noteq> realm then Inr (-1)
     else if length username > 0 \<and> \<not> strcaseeq (da_username auth) username then Inr (-1)
     else
       rbind (if da_uri auth = []
              then rbind (str_ptr m (req_uri m)) (\<lambda>uri. Inr (if length uri \<ge> 512 then None else Some (auth\<lparr>da_uri := uri\<rparr>)))
              else Inr (Some auth)) (\<lambda>a.
       case a of None \<Rightarrow> Inr (-1)
       | Some auth \<Rightarrow>
       rbind (str_ptr m (req_method m)) (\<lambda>method.
         let expected = (if length username > 0 \<and> length password > 0
                         then create_response stack auth method password
                         else create_response stack auth method [])
         in if \<not> strcaseeq (da_response auth) expected then Inr (-1)
            else case secret of None \<Rightarrow> Inr 0
            | Some s \<Rightarrow>
            if length (da_nonce auth) \<noteq> 64 then Inr 0
            else let token = take 32 (da_nonce auth) in
                 if drop 32 (da_nonce auth) \<noteq> md5_hash stack [token, s] then Inr 0
                 else if now > get_hex_u32 token + 15 then Inr 0
                 else Inr 1)))"

text \<open>\<open>add_digest_challenge\<close>; \<open>new_secret\<close> is what \<open>random_id\<close> would produce.\<close>

definition challenge_text :: "string \<Rightarrow> string \<Rightarrow> bool \<Rightarrow> string" where
  "challenge_text realm nonce stale =
     ''Digest realm='' @ [QUOTE] @ realm @ [QUOTE] @ '', nonce='' @ [QUOTE] @ nonce @ [QUOTE] @
     (if stale then '', stale=true'' else [])"

definition add_digest_challenge :: "MD5Context \<Rightarrow> string option \<Rightarrow> string \<Rightarrow> u32 \<Rightarrow> byte list \<Rightarrow> pmsg \<Rightarrow> string \<Rightarrow> bool
    \<Rightarrow> (pmsg \<times> string \<times> int) res" where
  "add_digest_challenge stack secret new_secret now rnd m realm stale =
     (if length realm \<ge> 128 then Inl OutOfBounds
      else let s = (case secret of None \<Rightarrow> new_secret | Some s \<Rightarrow> s);
               (m, r) = add_header_printf m ''WWW-Authenticate''
                          (challenge_text realm (create_nonce stack s now rnd) stale)
           in Inr (m, s, r))"

section \<open>Reference\<close>

fun join :: "string list \<Rightarrow> string" where
  "join [] = []"
| "join [v] = v"
| "join (v # w # vs) = v @ CHR '':'' # join (w # vs)"

definition md5_hex :: "string list \<Rightarrow> string" where
  "md5_hex vs = hexstr (md5_rfc (bytes_of (join vs)))"

definition rfc2069_response :: "string \<Rightarrow> string \<Rightarrow> string \<Rightarrow> string \<Rightarrow> string \<Rightarrow> string \<Rightarrow> string" where
  "rfc2069_response username realm password method uri nonce =
     md5_hex [md5_hex [username, realm, password], nonce, md5_hex [method, uri]]"

text \<open>The header a client sends.\<close>

definition auth_text :: "string \<Rightarrow> string \<Rightarrow> string \<Rightarrow> string \<Rightarrow> string \<Rightarrow> string" where
  "auth_text username realm nonce uri response =
     ''Digest username='' @ QUOTE # username @ QUOTE # '', realm='' @ QUOTE # realm @ QUOTE #
     '', nonce='' @ QUOTE # nonce @ QUOTE # '', uri='' @ QUOTE # uri @ QUOTE #
     '', response='' @ QUOTE # response @ [QUOTE]"

section \<open>Hashing\<close>

definition small :: "string \<Rightarrow> bool" where
  "small s \<longleftrightarrow> length s < 2 ^ 32"

lemma hash_parts_ctx:
  assumes "ctx_of c m" "0 < i" "list_all small vs"
  shows "ctx_of (hash_parts c vs i) (m @ concat (map (\<lambda>v. bytes_of (CHR '':'' # v)) vs))"
  using assms
proof (induction vs arbitrary: c m i)
  case (Cons v vs)
  have "ctx_of (MD5Update (MD5Update c (bytes_of '':'')) (bytes_of v)) ((m @ bytes_of '':'') @ bytes_of v)"
    using Cons.prems by (intro ctx_of_MD5Update) (simp_all add: small_def)
  from Cons.IH [OF this, of "Suc i"] Cons.prems show ?case by (simp add: bytes_of_def)
qed simp

lemma join_Cons: "join (v # vs) = v @ concat (map (\<lambda>v. CHR '':'' # v) vs)"
  by (induction vs arbitrary: v) simp_all

lemma bytes_of_concat: "bytes_of (concat xs) = concat (map bytes_of xs)"
  by (induction xs) (simp_all add: bytes_of_def)

lemma md5_hash_rfc:
  assumes "length (inb stack) = 64" "list_all small vs" "vs \<noteq> []"
  shows "md5_hash stack vs = md5_hex vs"
proof -
  obtain v ws where vs: "vs = v # ws" using assms(3) by (cases vs) auto
  have "ctx_of (MD5Update (MD5Init stack) (bytes_of v)) ([] @ bytes_of v)"
    using assms vs by (intro ctx_of_MD5Update ctx_of_MD5Init) (simp_all add: small_def)
  from hash_parts_ctx [OF this, of 1 ws] have "ctx_of (hash_parts (MD5Init stack) vs 0) (bytes_of (join vs))"
    using assms vs by (simp add: join_Cons bytes_of_concat o_def)
  then show ?thesis by (simp add: md5_hash_def md5_hex_def MD5Final_digest)
qed

lemma length_hexstr [simp]: "length (hexstr bs) = 2 * length bs"
  by (induction bs) (simp_all add: hexstr_def hex2_def)

lemma hexstr_append: "hexstr (xs @ ys) = hexstr xs @ hexstr ys"
  by (simp add: hexstr_def)

lemma length_md5_rfc: "length (md5_rfc m) = 16"
proof -
  have "length (foldl rfc_compress h bs) = 4" if "length h = 4" for h bs
    using that by (induction bs arbitrary: h) (simp_all add: rfc_compress_def split: prod.split)
  then have "length (foldl rfc_compress rfc_init bs) = 4" for bs by (simp add: rfc_init_def)
  then show ?thesis by (simp add: md5_rfc_def length_concat o_def sum_list_triv)
qed

lemma length_md5_hex [simp]: "length (md5_hex vs) = 32"
  by (simp add: md5_hex_def length_md5_rfc)

definition hex_alphabet :: string where
  "hex_alphabet = ''0123456789abcdef''"

lemma hexdigit_chars: "n < 16 \<Longrightarrow> hexdigit n \<in> set hex_alphabet"
proof -
  have "list_all (\<lambda>n. hexdigit n \<in> set hex_alphabet) [0..<16]" by code_simp
  then show "n < 16 \<Longrightarrow> ?thesis" by (simp add: list_all_iff del: set_upt) simp
qed

lemma hexstr_chars: "set (hexstr bs) \<subseteq> set hex_alphabet"
proof -
  have "set (hex2 b) \<subseteq> set hex_alphabet" for b
  proof -
    have "unat b div 16 < 16" "unat b mod 16 < 16" using unat_u8 [of b] by simp_all
    then show ?thesis using hexdigit_chars by (simp add: hex2_def)
  qed
  then show ?thesis by (auto simp: hexstr_def)
qed

lemma md5_hex_chars: "set (md5_hex vs) \<subseteq> set hex_alphabet"
  unfolding md5_hex_def by (rule hexstr_chars)

lemma hex_plain: "set s \<subseteq> set hex_alphabet \<Longrightarrow> QUOTE \<notin> set s"
  by (auto simp: hex_alphabet_def QUOTE_def)

lemma create_response_rfc:
  assumes "length (inb stack) = 64"
    and "list_all small [da_username auth, da_realm auth, password, method, da_uri auth, da_nonce auth]"
  shows "create_response stack auth method password =
    rfc2069_response (da_username auth) (da_realm auth) password method (da_uri auth) (da_nonce auth)"
  using assms by (simp add: create_response_def rfc2069_response_def md5_hash_rfc) (simp add: md5_hash_rfc small_def)

section \<open>Parsing what a client sends\<close>

lemma directive_value_quoted:
  assumes "CHR ''='' \<notin> set name" "QUOTE \<notin> set v"
  shows "directive_value (name @ CHR ''='' # QUOTE # v @ QUOTE # rest) = Some (v @ QUOTE # rest, length v)"
proof -
  have d: "dropWhile (\<lambda>c. c \<noteq> CHR ''='') (name @ CHR ''='' # r) = CHR ''='' # r" for r
    using assms(1) by (subst dropWhile_append2) auto
  have t: "takeWhile (\<lambda>c. c \<noteq> QUOTE) (v @ QUOTE # rest) = v"
    using assms(2) by (subst takeWhile_append2) auto
  show ?thesis by (simp add: directive_value_def d t)
qed

lemma parse_directive:
  assumes "CHR ''='' \<notin> set name" "name \<noteq> []" "QUOTE \<notin> set v"
    and "set_directive (name @ CHR ''='' # QUOTE # v @ QUOTE # rest) (v @ QUOTE # rest) (length v) auth = Some auth'"
  shows "parse_directives (name @ CHR ''='' # QUOTE # v @ QUOTE # rest) auth =
    parse_directives (next_directive rest) auth'"
proof -
  have "next_directive (drop (length v) (v @ QUOTE # rest)) = next_directive rest"
    by (simp add: next_directive_def)
  then show ?thesis
    using assms(2,4) by (subst parse_directives.simps) (simp add: directive_value_quoted [OF assms(1,3)])
qed

lemma set_directive_names:
  "set_directive (''username'' @ CHR ''='' # r) v len auth = (if len \<ge> 128 then None else Some (auth\<lparr>da_username := take len v\<rparr>))"
  "set_directive (''realm'' @ CHR ''='' # r) v len auth = (if len \<ge> 128 then None else Some (auth\<lparr>da_realm := take len v\<rparr>))"
  "set_directive (''nonce'' @ CHR ''='' # r) v len auth = (if len \<ge> 128 then None else Some (auth\<lparr>da_nonce := take len v\<rparr>))"
  "set_directive (''uri'' @ CHR ''='' # r) v len auth = (if len \<ge> 512 then None else Some (auth\<lparr>da_uri := take len v\<rparr>))"
  "set_directive (''response'' @ CHR ''='' # r) v len auth = (if len \<ge> 33 then None else Some (auth\<lparr>da_response := take len v\<rparr>))"
  by (simp_all add: set_directive_def strncaseeq_def lower_def)

definition plain :: "nat \<Rightarrow> string \<Rightarrow> bool" where
  "plain n s \<longleftrightarrow> QUOTE \<notin> set s \<and> length s < n"

lemma parse_named:
  assumes "plain n v" "CHR ''='' \<notin> set name" "name \<noteq> []"
    and "\<And>r v len. set_directive (name @ CHR ''='' # r) v len auth = (if len \<ge> n then None else Some (upd (take len v)))"
  shows "parse_directives (name @ CHR ''='' # QUOTE # v @ QUOTE # rest) auth =
    parse_directives (next_directive rest) (upd v)"
  by (rule parse_directive) (use assms in \<open>simp_all add: plain_def\<close>)

lemma parse_auth_text:
  assumes "plain 128 username" "plain 128 realm" "plain 128 nonce" "plain 512 uri" "plain 33 response"
  shows "parse_auth_header (auth_text username realm nonce uri response) no_auth =
    Some \<lparr>da_realm = realm, da_uri = uri, da_nonce = nonce, da_opaque = [], da_username = username,
          da_response = response\<rparr>"
proof -
  let ?r5 = "''response'' @ CHR ''='' # QUOTE # response @ QUOTE # []"
  let ?r4 = "''uri'' @ CHR ''='' # QUOTE # uri @ QUOTE # '', '' @ ?r5"
  let ?r3 = "''nonce'' @ CHR ''='' # QUOTE # nonce @ QUOTE # '', '' @ ?r4"
  let ?r2 = "''realm'' @ CHR ''='' # QUOTE # realm @ QUOTE # '', '' @ ?r3"
  let ?r1 = "''username'' @ CHR ''='' # QUOTE # username @ QUOTE # '', '' @ ?r2"
  let ?a = "auth_text username realm nonce uri response"
  have a: "?a = ''Digest '' @ ?r1" by (simp add: auth_text_def)
  have "map lower ''Digest '' = map lower ''digest ''" by code_simp
  then have d: "strncaseeq ?a ''digest '' 7" unfolding a strncaseeq_def by simp
  have sep: "next_directive ('', '' @ (c # r)) = c # r" if "c \<in> {CHR ''r'', CHR ''n'', CHR ''u''}" for c r
    using that by (auto simp: next_directive_def QUOTE_def)
  have n: "next_directive ('', '' @ ?r2) = ?r2" "next_directive ('', '' @ ?r3) = ?r3"
    "next_directive ('', '' @ ?r4) = ?r4" "next_directive ('', '' @ ?r5) = ?r5" "next_directive [] = []"
    by (simp_all only: append_Cons append_Nil, simp_all only: sep [simplified append_Cons append_Nil] insert_iff simp_thms)
       (simp add: next_directive_def)
  have "parse_auth_header ?a no_auth = parse_directives ?r1 no_auth"
    using d by (simp add: parse_auth_header_def a)
  also have "\<dots> = parse_directives ?r2 (no_auth\<lparr>da_username := username\<rparr>)"
    by (subst parse_named [OF assms(1) _ _ set_directive_names(1)]) (simp_all only: n, simp_all)
  also have "\<dots> = parse_directives ?r3 (no_auth\<lparr>da_username := username, da_realm := realm\<rparr>)"
    by (subst parse_named [OF assms(2) _ _ set_directive_names(2)]) (simp_all only: n, simp_all)
  also have "\<dots> = parse_directives ?r4 (no_auth\<lparr>da_username := username, da_realm := realm, da_nonce := nonce\<rparr>)"
    by (subst parse_named [OF assms(3) _ _ set_directive_names(3)]) (simp_all only: n, simp_all)
  also have "\<dots> = parse_directives ?r5 (no_auth\<lparr>da_username := username, da_realm := realm, da_nonce := nonce, da_uri := uri\<rparr>)"
    by (subst parse_named [OF assms(4) _ _ set_directive_names(4)]) (simp_all only: n, simp_all)
  also have "\<dots> = parse_directives [] (no_auth\<lparr>da_username := username, da_realm := realm, da_nonce := nonce,
      da_uri := uri, da_response := response\<rparr>)"
    by (subst parse_named [OF assms(5) _ _ set_directive_names(5)]) (simp_all only: n, simp_all)
  finally show ?thesis by (simp add: parse_directives.simps no_auth_def)
qed

section \<open>The age of a nonce\<close>

definition nibbles :: "byte list \<Rightarrow> nat list" where
  "nibbles bs = concat (map (\<lambda>b. [unat b div 16, unat b mod 16]) bs)"

lemma hexstr_nibbles: "hexstr bs = map hexdigit (nibbles bs)"
  by (induction bs) (simp_all add: hexstr_def nibbles_def hex2_def)

abbreviation hex_step :: "u32 \<Rightarrow> nat \<Rightarrow> u32" where
  "hex_step v n \<equiv> push_bit 4 v OR of_nat n"

lemma get_hex_step:
  assumes "n < 16"
  shows "get_hex_u32_from (hexdigit n # cs) v =
    get_hex_u32_from cs (hex_step v n OR (if n < 10 then 48 else 0))"
proof (cases "n < 10")
  case True
  have "list_all (\<lambda>n. of_nat (48 + n) = (of_nat n OR 48 :: u32)) [0..<10]" by code_simp
  then have "of_nat (48 + n) = (of_nat n OR 48 :: u32)" using True by (simp add: list_all_iff)
  moreover have "(of_char (hexdigit n) :: nat) = 48 + n" using True by (simp add: hexdigit_def)
  ultimately show ?thesis using True by (simp add: Let_def or.assoc)
next
  case False
  have "(of_char (hexdigit n) :: nat) = 87 + n" using False assms by (simp add: hexdigit_def)
  then show ?thesis using False assms by (simp add: Let_def)
qed

lemma hex_fold_or: "foldl hex_step (v OR j) ns = foldl hex_step v ns OR push_bit (4 * length ns) j"
proof (induction ns arbitrary: v j)
  case (Cons n ns)
  have "hex_step (v OR j) n = hex_step v n OR push_bit 4 j" by (simp add: push_bit_or or.assoc or.commute or.left_commute)
  then show ?case using Cons [of "hex_step v n" "push_bit 4 j"] by (simp add: push_bit_push_bit add.commute)
qed simp

text \<open>The decoder reads each digit with bits 4 and 5 of its character code left in: the result is the number
  encoded, with some further bits set, none of them the top bit of a digit.\<close>

lemma get_hex_over:
  "\<forall>n \<in> set ns. n < 16 \<Longrightarrow>
   \<exists>j. get_hex_u32_from (map hexdigit ns) v = foldl hex_step v ns OR j \<and> (\<forall>k. \<not> bit j (4 * k + 3))"
proof (induction ns arbitrary: v)
  case Nil
  then show ?case by (intro exI [of _ 0]) simp
next
  case (Cons n ns)
  let ?x = "if n < 10 then 48 else 0 :: u32"
  obtain j where j: "get_hex_u32_from (map hexdigit ns) (hex_step v n OR ?x) = foldl hex_step (hex_step v n OR ?x) ns OR j"
      "\<forall>k. \<not> bit j (4 * k + 3)"
    using Cons by fastforce
  have x: "\<not> bit (push_bit (4 * length ns) ?x) (4 * k + 3)" for k
  proof -
    have c: "(48 :: u32) = push_bit 4 (mask 2)" by (simp add: push_bit_eq_mult mask_eq_exp_minus_1)
    have "\<not> bit (48 :: u32) (4 * m + 3)" for m
      unfolding c by (cases m) (auto simp: bit_simps)
    from this [of "k - length ns"] have "\<not> bit (push_bit (4 * length ns) (48 :: u32)) (4 * k + 3)"
      by (auto simp: bit_push_bit_iff diff_mult_distrib2 dest: bit_imp_le_length)
    then show ?thesis by simp
  qed
  have "get_hex_u32_from (map hexdigit (n # ns)) v = foldl hex_step v (n # ns) OR (push_bit (4 * length ns) ?x OR j)"
    using Cons.prems j(1) hex_fold_or [of "hex_step v n" ?x ns]
    by (simp only: list.map get_hex_step list.set insert_iff ball_simps foldl_Cons or.assoc)
  then show ?case using j(2) x by (metis bit_or_iff)
qed

lemma hex_byte: "hex_step (hex_step v (unat b div 16)) (unat b mod 16) = push_bit 8 v OR ucast b" for b :: byte
proof -
  have h: "(of_nat (unat b div 16) :: u32) = drop_bit 4 (ucast b)"
    unfolding drop_bit_eq_div [of 4 "unat b", simplified, symmetric]
    by (rule bit_word_eqI) (auto simp: bit_simps dest: bit_imp_le_length)
  have l: "(of_nat (unat b mod 16) :: u32) = take_bit 4 (ucast b)"
    unfolding take_bit_eq_mod [of 4 "unat b", simplified, symmetric]
    by (rule bit_word_eqI) (auto simp: bit_simps)
  show ?thesis
    unfolding h l by (rule bit_word_eqI) (auto simp: bit_simps)
qed

lemma nibbles_less: "n \<in> set (nibbles bs) \<Longrightarrow> n < 16"
proof -
  have "unat b div 16 < 16" for b :: byte using unat_u8 [of b] by simp
  then show "n \<in> set (nibbles bs) \<Longrightarrow> n < 16" by (auto simp: nibbles_def)
qed

lemma hex_fold_bytes: "foldl hex_step v (nibbles (b # bs)) = foldl hex_step (push_bit 8 v OR ucast b) (nibbles bs)"
  by (simp only: nibbles_def list.map concat.simps append_Cons append_Nil foldl_Cons hex_byte)

lemma hex_fold_u32: "foldl hex_step 0 (nibbles (PUT_32 t)) = t"
proof -
  obtain a b c d where p: "PUT_32 t = [a, b, c, d]" by (simp add: PUT_32_def)
  have "foldl hex_step 0 (nibbles [a, b, c, d]) = GET_32 a b c d"
    unfolding hex_fold_bytes GET_32_def
    by (simp add: nibbles_def push_bit_or push_bit_push_bit or.assoc)
  then show ?thesis using GET_32_PUT_32 [OF p] by (simp add: p)
qed

lemma get_hex_nonce:
  assumes "t < 2 ^ 31"
  shows "t \<le> get_hex_u32 (hexstr (PUT_32 t @ rnd))" "get_hex_u32 (hexstr (PUT_32 t @ rnd)) < 2 ^ 31"
proof -
  have "take 8 (hexstr (PUT_32 t @ rnd)) = hexstr (PUT_32 t)"
    by (simp add: hexstr_append)
  then have "get_hex_u32 (hexstr (PUT_32 t @ rnd)) = get_hex_u32_from (map hexdigit (nibbles (PUT_32 t))) 0"
    by (simp add: get_hex_u32_def hexstr_nibbles)
  moreover obtain j where "get_hex_u32_from (map hexdigit (nibbles (PUT_32 t))) 0 = foldl hex_step 0 (nibbles (PUT_32 t)) OR j"
      and jb: "\<forall>k. \<not> bit j (4 * k + 3)"
    using get_hex_over [of "nibbles (PUT_32 t)" 0] nibbles_less by blast
  ultimately have g: "get_hex_u32 (hexstr (PUT_32 t @ rnd)) = t OR j" by (simp only: hex_fold_u32)
  have "\<not> bit j 31" using spec [OF jb, of 7] by simp
  note j = g this
  have "uint t \<le> uint t OR uint j" by (rule or_greater_eq) simp
  then show "t \<le> get_hex_u32 (hexstr (PUT_32 t @ rnd))"
    by (simp add: j(1) word_le_def unsigned_or_eq)
  have top: "w < 2 ^ 31 \<longleftrightarrow> \<not> bit w 31" for w :: u32
  proof -
    have "0 \<le> uint w" "uint w < 4294967296" using unsigned_less [of w, where ?'a = int] by simp_all
    moreover have "bit w 31 \<longleftrightarrow> odd (uint w div 2147483648)"
      using bit_iff_odd [of "uint w" 31] by (simp add: bit_unsigned_iff)
    moreover have "w < 2 ^ 31 \<longleftrightarrow> uint w < 2147483648" by (simp add: word_less_def)
    moreover have "uint w div 2147483648 = (if uint w < 2147483648 then 0 else 1)"
      using calculation(1,2) by (simp add: div_pos_geq)
    ultimately show ?thesis by simp
  qed
  show "get_hex_u32 (hexstr (PUT_32 t @ rnd)) < 2 ^ 31"
    using assms j by (simp only: top bit_or_iff) simp
qed

section \<open>The check accepts a correct answer\<close>

lemma create_nonce_split:
  assumes "length (inb stack) = 64" "length rnd = 12" "small secret"
  shows "create_nonce stack secret t rnd =
      hexstr (PUT_32 t @ rnd) @ md5_hex [hexstr (PUT_32 t @ rnd), secret]"
    and "length (create_nonce stack secret t rnd) = 64"
    and "plain 128 (create_nonce stack secret t rnd)"
proof -
  let ?k = "hexstr (PUT_32 t @ rnd)"
  have "small ?k" using assms by (simp add: small_def)
  then show n: "create_nonce stack secret t rnd = ?k @ md5_hex [?k, secret]"
    using assms by (simp add: create_nonce_def md5_hash_rfc Let_def)
  show l: "length (create_nonce stack secret t rnd) = 64" using assms(2) by (simp add: n)
  have "QUOTE \<notin> set (create_nonce stack secret t rnd)"
    unfolding n set_append Un_iff using hex_plain [OF hexstr_chars] hex_plain [OF md5_hex_chars] by blast
  then show "plain 128 (create_nonce stack secret t rnd)" by (simp add: plain_def l)
qed

text \<open>A request that answers the challenge \<open>nonce\<close>, by the RFC.\<close>

definition answers :: "pmsg \<Rightarrow> string \<Rightarrow> string \<Rightarrow> string \<Rightarrow> string \<Rightarrow> string \<Rightarrow> bool" where
  "answers m username realm password uri nonce \<longleftrightarrow>
     (\<exists>method ruri proto hs. is_request m method ruri proto hs \<and> small method \<and>
        lookup_header ''authorization'' hs =
          Some (auth_text username realm nonce uri (rfc2069_response username realm password method uri nonce)))"

lemma strcaseeq_refl [simp]: "strcaseeq s s"
  by (simp add: strcaseeq_def)

lemma digest_accept:
  assumes "length (inb stack) = 64" "length rnd = 12" "small secret" "small password"
    and "plain 128 username" "plain 128 realm" "plain 512 uri" "uri \<noteq> []"
    and "answers m username realm password uri (create_nonce stack secret t rnd)"
    and "strcaseeq username user" "user \<noteq> []" "password \<noteq> []"
    and "now \<le> get_hex_u32 (hexstr (PUT_32 t @ rnd)) + 15"
  shows "check_digest_response stack (Some secret) now m realm user password = Inr 1"
proof -
  let ?n = "create_nonce stack secret t rnd"
  note n = create_nonce_split [OF assms(1-3), of t]
  obtain meth ruri proto hs where r: "is_request m meth ruri proto hs" "small meth"
      "lookup_header ''authorization'' hs =
        Some (auth_text username realm ?n uri (rfc2069_response username realm password meth uri ?n))"
    using assms(9) by (auto simp: answers_def)
  let ?resp = "rfc2069_response username realm password meth uri ?n"
  let ?auth = "\<lparr>da_realm = realm, da_uri = uri, da_nonce = ?n, da_opaque = [], da_username = username, da_response = ?resp\<rparr>"
  have resp: "plain 33 ?resp"
    using hex_plain [OF md5_hex_chars] by (simp add: plain_def rfc2069_response_def)
  have h: "get_header m ''authorization'' = Inr (Some (auth_text username realm ?n uri ?resp))"
    using get_header_lookup [of m hs] r by (simp add: is_request_def)
  have p: "parse_auth_header (auth_text username realm ?n uri ?resp) no_auth = Some ?auth"
    by (rule parse_auth_text [OF assms(5,6) n(3) assms(7) resp])
  have sm: "small username" "small realm" "small uri" "small ?n"
    using assms(5-7) n(3) by (simp_all add: plain_def small_def)
  have c: "create_response stack ?auth meth password = ?resp"
    using create_response_rfc [OF assms(1), of ?auth password meth] sm assms(4) r(2) by simp
  have t: "take 32 ?n = hexstr (PUT_32 t @ rnd)" "drop 32 ?n = md5_hex [hexstr (PUT_32 t @ rnd), secret]"
    using assms(2) by (simp_all add: n(1))
  have m: "md5_hash stack [hexstr (PUT_32 t @ rnd), secret] = md5_hex [hexstr (PUT_32 t @ rnd), secret]"
    using assms(1-3) by (simp add: md5_hash_rfc small_def)
  have ptr: "str_ptr m (req_uri m) = Inr ruri" "str_ptr m (req_method m) = Inr meth"
    using r(1) by (simp_all add: is_request_def)
  show ?thesis
    unfolding check_digest_response_def h rbind_simps option.case p
    using assms(8,10-13) by (simp add: ptr c n(2) t m Let_def not_less)
qed

section \<open>What the parser stores fits\<close>

definition fits :: "digest_auth_info \<Rightarrow> bool" where
  "fits auth \<longleftrightarrow> length (da_realm auth) < 128 \<and> length (da_uri auth) < 512 \<and> length (da_nonce auth) < 128 \<and>
     length (da_opaque auth) < 128 \<and> length (da_username auth) < 128 \<and> length (da_response auth) < 33"

lemma set_directive_fits: "fits auth \<Longrightarrow> set_directive n v len auth = Some auth' \<Longrightarrow> fits auth'"
  unfolding set_directive_def fits_def by (auto split: if_splits)

lemma parse_directives_fits: "parse_directives n auth = Some auth' \<Longrightarrow> fits auth \<Longrightarrow> fits auth'"
proof (induction n auth rule: parse_directives.induct)
  case (1 n auth)
  show ?case
  proof (cases "n = []")
    case True
    then show ?thesis using "1.prems" by (simp add: parse_directives.simps)
  next
    case False
    with "1.prems"(1) obtain v len a where "directive_value n = Some (v, len)" "set_directive n v len auth = Some a"
      "parse_directives (next_directive (drop len v)) a = Some auth'"
      by (subst (asm) parse_directives.simps) (auto split: option.splits)
    then show ?thesis using "1.IH" False "1.prems"(2) set_directive_fits by blast
  qed
qed

lemma parse_auth_header_fits: "parse_auth_header h no_auth = Some auth \<Longrightarrow> fits auth"
  using parse_directives_fits by (auto simp: parse_auth_header_def no_auth_def fits_def split: if_splits)

section \<open>Properties\<close>

text \<open>C7. Challenge and response: a request that answers, by RFC 2069 and with the stored password, a challenge the
  server issued at time \<open>t\<close> is accepted (result 1) at every time from \<open>t\<close> to 15 seconds later, for every nonce the
  server can make before the year 2038, user names compared without case.\<close>

theorem digest_challenge_answered:
  assumes "length (inb stack) = 64" "length rnd = 12" "small secret" "small password"
    and "plain 128 username" "plain 128 realm" "plain 512 uri" "uri \<noteq> []"
    and "answers m username realm password uri (create_nonce stack secret t rnd)"
    and "strcaseeq username user" "user \<noteq> []" "password \<noteq> []"
    and "t < 2 ^ 31" "t \<le> now" "now \<le> t + 15"
  shows "check_digest_response stack (Some secret) now m realm user password = Inr 1"
proof (rule digest_accept [OF assms(1-12)])
  let ?g = "get_hex_u32 (hexstr (PUT_32 t @ rnd))"
  note g = get_hex_nonce [OF assms(13), of rnd]
  have "unat t < 2147483648" "unat ?g < 2147483648" using assms(13) g(2) by (simp_all add: word_less_nat_alt)
  then have "unat (t + 15) = unat t + 15" "unat (?g + 15) = unat ?g + 15"
    by (simp_all add: unat_word_ariths)
  then show "now \<le> ?g + 15" using g(1) assms(15) by (simp add: word_le_nat_alt)
qed

text \<open>A request with an \<^verbatim>\<open>Authorization\<close> header, as the parser leaves it.\<close>

definition sample_request :: "string \<Rightarrow> pmsg" where
  "sample_request v =
     (new_pmsg (''DESCRIBE'' @ NUL # ''/live'' @ NUL # ''RTSP/1.0'' @ NUL # ''Authorization'' @ NUL # v @ [NUL]))
       \<lparr>req_method := Some 0, req_uri := Some 9, proto_id := Some 15,
        hfields := (Some 24, Some 38) # replicate 31 (None, None), header_count := 1\<rparr>"

definition sample_stack :: MD5Context where
  "sample_stack = \<lparr>buf = [], bits0 = 0, bits1 = 0, inb = replicate 64 0\<rparr>"

definition sample_nonce :: "u32 \<Rightarrow> string" where
  "sample_nonce t = create_nonce sample_stack ''0123456789ABCDEF'' t (replicate 12 7)"

definition sample_answer :: "u32 \<Rightarrow> pmsg" where
  "sample_answer t = sample_request (auth_text ''admin'' ''cam'' (sample_nonce t) ''/live''
     (rfc2069_response ''admin'' ''cam'' ''secret'' ''DESCRIBE'' ''/live'' (sample_nonce t)))"

lemma sample_request_is_request:
  assumes "NUL \<notin> set v"
  shows "is_request (sample_request v) ''DESCRIBE'' ''/live'' ''RTSP/1.0'' [(''Authorization'', v)]"
proof -
  let ?d = "''DESCRIBE'' @ NUL # ''/live'' @ NUL # ''RTSP/1.0'' @ NUL # ''Authorization'' @ NUL # v @ [NUL]"
  have s: "str_at ?d 0 = Inr ''DESCRIBE''" "str_at ?d 9 = Inr ''/live''" "str_at ?d 15 = Inr ''RTSP/1.0''"
    "str_at ?d 24 = Inr ''Authorization''"
    by (simp_all add: str_at_def)
  have "str_at ((''DESCRIBE'' @ NUL # ''/live'' @ NUL # ''RTSP/1.0'' @ NUL # ''Authorization'' @ [NUL]) @ v @ NUL # []) 38 = Inr v"
    by (rule str_at_append [OF assms]) simp
  then have "str_at ?d 38 = Inr v" by simp
  with s show ?thesis
    by (simp add: is_request_def sample_request_def new_pmsg_def has_headers_def str_ptr_def del: append_Cons)
qed

lemma hex_no_nul: "set s \<subseteq> set hex_alphabet \<Longrightarrow> NUL \<notin> set s"
  by (auto simp: hex_alphabet_def)

lemma sample_case: "strcaseeq ''Authorization'' ''authorization''" "strcaseeq ''admin'' ''Admin''"
  by code_simp+

lemma sample_sizes: "length (inb sample_stack) = 64" "small ''0123456789ABCDEF''" "small ''secret''" "small ''cam''"
  "small ''DESCRIBE''" "plain 128 ''admin''" "plain 128 ''cam''" "plain 512 ''/live''"
  by (simp_all add: sample_stack_def small_def plain_def QUOTE_def)

lemma sample_answer_request:
  "is_request (sample_answer t) ''DESCRIBE'' ''/live'' ''RTSP/1.0'' [(''Authorization'',
     auth_text ''admin'' ''cam'' (sample_nonce t) ''/live''
       (rfc2069_response ''admin'' ''cam'' ''secret'' ''DESCRIBE'' ''/live'' (sample_nonce t)))]"
proof -
  have n: "NUL \<notin> set (sample_nonce t)"
    unfolding sample_nonce_def
    by (subst create_nonce_split(1))
       (simp_all add: sample_sizes hex_no_nul [OF hexstr_chars] hex_no_nul [OF md5_hex_chars])
  have "NUL \<notin> set (rfc2069_response ''admin'' ''cam'' ''secret'' ''DESCRIBE'' ''/live'' (sample_nonce t))"
    unfolding rfc2069_response_def by (rule hex_no_nul [OF md5_hex_chars])
  then have "NUL \<notin> set (auth_text ''admin'' ''cam'' (sample_nonce t) ''/live''
      (rfc2069_response ''admin'' ''cam'' ''secret'' ''DESCRIBE'' ''/live'' (sample_nonce t)))"
    using n by (simp add: auth_text_def QUOTE_def)
  from sample_request_is_request [OF this] show ?thesis unfolding sample_answer_def .
qed

lemma sample_answer_answers: "answers (sample_answer t) ''admin'' ''cam'' ''secret'' ''/live'' (sample_nonce t)"
  unfolding answers_def
  by (intro exI conjI, rule sample_answer_request) (simp_all add: sample_sizes lookup_header_def sample_case)

theorem digest_challenge_answered_witness:
  "check_digest_response sample_stack (Some ''0123456789ABCDEF'') 1700000010 (sample_answer 1700000000) ''cam'' ''Admin'' ''secret'' = Inr 1"
  by (rule digest_challenge_answered [OF _ _ _ _ _ _ _ _ sample_answer_answers [unfolded sample_nonce_def]])
     (simp_all add: sample_sizes sample_case word_less_nat_alt word_le_nat_alt)

text \<open>C11. The check is sound: the result 1 is only given to a request whose \<^verbatim>\<open>Authorization\<close> header names the
  realm and the user, carries the RFC 2069 response for the stored password, the request's method and its own
  nonce, and whose nonce is signed with the server's secret.\<close>

theorem digest_check_sound:
  assumes "length (inb stack) = 64" "check_digest_response stack secret now m realm user password = Inr 1"
    and "list_all small [password, realm, the_method]" "str_ptr m (req_method m) = Inr the_method"
    and "pred_option small secret"
  shows "\<exists>hdr auth uri s token.
    get_header m ''authorization'' = Inr (Some hdr) \<and> parse_auth_header hdr no_auth = Some auth \<and>
    da_realm auth = realm \<and> (user \<noteq> [] \<longrightarrow> strcaseeq (da_username auth) user) \<and>
    (uri = da_uri auth \<or> da_uri auth = [] \<and> str_ptr m (req_uri m) = Inr uri) \<and>
    strcaseeq (da_response auth) (rfc2069_response (da_username auth) realm
      (if user \<noteq> [] \<and> password \<noteq> [] then password else []) the_method uri (da_nonce auth)) \<and>
    secret = Some s \<and> da_nonce auth = token @ md5_hex [token, s] \<and> now \<le> get_hex_u32 token + 15"
proof -
  let ?pw = "if user \<noteq> [] \<and> password \<noteq> [] then password else []"
  obtain h0 where g: "get_header m ''authorization'' = Inr h0"
    using assms(2) by (cases "get_header m ''authorization''") (simp_all add: check_digest_response_def)
  obtain hdr where h0: "h0 = Some hdr"
    using assms(2) g by (cases h0) (simp_all add: check_digest_response_def)
  note h = g [unfolded h0]
  obtain auth where p: "parse_auth_header hdr no_auth = Some auth"
    using assms(2) h by (cases "parse_auth_header hdr no_auth") (simp_all add: check_digest_response_def)
  note chk = assms(2) [unfolded check_digest_response_def h rbind_simps option.case p]
  have r: "da_realm auth = realm" using chk by (cases "da_realm auth = realm") simp_all
  have u: "user \<noteq> [] \<longrightarrow> strcaseeq (da_username auth) user" using chk r by (cases "user = []"; cases "strcaseeq (da_username auth) user") simp_all
  have filled: "\<exists>uri. (if da_uri auth = []
      then rbind (str_ptr m (req_uri m)) (\<lambda>uri. Inr (if length uri \<ge> 512 then None else Some (auth\<lparr>da_uri := uri\<rparr>)))
      else Inr (Some auth)) = Inr (Some (auth\<lparr>da_uri := uri\<rparr>)) \<and>
      (da_uri auth \<noteq> [] \<and> uri = da_uri auth \<or> da_uri auth = [] \<and> str_ptr m (req_uri m) = Inr uri \<and> length uri < 512)"
  proof (cases "da_uri auth = []")
    case True
    obtain uri where ru: "str_ptr m (req_uri m) = Inr uri"
      using chk r u True by (cases "str_ptr m (req_uri m)") (simp_all split: if_splits)
    then have "length uri < 512" using chk r u True by (simp split: if_splits)
    then show ?thesis using True ru by simp
  qed simp
  then obtain uri where uri: "(if da_uri auth = []
      then rbind (str_ptr m (req_uri m)) (\<lambda>uri. Inr (if length uri \<ge> 512 then None else Some (auth\<lparr>da_uri := uri\<rparr>)))
      else Inr (Some auth)) = Inr (Some (auth\<lparr>da_uri := uri\<rparr>))"
    "da_uri auth \<noteq> [] \<and> uri = da_uri auth \<or> da_uri auth = [] \<and> str_ptr m (req_uri m) = Inr uri \<and> length uri < 512" by blast
  define a where "a = auth\<lparr>da_uri := uri\<rparr>"
  note chk2 = chk [unfolded uri(1) a_def [symmetric] assms(4) rbind_simps option.case Let_def]
  have an: "da_nonce a = da_nonce auth" "da_response a = da_response auth" by (simp_all add: a_def)
  have c: "strcaseeq (da_response auth) (create_response stack a the_method ?pw)"
    using chk2 r u unfolding an by (auto split: if_splits)
  obtain s where s: "secret = Some s" using chk2 r u by (cases secret) (auto split: if_splits)
  have n: "length (da_nonce auth) = 64" "drop 32 (da_nonce auth) = md5_hash stack [take 32 (da_nonce auth), s]"
      "\<not> get_hex_u32 (take 32 (da_nonce auth)) + 15 < now"
    using chk2 unfolding s option.case an by (simp_all split: if_splits)
  have f: "fits auth" by (rule parse_auth_header_fits [OF p])
  have sm: "small (da_username auth)" "small (da_realm auth)" "small (da_nonce auth)" "small uri" "small ?pw"
    using f uri(2) assms(3) by (auto simp: fits_def small_def)
  have a: "da_username a = da_username auth" "da_realm a = realm" "da_uri a = uri" "da_nonce a = da_nonce auth"
    by (simp_all add: a_def r)
  have "create_response stack a the_method ?pw =
      rfc2069_response (da_username auth) realm ?pw the_method uri (da_nonce auth)"
    using create_response_rfc [OF assms(1), of a ?pw the_method] sm assms(3) r by (simp add: a split del: if_split)
  moreover have "da_nonce auth = take 32 (da_nonce auth) @ md5_hex [take 32 (da_nonce auth), s]"
    using append_take_drop_id [of 32 "da_nonce auth"] n(1,2) assms(1,5) s sm(3)
    by (simp add: md5_hash_rfc small_def)
  ultimately show ?thesis
    using h p r u c s n(3) uri(2)
    by - (rule exI [of _ hdr], rule exI [of _ auth], rule exI [of _ uri], rule exI [of _ s],
          rule exI [of _ "take 32 (da_nonce auth)"], auto simp: not_less)
qed

theorem digest_check_sound_witness:
  "\<exists>hdr auth uri s token.
    get_header (sample_answer 1700000000) ''authorization'' = Inr (Some hdr) \<and> parse_auth_header hdr no_auth = Some auth \<and>
    da_realm auth = ''cam'' \<and> strcaseeq (da_username auth) ''admin'' \<and>
    strcaseeq (da_response auth) (rfc2069_response (da_username auth) ''cam'' ''secret'' ''DESCRIBE'' uri (da_nonce auth)) \<and>
    s = ''0123456789ABCDEF'' \<and> da_nonce auth = token @ md5_hex [token, s]"
proof -
  have c: "check_digest_response sample_stack (Some ''0123456789ABCDEF'') 1700000000 (sample_answer 1700000000) ''cam'' ''admin'' ''secret'' = Inr 1"
    by (rule digest_accept [OF _ _ _ _ _ _ _ _ sample_answer_answers [unfolded sample_nonce_def]])
       (simp_all add: sample_sizes, code_simp)
  have m: "str_ptr (sample_answer 1700000000) (req_method (sample_answer 1700000000)) = Inr ''DESCRIBE''"
    using sample_answer_request by (simp add: is_request_def)
  from digest_check_sound [OF sample_sizes(1) c _ m] show ?thesis
    by (simp add: sample_sizes) blast
qed

text \<open>C21. The limit of 15 seconds on the age of a nonce is not enforced: \<^verbatim>\<open>get_hex_u32\<close> subtracts the number 0 where it
  means the character \<^verbatim>\<open>'0'\<close>, so it reads a later time out of the nonce. A nonce made at second 0x60000000 (January
  2021) reads as second 0x73333330 and is accepted until then, more than ten years later.\<close>

theorem nonce_age_not_enforced:
  assumes "length (inb stack) = 64" "length rnd = 12" "small secret" "small password"
    and "plain 128 username" "plain 128 realm" "plain 512 uri" "uri \<noteq> []"
    and "answers m username realm password uri (create_nonce stack secret 0x60000000 rnd)"
    and "strcaseeq username user" "user \<noteq> []" "password \<noteq> []"
    and "now \<le> 0x73333330 + 15"
  shows "check_digest_response stack (Some secret) now m realm user password = Inr 1"
proof (rule digest_accept [OF assms(1-12)])
  have "get_hex_u32_from (hexstr (PUT_32 0x60000000)) 0 = 0x73333330" by code_simp
  then have "get_hex_u32 (hexstr (PUT_32 0x60000000 @ rnd)) = 0x73333330"
    by (simp add: get_hex_u32_def hexstr_append)
  with assms(13) show "now \<le> get_hex_u32 (hexstr (PUT_32 0x60000000 @ rnd)) + 15" by simp
qed

theorem nonce_age_not_enforced_witness:
  "check_digest_response sample_stack (Some ''0123456789ABCDEF'') 0x73000000 (sample_answer 0x60000000) ''cam'' ''admin'' ''secret'' = Inr 1"
  by (rule nonce_age_not_enforced [OF _ _ _ _ _ _ _ _ sample_answer_answers [unfolded sample_nonce_def]])
     (simp_all add: sample_sizes word_le_nat_alt)

end
