(* ===== verification/LinkedList.thy ===== *)
theory LinkedList
  imports Prelude
begin

text \<open>
  The doubly linked lists of the server: sessions (\<^verbatim>\<open>session.c\<close>), live sessions (\<^verbatim>\<open>live.c\<close>), RTSP sessions (\<^verbatim>\<open>rtsp.c\<close>),
  HTTP sessions (\<^verbatim>\<open>http.c\<close>), locations, streams and destinations (\<^verbatim>\<open>stream.c\<close>) and connections (\<^verbatim>\<open>tcp.c\<close>) are all linked
  in at the head and unlinked by the same statements on their \<^verbatim>\<open>next\<close> and \<^verbatim>\<open>prev\<close> pointers.

  The locale \<open>node_list\<close> is the contract the other theories rely on when they write these lists as lists of node
  numbers; the pointer operations are an interpretation of it.
\<close>

section \<open>The pointer operations\<close>

record dnode =
  dn_next :: "nat option"
  dn_prev :: "nat option"

record dlist =
  dl_heap :: "nat \<Rightarrow> dnode option"
  dl_head :: "nat option"

definition set_next :: "dlist \<Rightarrow> nat \<Rightarrow> nat option \<Rightarrow> dlist res" where
  "set_next l p q = (case dl_heap l p of None \<Rightarrow> Inl UseAfterFree
     | Some n \<Rightarrow> Inr (l\<lparr>dl_heap := (dl_heap l)(p \<mapsto> n\<lparr>dn_next := q\<rparr>)\<rparr>))"

definition set_prev :: "dlist \<Rightarrow> nat \<Rightarrow> nat option \<Rightarrow> dlist res" where
  "set_prev l p q = (case dl_heap l p of None \<Rightarrow> Inl UseAfterFree
     | Some n \<Rightarrow> Inr (l\<lparr>dl_heap := (dl_heap l)(p \<mapsto> n\<lparr>dn_prev := q\<rparr>)\<rparr>))"

text \<open>\<^verbatim>\<open>p->next = list; p->prev = NULL; if (p->next) p->next->prev = p; list = p;\<close> for a node that was just allocated.\<close>

definition link_head :: "dlist \<Rightarrow> nat \<Rightarrow> dlist res" where
  "link_head l p =
     (let next = dl_head l;
          l = l\<lparr>dl_heap := (dl_heap l)(p \<mapsto> \<lparr>dn_next = next, dn_prev = None\<rparr>)\<rparr>
      in rbind (case next of None \<Rightarrow> Inr l | Some q \<Rightarrow> set_prev l q (Some p)) (\<lambda>l. Inr (l\<lparr>dl_head := Some p\<rparr>)))"

text \<open>\<^verbatim>\<open>if (p->next) p->next->prev = p->prev; if (p->prev) p->prev->next = p->next; else list = p->next; free(p);\<close>\<close>

definition unlink :: "dlist \<Rightarrow> nat \<Rightarrow> dlist res" where
  "unlink l p =
     (case dl_heap l p of None \<Rightarrow> Inl UseAfterFree
      | Some n \<Rightarrow>
          rbind (case dn_next n of None \<Rightarrow> Inr l | Some q \<Rightarrow> set_prev l q (dn_prev n)) (\<lambda>l.
          rbind (case dn_prev n of None \<Rightarrow> Inr (l\<lparr>dl_head := dn_next n\<rparr>) | Some q \<Rightarrow> set_next l q (dn_next n)) (\<lambda>l.
            Inr (l\<lparr>dl_heap := (dl_heap l)(p := None)\<rparr>))))"

section \<open>The contract\<close>

datatype list_op = Op_link nat | Op_unlink nat

fun run_ops :: "('l \<Rightarrow> nat \<Rightarrow> 'l res) \<Rightarrow> ('l \<Rightarrow> nat \<Rightarrow> 'l res) \<Rightarrow> 'l \<Rightarrow> list_op list \<Rightarrow> 'l res" where
  "run_ops link unl l [] = Inr l"
| "run_ops link unl l (Op_link p # ops) = rbind (link l p) (\<lambda>l. run_ops link unl l ops)"
| "run_ops link unl l (Op_unlink p # ops) = rbind (unl l p) (\<lambda>l. run_ops link unl l ops)"

text \<open>The same operations on a plain list; \<open>None\<close> when a node is linked twice or unlinked without being in the list.\<close>

fun list_ops :: "nat list \<Rightarrow> list_op list \<Rightarrow> nat list option" where
  "list_ops xs [] = Some xs"
| "list_ops xs (Op_link p # ops) = (if p \<in> set xs then None else list_ops (p # xs) ops)"
| "list_ops xs (Op_unlink p # ops) = (if p \<in> set xs then list_ops (remove1 p xs) ops else None)"

locale node_list =
  fixes holds :: "'l \<Rightarrow> nat list \<Rightarrow> bool"
    and link :: "'l \<Rightarrow> nat \<Rightarrow> 'l res"
    and unl :: "'l \<Rightarrow> nat \<Rightarrow> 'l res"
  assumes link_law: "holds l xs \<Longrightarrow> p \<notin> set xs \<Longrightarrow> \<exists>l'. link l p = Inr l' \<and> holds l' (p # xs)"
    and unl_law: "holds l xs \<Longrightarrow> p \<in> set xs \<Longrightarrow> \<exists>l'. unl l p = Inr l' \<and> holds l' (remove1 p xs)"
begin

lemma run_law:
  "holds l xs \<Longrightarrow> list_ops xs ops = Some ys \<Longrightarrow> \<exists>l'. run_ops link unl l ops = Inr l' \<and> holds l' ys"
proof (induction ops arbitrary: l xs)
  case (Cons op ops)
  show ?case
  proof (cases op)
    case (Op_link p)
    then obtain l' where "link l p = Inr l'" "holds l' (p # xs)"
      using link_law Cons.prems by (metis list_ops.simps(2) option.distinct(1))
    then show ?thesis using Cons Op_link by (auto split: if_splits)
  next
    case (Op_unlink p)
    then obtain l' where "unl l p = Inr l'" "holds l' (remove1 p xs)"
      using unl_law Cons.prems by (metis list_ops.simps(3) option.distinct(1))
    then show ?thesis using Cons Op_unlink by (auto split: if_splits)
  qed
qed simp

end

section \<open>The pointers implement it\<close>

fun dpath :: "(nat \<Rightarrow> dnode option) \<Rightarrow> nat option \<Rightarrow> nat option \<Rightarrow> nat list \<Rightarrow> nat option \<Rightarrow> bool" where
  "dpath h pr cur [] end = (cur = end)"
| "dpath h pr cur (x # xs) end =
     (cur = Some x \<and> (\<exists>nx. h x = Some \<lparr>dn_next = nx, dn_prev = pr\<rparr> \<and> dpath h (Some x) nx xs end))"

definition dl_holds :: "dlist \<Rightarrow> nat list \<Rightarrow> bool" where
  "dl_holds l xs \<longleftrightarrow> dpath (dl_heap l) None (dl_head l) xs None \<and> distinct xs"

lemma dpath_append:
  "dpath h pr cur (as @ bs) e \<longleftrightarrow>
   (\<exists>m. dpath h pr cur as m \<and> dpath h (if as = [] then pr else Some (last as)) m bs e)"
  by (induction as arbitrary: pr cur) auto

lemma dpath_frame: "dpath h pr cur xs e \<Longrightarrow> (\<And>x. x \<in> set xs \<Longrightarrow> h' x = h x) \<Longrightarrow> dpath h' pr cur xs e"
  by (induction xs arbitrary: pr cur) auto

lemma dpath_upd [simp]: "x \<notin> set xs \<Longrightarrow> dpath (h(x := v)) pr cur xs e = dpath h pr cur xs e"
  by (rule iffI; erule dpath_frame; auto)

lemma dpath_set_prev:
  "dpath h pr cur (x # xs) e \<Longrightarrow> x \<notin> set xs \<Longrightarrow>
   \<exists>n. h x = Some n \<and> dpath (h(x \<mapsto> n\<lparr>dn_prev := q\<rparr>)) q cur (x # xs) e"
  by auto

lemma dpath_set_next:
  "dpath h pr cur (xs @ [x]) e \<Longrightarrow> x \<notin> set xs \<Longrightarrow>
   \<exists>n. h x = Some n \<and> dpath (h(x \<mapsto> n\<lparr>dn_next := q\<rparr>)) pr cur (xs @ [x]) q"
  by (auto simp: dpath_append)

lemma link_head_law:
  assumes "dl_holds l xs" "p \<notin> set xs"
  shows "\<exists>l'. link_head l p = Inr l' \<and> dl_holds l' (p # xs)"
proof (cases xs)
  case Nil
  then show ?thesis using assms by (simp add: dl_holds_def link_head_def)
next
  case (Cons x ys)
  let ?h = "(dl_heap l)(p \<mapsto> \<lparr>dn_next = dl_head l, dn_prev = None\<rparr>)"
  have d: "dpath ?h None (dl_head l) (x # ys) None" "x \<notin> set ys" "distinct xs" "dl_head l = Some x" "p \<noteq> x" "p \<notin> set ys"
    using assms Cons by (auto simp: dl_holds_def)
  from dpath_set_prev [OF d(1, 2)] obtain n where n: "?h x = Some n"
    "dpath (?h(x \<mapsto> n\<lparr>dn_prev := Some p\<rparr>)) (Some p) (dl_head l) (x # ys) None" by blast
  have "link_head l p = Inr (l\<lparr>dl_heap := ?h(x \<mapsto> n\<lparr>dn_prev := Some p\<rparr>), dl_head := Some p\<rparr>)"
    using n(1) d(4) by (simp add: link_head_def set_prev_def)
  moreover have "dl_holds (l\<lparr>dl_heap := ?h(x \<mapsto> n\<lparr>dn_prev := Some p\<rparr>), dl_head := Some p\<rparr>) (p # xs)"
    using n(2) d Cons assms(2) by (simp add: dl_holds_def)
  ultimately show ?thesis by blast
qed

lemma unlink_law:
  assumes "dl_holds l xs" "p \<in> set xs"
  shows "\<exists>l'. unlink l p = Inr l' \<and> dl_holds l' (remove1 p xs)"
proof -
  obtain as bs where xs: "xs = as @ p # bs" "p \<notin> set as" using split_list_first [OF assms(2)] by blast
  define pr where "pr = (if as = [] then None else Some (last as))"
  let ?h = "dl_heap l"
  have dist: "distinct as" "distinct bs" "p \<notin> set bs" "set as \<inter> set bs = {}" using assms(1) xs by (auto simp: dl_holds_def)
  obtain nx where as: "dpath ?h None (dl_head l) as (Some p)" and p: "?h p = Some \<lparr>dn_next = nx, dn_prev = pr\<rparr>"
    and bs: "dpath ?h (Some p) nx bs None"
    using assms(1) xs by (auto simp: dl_holds_def dpath_append pr_def)
  have r: "remove1 p xs = as @ bs" using xs by (simp add: remove1_append)
  \<comment> \<open>the successor\<close>
  obtain l1 where l1: "(case nx of None \<Rightarrow> Inr l | Some q \<Rightarrow> set_prev l q pr) = Inr l1" "dl_head l1 = dl_head l"
    "dpath (dl_heap l1) pr nx bs None" "\<forall>x. x \<notin> set bs \<longrightarrow> dl_heap l1 x = ?h x"
  proof (cases bs)
    case Nil
    with bs that [of l] show ?thesis by simp
  next
    case (Cons b bs')
    with bs dist have "nx = Some b" "b \<notin> set bs'" by auto
    with dpath_set_prev [OF bs [unfolded Cons] this(2), of pr] obtain n where n: "?h b = Some n"
      "dpath (?h(b \<mapsto> n\<lparr>dn_prev := pr\<rparr>)) pr nx (b # bs') None" by blast
    show ?thesis
      by (rule that [of "l\<lparr>dl_heap := ?h(b \<mapsto> n\<lparr>dn_prev := pr\<rparr>)\<rparr>"]) (use n Cons \<open>nx = Some b\<close> in \<open>auto simp: set_prev_def\<close>)
  qed
  have as1: "dpath (dl_heap l1) None (dl_head l) as (Some p)"
    by (rule dpath_frame [OF as]) (use l1(4) dist in blast)
  \<comment> \<open>the predecessor\<close>
  obtain l2 where l2: "(case pr of None \<Rightarrow> Inr (l1\<lparr>dl_head := nx\<rparr>) | Some q \<Rightarrow> set_next l1 q nx) = Inr l2"
    "dpath (dl_heap l2) None (dl_head l2) as nx" "\<forall>x. x \<notin> set as \<longrightarrow> dl_heap l2 x = dl_heap l1 x"
  proof (cases as rule: rev_cases)
    case Nil
    then show ?thesis by (intro that [of "l1\<lparr>dl_head := nx\<rparr>"]) (simp_all add: pr_def)
  next
    case (snoc as' a)
    then have "a \<notin> set as'" using dist by auto
    from dpath_set_next [OF as1 [unfolded snoc] this, of nx] obtain n where n: "dl_heap l1 a = Some n"
      "dpath ((dl_heap l1)(a \<mapsto> n\<lparr>dn_next := nx\<rparr>)) None (dl_head l) (as' @ [a]) nx" by blast
    show ?thesis
      by (rule that [of "l1\<lparr>dl_heap := (dl_heap l1)(a \<mapsto> n\<lparr>dn_next := nx\<rparr>)\<rparr>"]) (use n snoc l1(2) in \<open>auto simp: set_next_def pr_def\<close>)
  qed
  let ?l = "l2\<lparr>dl_heap := (dl_heap l2)(p := None)\<rparr>"
  have u: "unlink l p = Inr ?l" using l1(1) l2(1) by (simp add: unlink_def p cong: option.case_cong)
  have "dpath (dl_heap ?l) None (dl_head l2) as nx"
    using l2(2) xs(2) by simp
  moreover have "dpath (dl_heap ?l) pr nx bs None"
    by (rule dpath_frame [OF l1(3)]) (use l2(3) dist in auto)
  ultimately have "dl_holds ?l (as @ bs)" using dist by (auto simp: dl_holds_def dpath_append pr_def)
  with u r show ?thesis by auto
qed

interpretation dll: node_list dl_holds link_head unlink
  by unfold_locales (rule link_head_law, assumption+, rule unlink_law, assumption+)

text \<open>C31. Any sequence of linking and unlinking nodes, each linked in once and unlinked while it is in the list, runs on the
  \<^verbatim>\<open>next\<close> and \<^verbatim>\<open>prev\<close> pointers without touching a freed node, and leaves the pointers of the list that the sequence
  gives when it is read on a plain list.\<close>

theorem linked_list_refines:
  assumes "list_ops [] ops = Some xs"
  shows "\<exists>l. run_ops link_head unlink \<lparr>dl_heap = (\<lambda>_. None), dl_head = None\<rparr> ops = Inr l \<and> dl_holds l xs"
  by (rule dll.run_law [OF _ assms]) (simp add: dl_holds_def)

theorem linked_list_refines_witness:
  "\<exists>l. run_ops link_head unlink \<lparr>dl_heap = (\<lambda>_. None), dl_head = None\<rparr>
      [Op_link 1, Op_link 2, Op_link 3, Op_unlink 2, Op_unlink 3, Op_link 4] = Inr l \<and> dl_holds l [4, 1]"
  by (rule linked_list_refines) simp

end
