(* ===== verification/Rtp.thy ===== *)
theory Rtp
  imports Wire Event "HOL-Library.Multiset"
begin

text \<open>
  RTP endpoints (\<^verbatim>\<open>rtp.c\<close>): the RTP header and the sender report, sequence numbers, counters and timeouts of
  \<open>send_rtp_packet\<close> and \<open>rtcp_send\<close>, and the choice of UDP ports.

  What lies outside an endpoint is a parameter: sending (\<^verbatim>\<open>sendmsg\<close>, \<^verbatim>\<open>send\<close> and \<open>interleave_send\<close>), arming the RTCP
  timer and the call into the rate control, all on a state \<open>'w\<close>; and the readings of \<^verbatim>\<open>gettimeofday\<close>. An endpoint
  that was torn down is \<open>None\<close>. The reference is the packet format of RFC 3550.
\<close>

unbundle bit_operations_syntax

section \<open>Endpoints\<close>

datatype transport =
    No_trans
  | Trans_udp string int int evid int evid  \<comment> \<open>\<^verbatim>\<open>sdp_addr, sdp_port, rtp_fd, rtp_event, rtcp_fd, rtcp_event\<close>\<close>
  | Trans_inter nat nat nat  \<comment> \<open>\<^verbatim>\<open>conn, rtp_chan, rtcp_chan\<close>\<close>

text \<open>The counters are 32-bit integers and wrap. \<open>ep_pvQosAnalyser\<close> says whether there is an analyser: it is allocated
  for the endpoint in \<open>live_setup\<close>, reached through the endpoint only and freed with it, so it has the endpoint's
  lifetime. The round trip time, the format and the encoder pipe are read by the rate control only.\<close>

record rtp_endpoint =
  ep_session :: nat
  ep_payload :: int
  ep_max_data_size :: int
  ep_ssrc :: u32
  ep_start_timestamp :: u32
  ep_last_timestamp :: u32
  ep_seqnum :: u16
  ep_packet_count :: u32
  ep_octet_count :: u32
  ep_rtcp_send_event :: evid
  ep_force_rtcp :: bool
  ep_last_rtcp_recv :: time_ref
  ep_last_rtcp_send :: time_ref
  ep_trans :: transport
  ep_pvQosAnalyser :: bool

datatype outgoing = To_fd int "iovec list" | To_chan nat nat "iovec list"

record 'w rtp_env =
  xmit :: "'w \<Rightarrow> outgoing \<Rightarrow> 'w \<times> int"
  arm :: "'w \<Rightarrow> evid \<Rightarrow> 'w"
  slow_down :: "'w \<Rightarrow> rtp_endpoint \<Rightarrow> 'w"

section \<open>Sender reports\<close>

text \<open>The fraction of the NTP time: the quotient of the two numbers below \<open>2 ^ 46\<close> in double precision, truncated,
  is their integer quotient.\<close>

definition ntp_usec :: "time_ref \<Rightarrow> u32" where
  "ntp_usec now = of_int (tv_usec now * 0x4000000 div 15625)"

definition ntp_sec :: "time_ref \<Rightarrow> u32" where
  "ntp_sec now = of_int (tv_sec now) + 0x83AA7E80"

definition sr_packet :: "rtp_endpoint \<Rightarrow> time_ref \<Rightarrow> byte list" where
  "sr_packet ep now =
     [push_bit 6 2, 200] @ PUT_16 6 @ PUT_32 (ep_ssrc ep) @ PUT_32 (ntp_sec now) @ PUT_32 (ntp_usec now) @
     PUT_32 (ep_last_timestamp ep) @ PUT_32 (ep_packet_count ep) @ PUT_32 (ep_octet_count ep) @
     [push_bit 6 2 OR 1, 202] @ PUT_16 5 @ PUT_32 (ep_ssrc ep) @ [0x01, 14] @ bytes_of ''Unnamed stream''"

text \<open>\<open>rtcp_send\<close>, with its two readings of the clock; the result -1 comes with the teardown of the endpoint.\<close>

definition rtcp_send :: "'w rtp_env \<Rightarrow> time_ref \<Rightarrow> time_ref \<Rightarrow> rtp_endpoint \<Rightarrow> 'w \<Rightarrow> rtp_endpoint option \<times> 'w \<times> int" where
  "rtcp_send env now now' ep w =
     (let ep = ep\<lparr>ep_last_rtcp_send := now', ep_force_rtcp := False\<rparr>;
          inter = (case ep_trans ep of Trans_inter _ _ _ \<Rightarrow> True | _ \<Rightarrow> False)
      in if \<not> inter \<and> s32 (tv_sec now - tv_sec (ep_last_rtcp_recv ep)) > 20 then (None, w, -1)
         else case ep_trans ep of
           Trans_udp _ _ _ _ rtcp_fd _ \<Rightarrow>
             (case xmit env w (To_fd rtcp_fd [Iov (sr_packet ep now)]) of (w, r) \<Rightarrow>
                if r < 0 then (None, w, -1) else (Some ep, w, 0))
         | Trans_inter c _ rtcp_chan \<Rightarrow>
             (case xmit env w (To_chan c rtcp_chan [Iov (sr_packet ep now)]) of (w, r) \<Rightarrow>
                if r < 0 then (None, w, -1) else (Some ep, w, 0))
         | No_trans \<Rightarrow> (None, w, -1))"

section \<open>Sending a packet\<close>

definition rtp_header :: "rtp_endpoint \<Rightarrow> bool \<Rightarrow> byte list" where
  "rtp_header ep marker =
     [push_bit 6 2, (if marker then of_int (ep_payload ep) OR 0x80 else of_int (ep_payload ep))] @
     PUT_16 (ucast (ep_seqnum ep)) @ PUT_32 (ep_last_timestamp ep) @ PUT_32 (ep_ssrc ep)"

text \<open>\<open>send_rtp_packet\<close>; \<open>iov\<close> is the vector from its second entry on, the first being the header. \<open>tms\<close> are the
  readings of the clock: in the timeout check, and the two of \<open>rtcp_send\<close>.\<close>

type_synonym times = "time_ref \<times> time_ref \<times> time_ref"

definition account :: "rtp_endpoint \<Rightarrow> iovec list \<Rightarrow> rtp_endpoint" where
  "account ep v =
     ep\<lparr>ep_octet_count := ep_octet_count ep + of_nat (sum_list (map (length \<circ> iov_bytes) v)),
        ep_packet_count := ep_packet_count ep + 1,
        ep_seqnum := ep_seqnum ep + 1\<rparr>"

definition after_packet :: "'w rtp_env \<Rightarrow> times \<Rightarrow> rtp_endpoint \<Rightarrow> 'w \<Rightarrow> rtp_endpoint option \<times> 'w \<times> int" where
  "after_packet env tms ep w =
     (case tms of (t, now, now') \<Rightarrow>
        if ep_force_rtcp ep then
          (case rtcp_send env now now' ep w of (ep', w, r) \<Rightarrow>
             if r < 0 then (ep', w, -1) else (ep', arm env w (ep_rtcp_send_event ep), 0))
        else if s32 (tv_sec t - tv_sec (ep_last_rtcp_send ep)) > 10 then
          rtcp_send env now now' ep (slow_down env w ep)
        else (Some ep, w, 0))"

definition send_rtp_packet :: "'w rtp_env \<Rightarrow> times \<Rightarrow> rtp_endpoint \<Rightarrow> iovec list \<Rightarrow> u32 \<Rightarrow> bool \<Rightarrow> 'w
    \<Rightarrow> rtp_endpoint option \<times> 'w \<times> int" where
  "send_rtp_packet env tms ep iov timestamp marker w =
     (let ep = ep\<lparr>ep_last_timestamp := ep_start_timestamp ep + timestamp\<rparr>;
          v = Iov (rtp_header ep marker) # iov
      in case ep_trans ep of
           Trans_udp _ _ rtp_fd _ _ _ \<Rightarrow>
             (case xmit env w (To_fd rtp_fd v) of (w, r) \<Rightarrow>
                if r < 0 then (None, w, -1) else after_packet env tms (account ep v) w)
         | Trans_inter c rtp_chan _ \<Rightarrow>
             (case xmit env w (To_chan c rtp_chan v) of (w, r) \<Rightarrow>
                if r < 0 then (None, w, -1) else after_packet env tms (account ep v) w)
         | No_trans \<Rightarrow> after_packet env tms (account ep v) w)"

text \<open>The connection to an interleaved channel, and the update of the timestamp.\<close>

definition connect_interleaved_endpoint :: "rtp_endpoint \<Rightarrow> nat \<Rightarrow> nat \<Rightarrow> nat \<Rightarrow> rtp_endpoint" where
  "connect_interleaved_endpoint ep c rtp_chan rtcp_chan = ep\<lparr>ep_trans := Trans_inter c rtp_chan rtcp_chan\<rparr>"

definition update_rtp_timestamp :: "rtp_endpoint \<Rightarrow> int \<Rightarrow> rtp_endpoint" where
  "update_rtp_timestamp ep time_increment =
     ep\<lparr>ep_last_timestamp := ep_last_timestamp ep + of_int time_increment\<rparr>"

section \<open>UDP ports\<close>

text \<open>The globals of the file.\<close>

record port_range =
  rtp_port_start :: int
  rtp_port_end :: int

definition default_range :: port_range where
  "default_range = \<lparr>rtp_port_start = 50000, rtp_port_end = 60000\<rparr>"

text \<open>\<open>config_rtprange\<close>; \<open>None\<close> is the exit of the program.\<close>

definition config_rtprange :: "int \<Rightarrow> int \<Rightarrow> port_range option" where
  "config_rtprange a b =
     (let s = (if odd a then a + 1 else a); e = (if even b then b - 1 else b)
      in if e - s + 1 < 8 then None else Some \<lparr>rtp_port_start = s, rtp_port_end = e\<rparr>)"

datatype bres = Bound | In_use | Bind_error

text \<open>What the operating system answers, call by call: \<^verbatim>\<open>socket\<close> (a descriptor or a negative number), \<^verbatim>\<open>bind\<close> of
  the RTP or RTCP socket in round \<open>i\<close> to a port, \<^verbatim>\<open>connect\<close> of the two sockets, \<^verbatim>\<open>getsockname\<close>.\<close>

record os =
  os_socket :: "nat \<Rightarrow> int"
  os_bind :: "nat \<Rightarrow> int \<Rightarrow> bres"
  os_connect :: "nat \<Rightarrow> bool"
  os_sockname :: "(string \<times> int) option"

text \<open>The 16 bits of a port that \<^verbatim>\<open>htons\<close> keeps.\<close>

definition port16 :: "int \<Rightarrow> int" where
  "port16 p = p mod 65536"

text \<open>The loop of \<open>connect_udp_endpoint\<close>. The state is the two descriptors (-1 for none), the number of calls of
  \<^verbatim>\<open>socket\<close> so far and the descriptors left open; the result is the port and the descriptors on success.\<close>

definition need_socket :: "os \<Rightarrow> int \<Rightarrow> nat \<Rightarrow> int list \<Rightarrow> int \<times> nat \<times> int list" where
  "need_socket os fd k opened =
     (if fd < 0 then let n = os_socket os k in (n, k + 1, if n < 0 then opened else n # opened)
      else (fd, k, opened))"

fun try_ports :: "os \<Rightarrow> port_range \<Rightarrow> nat \<Rightarrow> int \<Rightarrow> int \<Rightarrow> int \<Rightarrow> nat \<Rightarrow> int list
    \<Rightarrow> (int \<times> int \<times> int) option \<times> int list" where
  "try_ports os rng 0 port rtpfd rtcpfd k opened = (None, opened)"
| "try_ports os rng (Suc left) port rtpfd rtcpfd k opened =
     (let port = (if port + 1 > rtp_port_end rng then rtp_port_start rng else port);
          (rtpfd, k, opened) = need_socket os rtpfd k opened
      in if rtpfd < 0 then (None, opened)
         else let (rtcpfd, k, opened) = need_socket os rtcpfd k opened
         in if rtcpfd < 0 then (None, remove1 rtpfd opened)
         else case os_bind os left (port16 port) of
                In_use \<Rightarrow> try_ports os rng left (port + 2) rtpfd rtcpfd k opened
              | Bind_error \<Rightarrow> (None, remove1 rtcpfd (remove1 rtpfd opened))
              | Bound \<Rightarrow>
                  (case os_bind os left (port16 (port + 1)) of
                     In_use \<Rightarrow> try_ports os rng left (port + 2) (-1) rtcpfd k (remove1 rtpfd opened)
                   | Bind_error \<Rightarrow> (None, remove1 rtcpfd (remove1 rtpfd opened))
                   | Bound \<Rightarrow> (Some (port, rtpfd, rtcpfd), opened)))"

text \<open>\<open>connect_udp_endpoint\<close>: \<open>add_ev\<close> is \<open>add_fd_event\<close> for the two callbacks. The result is the endpoint, the
  port and the state on success, and the descriptors left open by this call.\<close>

definition connect_udp_endpoint :: "os \<Rightarrow> port_range \<Rightarrow> nat \<Rightarrow> ('w \<Rightarrow> int \<Rightarrow> bool \<Rightarrow> 'w \<times> evid) \<Rightarrow> rtp_endpoint \<Rightarrow> 'w
    \<Rightarrow> (rtp_endpoint \<times> int \<times> 'w) option \<times> int list" where
  "connect_udp_endpoint os rng random add_ev ep w =
     (let port = rtp_port_start rng + int random mod (rtp_port_end rng - rtp_port_start rng);
          port = (if odd port then port + 1 else port);
          max_tries = nat ((rtp_port_end rng - rtp_port_start rng + 1) div 2)
      in case try_ports os rng max_tries port (-1) (-1) 0 [] of
           (None, opened) \<Rightarrow> (None, opened)
         | (Some (port, rtpfd, rtcpfd), opened) \<Rightarrow>
             let closed = remove1 rtcpfd (remove1 rtpfd opened) in
             if \<not> os_connect os 0 then (None, closed)
             else if \<not> os_connect os 1 then (None, closed)
             else case os_sockname os of
               None \<Rightarrow> (None, closed)
             | Some (addr, sdp_port) \<Rightarrow>
                 let (w, e1) = add_ev w rtpfd False; (w, e2) = add_ev w rtcpfd True in
                 (Some (ep\<lparr>ep_trans := Trans_udp (''IP4 '' @ addr) sdp_port rtpfd e1 rtcpfd e2\<rparr>, port, w), opened))"

section \<open>Reference: RFC 3550 packets\<close>

record rtp_packet =
  pk_marker :: bool
  pk_payload_type :: nat
  pk_seq :: u16
  pk_time :: u32
  pk_ssrc :: u32
  pk_data :: "byte list"

text \<open>A packet of version 2 without padding, extension and contributing sources.\<close>

fun rtp_parse :: "byte list \<Rightarrow> rtp_packet option" where
  "rtp_parse (b0 # b1 # s0 # s1 # t0 # t1 # t2 # t3 # x0 # x1 # x2 # x3 # d) =
     (if b0 = 0x80
      then Some \<lparr>pk_marker = bit b1 7, pk_payload_type = unat b1 mod 128, pk_seq = ucast (GET_16 s0 s1),
                 pk_time = GET_32 t0 t1 t2 t3, pk_ssrc = GET_32 x0 x1 x2 x3, pk_data = d\<rparr>
      else None)"
| "rtp_parse _ = None"

record sender_report =
  sr_ssrc :: u32
  sr_ntp_sec :: u32
  sr_ntp_frac :: u32
  sr_time :: u32
  sr_packets :: u32
  sr_octets :: u32

text \<open>A compound packet: each part has the version, a length in words minus one, and fits. The first part must be a
  sender report.\<close>

function rtcp_parts :: "byte list \<Rightarrow> (byte \<times> byte \<times> byte list) list option" where
  "rtcp_parts d =
     (if d = [] then Some []
      else if length d < 4 then None
      else let n = 4 * (unat (GET_16 (d ! 2) (d ! 3)) + 1)
           in if drop_bit 6 (d ! 0) \<noteq> 2 \<or> length d < n then None
              else map_option (\<lambda>ps. (d ! 0, d ! 1, take (n - 4) (drop 4 d)) # ps) (rtcp_parts (drop n d)))"
  by pat_completeness auto
termination
  by (relation "measure length") auto

declare rtcp_parts.simps [simp del]

fun sr_parse :: "byte list \<Rightarrow> sender_report option" where
  "sr_parse [a0, a1, a2, a3, b0, b1, b2, b3, c0, c1, c2, c3, d0, d1, d2, d3, e0, e1, e2, e3, f0, f1, f2, f3] =
     Some \<lparr>sr_ssrc = GET_32 a0 a1 a2 a3, sr_ntp_sec = GET_32 b0 b1 b2 b3, sr_ntp_frac = GET_32 c0 c1 c2 c3,
           sr_time = GET_32 d0 d1 d2 d3, sr_packets = GET_32 e0 e1 e2 e3, sr_octets = GET_32 f0 f1 f2 f3\<rparr>"
| "sr_parse _ = None"

text \<open>A chunk of a source description (RFC 3550, section 6.5): a source and items of type, length and text, the last
  of which is followed by a null octet; the chunk is padded with null octets to a multiple of four bytes.\<close>

function sdes_items :: "byte list \<Rightarrow> (byte \<times> byte list) list option" where
  "sdes_items d =
     (if d = [] then None
      else if d ! 0 = 0 then (if list_all (\<lambda>b. b = 0) d \<and> length d \<le> 4 then Some [] else None)
      else if length d < 2 \<or> length d < 2 + unat (d ! 1) then None
      else map_option (\<lambda>xs. (d ! 0, take (unat (d ! 1)) (drop 2 d)) # xs) (sdes_items (drop (2 + unat (d ! 1)) d)))"
  by pat_completeness auto
termination
  by (relation "measure length") auto

declare sdes_items.simps [simp del]

fun sdes_chunk :: "byte list \<Rightarrow> (u32 \<times> (byte \<times> byte list) list) option" where
  "sdes_chunk (a # b # c # d # items) =
     (if length items mod 4 = 0 then map_option (Pair (GET_32 a b c d)) (sdes_items items) else None)"
| "sdes_chunk _ = None"

section \<open>Packets on the wire\<close>

lemma PUT_32_bytes: "\<exists>a b c d. PUT_32 v = [a, b, c, d] \<and> GET_32 a b c d = v"
  using GET_32_PUT_32 [of v] by (auto simp: PUT_32_def)

lemma PUT_16_bytes: "\<exists>a b. PUT_16 v = [a, b] \<and> GET_16 a b = take_bit 16 v"
  using GET_16_PUT_16 [of v] by (auto simp: PUT_16_def)

lemma payload_byte:
  assumes "0 \<le> p" "p < 128"
  shows "bit (if m then of_int p OR 0x80 else of_int p :: byte) 7 = m"
    "unat (if m then of_int p OR 0x80 else of_int p :: byte) mod 128 = nat p"
proof -
  have b: "bit (of_int p :: byte) n \<longleftrightarrow> n < 8 \<and> bit p n" for n by (simp add: bit_simps)
  have p7: "\<not> bit p 7" using assms bit_iff_odd [of p 7] by simp
  have c: "bit (0x80 :: byte) n \<longleftrightarrow> n = 7" for n
  proof -
    have "bit (2 ^ 7 :: byte) n \<longleftrightarrow> n = 7" by (auto simp only: bit_exp_iff possible_bit_word) simp
    then show ?thesis by simp
  qed
  show "bit (if m then of_int p OR 0x80 else of_int p :: byte) 7 = m"
    using p7 by (simp add: b c bit_or_iff)
  have "take_bit 7 (if m then of_int p OR 0x80 else of_int p :: byte) = of_int p"
    using p7 by (intro bit_word_eqI) (auto simp: bit_take_bit_iff bit_or_iff b c less_Suc_eq numeral_eq_Suc)
  then have "unat (take_bit 7 (if m then of_int p OR 0x80 else of_int p :: byte)) = nat p"
    using assms by (simp add: unat_of_int_byte)
  then show "unat (if m then of_int p OR 0x80 else of_int p :: byte) mod 128 = nat p"
    by (simp add: unsigned_take_bit_eq take_bit_eq_mod [of _ "unat _"] split del: if_split)
qed

lemma rtp_parse_header:
  assumes "0 \<le> ep_payload ep" "ep_payload ep < 128"
  shows "rtp_parse (rtp_header ep marker @ d) =
    Some \<lparr>pk_marker = marker, pk_payload_type = nat (ep_payload ep), pk_seq = ep_seqnum ep,
          pk_time = ep_last_timestamp ep, pk_ssrc = ep_ssrc ep, pk_data = d\<rparr>"
proof -
  obtain s0 s1 where s: "PUT_16 (ucast (ep_seqnum ep)) = [s0, s1]" "GET_16 s0 s1 = take_bit 16 (ucast (ep_seqnum ep))"
    using PUT_16_bytes by blast
  obtain t0 t1 t2 t3 where t: "PUT_32 (ep_last_timestamp ep) = [t0, t1, t2, t3]" "GET_32 t0 t1 t2 t3 = ep_last_timestamp ep"
    using PUT_32_bytes by blast
  obtain x0 x1 x2 x3 where x: "PUT_32 (ep_ssrc ep) = [x0, x1, x2, x3]" "GET_32 x0 x1 x2 x3 = ep_ssrc ep"
    using PUT_32_bytes by blast
  have q: "ucast (take_bit 16 (ucast (ep_seqnum ep) :: u32)) = ep_seqnum ep"
    by (rule bit_word_eqI) (auto simp: bit_simps)
  have "(push_bit 6 2 :: byte) = 0x80" by (simp add: push_bit_eq_mult)
  then show ?thesis
    by (simp add: rtp_header_def s t x q payload_byte [OF assms] split del: if_split)
qed

text \<open>Sending a list of packets over a transport that accepts them, recorded in order; \<open>None\<close> once a call fails.\<close>

definition log_env :: "outgoing list rtp_env" where
  "log_env = \<lparr>xmit = (\<lambda>w p. (w @ [p], 0)), arm = (\<lambda>w e. w), slow_down = (\<lambda>w ep. w)\<rparr>"

fun send_many :: "rtp_endpoint \<Rightarrow> (times \<times> byte list list \<times> u32 \<times> bool) list \<Rightarrow> outgoing list
    \<Rightarrow> (rtp_endpoint \<times> outgoing list) option" where
  "send_many ep [] w = Some (ep, w)"
| "send_many ep ((tms, iov, ts, m) # ps) w =
     (case send_rtp_packet log_env tms ep (map Iov iov) ts m w of
        (Some ep, w, r) \<Rightarrow> if r < 0 then None else send_many ep ps w
      | (None, w, r) \<Rightarrow> None)"

text \<open>The RTP packets among what was sent.\<close>

fun rtp_bytes :: "transport \<Rightarrow> outgoing \<Rightarrow> byte list option" where
  "rtp_bytes (Trans_udp a p fd e fd' e') (To_fd x v) = (if x = fd then Some (iov_concat v) else None)"
| "rtp_bytes (Trans_inter c ch ch') (To_chan x y v) = (if x = c \<and> y = ch then Some (iov_concat v) else None)"
| "rtp_bytes _ _ = None"

definition rtp_sent :: "transport \<Rightarrow> outgoing list \<Rightarrow> byte list list" where
  "rtp_sent tr w = List.map_filter (rtp_bytes tr) w"

lemma rtp_sent_append [simp]: "rtp_sent tr (a @ b) = rtp_sent tr a @ rtp_sent tr b"
  by (simp add: rtp_sent_def map_filter_def)

fun separate :: "transport \<Rightarrow> bool" where
  "separate (Trans_udp a p fd e fd' e') = (fd \<noteq> fd')"
| "separate (Trans_inter c ch ch') = (ch \<noteq> ch')"
| "separate No_trans = False"

text \<open>RTCP was received from the client in the last 20 seconds, where that matters.\<close>

definition heard :: "rtp_endpoint \<Rightarrow> times \<Rightarrow> bool" where
  "heard ep tms = (case ep_trans ep of
     Trans_inter _ _ _ \<Rightarrow> True
   | _ \<Rightarrow> (case tms of (t, now, now') \<Rightarrow> s32 (tv_sec now - tv_sec (ep_last_rtcp_recv ep)) \<le> 20))"

text \<open>What stays the same about an endpoint while it sends.\<close>

definition same_stream :: "rtp_endpoint \<Rightarrow> rtp_endpoint \<Rightarrow> bool" where
  "same_stream ep ep' \<longleftrightarrow> ep_trans ep' = ep_trans ep \<and> ep_payload ep' = ep_payload ep \<and> ep_ssrc ep' = ep_ssrc ep \<and>
     ep_start_timestamp ep' = ep_start_timestamp ep \<and> ep_last_rtcp_recv ep' = ep_last_rtcp_recv ep \<and>
     ep_max_data_size ep' = ep_max_data_size ep"

definition counts_on :: "rtp_endpoint \<Rightarrow> rtp_endpoint \<Rightarrow> nat \<Rightarrow> nat \<Rightarrow> bool" where
  "counts_on ep ep' n k \<longleftrightarrow> ep_seqnum ep' = ep_seqnum ep + of_nat n \<and>
     ep_packet_count ep' = ep_packet_count ep + of_nat n \<and> ep_octet_count ep' = ep_octet_count ep + of_nat k"

lemma rtcp_send_log:
  assumes "separate (ep_trans ep)" "heard ep (t, now, now')"
  shows "\<exists>ep' pk. rtcp_send log_env now now' ep w = (Some ep', w @ [pk], 0) \<and> rtp_bytes (ep_trans ep) pk = None \<and>
    same_stream ep ep' \<and> counts_on ep ep' 0 0"
proof (cases "ep_trans ep")
  case (Trans_udp a p fd e fd' e')
  then show ?thesis
    using assms by (simp add: rtcp_send_def log_env_def heard_def same_stream_def counts_on_def Let_def)
next
  case (Trans_inter c ch ch')
  then show ?thesis
    using assms by (simp add: rtcp_send_def log_env_def heard_def same_stream_def counts_on_def Let_def)
qed (use assms in simp)

lemma after_packet_log:
  assumes "separate (ep_trans ep)" "heard ep tms"
  shows "\<exists>ep' ps. after_packet log_env tms ep w = (Some ep', w @ ps, 0) \<and> rtp_sent (ep_trans ep) ps = [] \<and>
    same_stream ep ep' \<and> counts_on ep ep' 0 0"
proof -
  obtain t now now' where t: "tms = (t, now, now')" by (cases tms)
  obtain ep' pk where r: "rtcp_send log_env now now' ep w = (Some ep', w @ [pk], 0)" "rtp_bytes (ep_trans ep) pk = None"
      "same_stream ep ep'" "counts_on ep ep' 0 0"
    using rtcp_send_log [OF assms(1), of t now now' w] assms(2) t by blast
  have s: "same_stream ep ep" "counts_on ep ep 0 0" by (simp_all add: same_stream_def counts_on_def)
  have l: "slow_down log_env w ep = w" "arm log_env x e = x" for x e by (simp_all add: log_env_def)
  show ?thesis
  proof (cases "ep_force_rtcp ep \<or> s32 (tv_sec t - tv_sec (ep_last_rtcp_send ep)) > 10")
    case True
    then show ?thesis
      using r by (intro exI [of _ ep'] exI [of _ "[pk]"]) (auto simp: after_packet_def t l rtp_sent_def map_filter_def)
  next
    case False
    then show ?thesis
      using s by (intro exI [of _ ep] exI [of _ "[]"]) (simp add: after_packet_def t rtp_sent_def map_filter_def)
  qed
qed

lemma send_rtp_packet_log:
  fixes ts :: u32
  assumes "separate (ep_trans ep)" "heard ep tms"
  defines "ep1 \<equiv> ep\<lparr>ep_last_timestamp := ep_start_timestamp ep + ts\<rparr>"
  shows "\<exists>ep' w'. send_rtp_packet log_env tms ep (map Iov iov) ts m w = (Some ep', w @ w', 0) \<and>
    rtp_sent (ep_trans ep) w' = [rtp_header ep1 m @ concat iov] \<and>
    same_stream ep ep' \<and> counts_on ep ep' 1 (12 + length (concat iov))"
proof -
  let ?v = "Iov (rtp_header ep1 m) # map Iov iov"
  let ?ep2 = "account ep1 ?v"
  have e: "separate (ep_trans ?ep2)" "heard ?ep2 tms"
    using assms(1,2) by (cases "ep_trans ep"; cases tms; simp add: account_def ep1_def heard_def)+
  have len: "length (rtp_header ep1 m) = 12" by (simp add: rtp_header_def)
  note a = after_packet_log [OF e]
  have c: "same_stream ?ep2 ep' \<Longrightarrow> counts_on ?ep2 ep' 0 0 \<Longrightarrow>
      same_stream ep ep' \<and> counts_on ep ep' 1 (12 + length (concat iov))" for ep'
    by (simp add: same_stream_def counts_on_def account_def ep1_def [symmetric] len length_concat comp_def)
       (simp add: ep1_def)
  have tr: "ep_trans ep1 = ep_trans ep" "ep_trans ?ep2 = ep_trans ep" by (simp_all add: ep1_def account_def)
  show ?thesis
  proof (cases "ep_trans ep")
    case (Trans_udp a p fd e fd' e')
    then have s: "send_rtp_packet log_env tms ep (map Iov iov) ts m w = after_packet log_env tms ?ep2 (w @ [To_fd fd ?v])"
      by (simp add: send_rtp_packet_def ep1_def [symmetric] tr log_env_def Let_def)
    from a [of "w @ [To_fd fd ?v]"] show ?thesis
      unfolding s using Trans_udp tr c by (fastforce simp: rtp_sent_def map_filter_def comp_def)
  next
    case (Trans_inter cn ch ch')
    then have s: "send_rtp_packet log_env tms ep (map Iov iov) ts m w = after_packet log_env tms ?ep2 (w @ [To_chan cn ch ?v])"
      by (simp add: send_rtp_packet_def ep1_def [symmetric] tr log_env_def Let_def)
    from a [of "w @ [To_chan cn ch ?v]"] show ?thesis
      unfolding s using Trans_inter tr c by (fastforce simp: rtp_sent_def map_filter_def comp_def)
  qed (use assms in simp)
qed

text \<open>What a receiver should see.\<close>

definition expected :: "rtp_endpoint \<Rightarrow> nat \<times> times \<times> byte list list \<times> u32 \<times> bool \<Rightarrow> rtp_packet" where
  "expected ep = (\<lambda>(i, tms, iov, ts, m).
     \<lparr>pk_marker = m, pk_payload_type = nat (ep_payload ep), pk_seq = ep_seqnum ep + of_nat i,
      pk_time = ep_start_timestamp ep + ts, pk_ssrc = ep_ssrc ep, pk_data = concat iov\<rparr>)"

definition wire_len :: "times \<times> byte list list \<times> u32 \<times> bool \<Rightarrow> nat" where
  "wire_len p = (case p of (tms, iov, ts, m) \<Rightarrow> 12 + length (concat iov))"

lemma send_many_expected:
  assumes "separate (ep_trans ep)" "\<forall>p \<in> set ps. heard ep (fst p)" "0 \<le> ep_payload ep" "ep_payload ep < 128"
  shows "\<exists>ep' w'. send_many ep ps w = Some (ep', w @ w') \<and>
    map rtp_parse (rtp_sent (ep_trans ep) w') = map (Some \<circ> expected ep) (enumerate 0 ps) \<and>
    same_stream ep ep' \<and>
    counts_on ep ep' (length ps) (sum_list (map wire_len ps))"
  using assms
proof (induction ps arbitrary: ep w)
  case Nil
  then show ?case by (simp add: rtp_sent_def map_filter_def counts_on_def same_stream_def)
next
  case (Cons p ps)
  obtain tms iov ts m where p: "p = (tms, iov, ts, m)" by (cases p)
  obtain ep1 w1 where s: "send_rtp_packet log_env tms ep (map Iov iov) ts m w = (Some ep1, w @ w1, 0)"
      "rtp_sent (ep_trans ep) w1 = [rtp_header (ep\<lparr>ep_last_timestamp := ep_start_timestamp ep + ts\<rparr>) m @ concat iov]"
      "same_stream ep ep1" "counts_on ep ep1 1 (12 + length (concat iov))"
    using send_rtp_packet_log [OF Cons.prems(1), of tms iov ts m w] Cons.prems(2) p by auto
  have h: "heard ep1 t = heard ep t" for t
    using s(3) by (cases "ep_trans ep") (simp_all add: heard_def same_stream_def)
  have "separate (ep_trans ep1)" "\<forall>p \<in> set ps. heard ep1 (fst p)" "0 \<le> ep_payload ep1" "ep_payload ep1 < 128"
    using Cons.prems s(3) h by (simp_all add: same_stream_def)
  from Cons.IH [OF this, of "w @ w1"] obtain ep2 w2 where r: "send_many ep1 ps (w @ w1) = Some (ep2, w @ w1 @ w2)"
      "map rtp_parse (rtp_sent (ep_trans ep1) w2) = map (Some \<circ> expected ep1) (enumerate 0 ps)" "same_stream ep1 ep2"
      "counts_on ep1 ep2 (length ps) (sum_list (map wire_len ps))"
    by (auto simp del: o_apply)
  have e: "map (Some \<circ> expected ep1) (enumerate 0 ps) = map (Some \<circ> expected ep) (enumerate 1 ps)"
  proof -
    have "expected ep1 (i, q) = expected ep (Suc i, q)" for i q
      using s(3,4) by (cases q) (simp add: expected_def same_stream_def counts_on_def)
    then have "expected ep1 x = expected ep (apfst Suc x)" for x by (cases x) simp
    then show ?thesis by (simp add: enumerate_Suc_eq comp_def)
  qed
  have t: "ep_trans ep1 = ep_trans ep" using s(3) by (simp add: same_stream_def)
  have "rtp_parse (rtp_header (ep\<lparr>ep_last_timestamp := ep_start_timestamp ep + ts\<rparr>) m @ concat iov) =
      Some (expected ep (0, p))"
    using Cons.prems(3,4) by (simp add: rtp_parse_header p expected_def)
  then have "map rtp_parse (rtp_sent (ep_trans ep) (w1 @ w2)) = map (Some \<circ> expected ep) (enumerate 0 (p # ps))"
    using s(2) r(2) e t by (simp add: enumerate_simps)
  moreover have "same_stream ep ep2" using s(3) r(3) by (simp add: same_stream_def)
  moreover have "counts_on ep ep2 (length (p # ps)) (sum_list (map wire_len (p # ps)))"
    using s(4) r(4) by (simp add: counts_on_def p wire_len_def)
  ultimately show ?case using s(1) r(1) by (simp add: p)
qed

text \<open>C25. RTP packets conform to RFC 3550: over a working transport, with RTCP from the client in the last 20 seconds
  where the transport is UDP, a sequence of \<open>send_rtp_packet\<close> calls succeeds, and a receiver parses out of what was sent
  exactly the packets given, each once and in order, with consecutive sequence numbers (modulo 65536) and the
  timestamps offset by the random start. The counters of the sender reports grow, modulo 2^32, by one per packet and
  by its whole length: the octets counted include the 12 bytes of the RTP header, which the sender's octet count of
  RFC 3550 leaves out.\<close>

theorem rtp_stream_delivered:
  assumes "separate (ep_trans ep)" "\<forall>p \<in> set ps. heard ep (fst p)" "0 \<le> ep_payload ep" "ep_payload ep < 128"
  shows "\<exists>ep' w'. send_many ep ps [] = Some (ep', w') \<and>
    map rtp_parse (rtp_sent (ep_trans ep) w') = map (Some \<circ> expected ep) (enumerate 0 ps) \<and>
    counts_on ep ep' (length ps) (sum_list (map wire_len ps))"
  using send_many_expected [OF assms, of "[]"] by auto

definition sample_ep :: rtp_endpoint where
  "sample_ep = \<lparr>ep_session = 0, ep_payload = 26, ep_max_data_size = 1400, ep_ssrc = 0x12345678,
     ep_start_timestamp = 0xFFFFFF00, ep_last_timestamp = 0xFFFFFF00, ep_seqnum = 0xFFFF, ep_packet_count = 0,
     ep_octet_count = 0, ep_rtcp_send_event = 0, ep_force_rtcp = True,
     ep_last_rtcp_recv = \<lparr>tv_sec = 100, tv_usec = 0\<rparr>, ep_last_rtcp_send = \<lparr>tv_sec = 100, tv_usec = 0\<rparr>,
     ep_trans = Trans_udp ''IP4 0.0.0.0'' 50000 5 1 6 2, ep_pvQosAnalyser = True\<rparr>"

definition sample_times :: times where
  "sample_times = (\<lparr>tv_sec = 110, tv_usec = 0\<rparr>, \<lparr>tv_sec = 110, tv_usec = 0\<rparr>, \<lparr>tv_sec = 110, tv_usec = 0\<rparr>)"

theorem rtp_stream_delivered_witness:
  "\<exists>ep' w'. send_many sample_ep [(sample_times, [[1, 2], [3]], 0x100, False), (sample_times, [[4]], 0x200, True)] [] =
      Some (ep', w') \<and>
    map (map_option (\<lambda>p. (pk_seq p, pk_time p, pk_data p))) (map rtp_parse (rtp_sent (ep_trans sample_ep) w')) =
      [Some (0xFFFF, 0, [1, 2, 3]), Some (0, 0x100, [4])] \<and>
    ep_octet_count ep' = 28"
proof -
  let ?ps = "[(sample_times, [[1, 2], [3]], 0x100, False), (sample_times, [[4 :: byte]], 0x200 :: u32, True)]"
  have h: "\<forall>p \<in> set ?ps. heard sample_ep (fst p)" by (simp add: heard_def sample_ep_def sample_times_def s32_id)
  have "separate (ep_trans sample_ep)" "0 \<le> ep_payload sample_ep" "ep_payload sample_ep < 128"
    by (simp_all add: sample_ep_def)
  from rtp_stream_delivered [OF this(1) h this(2,3)] obtain ep' w' where r: "send_many sample_ep ?ps [] = Some (ep', w')"
      "map rtp_parse (rtp_sent (ep_trans sample_ep) w') = map (Some \<circ> expected sample_ep) (enumerate 0 ?ps)"
      "counts_on sample_ep ep' (length ?ps) (sum_list (map wire_len ?ps))"
    by blast
  have "map (map_option (\<lambda>p. (pk_seq p, pk_time p, pk_data p))) (map rtp_parse (rtp_sent (ep_trans sample_ep) w')) =
      [Some (0xFFFF, 0, [1, 2, 3]), Some (0, 0x100, [4])]"
    unfolding r(2) by (simp add: expected_def sample_ep_def enumerate_simps)
  moreover have "ep_octet_count ep' = 28" using r(3) by (simp add: counts_on_def wire_len_def sample_ep_def)
  ultimately show ?thesis using r(1) by (intro exI conjI)
qed

section \<open>Sender reports and ports\<close>

lemma rtcp_parts_Cons:
  assumes "drop_bit 6 a = 2" "GET_16 c d = of_nat n" "length body = 4 * n" "n < 65536"
  shows "rtcp_parts ([a, b, c, d] @ body @ rest) = map_option (\<lambda>ps. (a, b, body) # ps) (rtcp_parts rest)"
proof -
  let ?d = "[a, b, c, d] @ body @ rest"
  have n: "unat (of_nat n :: u32) = n" using assms(4) by (simp add: unat_of_nat take_bit_eq_mod)
  have i: "?d ! 0 = a" "?d ! 1 = b" "?d ! 2 = c" "?d ! 3 = d" "?d \<noteq> []" "length ?d = 4 + 4 * n + length rest"
    using assms(3) by simp_all
  have "4 * (n + 1) = length ([a, b, c, d] @ body)" using assms(3) by simp
  then have "drop (4 * (n + 1)) ?d = rest" by (metis append_assoc append_eq_conv_conj)
  moreover have "take (4 * (n + 1) - 4) (drop 4 ?d) = body" using assms(3) by simp
  ultimately show ?thesis
    by (subst rtcp_parts.simps) (simp only: i assms(1,2) n Let_def, simp add: i(6))
qed

lemma sr_packet_parts:
  "rtcp_parts (sr_packet ep now) =
     Some [(0x80, 200, PUT_32 (ep_ssrc ep) @ PUT_32 (ntp_sec now) @ PUT_32 (ntp_usec now) @
              PUT_32 (ep_last_timestamp ep) @ PUT_32 (ep_packet_count ep) @ PUT_32 (ep_octet_count ep)),
           (0x81, 202, PUT_32 (ep_ssrc ep) @ [1, 14] @ bytes_of ''Unnamed stream'')]"
proof -
  define report where "report = PUT_32 (ep_ssrc ep) @ PUT_32 (ntp_sec now) @ PUT_32 (ntp_usec now) @
     PUT_32 (ep_last_timestamp ep) @ PUT_32 (ep_packet_count ep) @ PUT_32 (ep_octet_count ep)"
  define sdes where "sdes = PUT_32 (ep_ssrc ep) @ [1, 14] @ bytes_of ''Unnamed stream''"
  have b: "(push_bit 6 2 :: byte) = 0x80" "(push_bit 6 2 OR 1 :: byte) = 0x81" by code_simp+
  have p16: "PUT_16 6 = [0, 6]" "PUT_16 5 = [0, 5]" by code_simp+
  have pk: "sr_packet ep now = [0x80, 200, 0, 6] @ report @ [0x81, 202, 0, 5] @ sdes @ []"
    by (simp add: sr_packet_def report_def sdes_def p16 b)
  have len: "length report = 4 * 6" "length sdes = 4 * 5" by (simp_all add: report_def sdes_def)
  have c: "drop_bit 6 (0x80 :: byte) = 2" "drop_bit 6 (0x81 :: byte) = 2" "GET_16 0 6 = of_nat 6" "GET_16 0 5 = of_nat 5"
    by code_simp+
  have "rtcp_parts (sr_packet ep now) = Some [(0x80, 200, report), (0x81, 202, sdes)]"
    unfolding pk
    using rtcp_parts_Cons [OF c(1,3) len(1)] rtcp_parts_Cons [OF c(2,4) len(2), of 202 "[]"]
    by (simp add: rtcp_parts.simps [of "[]"])
  then show ?thesis by (simp only: report_def sdes_def)
qed

lemma sr_parse_fields:
  "sr_parse (PUT_32 a @ PUT_32 b @ PUT_32 c @ PUT_32 d @ PUT_32 e @ PUT_32 f) =
     Some \<lparr>sr_ssrc = a, sr_ntp_sec = b, sr_ntp_frac = c, sr_time = d, sr_packets = e, sr_octets = f\<rparr>"
proof -
  obtain a0 a1 a2 a3 where "PUT_32 a = [a0, a1, a2, a3]" "GET_32 a0 a1 a2 a3 = a" using PUT_32_bytes by blast
  moreover obtain b0 b1 b2 b3 where "PUT_32 b = [b0, b1, b2, b3]" "GET_32 b0 b1 b2 b3 = b" using PUT_32_bytes by blast
  moreover obtain c0 c1 c2 c3 where "PUT_32 c = [c0, c1, c2, c3]" "GET_32 c0 c1 c2 c3 = c" using PUT_32_bytes by blast
  moreover obtain d0 d1 d2 d3 where "PUT_32 d = [d0, d1, d2, d3]" "GET_32 d0 d1 d2 d3 = d" using PUT_32_bytes by blast
  moreover obtain e0 e1 e2 e3 where "PUT_32 e = [e0, e1, e2, e3]" "GET_32 e0 e1 e2 e3 = e" using PUT_32_bytes by blast
  moreover obtain f0 f1 f2 f3 where "PUT_32 f = [f0, f1, f2, f3]" "GET_32 f0 f1 f2 f3 = f" using PUT_32_bytes by blast
  ultimately show ?thesis by simp
qed

text \<open>C26. The packet \<open>rtcp_send\<close> builds is framed as a compound RTCP packet of RFC 3550: 52 bytes that split into exactly
  two parts, a sender report and one source description chunk of 20 bytes, by the lengths of their headers. The
  sender report parses to the endpoint's source, the time, its last RTP timestamp and its two counters. The content
  of the source description is the subject of \<open>sdes_unterminated\<close>.\<close>

theorem sender_report_valid:
  "length (sr_packet ep now) = 52 \<and>
   (\<exists>report sdes. rtcp_parts (sr_packet ep now) = Some [(0x80, 200, report), (0x81, 202, sdes)] \<and> length sdes = 20 \<and>
      sr_parse report = Some \<lparr>sr_ssrc = ep_ssrc ep, sr_ntp_sec = ntp_sec now, sr_ntp_frac = ntp_usec now,
        sr_time = ep_last_timestamp ep, sr_packets = ep_packet_count ep, sr_octets = ep_octet_count ep\<rparr>)"
proof -
  have "length (sr_packet ep now) = 52" by (simp add: sr_packet_def PUT_16_def)
  then show ?thesis using sr_packet_parts [of ep now] sr_parse_fields by (auto simp del: sr_parse.simps)
qed

lemma sdes_chunk_put: "sdes_chunk (PUT_32 v @ items) =
    (if length items mod 4 = 0 then map_option (Pair v) (sdes_items items) else None)"
proof -
  obtain a b c d where "PUT_32 v = [a, b, c, d]" "GET_32 a b c d = v" using PUT_32_bytes by blast
  then show ?thesis by simp
qed

lemma sdes_items_Cons:
  assumes "t \<noteq> 0" "length x = unat n"
  shows "sdes_items ([t, n] @ x @ rest) = map_option (\<lambda>xs. (t, x) # xs) (sdes_items rest)"
proof -
  have "drop (2 + unat n) ([t, n] @ x @ rest) = rest" "take (unat n) (drop 2 ([t, n] @ x @ rest)) = x"
    using assms(2) by simp_all
  moreover have "\<not> length ([t, n] @ x @ rest) < 2 + unat n" using assms(2) by simp
  ultimately show ?thesis using assms(1) by (subst sdes_items.simps) simp
qed

text \<open>C27. The source description \<open>rtcp_send\<close> appends to every sender report is not a valid chunk of RFC 3550: the null
  octet that has to end the list of items is missing, and so is the padding behind it, so a receiver runs past the
  end of the packet. With four null octets more it would name the endpoint's source \<^verbatim>\<open>Unnamed stream\<close>.\<close>

theorem sdes_unterminated:
  "\<exists>report sdes. rtcp_parts (sr_packet ep now) = Some [(0x80, 200, report), (0x81, 202, sdes)] \<and>
     sdes_chunk sdes = None \<and>
     sdes_chunk (sdes @ [0, 0, 0, 0]) = Some (ep_ssrc ep, [(1, bytes_of ''Unnamed stream'')])"
proof -
  let ?name = "bytes_of ''Unnamed stream''"
  have items: "sdes_items ([1, 14] @ ?name @ rest) = map_option (\<lambda>xs. (1, ?name) # xs) (sdes_items rest)" for rest
    by (rule sdes_items_Cons) simp_all
  have "sdes_chunk (PUT_32 (ep_ssrc ep) @ [1, 14] @ ?name) = None"
    using items [of "[]"] by (simp add: sdes_chunk_put sdes_items.simps [of "[]"])
  moreover have "sdes_chunk ((PUT_32 (ep_ssrc ep) @ [1, 14] @ ?name) @ [0, 0, 0, 0]) = Some (ep_ssrc ep, [(1, ?name)])"
    using items [of "[0, 0, 0, 0]"]
    by (simp add: sdes_chunk_put sdes_items.simps [of "[0, 0, 0, 0]"])
  ultimately show ?thesis using sr_packet_parts [of ep now] by blast
qed

text \<open>The bounds of a usable range: an even first port and room for a pair.\<close>

definition range_ok :: "port_range \<Rightarrow> bool" where
  "range_ok rng \<longleftrightarrow> even (rtp_port_start rng) \<and> 0 < rtp_port_start rng \<and> rtp_port_start rng + 1 < rtp_port_end rng"

lemma try_ports_sound:
  "try_ports os rng n port rtpfd rtcpfd k opened = (Some (p, a, b), opened') \<Longrightarrow> range_ok rng \<Longrightarrow>
   even port \<Longrightarrow> rtp_port_start rng \<le> port \<Longrightarrow>
   even p \<and> rtp_port_start rng \<le> p \<and> p + 1 \<le> rtp_port_end rng \<and> 0 \<le> a \<and> 0 \<le> b \<and>
   (\<exists>i. os_bind os i (port16 p) = Bound \<and> os_bind os i (port16 (p + 1)) = Bound)"
proof (induction n arbitrary: port rtpfd rtcpfd k opened)
  case (Suc n)
  let ?p = "if port + 1 > rtp_port_end rng then rtp_port_start rng else port"
  have p: "even ?p" "rtp_port_start rng \<le> ?p" "?p + 1 \<le> rtp_port_end rng"
    using Suc.prems(2-4) by (simp_all add: range_ok_def)
  obtain fd k1 o1 where 1: "need_socket os rtpfd k opened = (fd, k1, o1)" by (cases "need_socket os rtpfd k opened")
  obtain fd' k2 o2 where 2: "need_socket os rtcpfd k1 o1 = (fd', k2, o2)" by (cases "need_socket os rtcpfd k1 o1")
  have fd: "0 \<le> fd" "0 \<le> fd'"
    using Suc.prems(1) 1 2 by (auto simp: Let_def split: if_splits)
  have nxt: "even (?p + 2)" "rtp_port_start rng \<le> ?p + 2" using p by auto
  show ?case
  proof (cases "os_bind os n (port16 ?p)")
    case In_use
    then have "try_ports os rng n (?p + 2) fd fd' k2 o2 = (Some (p, a, b), opened')"
      using Suc.prems(1) 1 2 fd by (simp add: Let_def)
    from Suc.IH [OF this Suc.prems(2) nxt] show ?thesis .
  next
    case Bind_error
    then show ?thesis using Suc.prems(1) 1 2 fd by (simp add: Let_def)
  next
    case Bound
    show ?thesis
    proof (cases "os_bind os n (port16 (?p + 1))")
      case In_use
      then have "try_ports os rng n (?p + 2) (-1) fd' k2 (remove1 fd o2) = (Some (p, a, b), opened')"
        using Suc.prems(1) 1 2 fd Bound by (simp add: Let_def)
      from Suc.IH [OF this Suc.prems(2) nxt] show ?thesis .
    next
      case Bind_error
      then show ?thesis using Suc.prems(1) 1 2 fd Bound by (simp add: Let_def)
    next
      case second: Bound
      then have "p = ?p" "a = fd" "b = fd'" using Suc.prems(1) 1 2 fd Bound by (simp_all add: Let_def)
      then show ?thesis using p fd Bound second by blast
    qed
  qed
qed simp

lemma config_range_ok:
  assumes "config_rtprange a b = Some rng \<or> rng = default_range \<and> a = 50000 \<and> b = 60000" "0 < a"
  shows "range_ok rng" "a \<le> rtp_port_start rng" "rtp_port_end rng \<le> b"
  using assms by (auto simp: config_rtprange_def default_range_def range_ok_def Let_def split: if_splits)

definition fds :: "int \<Rightarrow> int multiset" where
  "fds fd = (if fd < 0 then {#} else {#fd#})"

lemma need_socket_fds:
  "need_socket os fd k opened = (fd', k', opened') \<Longrightarrow> mset opened = fds fd + M \<Longrightarrow> mset opened' = fds fd' + M"
  by (auto simp: need_socket_def fds_def Let_def split: if_splits)

lemma try_ports_fds:
  "try_ports os rng n port rtpfd rtcpfd k opened = (Some (p, a, b), opened') \<Longrightarrow>
   mset opened = fds rtpfd + fds rtcpfd \<Longrightarrow> mset opened' = {#a, b#}"
proof (induction n arbitrary: port rtpfd rtcpfd k opened)
  case (Suc n)
  let ?p = "if port + 1 > rtp_port_end rng then rtp_port_start rng else port"
  obtain fd k1 o1 where 1: "need_socket os rtpfd k opened = (fd, k1, o1)" by (cases "need_socket os rtpfd k opened")
  obtain fd' k2 o2 where 2: "need_socket os rtcpfd k1 o1 = (fd', k2, o2)" by (cases "need_socket os rtcpfd k1 o1")
  have fd: "0 \<le> fd" "0 \<le> fd'"
    using Suc.prems(1) 1 2 by (auto simp: Let_def split: if_splits)
  have "mset o1 = fds fd + fds rtcpfd" by (rule need_socket_fds [OF 1 Suc.prems(2)])
  then have "mset o1 = fds rtcpfd + fds fd" by simp
  then have m: "mset o2 = fds fd' + fds fd" by (rule need_socket_fds [OF 2])
  have c: "mset (remove1 fd o2) = fds (-1) + fds fd'" using m fd by (simp add: fds_def)
  have m': "mset o2 = fds fd + fds fd'" using m by simp
  show ?case
  proof (cases "os_bind os n (port16 ?p)")
    case Bound
    show ?thesis
    proof (cases "os_bind os n (port16 (?p + 1))")
      case second: Bound
      then have "a = fd" "b = fd'" "opened' = o2" using Suc.prems(1) 1 2 fd Bound by (simp_all add: Let_def)
      then show ?thesis using m' fd by (simp add: fds_def add_mset_commute)
    qed (use Suc.prems(1) Suc.IH [OF _ c] 1 2 fd Bound in \<open>simp_all add: Let_def\<close>)
  qed (use Suc.prems(1) Suc.IH [OF _ m'] 1 2 fd in \<open>simp_all add: Let_def\<close>)
qed simp

text \<open>C28. The ports of a UDP endpoint, for the default range 50000 to 60000 and for every range from a positive port to
  at most 65535 that \<open>config_rtprange\<close> accepts: when \<open>connect_udp_endpoint\<close> succeeds, the RTP port is even and the pair
  of ports lies in the range as it was configured, both were bound in the same round as the 16-bit ports they are,
  the endpoint holds the two sockets, and no other socket is left open, however many rounds it took.\<close>

theorem udp_ports:
  assumes "config_rtprange a b = Some rng \<or> rng = default_range \<and> a = 50000 \<and> b = 60000" "0 < a" "b \<le> 65535"
    and "connect_udp_endpoint os rng rnd add_ev ep w = (Some (ep', port, w'), opened)"
  shows "even port \<and> a \<le> port \<and> port + 1 \<le> b \<and>
    (\<exists>i. os_bind os i port = Bound \<and> os_bind os i (port + 1) = Bound) \<and>
    (\<exists>addr sport rtpfd e rtcpfd e'. ep_trans ep' = Trans_udp addr sport rtpfd e rtcpfd e' \<and>
       0 \<le> rtpfd \<and> 0 \<le> rtcpfd \<and> mset opened = {#rtpfd, rtcpfd#})"
proof -
  note rng = config_range_ok [OF assms(1,2)]
  let ?q = "rtp_port_start rng + int rnd mod (rtp_port_end rng - rtp_port_start rng)"
  let ?p = "if odd ?q then ?q + 1 else ?q"
  let ?n = "nat ((rtp_port_end rng - rtp_port_start rng + 1) div 2)"
  obtain res o1 where t: "try_ports os rng ?n ?p (-1) (-1) 0 [] = (res, o1)" by fastforce
  obtain p a b where r: "res = Some (p, a, b)"
    using assms(4) t by (cases res) (auto simp: connect_udp_endpoint_def Let_def)
  have s: "port = p" "opened = o1" "\<exists>addr sport e e'. ep_trans ep' = Trans_udp addr sport a e b e'"
    using assms(4) t r by (auto simp: connect_udp_endpoint_def Let_def split: if_splits option.splits prod.splits)
  have "0 \<le> int rnd mod (rtp_port_end rng - rtp_port_start rng)" using rng(1) by (simp add: range_ok_def)
  then have "even ?p" "rtp_port_start rng \<le> ?p" by auto
  note p = try_ports_sound [OF t [unfolded r] rng(1) this]
  then have 16: "port16 p = p" "port16 (p + 1) = p + 1"
    using rng assms(2,3) by (simp_all add: port16_def range_ok_def)
  from p [unfolded 16] rng(2,3) try_ports_fds [OF t [unfolded r]] s
  show ?thesis by (auto simp: fds_def)
qed

definition friendly_os :: os where
  "friendly_os = \<lparr>os_socket = (\<lambda>k. 10 + int k), os_bind = (\<lambda>i p. if p = 50001 then In_use else Bound),
     os_connect = (\<lambda>_. True), os_sockname = Some (''10.0.0.1'', 50002)\<rparr>"

theorem udp_ports_witness:
  "\<exists>rng ep'. config_rtprange 49999 50010 = Some rng \<and>
     connect_udp_endpoint friendly_os rng 9 (\<lambda>w fd b. (w + 1, w)) sample_ep (7 :: nat) = (Some (ep', 50002, 9), [12, 11]) \<and>
     even (50002 :: int) \<and> (49999 :: int) \<le> 50002 \<and> (50002 :: int) + 1 \<le> 50010"
proof -
  let ?rng = "\<lparr>rtp_port_start = 50000, rtp_port_end = 50009\<rparr> :: port_range"
  have c: "config_rtprange 49999 50010 = Some ?rng" by (simp add: config_rtprange_def)
  obtain ep' where r: "connect_udp_endpoint friendly_os ?rng 9 (\<lambda>w fd b. (w + 1, w)) sample_ep (7 :: nat) = (Some (ep', 50002, 9), [12, 11])"
    by (simp add: connect_udp_endpoint_def friendly_os_def need_socket_def port16_def Let_def numeral_eq_Suc)
  from udp_ports [OF disjI1 [OF c] _ _ r] c r show ?thesis by auto
qed

lemma try_ports_exhausted:
  assumes "\<forall>i p. os_bind os i p = In_use" "0 \<le> a" "0 \<le> b"
  shows "try_ports os rng n port a b k opened = (None, opened)"
  using assms by (induction n arbitrary: port) (simp_all add: need_socket_def Let_def)

text \<open>C33. When every port of the range is taken, \<open>connect_udp_endpoint\<close> fails and leaves both sockets it created open:
  nothing refers to them any more, so each such request costs the server two descriptors.\<close>

theorem udp_ports_exhausted_leak:
  assumes "range_ok rng" "\<forall>i p. os_bind os i p = In_use" "0 \<le> os_socket os 0" "0 \<le> os_socket os 1"
  shows "connect_udp_endpoint os rng rnd add_ev ep w = (None, [os_socket os 1, os_socket os 0])"
proof -
  obtain n where n: "nat ((rtp_port_end rng - rtp_port_start rng + 1) div 2) = Suc n"
    using assms(1) by (cases "nat ((rtp_port_end rng - rtp_port_start rng + 1) div 2)") (auto simp: range_ok_def)
  have "try_ports os rng (Suc n) port (-1) (-1) 0 [] = (None, [os_socket os 1, os_socket os 0])" for port
    using assms(2-4) try_ports_exhausted [OF assms(2-4)] by (simp add: need_socket_def Let_def)
  then show ?thesis unfolding connect_udp_endpoint_def n Let_def by simp
qed

theorem udp_ports_exhausted_leak_witness:
  "connect_udp_endpoint (friendly_os\<lparr>os_bind := (\<lambda>i p. In_use)\<rparr>) default_range 3 (\<lambda>w fd b. (w, 0)) sample_ep () =
     (None, [11, 10])"
  using udp_ports_exhausted_leak [of default_range "friendly_os\<lparr>os_bind := (\<lambda>i p. In_use)\<rparr>"]
  by (simp add: friendly_os_def range_ok_def default_range_def)

end
