(* ===== verification/Stream.thy ===== *)
theory Stream
  imports Prelude
begin

text \<open>
  Streams and their destinations (\<^verbatim>\<open>stream.c\<close>, \<^verbatim>\<open>stream.h\<close>): a stream has a list of destinations that take its frames
  while they are waiting, and a driver that is told when it has to run.

  Streams and destinations are records in two heaps, named by numbers; the doubly linked lists are lists of those
  numbers. The function pointers of a stream are the source's: NULL, the driver's own, the one of a conversion
  stream, or whatever \<^verbatim>\<open>malloc\<close> left there. Calls into the drivers are recorded in \<open>st_calls\<close>; what a destination
  does with a frame (\<open>process_frame\<close> with its argument) is a value of the parameter type \<open>'p\<close>.

  The theorems relate the running state of the drivers to the waiting flags, say what a connection gives, and
  show what the conversion stream leaves uninitialised. The way of a frame through a stream is followed in \<open>Delivery\<close>.
\<close>

section \<open>Model\<close>

datatype fptr = F_null | F_driver | F_convert | F_uninit

record 'p destination =
  de_stream :: nat
  de_waiting :: bool
  de_process :: 'p

text \<open>\<open>st_private\<close> is the destination on the base stream, for a conversion stream.\<close>

record stream =
  st_name :: string
  st_format :: int
  st_dest_list :: "nat list"
  st_get_framerate :: fptr
  st_set_running :: fptr
  st_new_listener_notify :: fptr
  st_get_enc_pipe_num :: fptr
  st_private :: "nat option"

datatype driver_call = Call_set_running nat bool | Call_new_listener nat | Call_get_framerate nat | Call_get_enc_pipe nat

record 'p streams =
  st_streams :: "nat \<Rightarrow> stream option"
  st_dests :: "nat \<Rightarrow> 'p destination option"
  stream_list :: "nat list"
  st_next :: nat
  st_calls :: "driver_call list"

definition get_stream :: "'p streams \<Rightarrow> nat \<Rightarrow> stream res" where
  "get_stream w s = (case st_streams w s of None \<Rightarrow> Inl UseAfterFree | Some x \<Rightarrow> Inr x)"

definition get_dest :: "'p streams \<Rightarrow> nat \<Rightarrow> 'p destination res" where
  "get_dest w d = (case st_dests w d of None \<Rightarrow> Inl UseAfterFree | Some x \<Rightarrow> Inr x)"

definition call_driver :: "'p streams \<Rightarrow> driver_call \<Rightarrow> 'p streams" where
  "call_driver w c = w\<lparr>st_calls := st_calls w @ [c]\<rparr>"

text \<open>\<^verbatim>\<open>strcpy\<close> into the array \<^verbatim>\<open>name[256]\<close> of a stream.\<close>

definition copy_name :: "string \<Rightarrow> string res" where
  "copy_name name = (if length name < 256 then Inr name else Inl OutOfBounds)"

definition new_stream :: "'p streams \<Rightarrow> string \<Rightarrow> int \<Rightarrow> (nat \<times> 'p streams) res" where
  "new_stream w name format =
     rbind (copy_name name) (\<lambda>name.
       Inr (st_next w,
            w\<lparr>st_streams := (st_streams w)(st_next w \<mapsto>
                 \<lparr>st_name = name, st_format = format, st_dest_list = [], st_get_framerate = F_null, st_set_running = F_null,
                  st_new_listener_notify = F_null, st_get_enc_pipe_num = F_null, st_private = None\<rparr>),
              stream_list := st_next w # stream_list w, st_next := st_next w + 1\<rparr>))"

definition del_stream :: "'p streams \<Rightarrow> nat \<Rightarrow> 'p streams res" where
  "del_stream w s =
     rbind (get_stream w s) (\<lambda>_. Inr (w\<lparr>stream_list := remove1 s (stream_list w), st_streams := (st_streams w)(s := None)\<rparr>))"

definition format_match :: "int \<Rightarrow> int list \<Rightarrow> bool" where
  "format_match format formats \<longleftrightarrow> formats = [] \<or> format \<in> set formats"

definition new_dest :: "'p streams \<Rightarrow> nat \<Rightarrow> 'p \<Rightarrow> (nat \<times> 'p streams) res" where
  "new_dest w s p =
     rbind (get_stream w s) (\<lambda>x.
       Inr (st_next w,
            w\<lparr>st_streams := (st_streams w)(s \<mapsto> x\<lparr>st_dest_list := st_next w # st_dest_list x\<rparr>),
              st_dests := (st_dests w)(st_next w \<mapsto> \<lparr>de_stream = s, de_waiting = False, de_process = p\<rparr>),
              st_next := st_next w + 1\<rparr>))"

text \<open>The list position behind an element.\<close>

fun insert_after :: "nat \<Rightarrow> nat \<Rightarrow> nat list \<Rightarrow> nat list" where
  "insert_after b x [] = []"
| "insert_after b x (y # ys) = (if y = b then y # x # ys else y # insert_after b x ys)"

text \<open>\<open>new_convert_stream\<close>: the conversion function is applied to \<open>convert s\<close>. The fields \<^verbatim>\<open>new_listener_notify\<close> and
  \<^verbatim>\<open>get_enc_pipe_num\<close> are not assigned.\<close>

definition new_convert_stream :: "'p streams \<Rightarrow> nat \<Rightarrow> int \<Rightarrow> (nat \<Rightarrow> 'p) \<Rightarrow> (nat \<times> 'p streams) res" where
  "new_convert_stream w base format convert =
     rbind (get_stream w base) (\<lambda>b. rbind (copy_name (st_name b)) (\<lambda>name.
       let s = st_next w;
           x = \<lparr>st_name = name, st_format = format, st_dest_list = [], st_get_framerate = F_convert,
                st_set_running = F_convert, st_new_listener_notify = F_uninit, st_get_enc_pipe_num = F_uninit,
                st_private = None\<rparr>;
           w = w\<lparr>st_streams := (st_streams w)(s \<mapsto> x), stream_list := insert_after base s (stream_list w),
                 st_next := s + 1\<rparr>
       in rbind (new_dest w base (convert s)) (\<lambda>(d, w).
            Inr (s, w\<lparr>st_streams := (st_streams w)(s \<mapsto> x\<lparr>st_private := Some d\<rparr>)\<rparr>))))"

abbreviation FORMAT_RAW_RGB24 :: int where "FORMAT_RAW_RGB24 \<equiv> 1"
abbreviation FORMAT_RAW_UYVY :: int where "FORMAT_RAW_UYVY \<equiv> 2"

text \<open>The two loops of \<open>connect_to_stream\<close> over the list.\<close>

fun find_match :: "'p streams \<Rightarrow> string \<Rightarrow> int list \<Rightarrow> nat list \<Rightarrow> nat option res" where
  "find_match w name formats [] = Inr None"
| "find_match w name formats (s # ss) =
     rbind (get_stream w s) (\<lambda>x.
       if st_name x = name \<and> format_match (st_format x) formats then Inr (Some s)
       else find_match w name formats ss)"

fun find_convertible :: "'p streams \<Rightarrow> string \<Rightarrow> int list \<Rightarrow> nat list \<Rightarrow> nat option res" where
  "find_convertible w name formats [] = Inr None"
| "find_convertible w name formats (s # ss) =
     rbind (get_stream w s) (\<lambda>x.
       if st_name x = name \<and> st_format x = FORMAT_RAW_UYVY \<and> format_match FORMAT_RAW_RGB24 formats
       then Inr (Some s) else find_convertible w name formats ss)"

definition connect_to_stream :: "'p streams \<Rightarrow> string \<Rightarrow> (nat \<Rightarrow> 'p) \<Rightarrow> 'p \<Rightarrow> int list \<Rightarrow> (nat option \<times> 'p streams) res" where
  "connect_to_stream w name convert p formats =
     rbind (find_match w name formats (stream_list w)) (\<lambda>r.
       case r of
         Some s \<Rightarrow> rbind (new_dest w s p) (\<lambda>(d, w). Inr (Some d, w))
       | None \<Rightarrow>
           rbind (find_convertible w name formats (stream_list w)) (\<lambda>r.
             case r of
               None \<Rightarrow> Inr (None, w)
             | Some b \<Rightarrow>
                 rbind (new_convert_stream w b FORMAT_RAW_RGB24 convert) (\<lambda>(s, w).
                 rbind (new_dest w s p) (\<lambda>(d, w). Inr (Some d, w)))))"

text \<open>\<^verbatim>\<open>waiting |= dest->waiting\<close> over the list.\<close>

fun any_waiting :: "'p streams \<Rightarrow> nat list \<Rightarrow> bool res" where
  "any_waiting w [] = Inr False"
| "any_waiting w (d # ds) =
     rbind (get_dest w d) (\<lambda>x. rbind (any_waiting w ds) (\<lambda>b. Inr (de_waiting x \<or> b)))"

definition put_waiting :: "'p streams \<Rightarrow> nat \<Rightarrow> bool \<Rightarrow> 'p streams" where
  "put_waiting w d b = w\<lparr>st_dests := (st_dests w)(d := map_option (\<lambda>x. x\<lparr>de_waiting := b\<rparr>) (st_dests w d))\<rparr>"

text \<open>The first part of \<open>set_waiting\<close>: the flag, and whether \<^verbatim>\<open>set_running\<close> has to be called.\<close>

definition update_waiting :: "'p streams \<Rightarrow> nat \<Rightarrow> bool \<Rightarrow> ('p streams \<times> bool) res" where
  "update_waiting w d waiting =
     rbind (get_dest w d) (\<lambda>x.
       if de_waiting x then
         (if waiting then Inr (w, False)
          else rbind (get_stream w (de_stream x)) (\<lambda>s.
               rbind (any_waiting (put_waiting w d False) (st_dest_list s)) (\<lambda>others.
                 Inr (put_waiting w d False, \<not> others))))
       else if \<not> waiting then Inr (w, False)
       else Inr (put_waiting w d True, True))"

text \<open>\<open>set_waiting\<close>. The \<^verbatim>\<open>set_running\<close> of a conversion stream calls it again for the base stream: \<open>n\<close> bounds the
  length of such a chain.\<close>

fun set_waiting_upto :: "nat \<Rightarrow> 'p streams \<Rightarrow> nat \<Rightarrow> bool \<Rightarrow> 'p streams res" where
  "set_waiting_upto 0 w d waiting = Inl Hangs"
| "set_waiting_upto (Suc n) w d waiting =
     rbind (update_waiting w d waiting) (\<lambda>(w, call).
       if \<not> call then Inr w
       else rbind (get_dest w d) (\<lambda>x. rbind (get_stream w (de_stream x)) (\<lambda>s.
         case st_set_running s of
           F_null \<Rightarrow> Inl NullDeref
         | F_uninit \<Rightarrow> Inl OutOfBounds
         | F_driver \<Rightarrow> Inr (call_driver w (Call_set_running (de_stream x) waiting))
         | F_convert \<Rightarrow>
             (case st_private s of None \<Rightarrow> Inl NullDeref | Some b \<Rightarrow> set_waiting_upto n w b waiting))))"

definition set_waiting :: "'p streams \<Rightarrow> nat \<Rightarrow> bool \<Rightarrow> 'p streams res" where
  "set_waiting w d waiting = set_waiting_upto (Suc (length (stream_list w))) w d waiting"

definition new_listener_notify :: "'p streams \<Rightarrow> nat \<Rightarrow> 'p streams res" where
  "new_listener_notify w d =
     rbind (get_dest w d) (\<lambda>x. rbind (get_stream w (de_stream x)) (\<lambda>s.
       case st_new_listener_notify s of
         F_null \<Rightarrow> Inr w
       | F_driver \<Rightarrow> Inr (call_driver w (Call_new_listener (de_stream x)))
       | _ \<Rightarrow> Inl OutOfBounds))"

definition get_enc_pipe_num :: "'p streams \<Rightarrow> nat \<Rightarrow> 'p streams res" where
  "get_enc_pipe_num w d =
     rbind (get_dest w d) (\<lambda>x. rbind (get_stream w (de_stream x)) (\<lambda>s.
       case st_get_enc_pipe_num s of
         F_null \<Rightarrow> Inr w
       | F_driver \<Rightarrow> Inr (call_driver w (Call_get_enc_pipe (de_stream x)))
       | _ \<Rightarrow> Inl OutOfBounds))"

text \<open>\<open>deliver_frame_to_stream\<close>: \<open>refs\<close> is the reference count of the frame; \<open>process\<close> is what the destinations do,
  on a state \<open>'w\<close> that contains the streams.\<close>

fun deliver_to :: "('p streams \<times> 'w \<Rightarrow> 'p \<Rightarrow> nat \<Rightarrow> (('p streams \<times> 'w) \<times> nat) res) \<Rightarrow> nat list \<Rightarrow> 'p streams \<times> 'w \<Rightarrow> nat
    \<Rightarrow> (('p streams \<times> 'w) \<times> nat) res" where
  "deliver_to process [] w refs = Inr (w, refs)"
| "deliver_to process (d # ds) w refs =
     rbind (get_dest (fst w) d) (\<lambda>x.
       if \<not> de_waiting x then deliver_to process ds w refs
       else rbind (process w (de_process x) (refs + 1)) (\<lambda>(w, refs). deliver_to process ds w refs))"

definition deliver_frame_to_stream :: "('p streams \<times> 'w \<Rightarrow> 'p \<Rightarrow> nat \<Rightarrow> (('p streams \<times> 'w) \<times> nat) res) \<Rightarrow> nat \<Rightarrow> 'p streams \<times> 'w \<Rightarrow> nat
    \<Rightarrow> (('p streams \<times> 'w) \<times> nat) res" where
  "deliver_frame_to_stream process s w refs =
     rbind (get_stream (fst w) s) (\<lambda>x.
     rbind (deliver_to process (st_dest_list x) w refs) (\<lambda>(w, refs).
       if refs = 0 then Inl UseAfterFree else Inr (w, refs - 1)))"

section \<open>Well-formed streams\<close>

text \<open>Lists and heaps agree, destinations and streams point to each other, a conversion stream is younger than its
  base and has a destination of its own there, and a stream in use has its \<^verbatim>\<open>set_running\<close>.\<close>

definition dstream :: "'p streams \<Rightarrow> nat \<Rightarrow> nat option" where
  "dstream w d = map_option de_stream (st_dests w d)"

lemma dstream_Some: "dstream w d = Some s \<longleftrightarrow> (\<exists>y. st_dests w d = Some y \<and> de_stream y = s)"
  by (auto simp: dstream_def)

definition wf_streams :: "'p streams \<Rightarrow> bool" where
  "wf_streams w \<longleftrightarrow>
     (\<forall>s x. st_streams w s = Some x \<longrightarrow>
        s \<in> set (stream_list w) \<and> s < st_next w \<and> distinct (st_dest_list x) \<and>
        (\<forall>d \<in> set (st_dest_list x). dstream w d = Some s) \<and>
        (st_dest_list x \<noteq> [] \<longrightarrow> st_set_running x \<in> {F_driver, F_convert}) \<and>
        (st_set_running x = F_convert \<longrightarrow> (\<exists>b t. st_private x = Some b \<and> dstream w b = Some t \<and> t < s))) \<and>
     (\<forall>d s. dstream w d = Some s \<longrightarrow> d < st_next w \<and> (\<exists>x. st_streams w s = Some x \<and> d \<in> set (st_dest_list x))) \<and>
     (\<forall>s \<in> set (stream_list w). st_streams w s \<noteq> None) \<and>
     (\<forall>s s' x x'. st_streams w s = Some x \<longrightarrow> st_streams w s' = Some x' \<longrightarrow> st_set_running x = F_convert \<longrightarrow>
        st_set_running x' = F_convert \<longrightarrow> st_private x = st_private x' \<longrightarrow> s = s')"

lemma wf_streamsD:
  assumes "wf_streams w"
  shows "st_streams w s = Some x \<Longrightarrow> s \<in> set (stream_list w)"
    and "st_streams w s = Some x \<Longrightarrow> d \<in> set (st_dest_list x) \<Longrightarrow> \<exists>y. st_dests w d = Some y \<and> de_stream y = s"
    and "st_streams w s = Some x \<Longrightarrow> d \<in> set (st_dest_list x) \<Longrightarrow> st_set_running x \<in> {F_driver, F_convert}"
    and "st_streams w s = Some x \<Longrightarrow> st_set_running x = F_convert \<Longrightarrow>
           \<exists>b y. st_private x = Some b \<and> st_dests w b = Some y \<and> de_stream y < s"
    and "st_dests w d = Some y \<Longrightarrow> \<exists>x. st_streams w (de_stream y) = Some x \<and> d \<in> set (st_dest_list x)"
    and "st_streams w s = Some x \<Longrightarrow> st_streams w s' = Some x' \<Longrightarrow> st_set_running x = F_convert \<Longrightarrow>
           st_set_running x' = F_convert \<Longrightarrow> st_private x = st_private x' \<Longrightarrow> s = s'"
proof -
  note a = conjunct1 [OF assms [unfolded wf_streams_def dstream_Some], rule_format]
  note b = conjunct2 [OF assms [unfolded wf_streams_def dstream_Some]]
  show "st_streams w s = Some x \<Longrightarrow> s \<in> set (stream_list w)" by (drule a) simp
  show "st_streams w s = Some x \<Longrightarrow> d \<in> set (st_dest_list x) \<Longrightarrow> \<exists>y. st_dests w d = Some y \<and> de_stream y = s" by (drule a) simp
  show "st_streams w s = Some x \<Longrightarrow> d \<in> set (st_dest_list x) \<Longrightarrow> st_set_running x \<in> {F_driver, F_convert}"
    by (drule a) (cases "st_dest_list x", simp_all)
  show "st_streams w s = Some x \<Longrightarrow> st_set_running x = F_convert \<Longrightarrow>
      \<exists>b y. st_private x = Some b \<and> st_dests w b = Some y \<and> de_stream y < s" by (drule a) auto
  show "st_dests w d = Some y \<Longrightarrow> \<exists>x. st_streams w (de_stream y) = Some x \<and> d \<in> set (st_dest_list x)"
    using conjunct1 [OF b] by blast
  show "st_streams w s = Some x \<Longrightarrow> st_streams w s' = Some x' \<Longrightarrow> st_set_running x = F_convert \<Longrightarrow>
      st_set_running x' = F_convert \<Longrightarrow> st_private x = st_private x' \<Longrightarrow> s = s'"
    by (rule conjunct2 [OF conjunct2 [OF b], rule_format])
qed

text \<open>What the driver of a stream was told last.\<close>

fun told :: "nat \<Rightarrow> driver_call list \<Rightarrow> bool option" where
  "told s [] = None"
| "told s (c # cs) = (case told s cs of Some b \<Rightarrow> Some b
     | None \<Rightarrow> (case c of Call_set_running t b \<Rightarrow> if t = s then Some b else None | _ \<Rightarrow> None))"

definition running :: "'p streams \<Rightarrow> nat \<Rightarrow> bool" where
  "running w s \<longleftrightarrow> told s (st_calls w) = Some True"

definition is_waiting :: "'p streams \<Rightarrow> nat \<Rightarrow> bool" where
  "is_waiting w d \<longleftrightarrow> (\<exists>y. st_dests w d = Some y \<and> de_waiting y)"

definition listened :: "'p streams \<Rightarrow> nat \<Rightarrow> bool" where
  "listened w s \<longleftrightarrow> (\<exists>d y. st_dests w d = Some y \<and> de_stream y = s \<and> de_waiting y)"

text \<open>A stream is in step when its driver runs exactly while somebody listens; a conversion stream passes this on to
  its base.\<close>

definition synced :: "'p streams \<Rightarrow> nat \<Rightarrow> bool" where
  "synced w s \<longleftrightarrow> (\<forall>x. st_streams w s = Some x \<longrightarrow>
     (st_set_running x = F_driver \<longrightarrow> running w s = listened w s) \<and>
     (st_set_running x = F_convert \<longrightarrow> (\<forall>b. st_private x = Some b \<longrightarrow> is_waiting w b = listened w s)))"

lemma told_append: "told s (cs @ [c]) =
    (case c of Call_set_running t b \<Rightarrow> if t = s then Some b else told s cs | _ \<Rightarrow> told s cs)"
  by (induction cs) (auto split: driver_call.splits option.splits)

lemma running_call [simp]: "running (call_driver w (Call_set_running t b)) s = (if t = s then b else running w s)"
  by (simp add: running_def call_driver_def told_append)

lemma call_driver_simps [simp]:
  "st_streams (call_driver w c) = st_streams w" "st_dests (call_driver w c) = st_dests w"
  "stream_list (call_driver w c) = stream_list w" "st_next (call_driver w c) = st_next w"
  by (simp_all add: call_driver_def)

lemma put_waiting_simps [simp]:
  "st_streams (put_waiting w d b) = st_streams w" "stream_list (put_waiting w d b) = stream_list w"
  "st_next (put_waiting w d b) = st_next w" "st_calls (put_waiting w d b) = st_calls w"
  by (simp_all add: put_waiting_def)

lemma put_waiting_dest:
  "st_dests (put_waiting w d b) e = (if e = d then map_option (\<lambda>x. x\<lparr>de_waiting := b\<rparr>) (st_dests w e) else st_dests w e)"
  by (simp add: put_waiting_def)

text \<open>The part of the state \<open>set_waiting\<close> leaves alone.\<close>

definition same_shape :: "'p streams \<Rightarrow> 'p streams \<Rightarrow> bool" where
  "same_shape w w' \<longleftrightarrow> st_streams w' = st_streams w \<and> stream_list w' = stream_list w \<and> st_next w' = st_next w \<and>
     (\<forall>d. map_option de_stream (st_dests w' d) = map_option de_stream (st_dests w d)) \<and>
     (\<forall>d. map_option de_process (st_dests w' d) = map_option de_process (st_dests w d))"

lemma same_shape_refl [simp]: "same_shape w w"
  by (simp add: same_shape_def)

lemma same_shape_trans: "same_shape a b \<Longrightarrow> same_shape b c \<Longrightarrow> same_shape a c"
  by (simp add: same_shape_def)

lemma same_shape_put: "same_shape w (put_waiting w d b)"
  by (auto simp: same_shape_def put_waiting_dest option.map_comp o_def)

lemma same_shape_call: "same_shape w w' \<Longrightarrow> same_shape w (call_driver w' c)"
  by (simp add: same_shape_def)

lemma same_shape_dest:
  "same_shape w w' \<Longrightarrow> st_dests w d = Some y \<Longrightarrow> \<exists>y'. st_dests w' d = Some y' \<and> de_stream y' = de_stream y \<and> de_process y' = de_process y"
  "same_shape w w' \<Longrightarrow> st_dests w' d = Some y' \<Longrightarrow> \<exists>y. st_dests w d = Some y \<and> de_stream y' = de_stream y \<and> de_process y' = de_process y"
proof -
  assume "same_shape w w'"
  then have e: "map_option de_stream (st_dests w' d) = map_option de_stream (st_dests w d)"
    "map_option de_process (st_dests w' d) = map_option de_process (st_dests w d)" by (simp_all add: same_shape_def)
  show "st_dests w d = Some y \<Longrightarrow> \<exists>y'. st_dests w' d = Some y' \<and> de_stream y' = de_stream y \<and> de_process y' = de_process y"
    using e by (cases "st_dests w' d") simp_all
  show "st_dests w' d = Some y' \<Longrightarrow> \<exists>y. st_dests w d = Some y \<and> de_stream y' = de_stream y \<and> de_process y' = de_process y"
    using e by (cases "st_dests w d") simp_all
qed

lemma wf_same_shape: "same_shape w w' \<Longrightarrow> wf_streams w \<Longrightarrow> wf_streams w'"
  by (simp add: wf_streams_def same_shape_def dstream_def)

lemma any_waiting_wf:
  assumes "\<forall>d \<in> set ds. st_dests w d \<noteq> None"
  shows "any_waiting w ds = Inr (\<exists>d \<in> set ds. is_waiting w d)"
  using assms by (induction ds) (auto simp: get_dest_def is_waiting_def split: option.splits)

lemma listened_iff:
  assumes "wf_streams w" "st_streams w s = Some x"
  shows "listened w s \<longleftrightarrow> (\<exists>d \<in> set (st_dest_list x). is_waiting w d)"
proof
  assume "listened w s"
  then obtain d y where "st_dests w d = Some y" "de_stream y = s" "de_waiting y" by (auto simp: listened_def)
  moreover from this assms have "d \<in> set (st_dest_list x)" using wf_streamsD(5) [OF assms(1)] by fastforce
  ultimately show "\<exists>d \<in> set (st_dest_list x). is_waiting w d" by (auto simp: is_waiting_def)
next
  assume "\<exists>d \<in> set (st_dest_list x). is_waiting w d"
  with assms(2) show "listened w s" using wf_streamsD(2) [OF assms(1)] by (fastforce simp: listened_def is_waiting_def)
qed

text \<open>The flag is set; \<^verbatim>\<open>set_running\<close> is called when the stream would fall out of step otherwise.\<close>

lemma update_waiting_wf:
  assumes "wf_streams w" "st_dests w d = Some y"
  shows "\<exists>w' call. update_waiting w d b = Inr (w', call) \<and> w' = (if is_waiting w d = b then w else put_waiting w d b) \<and>
     (call \<longrightarrow> listened w' (de_stream y) = b) \<and> (\<not> call \<longrightarrow> listened w' (de_stream y) = listened w (de_stream y))"
proof (cases "is_waiting w d = b")
  case True
  then show ?thesis using assms by (auto simp: update_waiting_def get_dest_def is_waiting_def)
next
  case flip: False
  obtain x where x: "st_streams w (de_stream y) = Some x" "d \<in> set (st_dest_list x)"
    using wf_streamsD(5) [OF assms] by blast
  let ?w = "put_waiting w d b"
  have wf: "wf_streams ?w" by (rule wf_same_shape [OF same_shape_put assms(1)])
  have d: "is_waiting ?w d = b" using assms(2) by (simp add: is_waiting_def put_waiting_dest)
  show ?thesis
  proof (cases b)
    case True
    then have "listened ?w (de_stream y)" using d x listened_iff [OF wf] by auto
    then show ?thesis using True flip assms(2) by (auto simp: update_waiting_def get_dest_def is_waiting_def)
  next
    case False
    have live: "\<forall>e \<in> set (st_dest_list x). st_dests ?w e \<noteq> None"
      using wf_streamsD(2) [OF wf] x(1) by fastforce
    have l: "listened ?w (de_stream y) \<longleftrightarrow> (\<exists>e \<in> set (st_dest_list x). is_waiting ?w e)"
      using listened_iff [OF wf] x(1) by simp
    have "listened w (de_stream y)" using flip False assms(2) by (auto simp: listened_def is_waiting_def)
    moreover have "update_waiting w d b = Inr (?w, \<not> listened ?w (de_stream y))"
      using False flip assms(2) x(1) any_waiting_wf [OF live] l
      by (auto simp: update_waiting_def get_dest_def get_stream_def is_waiting_def)
    ultimately show ?thesis using flip False by auto
  qed
qed

section \<open>Drivers run exactly while somebody listens\<close>

definition rank :: "'p streams \<Rightarrow> nat \<Rightarrow> nat" where
  "rank w s = card {t \<in> set (stream_list w). t \<le> s}"

lemma rank_less: "wf_streams w \<Longrightarrow> st_streams w s = Some x \<Longrightarrow> t < s \<Longrightarrow> rank w t < rank w s"
proof -
  assume "wf_streams w" "st_streams w s = Some x" "t < s"
  then have "s \<in> {u \<in> set (stream_list w). u \<le> s} - {u \<in> set (stream_list w). u \<le> t}" using wf_streamsD(1) by auto
  moreover have "{u \<in> set (stream_list w). u \<le> t} \<subseteq> {u \<in> set (stream_list w). u \<le> s}" using \<open>t < s\<close> by auto
  ultimately have "{u \<in> set (stream_list w). u \<le> t} \<subset> {u \<in> set (stream_list w). u \<le> s}" by blast
  then show ?thesis unfolding rank_def by (rule psubset_card_mono [rotated]) simp
qed

lemma rank_le: "rank w s \<le> length (stream_list w)"
  unfolding rank_def by (rule le_trans [OF card_mono card_length]) auto

definition flags_kept :: "'p streams \<Rightarrow> 'p streams \<Rightarrow> nat \<Rightarrow> nat \<Rightarrow> bool" where
  "flags_kept w w' d s \<longleftrightarrow>
     (\<forall>e. e \<noteq> d \<longrightarrow> (\<forall>t x. t \<le> s \<longrightarrow> st_streams w t = Some x \<longrightarrow> st_set_running x = F_convert \<longrightarrow> st_private x \<noteq> Some e) \<longrightarrow>
        st_dests w' e = st_dests w e)"

lemma listened_kept:
  assumes "wf_streams w" "same_shape w w'" "flags_kept w w' d s" "st_dests w d = Some y" "de_stream y \<le> s" "s < t"
  shows "listened w' t = listened w t"
proof -
  have "st_dests w' e = st_dests w e" if "st_dests w e = Some z" "de_stream z = t" for e z
  proof -
    have "e \<noteq> d" using that assms by auto
    moreover have "st_private x \<noteq> Some e" if "u \<le> s" "st_streams w u = Some x" "st_set_running x = F_convert" for u x
      using that wf_streamsD(4) [OF assms(1) that(2, 3)] assms(6) \<open>st_dests w e = Some z\<close> \<open>de_stream z = t\<close> by auto
    ultimately show ?thesis using assms(3) by (auto simp: flags_kept_def)
  qed
  then have "(\<exists>y. st_dests w' e = Some y \<and> de_stream y = t \<and> de_waiting y) \<longleftrightarrow>
      (\<exists>y. st_dests w e = Some y \<and> de_stream y = t \<and> de_waiting y)" for e
    using same_shape_dest [OF assms(2)] by metis
  then show ?thesis by (simp add: listened_def)
qed

lemma set_waiting_step:
  assumes "wf_streams w" "st_dests w d = Some y" "rank w (de_stream y) < n" "\<forall>t \<le> de_stream y. synced w t"
  shows "\<exists>w'. set_waiting_upto n w d b = Inr w' \<and> same_shape w w' \<and> is_waiting w' d = b \<and>
     flags_kept w w' d (de_stream y) \<and> (\<forall>t \<le> de_stream y. synced w' t) \<and>
     (\<forall>t > de_stream y. running w' t = running w t)"
  using assms
proof (induction n arbitrary: w d y)
  case (Suc n)
  let ?s = "de_stream y"
  obtain x where x: "st_streams w ?s = Some x" "d \<in> set (st_dest_list x)"
    using wf_streamsD(5) [OF Suc.prems(1, 2)] by blast
  obtain w1 call where u: "update_waiting w d b = Inr (w1, call)"
    and w1: "w1 = (if is_waiting w d = b then w else put_waiting w d b)"
    and c: "call \<longrightarrow> listened w1 ?s = b" "\<not> call \<longrightarrow> listened w1 ?s = listened w ?s"
    using update_waiting_wf [OF Suc.prems(1, 2)] by blast
  have sh: "same_shape w w1" using w1 same_shape_put by auto
  have wf1: "wf_streams w1" by (rule wf_same_shape [OF sh Suc.prems(1)])
  have st1: "st_streams w1 = st_streams w" "st_calls w1 = st_calls w" using w1 by auto
  have r1: "running w1 = running w" using st1 by (simp add: running_def fun_eq_iff)
  have oth: "st_dests w1 e = st_dests w e" if "e \<noteq> d" for e using that w1 by (simp add: put_waiting_dest)
  obtain y1 where y1: "st_dests w1 d = Some y1" "de_stream y1 = ?s" using same_shape_dest(1) [OF sh Suc.prems(2)] by auto
  have dw: "is_waiting w1 d = b" using w1 Suc.prems(2) by (auto simp: is_waiting_def put_waiting_dest)
  have nd: "\<not> (st_set_running z = F_convert \<and> st_private z = Some d)" if "t \<le> ?s" "st_streams w t = Some z" for t z
    using that wf_streamsD(4) [OF Suc.prems(1) that(2)] Suc.prems(2) by auto
  have lo: "listened w1 t = listened w t" if "t \<noteq> ?s" for t
    using that oth Suc.prems(2) y1 unfolding listened_def by (metis option.inject)
  have sy: "synced w1 t" if "t < ?s" for t
  proof -
    have "is_waiting w1 e = is_waiting w e" if "e \<noteq> d" for e using oth that by (simp add: is_waiting_def)
    moreover have "synced w t" using Suc.prems(4) that by simp
    ultimately show ?thesis
      using that nd [of t] lo [of t] unfolding synced_def st1(1) r1
      by (metis less_imp_le nat_neq_iff)
  qed
  have dr: "st_set_running x \<in> {F_driver, F_convert}" by (rule wf_streamsD(3) [OF Suc.prems(1) x])
  have k1: "flags_kept w w1 d ?s" using oth by (simp add: flags_kept_def)
  have gd: "get_dest w1 d = Inr y1" "get_stream w1 ?s = Inr x" using y1 x st1 by (simp_all add: get_dest_def get_stream_def)
  show ?case
  proof (cases call)
    case False
    have prv: "is_waiting w1 e = is_waiting w e" if "st_private x = Some e" "st_set_running x = F_convert" for e
      using nd [OF order.refl x(1)] that oth by (cases "e = d") (simp_all add: is_waiting_def)
    have "synced w1 ?s"
      using Suc.prems(4) x(1) c(2) False prv unfolding synced_def st1(1) r1 by auto
    then have "\<forall>t \<le> ?s. synced w1 t" using sy le_neq_implies_less by blast
    then show ?thesis using False u sh dw k1 r1 by auto
  next
    case True
    show ?thesis
    proof (cases "st_set_running x = F_driver")
      case drv: True
      let ?w = "call_driver w1 (Call_set_running ?s b)"
      have "set_waiting_upto (Suc n) w d b = Inr ?w" using u True gd y1 drv by simp
      moreover have "is_waiting ?w d = b" "flags_kept w ?w d ?s" using dw k1 by (simp_all add: is_waiting_def flags_kept_def)
      moreover have "synced ?w t" if "t \<le> ?s" for t
      proof (cases "t = ?s")
        case True
        then show ?thesis using c(1) \<open>call\<close> x(1) drv by (simp add: synced_def st1 listened_def)
      next
        case False
        then have "synced w1 t" "t \<noteq> ?s" using sy that by auto
        then show ?thesis by (simp add: synced_def listened_def is_waiting_def)
      qed
      ultimately show ?thesis using same_shape_call [OF sh] r1 by (intro exI [of _ ?w]) auto
    next
      case False
      then have cv: "st_set_running x = F_convert" using dr by simp
      obtain e z where e: "st_private x = Some e" "st_dests w e = Some z" "de_stream z < ?s"
        using wf_streamsD(4) [OF Suc.prems(1) x(1) cv] by blast
      obtain z1 where z1: "st_dests w1 e = Some z1" "de_stream z1 = de_stream z"
        using same_shape_dest(1) [OF sh e(2)] by auto
      have rk: "rank w1 (de_stream z1) < n"
        using rank_less [OF Suc.prems(1) x(1) e(3)] Suc.prems(3) z1 sh by (simp add: rank_def same_shape_def)
      have "\<forall>t \<le> de_stream z1. synced w1 t" using sy e(3) z1 by simp
      from Suc.IH [OF wf1 z1(1) rk this] obtain w2 where w2: "set_waiting_upto n w1 e b = Inr w2" "same_shape w1 w2"
        "is_waiting w2 e = b" "flags_kept w1 w2 e (de_stream z1)" "\<forall>t \<le> de_stream z1. synced w2 t"
        "\<forall>t > de_stream z1. running w2 t = running w1 t" by blast
      have sh2: "same_shape w w2" by (rule same_shape_trans [OF sh w2(2)])
      have "set_waiting_upto (Suc n) w d b = Inr w2" using u True gd y1 cv e w2(1) by simp
      moreover have de: "d \<noteq> e" using e Suc.prems(2) by auto
      have nde: "st_private v \<noteq> Some d" if "t \<le> de_stream z1" "st_streams w1 t = Some v" "st_set_running v = F_convert" for t v
        using nd [of t v] that e(3) z1 st1 by auto
      have "is_waiting w2 d = b"
        using dw w2(4) de nde unfolding flags_kept_def is_waiting_def by metis
      moreover have k2: "flags_kept w w2 d ?s"
        unfolding flags_kept_def
      proof (intro allI impI)
        fix f assume f: "f \<noteq> d" "\<forall>t v. t \<le> ?s \<longrightarrow> st_streams w t = Some v \<longrightarrow> st_set_running v = F_convert \<longrightarrow> st_private v \<noteq> Some f"
        then have "f \<noteq> e" using x(1) cv e(1) by blast
        moreover have "\<forall>t v. t \<le> de_stream z1 \<longrightarrow> st_streams w1 t = Some v \<longrightarrow> st_set_running v = F_convert \<longrightarrow> st_private v \<noteq> Some f"
          by (metis f(2) e(3) z1(2) st1(1) less_imp_le order_trans)
        ultimately have "st_dests w2 f = st_dests w1 f" using w2(4) by (simp add: flags_kept_def)
        then show "st_dests w2 f = st_dests w f" using oth f(1) by simp
      qed
      moreover have st2: "st_streams w2 = st_streams w" using sh2 by (simp add: same_shape_def)
      have l2: "listened w2 t = listened w1 t" if "de_stream z1 < t" for t
        by (rule listened_kept [OF wf1 w2(2, 4) z1(1) order.refl that])
      have "synced w2 t" if "t \<le> ?s" for t
      proof (cases "t \<le> de_stream z1")
        case False
        then have t: "de_stream z1 < t" by simp
        show ?thesis
        proof (cases "t = ?s")
          case True
          then show ?thesis using x(1) cv e(1) w2(3) l2 [OF t] c(1) \<open>call\<close> by (simp add: synced_def st2)
        next
          case False
          then have s1: "synced w1 t" using sy that by simp
          have "is_waiting w2 f = is_waiting w1 f" if v: "st_streams w t = Some v" "st_set_running v = F_convert" "st_private v = Some f" for v f
          proof -
            have "f \<noteq> e" using wf_streamsD(6) [OF Suc.prems(1) v(1) x(1) v(2) cv] v(3) e(1) False by auto
            moreover have "\<forall>u v'. u \<le> de_stream z1 \<longrightarrow> st_streams w1 u = Some v' \<longrightarrow> st_set_running v' = F_convert \<longrightarrow> st_private v' \<noteq> Some f"
              using wf_streamsD(6) [OF Suc.prems(1) v(1) _ v(2)] v(3) t unfolding st1 by (metis leD)
            ultimately show ?thesis using w2(4) by (simp add: flags_kept_def is_waiting_def)
          qed
          then show ?thesis using s1 l2 [OF t] w2(6) t unfolding synced_def st2 st1 by auto
        qed
      qed (use w2(5) in simp)
      moreover have "running w2 t = running w t" if "t > ?s" for t using w2(6) that e(3) z1 r1 by simp
      ultimately show ?thesis using sh2 by blast
    qed
  qed
qed simp

text \<open>C29. \<open>set_waiting\<close> returns and sets the flag of its destination, and it keeps every driver in step: over all streams,
  conversion streams included, a driver is running exactly when some destination of its stream is waiting, however
  the destinations start and stop listening.\<close>

theorem set_waiting_in_step:
  assumes "wf_streams w" "\<forall>s. synced w s" "st_dests w d = Some y"
    and "\<forall>s x. st_streams w s = Some x \<longrightarrow> st_set_running x = F_convert \<longrightarrow> st_private x \<noteq> Some d"
  shows "\<exists>w'. set_waiting w d b = Inr w' \<and> wf_streams w' \<and> (\<forall>s. synced w' s) \<and> is_waiting w' d = b"
proof -
  let ?s = "de_stream y"
  have "rank w ?s < Suc (length (stream_list w))" using rank_le by (simp add: less_Suc_eq_le)
  from set_waiting_step [OF assms(1, 3) this, of b] assms(2) obtain w' where
    w': "set_waiting w d b = Inr w'" "same_shape w w'" "is_waiting w' d = b" "flags_kept w w' d ?s"
      "\<forall>t \<le> ?s. synced w' t" "\<forall>t > ?s. running w' t = running w t"
    unfolding set_waiting_def by blast
  have st: "st_streams w' = st_streams w" using w'(2) by (simp add: same_shape_def)
  have "synced w' t" if t: "?s < t" for t
  proof -
    have "is_waiting w' f = is_waiting w f" if v: "st_streams w t = Some v" "st_set_running v = F_convert" "st_private v = Some f" for v f
    proof -
      have "f \<noteq> d" using assms(4) v by blast
      moreover have "\<forall>u v'. u \<le> ?s \<longrightarrow> st_streams w u = Some v' \<longrightarrow> st_set_running v' = F_convert \<longrightarrow> st_private v' \<noteq> Some f"
        using wf_streamsD(6) [OF assms(1) v(1) _ v(2)] v(3) t by (metis leD)
      ultimately show ?thesis using w'(4) by (simp add: flags_kept_def is_waiting_def)
    qed
    then show ?thesis
      using assms(2) listened_kept [OF assms(1) w'(2, 4) assms(3) order.refl t] w'(6) t unfolding synced_def st by auto
  qed
  then have "\<forall>t. synced w' t" using w'(5) not_le by blast
  with w' wf_same_shape [OF w'(2) assms(1)] show ?thesis by blast
qed

text \<open>A camera stream in UYVY with a consumer that wants RGB: stream 0 and its conversion stream 1, with the destinations
  2 on the camera and 3 on the conversion stream.\<close>

definition camera_base :: "nat streams" where
  "camera_base = \<lparr>st_streams = [0 \<mapsto> \<lparr>st_name = ''cam'', st_format = FORMAT_RAW_UYVY, st_dest_list = [], st_get_framerate = F_driver,
        st_set_running = F_driver, st_new_listener_notify = F_driver, st_get_enc_pipe_num = F_driver, st_private = None\<rparr>],
     st_dests = (\<lambda>_. None), stream_list = [0], st_next = 1, st_calls = []\<rparr>"

definition camera :: "nat streams res" where
  "camera = rbind (connect_to_stream camera_base ''cam'' (\<lambda>s. s) 7 [FORMAT_RAW_RGB24]) (\<lambda>(d, w). Inr w)"

definition camera_state :: "nat streams" where
  "camera_state = \<lparr>st_streams = [0 \<mapsto> \<lparr>st_name = ''cam'', st_format = 2, st_dest_list = [2], st_get_framerate = F_driver,
        st_set_running = F_driver, st_new_listener_notify = F_driver, st_get_enc_pipe_num = F_driver, st_private = None\<rparr>,
      1 \<mapsto> \<lparr>st_name = ''cam'', st_format = 1, st_dest_list = [3], st_get_framerate = F_convert,
        st_set_running = F_convert, st_new_listener_notify = F_uninit, st_get_enc_pipe_num = F_uninit, st_private = Some 2\<rparr>],
     st_dests = [2 \<mapsto> \<lparr>de_stream = 0, de_waiting = False, de_process = 1\<rparr>, 3 \<mapsto> \<lparr>de_stream = 1, de_waiting = False, de_process = 7\<rparr>],
     stream_list = [0, 1], st_next = 4, st_calls = []\<rparr>"

lemma camera_state: "camera = Inr camera_state"
  by (simp add: camera_def camera_base_def camera_state_def connect_to_stream_def copy_name_def
      get_stream_def format_match_def new_convert_stream_def new_dest_def Let_def fun_eq_iff)

lemma camera_streams: "st_streams camera_state s = Some x \<Longrightarrow> s = 0 \<or> s = 1"
  by (auto simp: camera_state_def split: if_splits)

lemma camera_wf: "wf_streams camera_state"
  unfolding wf_streams_def by (auto simp: camera_state_def dstream_def split: if_splits)

lemma camera_synced: "synced camera_state s"
  by (auto simp: camera_state_def synced_def running_def listened_def is_waiting_def split: if_splits)

theorem set_waiting_in_step_witness:
  "\<exists>w w'. camera = Inr w \<and> set_waiting w 3 True = Inr w' \<and> running w' 0 \<and> synced w' 0"
proof -
  have d: "st_dests camera_state 3 = Some \<lparr>de_stream = 1, de_waiting = False, de_process = 7\<rparr>" by (simp add: camera_state_def)
  have p: "\<forall>s x. st_streams camera_state s = Some x \<longrightarrow> st_set_running x = F_convert \<longrightarrow> st_private x \<noteq> Some 3"
    by (auto simp: camera_state_def split: if_splits)
  obtain w' where w': "set_waiting camera_state 3 True = Inr w'" "\<forall>s. synced w' s"
    using set_waiting_in_step [OF camera_wf _ d p, of True] camera_synced by blast
  have "running w' 0"
    using w'(1) by (auto simp: set_waiting_def camera_state_def update_waiting_def get_dest_def get_stream_def
        put_waiting_def call_driver_def running_def)
  then show ?thesis using w' camera_state by blast
qed

section \<open>Connecting\<close>

lemma find_match_sound:
  "find_match w name formats ss = Inr (Some s) \<Longrightarrow> \<exists>x. st_streams w s = Some x \<and> st_name x = name \<and> format_match (st_format x) formats"
  by (induction ss) (auto simp: rbind_eq_Inr get_stream_def split: if_splits option.splits)

lemma find_convertible_sound:
  "find_convertible w name formats ss = Inr (Some s) \<Longrightarrow>
   \<exists>x. st_streams w s = Some x \<and> st_name x = name \<and> st_format x = FORMAT_RAW_UYVY \<and> format_match FORMAT_RAW_RGB24 formats"
  by (induction ss) (auto simp: rbind_eq_Inr get_stream_def split: if_splits option.splits)

lemma new_dest_sound:
  "new_dest w s p = Inr (d, w') \<Longrightarrow> st_streams w s = Some x \<Longrightarrow>
   st_dests w' d = Some \<lparr>de_stream = s, de_waiting = False, de_process = p\<rparr> \<and>
   st_streams w' s = Some (x\<lparr>st_dest_list := d # st_dest_list x\<rparr>)"
  by (auto simp: new_dest_def get_stream_def)

lemma new_convert_sound:
  assumes "new_convert_stream w b f convert = Inr (s, w1)"
  shows "\<exists>x y. st_streams w b = Some x \<and> st_streams w1 s = Some y \<and> st_name y = st_name x \<and> st_format y = f \<and>
    st_new_listener_notify y = F_uninit \<and> st_get_enc_pipe_num y = F_uninit"
  using assms by (auto simp: new_convert_stream_def new_dest_def get_stream_def copy_name_def rbind_eq_Inr Let_def split: option.splits if_splits)

text \<open>C30. A successful \<open>connect_to_stream\<close> gives a destination that is not yet waiting, on a stream of the requested name
  whose format is one of the requested ones: the stream itself, or a conversion of a UYVY stream to RGB.\<close>

theorem connect_to_stream_sound:
  assumes c: "connect_to_stream w name convert p formats = Inr (Some d, w')"
  shows "\<exists>s x. st_dests w' d = Some \<lparr>de_stream = s, de_waiting = False, de_process = p\<rparr> \<and>
     st_streams w' s = Some x \<and> d \<in> set (st_dest_list x) \<and> st_name x = name \<and> format_match (st_format x) formats"
proof -
  obtain r where r: "find_match w name formats (stream_list w) = Inr r"
    using c by (auto simp: connect_to_stream_def rbind_eq_Inr)
  show ?thesis
  proof (cases r)
    case (Some s)
    then obtain x where x: "st_streams w s = Some x" "st_name x = name" "format_match (st_format x) formats"
      using r find_match_sound by blast
    have "new_dest w s p = Inr (d, w')" using c r Some by (auto simp: connect_to_stream_def rbind_eq_Inr)
    from new_dest_sound [OF this x(1)] x show ?thesis by auto
  next
    case None
    then obtain b s w1 where b: "find_convertible w name formats (stream_list w) = Inr (Some b)"
      and s: "new_convert_stream w b FORMAT_RAW_RGB24 convert = Inr (s, w1)" and d: "new_dest w1 s p = Inr (d, w')"
      using c r by (auto simp: connect_to_stream_def rbind_eq_Inr split: option.splits)
    obtain x where x: "st_streams w b = Some x" "st_name x = name" "format_match FORMAT_RAW_RGB24 formats"
      using find_convertible_sound [OF b] by blast
    obtain y where y: "st_streams w1 s = Some y" "st_name y = name" "st_format y = FORMAT_RAW_RGB24"
      using new_convert_sound [OF s] x by auto
    from new_dest_sound [OF d y(1)] y x(3) show ?thesis by auto
  qed
qed

theorem connect_to_stream_sound_witness:
  "\<exists>w'. connect_to_stream camera_state ''cam'' (\<lambda>s. s) 8 [FORMAT_RAW_RGB24, FORMAT_RAW_UYVY] = Inr (Some 4, w') \<and>
     (\<exists>x. st_streams w' 0 = Some x \<and> 4 \<in> set (st_dest_list x))"
proof -
  obtain w' where c: "connect_to_stream camera_state ''cam'' (\<lambda>s. s) 8 [FORMAT_RAW_RGB24, FORMAT_RAW_UYVY] = Inr (Some 4, w')"
    and s: "\<exists>y. st_dests w' 4 = Some y \<and> de_stream y = 0"
    by (simp add: connect_to_stream_def camera_state_def get_stream_def format_match_def new_dest_def)
  from connect_to_stream_sound [OF c] s c show ?thesis by auto
qed

text \<open>C32. The conversion stream that \<open>connect_to_stream\<close> creates is incomplete: announcing a listener on its destination, or
  asking it for its encoder pipe, calls through a function pointer that was never assigned.\<close>

theorem convert_stream_uninitialised:
  assumes "find_match w name formats (stream_list w) = Inr None"
    and "connect_to_stream w name convert p formats = Inr (Some d, w')"
  shows "new_listener_notify w' d = Inl OutOfBounds \<and> get_enc_pipe_num w' d = Inl OutOfBounds"
proof -
  obtain b s w1 where s: "new_convert_stream w b FORMAT_RAW_RGB24 convert = Inr (s, w1)" and d: "new_dest w1 s p = Inr (d, w')"
    using assms by (auto simp: connect_to_stream_def rbind_eq_Inr split: option.splits)
  obtain y where y: "st_streams w1 s = Some y" "st_new_listener_notify y = F_uninit" "st_get_enc_pipe_num y = F_uninit"
    using new_convert_sound [OF s] by blast
  from new_dest_sound [OF d y(1)] y show ?thesis
    by (simp add: new_listener_notify_def get_enc_pipe_num_def get_dest_def get_stream_def)
qed

theorem convert_stream_uninitialised_witness:
  "new_listener_notify camera_state 3 = Inl OutOfBounds"
proof -
  have m: "find_match camera_base ''cam'' [FORMAT_RAW_RGB24] (stream_list camera_base) = Inr None"
    by (simp add: camera_base_def get_stream_def format_match_def)
  have c: "connect_to_stream camera_base ''cam'' (\<lambda>s. s) 7 [FORMAT_RAW_RGB24] = Inr (Some 3, camera_state)"
    by (simp add: connect_to_stream_def get_stream_def format_match_def new_convert_stream_def new_dest_def copy_name_def
        Let_def camera_base_def camera_state_def fun_eq_iff)
  from convert_stream_uninitialised [OF m c] show ?thesis by simp
qed

end
