(* ===== verification/Conversions.thy ===== *)
theory Conversions
  imports Wire
begin

text \<open>
  The colour conversions of \<^verbatim>\<open>conversions.c\<close> between the packed YUV formats and RGB.

  Every conversion is a loop that takes a fixed number of bytes from the source and stores a fixed number of bytes in the
  destination, computed from those taken. \<open>block_loop\<close> is that loop, with its two indices, on arrays with bounds; a
  conversion is its block function, the two strides and the bound of the loop. The registers of the source are \<^verbatim>\<open>int\<close>:
  \<^verbatim>\<open><<\<close> is \<open>push_bit\<close> and \<^verbatim>\<open>>>\<close> is \<open>drop_bit\<close> on integers, which rounds down.

  The theorems show that the two ways from a format to RGB, directly or through YUY2, give the same picture, that the
  clamped values are stored without wrap-around, and that grey pictures survive the way to YUY2 and back.
\<close>

section \<open>The loop\<close>

definition store_block :: "byte list \<Rightarrow> nat \<Rightarrow> byte list \<Rightarrow> byte list res" where
  "store_block dest j b =
     (if j + length b \<le> length dest then Inr (take j dest @ b @ drop (j + length b) dest) else Inl OutOfBounds)"

function block_loop :: "(byte list \<Rightarrow> byte list) \<Rightarrow> nat \<Rightarrow> nat \<Rightarrow> int \<Rightarrow> byte list \<Rightarrow> byte list \<Rightarrow> nat \<Rightarrow> nat \<Rightarrow> byte list res" where
  "block_loop f din dout limit src dest i j =
     (if int i < limit \<and> 0 < din
      then rbind (aslice src i (int din)) (\<lambda>b. rbind (store_block dest j (f b)) (\<lambda>dest.
             block_loop f din dout limit src dest (i + din) (j + dout)))
      else Inr dest)"
  by pat_completeness auto

termination
  by (relation "measure (\<lambda>(f, din, dout, limit, src, dest, i, j). nat (limit - int i))") auto

declare block_loop.simps [simp del]

section \<open>Pixels\<close>

definition clamp :: "int \<Rightarrow> int" where
  "clamp x = (let x = (if x < 0 then 0 else x) in if x > 255 then 255 else x)"

definition YUV2RGB :: "int \<Rightarrow> int \<Rightarrow> int \<Rightarrow> int \<times> int \<times> int" where
  "YUV2RGB y u v =
     (let r = y + drop_bit 11 (push_bit 10 v + push_bit 8 v + push_bit 7 v + push_bit 4 v + push_bit 3 v + push_bit 1 v);
          g = y - drop_bit 11 (push_bit 8 u + push_bit 7 u + push_bit 4 u + push_bit 2 u + push_bit 1 u)
                - drop_bit 11 (push_bit 9 v + push_bit 6 v + push_bit 4 v + push_bit 1 v + v);
          b = y + drop_bit 11 (push_bit 11 u + push_bit 5 u - push_bit 1 u)
      in (clamp r, clamp g, clamp b))"

definition RGB2YUV :: "int \<Rightarrow> int \<Rightarrow> int \<Rightarrow> int \<times> int \<times> int" where
  "RGB2YUV r g b =
     (let y = drop_bit 15 (9798 * r + 19235 * g + 3736 * b);
          u = drop_bit 15 (- 4784 * r - 9437 * g + 14221 * b) + 128;
          v = drop_bit 15 (20218 * r - 16941 * g - 3277 * b) + 128
      in (clamp y, clamp u, clamp v))"

text \<open>The three bytes of a pixel, and a byte read as an \<^verbatim>\<open>int\<close>.\<close>

definition rgb_bytes :: "int \<times> int \<times> int \<Rightarrow> byte list" where
  "rgb_bytes p = (case p of (r, g, b) \<Rightarrow> [of_int r, of_int g, of_int b])"

abbreviation val :: "byte \<Rightarrow> int" where "val b \<equiv> uint b"

section \<open>Blocks\<close>

fun swab_block :: "byte list \<Rightarrow> byte list" where
  "swab_block [a, b] = [b, a]"
| "swab_block _ = []"

fun y41p2yuyv_block :: "byte list \<Rightarrow> byte list" where
  "y41p2yuyv_block [u0, y0, v0, y1, u4, y2, v4, y3, y4, y5, y6, y7] =
     [y0, u0, y1, v0, y2, u0, y3, v0, y4, u4, y5, v4, y6, u4, y7, v4]"
| "y41p2yuyv_block _ = []"

fun iyu12yuy2_block :: "byte list \<Rightarrow> byte list" where
  "iyu12yuy2_block [u, y0, y1, v, y2, y3] = [y0, u, y1, v, y2, u, y3, v]"
| "iyu12yuy2_block _ = []"

fun iyu22yuy2_block :: "byte list \<Rightarrow> byte list" where
  "iyu22yuy2_block [u0, y0, v0, u1, y1, v1] =
     [y0, of_int ((val u0 + val u1) div 2), y1, of_int ((val v0 + val v1) div 2)]"
| "iyu22yuy2_block _ = []"

fun y2yuy2_block :: "byte list \<Rightarrow> byte list" where
  "y2yuy2_block [y0, y1] = [y0, 128, y1, 128]"
| "y2yuy2_block _ = []"

fun rgb2yuy2_block :: "byte list \<Rightarrow> byte list" where
  "rgb2yuy2_block [r0, g0, b0, r1, g1, b1] =
     (case RGB2YUV (val r0) (val g0) (val b0) of (y0, u0, v0) \<Rightarrow>
      case RGB2YUV (val r1) (val g1) (val b1) of (y1, u1, v1) \<Rightarrow>
        [of_int y0, of_int (drop_bit 1 (u0 + u1)), of_int y1, of_int (drop_bit 1 (v0 + v1))])"
| "rgb2yuy2_block _ = []"

fun uyvy2rgb_block :: "byte list \<Rightarrow> byte list" where
  "uyvy2rgb_block [u, y0, v, y1] =
     rgb_bytes (YUV2RGB (val y0) (val u - 128) (val v - 128)) @ rgb_bytes (YUV2RGB (val y1) (val u - 128) (val v - 128))"
| "uyvy2rgb_block _ = []"

fun yuy22rgb_block :: "byte list \<Rightarrow> byte list" where
  "yuy22rgb_block [y0, u, y1, v] =
     rgb_bytes (YUV2RGB (val y0) (val u - 128) (val v - 128)) @ rgb_bytes (YUV2RGB (val y1) (val u - 128) (val v - 128))"
| "yuy22rgb_block _ = []"

fun iyu12rgb_block :: "byte list \<Rightarrow> byte list" where
  "iyu12rgb_block [u, y0, y1, v, y2, y3] =
     rgb_bytes (YUV2RGB (val y0) (val u - 128) (val v - 128)) @ rgb_bytes (YUV2RGB (val y1) (val u - 128) (val v - 128)) @
     rgb_bytes (YUV2RGB (val y2) (val u - 128) (val v - 128)) @ rgb_bytes (YUV2RGB (val y3) (val u - 128) (val v - 128))"
| "iyu12rgb_block _ = []"

fun iyu22rgb_block :: "byte list \<Rightarrow> byte list" where
  "iyu22rgb_block [u0, y0, v0, u1, y1, v1] =
     rgb_bytes (YUV2RGB (val y0) (val u0 - 128) (val v0 - 128)) @ rgb_bytes (YUV2RGB (val y1) (val u1 - 128) (val v1 - 128))"
| "iyu22rgb_block _ = []"

fun y2rgb_block :: "byte list \<Rightarrow> byte list" where
  "y2rgb_block [y] = rgb_bytes (YUV2RGB (val y) 0 0)"
| "y2rgb_block _ = []"

section \<open>Conversions\<close>

text \<open>\<^verbatim>\<open>swab\<close> of the C library exchanges the bytes of each pair and ignores an odd byte at the end.\<close>

definition swab :: "byte list \<Rightarrow> byte list \<Rightarrow> int \<Rightarrow> byte list res" where
  "swab src dest n = block_loop swab_block 2 2 (n - n mod 2) src dest 0 0"

definition uyvy2yuy2 :: "byte list \<Rightarrow> byte list \<Rightarrow> int \<Rightarrow> byte list res" where
  "uyvy2yuy2 src dest n = swab src dest (push_bit 1 n)"

definition yuv2yuy2 :: "byte list \<Rightarrow> byte list \<Rightarrow> int \<Rightarrow> byte list res" where
  "yuv2yuy2 src dest n = swab src dest (push_bit 1 n)"

definition y41p2yuyv :: "byte list \<Rightarrow> byte list \<Rightarrow> int \<Rightarrow> byte list res" where
  "y41p2yuyv src dest n = block_loop y41p2yuyv_block 12 16 (push_bit 1 n) src dest 0 0"

definition iyu12yuy2 :: "byte list \<Rightarrow> byte list \<Rightarrow> int \<Rightarrow> byte list res" where
  "iyu12yuy2 src dest n = block_loop iyu12yuy2_block 6 8 (n + drop_bit 1 n) src dest 0 0"

definition iyu22yuy2 :: "byte list \<Rightarrow> byte list \<Rightarrow> int \<Rightarrow> byte list res" where
  "iyu22yuy2 src dest n = block_loop iyu22yuy2_block 6 4 (n + push_bit 1 n) src dest 0 0"

definition y2yuy2 :: "byte list \<Rightarrow> byte list \<Rightarrow> int \<Rightarrow> byte list res" where
  "y2yuy2 src dest n = block_loop y2yuy2_block 2 4 n src dest 0 0"

definition rgb2yuy2 :: "byte list \<Rightarrow> byte list \<Rightarrow> int \<Rightarrow> byte list res" where
  "rgb2yuy2 src dest n = block_loop rgb2yuy2_block 6 4 (n + push_bit 1 n) src dest 0 0"

definition uyvy2rgb :: "byte list \<Rightarrow> byte list \<Rightarrow> int \<Rightarrow> byte list res" where
  "uyvy2rgb src dest n = block_loop uyvy2rgb_block 4 6 (push_bit 1 n) src dest 0 0"

definition yuy22rgb :: "byte list \<Rightarrow> byte list \<Rightarrow> int \<Rightarrow> byte list res" where
  "yuy22rgb src dest n = block_loop yuy22rgb_block 4 6 (push_bit 1 n) src dest 0 0"

definition iyu12rgb :: "byte list \<Rightarrow> byte list \<Rightarrow> int \<Rightarrow> byte list res" where
  "iyu12rgb src dest n = block_loop iyu12rgb_block 6 12 (n + drop_bit 1 n) src dest 0 0"

definition iyu22rgb :: "byte list \<Rightarrow> byte list \<Rightarrow> int \<Rightarrow> byte list res" where
  "iyu22rgb src dest n = block_loop iyu22rgb_block 6 6 (n + push_bit 1 n) src dest 0 0"

definition y2rgb :: "byte list \<Rightarrow> byte list \<Rightarrow> int \<Rightarrow> byte list res" where
  "y2rgb src dest n = block_loop y2rgb_block 1 3 n src dest 0 0"

section \<open>What the loop computes\<close>

text \<open>The blocks of a source, converted one after the other.\<close>

fun convert_blocks :: "(byte list \<Rightarrow> byte list) \<Rightarrow> nat \<Rightarrow> nat \<Rightarrow> byte list \<Rightarrow> byte list" where
  "convert_blocks f din 0 xs = []"
| "convert_blocks f din (Suc k) xs = f (take din xs) @ convert_blocks f din k (drop din xs)"

definition fits :: "(byte list \<Rightarrow> byte list) \<Rightarrow> nat \<Rightarrow> nat \<Rightarrow> bool" where
  "fits f din dout \<longleftrightarrow> 0 < din \<and> (\<forall>b. length b = din \<longrightarrow> length (f b) = dout)"

lemma convert_blocks_length:
  "fits f din dout \<Longrightarrow> k * din \<le> length xs \<Longrightarrow> length (convert_blocks f din k xs) = k * dout"
  by (induction k arbitrary: xs) (simp_all add: fits_def)

lemma block_loop_eq:
  assumes "fits f din dout" "i + k * din \<le> length src" "j + k * dout \<le> length dest"
    and "int i + int (k * din) - int din < limit" "limit \<le> int i + int (k * din)"
  shows "block_loop f din dout limit src dest i j =
    Inr (take j dest @ convert_blocks f din k (drop i src) @ drop (j + k * dout) dest)"
  using assms(2-)
proof (induction k arbitrary: i j dest)
  case 0
  then show ?case by (subst block_loop.simps) simp
next
  case (Suc k)
  let ?b = "f (take din (drop i src))"
  have d: "0 < din" using assms(1) by (simp add: fits_def)
  have b: "length ?b = dout" using assms(1) Suc.prems(1) by (simp add: fits_def)
  let ?dest = "take j dest @ ?b @ drop (j + dout) dest"
  have s: "store_block dest j ?b = Inr ?dest" using b Suc.prems(2) by (simp add: store_block_def)
  have "int i + int (k * din) < limit" using Suc.prems(3) by simp
  then have i: "int i < limit" by linarith
  have j: "j \<le> length dest" using Suc.prems(2) by simp
  have "block_loop f din dout limit src ?dest (i + din) (j + dout) =
    Inr (take (j + dout) ?dest @ convert_blocks f din k (drop (i + din) src) @ drop (j + dout + k * dout) ?dest)"
    by (rule Suc.IH) (use Suc.prems b j in auto)
  moreover have "take (j + dout) ?dest = take j dest @ ?b" using b j by simp
  moreover have "drop (j + dout + k * dout) ?dest = drop (j + Suc k * dout) dest" using b j by (simp add: ac_simps)
  ultimately show ?case
    using d i Suc.prems(1) s by (subst block_loop.simps) (simp add: add.commute)
qed

text \<open>A whole picture into a destination of the right size.\<close>

lemma block_loop_picture:
  assumes "fits f din dout" "length src = k * din" "length dest = k * dout"
    and "int (k * din) - int din < limit" "limit \<le> int (k * din)"
  shows "block_loop f din dout limit src dest 0 0 = Inr (convert_blocks f din k src)"
  using block_loop_eq [OF assms(1), of 0 k src 0 dest limit] assms(2-) by simp

lemma convert_blocks_compose:
  assumes "fits f din dmid" "\<And>b. length b = din \<Longrightarrow> g (f b) = h b" "length xs = k * din"
  shows "convert_blocks g dmid k (convert_blocks f din k xs) = convert_blocks h din k xs"
  using assms(3)
proof (induction k arbitrary: xs)
  case (Suc k)
  then have "length (f (take din xs)) = dmid" "g (f (take din xs)) = h (take din xs)" using assms by (simp_all add: fits_def)
  with Suc show ?case by simp
qed simp

text \<open>Two blocks at a time.\<close>

lemma convert_blocks_pairs:
  "convert_blocks f d (2 * k) xs = convert_blocks (\<lambda>b. f (take d b) @ f (take d (drop d b))) (2 * d) k xs"
proof (induction k arbitrary: xs)
  case (Suc k)
  have "2 * Suc k = Suc (Suc (2 * k))" by simp
  with Suc show ?case
    by (simp only: convert_blocks.simps drop_drop take_take drop_take)
       (simp add: mult_2 min_def)
qed simp

lemma convert_blocks_cong:
  "(\<And>b. length b = d \<Longrightarrow> f b = g b) \<Longrightarrow> length xs = k * d \<Longrightarrow> convert_blocks f d k xs = convert_blocks g d k xs"
  by (induction k arbitrary: xs) simp_all

lemma block_cases:
  "length b = Suc 0 \<longleftrightarrow> (\<exists>x. b = [x])" "length b = 2 \<longleftrightarrow> (\<exists>x y. b = [x, y])"
  "length b = 4 \<longleftrightarrow> (\<exists>x y z u. b = [x, y, z, u])" "length b = 6 \<longleftrightarrow> (\<exists>x y z u v w. b = [x, y, z, u, v, w])"
  by (auto simp: numeral_eq_Suc length_Suc_conv)

lemma rgb_bytes_length [simp]: "length (rgb_bytes p) = 3"
  by (simp add: rgb_bytes_def split: prod.split)

lemma fits_blocks:
  "fits swab_block 2 2" "fits iyu12yuy2_block 6 8" "fits y2yuy2_block 2 4" "fits rgb2yuy2_block 6 4"
  "fits uyvy2rgb_block 4 6" "fits yuy22rgb_block 4 6" "fits iyu12rgb_block 6 12" "fits y2rgb_block 1 3"
  by (auto simp: fits_def dest!: block_cases [THEN iffD1] split: prod.split)

lemma fits_double: "fits f d e \<Longrightarrow> fits (\<lambda>b. f (take d b) @ f (take d (drop d b))) (2 * d) (2 * e)"
  by (simp add: fits_def)

section \<open>The ways to RGB\<close>

lemma picture_eqs:
  fixes src d :: "byte list"
  shows "length src = 4 * k \<Longrightarrow> length d = 4 * k \<Longrightarrow> uyvy2yuy2 src d (2 * int k) = Inr (convert_blocks swab_block 2 (2 * k) src)"
    and "length src = 4 * k \<Longrightarrow> length d = 6 * k \<Longrightarrow> uyvy2rgb src d (2 * int k) = Inr (convert_blocks uyvy2rgb_block 4 k src)"
    and "length src = 4 * k \<Longrightarrow> length d = 6 * k \<Longrightarrow> yuy22rgb src d (2 * int k) = Inr (convert_blocks yuy22rgb_block 4 k src)"
    and "length src = 2 * k \<Longrightarrow> length d = 4 * k \<Longrightarrow> y2yuy2 src d (2 * int k) = Inr (convert_blocks y2yuy2_block 2 k src)"
    and "length src = 2 * k \<Longrightarrow> length d = 6 * k \<Longrightarrow> y2rgb src d (2 * int k) = Inr (convert_blocks y2rgb_block 1 (2 * k) src)"
    and "length src = 6 * k \<Longrightarrow> length d = 8 * k \<Longrightarrow> iyu12yuy2 src d (4 * int k) = Inr (convert_blocks iyu12yuy2_block 6 k src)"
    and "length src = 6 * k \<Longrightarrow> length d = 12 * k \<Longrightarrow> iyu12rgb src d (4 * int k) = Inr (convert_blocks iyu12rgb_block 6 k src)"
    and "length src = 6 * k \<Longrightarrow> length d = 4 * k \<Longrightarrow> rgb2yuy2 src d (2 * int k) = Inr (convert_blocks rgb2yuy2_block 6 k src)"
  unfolding uyvy2yuy2_def swab_def uyvy2rgb_def yuy22rgb_def y2yuy2_def y2rgb_def iyu12yuy2_def iyu12rgb_def rgb2yuy2_def
  by (rule block_loop_picture [OF fits_blocks(1)] block_loop_picture [OF fits_blocks(5)] block_loop_picture [OF fits_blocks(6)]
      block_loop_picture [OF fits_blocks(3)] block_loop_picture [OF fits_blocks(8)] block_loop_picture [OF fits_blocks(2)]
      block_loop_picture [OF fits_blocks(7)] block_loop_picture [OF fits_blocks(4)];
      simp add: push_bit_eq_mult drop_bit_eq_div)+

text \<open>One block, either way.\<close>

lemma block_ways:
  "length b = 4 \<Longrightarrow> yuy22rgb_block (swab_block (take 2 b) @ swab_block (take 2 (drop 2 b))) = uyvy2rgb_block b"
  "length b = 2 \<Longrightarrow> yuy22rgb_block (y2yuy2_block b) = y2rgb_block (take 1 b) @ y2rgb_block (take 1 (drop 1 b))"
  "length b = 6 \<Longrightarrow> yuy22rgb_block (take 4 (iyu12yuy2_block b)) @ yuy22rgb_block (take 4 (drop 4 (iyu12yuy2_block b))) =
     iyu12rgb_block b"
  by (auto dest!: block_cases [THEN iffD1])

lemma picture_ways:
  "length xs = 4 * k \<Longrightarrow> convert_blocks yuy22rgb_block 4 k (convert_blocks swab_block 2 (2 * k) xs) = convert_blocks uyvy2rgb_block 4 k xs"
  "length xs = 2 * k \<Longrightarrow> convert_blocks yuy22rgb_block 4 k (convert_blocks y2yuy2_block 2 k xs) = convert_blocks y2rgb_block 1 (2 * k) xs"
  "length xs = 6 * k \<Longrightarrow> convert_blocks yuy22rgb_block 4 (2 * k) (convert_blocks iyu12yuy2_block 6 k xs) = convert_blocks iyu12rgb_block 6 k xs"
  unfolding convert_blocks_pairs
  using convert_blocks_compose [OF fits_double [OF fits_blocks(1)], of yuy22rgb_block uyvy2rgb_block xs k, OF block_ways(1)]
    convert_blocks_compose [OF fits_blocks(3), of yuy22rgb_block _ xs k, OF block_ways(2)]
    convert_blocks_compose [OF fits_blocks(2), of "\<lambda>b. yuy22rgb_block (take 4 b) @ yuy22rgb_block (take 4 (drop 4 b))" _ xs k, OF block_ways(3)]
  by simp_all

text \<open>C34. The ways to RGB agree: converting a picture to YUY2 first (a UYVY, a luminance-only or a 4:1:1 picture) and then to RGB
  gives the picture of the direct conversion, for every picture of whole blocks.\<close>

theorem conversions_agree:
  assumes "length a = 4 * k" "length b = 2 * k" "length c = 6 * k"
    and "length d4 = 4 * k" "length d6 = 6 * k" "length d8 = 8 * k" "length d12 = 12 * k"
  shows "rbind (uyvy2yuy2 a d4 (2 * int k)) (\<lambda>m. yuy22rgb m d6 (2 * int k)) = uyvy2rgb a d6 (2 * int k) \<and>
    rbind (y2yuy2 b d4 (2 * int k)) (\<lambda>m. yuy22rgb m d6 (2 * int k)) = y2rgb b d6 (2 * int k) \<and>
    rbind (iyu12yuy2 c d8 (4 * int k)) (\<lambda>m. yuy22rgb m d12 (4 * int k)) = iyu12rgb c d12 (4 * int k)"
proof -
  have l: "length (convert_blocks swab_block 2 (2 * k) a) = 4 * k" "length (convert_blocks y2yuy2_block 2 k b) = 4 * k"
    "length (convert_blocks iyu12yuy2_block 6 k c) = 4 * (2 * k)"
    using convert_blocks_length [OF fits_blocks(1), of "2 * k" a] convert_blocks_length [OF fits_blocks(3), of k b]
      convert_blocks_length [OF fits_blocks(2), of k c] assms by simp_all
  have m: "yuy22rgb (convert_blocks iyu12yuy2_block 6 k c) d12 (4 * int k) = Inr (convert_blocks iyu12rgb_block 6 k c)"
    using picture_eqs(3) [OF l(3), of d12] picture_ways(3) assms by simp
  show ?thesis
    using l m picture_eqs(1-7) picture_ways(1,2) assms by simp
qed

theorem conversions_agree_witness:
  "rbind (uyvy2yuy2 [128, 16, 128, 235] (replicate 4 0) 2) (\<lambda>m. yuy22rgb m (replicate 6 0) 2) = Inr [16, 16, 16, 235, 235, 235]"
proof -
  have "rbind (uyvy2yuy2 [128, 16, 128, 235] (replicate 4 0) 2) (\<lambda>m. yuy22rgb m (replicate 6 0) 2) =
      uyvy2rgb [128, 16, 128, 235] (replicate 6 0) 2"
    using conversions_agree [of "[128, 16, 128, 235]" 1 "[0, 0]" "replicate 6 0" "replicate 4 0" "replicate 6 0" "replicate 8 0"
        "replicate 12 0"] by simp
  also have "\<dots> = Inr [16, 16, 16, 235, 235, 235]"
    using picture_eqs(2) [of "[128, 16, 128, 235]" 1 "replicate 6 0"]
    by (simp add: YUV2RGB_def rgb_bytes_def clamp_def Let_def)
  finally show ?thesis .
qed

section \<open>Values\<close>

text \<open>C35. A converted pixel is stored without wrap-around: for all 2^24 values of the bytes of a pixel, with the chroma
  bytes taken relative to 128 as the conversion routines do, the three bytes of the result are linear
  combinations of the pixel, each term rounded down, limited to the range of a byte. The green byte has the terms 406 u
  and 595 v both subtracted; the comment above the macro has the first of them with the opposite sign.\<close>

theorem YUV2RGB_value:
  fixes y u v :: byte
  shows "map val (rgb_bytes (YUV2RGB (val y) (val u - 128) (val v - 128))) =
     [max 0 (min 255 (val y + (1434 * (val v - 128)) div 2048)),
      max 0 (min 255 (val y - (406 * (val u - 128)) div 2048 - (595 * (val v - 128)) div 2048)),
      max 0 (min 255 (val y + (2078 * (val u - 128)) div 2048))]"
proof -
  have c: "val (of_int (clamp x)) = max 0 (min 255 x)" for x
    by (auto simp: clamp_def Let_def uint_word_of_int max_def min_def take_bit_int_eq_self)
  show ?thesis
    by (simp add: YUV2RGB_def rgb_bytes_def Let_def c push_bit_eq_mult drop_bit_eq_div algebra_simps)
qed

text \<open>The picture with the given grey values.\<close>

definition grey :: "byte list \<Rightarrow> byte list" where
  "grey ys = concat (map (\<lambda>y. [y, y, y]) ys)"

lemma grey_length [simp]: "length (grey ys) = 3 * length ys"
  by (induction ys) (simp_all add: grey_def)

lemma RGB2YUV_grey: "RGB2YUV (val y) (val y) (val y) = (val y, 128, 128)"
proof -
  have y: "0 \<le> val y" "val y \<le> 255" using uint_lt2p [of y] by simp_all
  have "(32769 * val y) div 32768 = (val y + val y * 32768) div 32768" by (simp add: algebra_simps)
  also have "\<dots> = val y + val y div 32768" by (rule div_mult_self1) simp
  also have "\<dots> = val y" using y by simp
  finally have "(32769 * val y) div 32768 = val y" .
  then show ?thesis using y by (simp add: RGB2YUV_def clamp_def Let_def drop_bit_eq_div algebra_simps)
qed

lemma YUV2RGB_grey: "rgb_bytes (YUV2RGB (val y) 0 0) = [y, y, y]"
proof -
  have "0 \<le> val y" "val y \<le> 255" using uint_lt2p [of y] by simp_all
  then show ?thesis by (simp add: YUV2RGB_def rgb_bytes_def clamp_def Let_def)
qed

text \<open>C36. A grey picture survives the conversion from RGB to YUY2 and back: no grey value changes.\<close>

theorem grey_roundtrip:
  assumes "length ys = 2 * k" "length d4 = 4 * k" "length d6 = 6 * k"
  shows "rbind (rgb2yuy2 (grey ys) d4 (2 * int k)) (\<lambda>m. yuy22rgb m d6 (2 * int k)) = Inr (grey ys)"
proof -
  have blocks: "convert_blocks yuy22rgb_block 4 k (convert_blocks rgb2yuy2_block 6 k (grey ys)) = grey ys"
    using assms(1)
  proof (induction k arbitrary: ys)
    case 0
    then show ?case by (simp add: grey_def)
  next
    case (Suc k)
    then obtain a b zs where ys: "ys = a # b # zs" "length zs = 2 * k" by (auto simp: length_Suc_conv)
    have "rgb2yuy2_block [a, a, a, b, b, b] = [a, 128, b, 128]" by (simp add: RGB2YUV_grey drop_bit_eq_div)
    moreover have "yuy22rgb_block [a, 128, b, 128] = [a, a, a, b, b, b]" by (simp add: YUV2RGB_grey)
    moreover have "grey ys = [a, a, a, b, b, b] @ grey zs" by (simp add: ys grey_def)
    ultimately show ?case using Suc.IH [OF ys(2)] by simp
  qed
  have "length (convert_blocks rgb2yuy2_block 6 k (grey ys)) = 4 * k"
    using convert_blocks_length [OF fits_blocks(4), of k "grey ys"] assms(1) by simp
  with blocks show ?thesis using picture_eqs(8) [of "grey ys" k d4] picture_eqs(3) assms by simp
qed

theorem grey_roundtrip_witness:
  "rbind (rgb2yuy2 [7, 7, 7, 250, 250, 250] (replicate 4 0) 2) (\<lambda>m. yuy22rgb m (replicate 6 0) 2) = Inr [7, 7, 7, 250, 250, 250]"
  using grey_roundtrip [of "[7, 250]" 1 "replicate 4 0" "replicate 6 0"] by (simp add: grey_def)

end
