(* ===== verification/World.thy ===== *)
theory World
  imports Rtp SendRing Base64 HttpAuth RtpJpeg RtpRawaudio Stream Conversions
begin

text \<open>
  The state of the running server: the heap objects of \<^verbatim>\<open>rtp.h\<close>, \<^verbatim>\<open>live.c\<close>, \<^verbatim>\<open>rtsp.c\<close>, \<^verbatim>\<open>http.c\<close> and \<^verbatim>\<open>tcp.c\<close>, the event
  loop they are registered with and the streams they listen to.

  Each kind of object lives in its own heap, a partial function from numbers; a pointer is a number, and a number is
  never used again, so that a dereference of a freed object is recognised (\<open>UseAfterFree\<close>). The doubly linked lists are
  lists of those numbers: linking in at the head is \<open>#\<close>, unlinking is \<open>remove1\<close> (\<open>LinkedList\<close> proves this of the
  pointer operations). All sessions are opened by \<open>live_open\<close>, so the function pointers of a session are those of
  \<^verbatim>\<open>live.c\<close> when its private pointer is set.

  The answers of the operating system are a parameter (\<open>osenv\<close>): each call has a number, and the parameter is a function
  of it.
\<close>

section \<open>Objects\<close>

abbreviation MAX_TRACKS :: nat where "MAX_TRACKS \<equiv> 2"
abbreviation MAX_INTERLEAVE_CHANNELS :: nat where "MAX_INTERLEAVE_CHANNELS \<equiv> 8"

record session =
  se_private :: "nat option"
  se_control :: "nat option"
  se_open_time :: time_ref
  se_addr :: string
  se_ep :: "nat option list"

record live_session =
  ls_sess :: nat
  ls_source :: nat
  ls_playing :: bool

datatype media = Media_jpeg rtp_jpeg | Media_rawaudio rtp_rawaudio

record live_track =
  tr_stream :: "nat option"
  tr_ready :: bool
  tr_rtp :: "media option"

record live_source =
  so_sess_list :: "nat list"
  so_track :: "live_track list"
  so_max_trans_size :: int
  so_max_conn :: u32
  so_cur_conn :: u32

record rtsp_session =
  rs_id :: string
  rs_sess :: nat

text \<open>\<open>lo_path\<close> is the array \<^verbatim>\<open>path[256]\<close> of the node, with what lies behind the terminating NUL.\<close>

record rtsp_location =
  lo_path :: string
  lo_realm :: string
  lo_username :: string
  lo_password :: string
  lo_private :: nat

record http_location =
  hl_path :: string
  hl_input :: "nat option"
  hl_frame :: "byte list option"
  hl_length_with_jfif :: int
  hl_sess_list :: "nat list"
  hl_streaming :: bool

record http_stream_session =
  hs_loc :: nat
  hs_conn :: nat

datatype proto = CONN_PROTO_START | CONN_PROTO_RTSP | CONN_PROTO_HTTP | CONN_PROTO_SIP

text \<open>What \<^verbatim>\<open>proto_state\<close> points to: NULL, a \<^verbatim>\<open>struct rtsp_conn\<close> (the array \<^verbatim>\<open>ichan\<close> of endpoint and RTCP flag), or a
  \<^verbatim>\<open>struct http_stream_session\<close>.\<close>

datatype proto_state = PS_null | PS_rtsp "(nat option \<times> bool) list" | PS_http nat

record conn =
  c_fd :: int
  c_second_fd :: int
  c_client_addr :: string
  c_read_event :: evid
  c_second_read_event :: "evid option"
  c_write_event :: evid
  c_proto :: proto
  c_http_tunnel_cookie :: string
  c_req :: req_state
  c_ring :: send_ring
  c_drop_after :: bool
  c_proto_state :: proto_state

datatype callback = Cb_rtcp_fire | Cb_udp_rtp_read | Cb_udp_rtcp_read | Cb_do_read | Cb_conn_write | Cb_do_accept
  | Cb_exchanger_read

datatype consumer = To_live_track nat nat | To_http_location nat | To_convert nat

record world =
  w_sess :: "nat \<Rightarrow> session option"
  w_sess_list :: "nat list"
  w_lives :: "nat \<Rightarrow> live_session option"
  w_sources :: "nat \<Rightarrow> live_source option"
  w_rtsp :: "nat \<Rightarrow> rtsp_session option"
  w_rtsp_list :: "nat list"
  w_rtsp_locs :: "rtsp_location list"
  w_eps :: "nat \<Rightarrow> rtp_endpoint option"
  w_conns :: "nat \<Rightarrow> conn option"
  w_conn_list :: "nat list"
  w_https :: "nat \<Rightarrow> http_stream_session option"
  w_http_locs :: "nat \<Rightarrow> http_location option"
  w_http_list :: "nat list"
  w_streams :: "consumer streams"
  w_loop :: "(callback, nat) events"
  w_secret :: "string option"
  w_ports :: port_range
  w_next :: nat
  w_calls :: nat
  w_closed :: "int list"
  w_out :: "(int \<times> byte list) list"

text \<open>Answers of the operating system. A reading of a socket gives data, EAGAIN, end of file or an error; an
  exchanger gives the frame the encoder thread left there, with its time, and the frame heap a frame buffer.\<close>

datatype rdres = Got "byte list" | Rd_again | Rd_eof | Rd_error

record osenv =
  o_clock :: clock
  o_time :: "nat \<Rightarrow> u32"
  o_random :: "nat \<Rightarrow> nat \<Rightarrow> nat"
  o_reads :: "nat \<Rightarrow> rdres list"
  o_writes :: "nat \<Rightarrow> wres list"
  o_sends :: "nat \<Rightarrow> int"
  o_udp :: "nat \<Rightarrow> os"
  o_udp_read :: "nat \<Rightarrow> int \<times> byte list"
  o_accept :: "nat \<Rightarrow> (int \<times> string) option"
  o_memory :: "nat \<Rightarrow> nat \<Rightarrow> char"
  o_exchanger :: "nat \<Rightarrow> (byte list \<times> u64) option"
  o_new_frame :: "nat \<Rightarrow> byte list option"
  o_stack :: MD5Context

definition call :: "world \<Rightarrow> nat \<times> world" where
  "call w = (w_calls w, w\<lparr>w_calls := w_calls w + 1\<rparr>)"

definition random_bytes :: "osenv \<Rightarrow> nat \<Rightarrow> nat \<Rightarrow> byte list" where
  "random_bytes E k len = map (\<lambda>i. of_nat (o_random E k i)) [0..<len]"

definition garbage :: "osenv \<Rightarrow> nat \<Rightarrow> nat \<Rightarrow> string" where
  "garbage E k n = map (o_memory E k) [0..<n]"

definition deref :: "(nat \<Rightarrow> 'a option) \<Rightarrow> nat \<Rightarrow> 'a res" where
  "deref m i = (case m i of None \<Rightarrow> Inl UseAfterFree | Some x \<Rightarrow> Inr x)"

definition non_null :: "'a option \<Rightarrow> 'a res" where
  "non_null p = (case p of None \<Rightarrow> Inl NullDeref | Some x \<Rightarrow> Inr x)"

definition returned :: "'a res option \<Rightarrow> 'a res" where
  "returned r = (case r of None \<Rightarrow> Inl Hangs | Some x \<Rightarrow> x)"

definition now :: "osenv \<Rightarrow> world \<Rightarrow> time_ref \<times> world" where
  "now E w = (case time_now (o_clock E) (w_loop w) of (t, l) \<Rightarrow> (t, w\<lparr>w_loop := l\<rparr>))"

definition ev_remove :: "world \<Rightarrow> evid \<Rightarrow> world" where
  "ev_remove w e = w\<lparr>w_loop := remove_event (w_loop w) e\<rparr>"

definition ev_enable :: "world \<Rightarrow> evid \<Rightarrow> bool \<Rightarrow> world" where
  "ev_enable w e b = w\<lparr>w_loop := set_event_enabled (w_loop w) e b\<rparr>"

definition ev_add_fd :: "world \<Rightarrow> int \<Rightarrow> bool \<Rightarrow> callback \<Rightarrow> nat \<Rightarrow> evid \<times> world" where
  "ev_add_fd w fd wr f d = (case add_fd_event (w_loop w) fd wr 0 f d of (e, l) \<Rightarrow> (e, w\<lparr>w_loop := l\<rparr>))"

definition close_fd :: "world \<Rightarrow> int \<Rightarrow> world" where
  "close_fd w fd = w\<lparr>w_closed := w_closed w @ [fd]\<rparr>"

definition put_ep :: "world \<Rightarrow> nat \<Rightarrow> rtp_endpoint \<Rightarrow> world" where
  "put_ep w e ep = w\<lparr>w_eps := (w_eps w)(e \<mapsto> ep)\<rparr>"

definition put_conn :: "world \<Rightarrow> nat \<Rightarrow> conn \<Rightarrow> world" where
  "put_conn w c x = w\<lparr>w_conns := (w_conns w)(c \<mapsto> x)\<rparr>"

definition put_sess :: "world \<Rightarrow> nat \<Rightarrow> session \<Rightarrow> world" where
  "put_sess w s x = w\<lparr>w_sess := (w_sess w)(s \<mapsto> x)\<rparr>"

definition put_source :: "world \<Rightarrow> nat \<Rightarrow> live_source \<Rightarrow> world" where
  "put_source w s x = w\<lparr>w_sources := (w_sources w)(s \<mapsto> x)\<rparr>"

definition put_live :: "world \<Rightarrow> nat \<Rightarrow> live_session \<Rightarrow> world" where
  "put_live w s x = w\<lparr>w_lives := (w_lives w)(s \<mapsto> x)\<rparr>"

section \<open>Sessions\<close>

definition new_session :: "osenv \<Rightarrow> world \<Rightarrow> nat \<times> world" where
  "new_session E w =
     (let s = w_next w;
          (t, w) = now E (w\<lparr>w_sess_list := s # w_sess_list w, w_next := s + 1\<rparr>)
      in (s, put_sess w s \<lparr>se_private = None, se_control = None, se_open_time = t, se_addr = ''(unconnected)'',
                           se_ep = replicate MAX_TRACKS None\<rparr>))"

definition rtsp_session_close :: "world \<Rightarrow> nat \<Rightarrow> world res" where
  "rtsp_session_close w sess =
     rbind (deref (w_sess w) sess) (\<lambda>x. rbind (non_null (se_control x)) (\<lambda>r. rbind (deref (w_rtsp w) r) (\<lambda>_.
       Inr (w\<lparr>w_rtsp_list := remove1 r (w_rtsp_list w), w_rtsp := (w_rtsp w)(r := None)\<rparr>))))"

definition del_session :: "world \<Rightarrow> nat \<Rightarrow> world res" where
  "del_session w sess =
     rbind (deref (w_sess w) sess) (\<lambda>x.
       let w = w\<lparr>w_sess_list := remove1 sess (w_sess_list w)\<rparr> in
       rbind (if se_control x \<noteq> None then rtsp_session_close w sess else Inr w) (\<lambda>w.
         Inr (w\<lparr>w_sess := (w_sess w)(sess := None)\<rparr>)))"

text \<open>\<open>print_session_list\<close>\<close>

fun print_sessions :: "world \<Rightarrow> nat list \<Rightarrow> string res" where
  "print_sessions w [] = Inr []"
| "print_sessions w (s # ss) =
     rbind (deref (w_sess w) s) (\<lambda>x. rbind (print_sessions w ss) (\<lambda>r.
       Inr (se_addr x @ '' '' @ dec (tv_sec (se_open_time x)) @ [LF] @ r)))"

definition print_session_list :: "world \<Rightarrow> nat \<Rightarrow> string res" where
  "print_session_list w maxlen =
     rbind (print_sessions w (w_sess_list w)) (\<lambda>t. if length t + 1 > maxlen then Inl OutOfBounds else Inr t)"

section \<open>Endpoints\<close>

text \<open>The number stored by random bytes, least significant first.\<close>

definition le_word :: "byte list \<Rightarrow> u32" where
  "le_word bs = foldr (\<lambda>b v. ucast b + 256 * v) bs 0"

text \<open>\<open>pvQosAnalyser\<close> is not assigned here, but by \<open>live_setup\<close> before anything reads it.\<close>

definition new_rtp_endpoint :: "osenv \<Rightarrow> world \<Rightarrow> nat \<Rightarrow> int \<Rightarrow> nat \<times> world" where
  "new_rtp_endpoint E w s payload =
     (let e = w_next w; w = w\<lparr>w_next := e + 1\<rparr>;
          (k1, w) = call w; (k2, w) = call w; (k3, w) = call w;
          start = le_word (random_bytes E k2 4);
          (ev, l) = add_timer_event (o_clock E) (w_loop w) 5000 0 Cb_rtcp_fire e;
          w = ev_enable (w\<lparr>w_loop := l\<rparr>) ev False;
          (t1, w) = now E w; (t2, w) = now E w
      in (e, put_ep w e \<lparr>ep_session = s, ep_payload = payload, ep_max_data_size = 8192,
              ep_ssrc = le_word (random_bytes E k1 4), ep_start_timestamp = start, ep_last_timestamp = start,
              ep_seqnum = ucast (le_word (random_bytes E k3 2)), ep_packet_count = 0, ep_octet_count = 0,
              ep_rtcp_send_event = ev, ep_force_rtcp = True, ep_last_rtcp_recv = t1, ep_last_rtcp_send = t2,
              ep_trans = No_trans, ep_pvQosAnalyser = False\<rparr>))"

text \<open>\<open>interleave_disconnect\<close>; a \<^verbatim>\<open>proto_state\<close> of another type is smaller than the array it is taken for.\<close>

definition interleave_disconnect :: "world \<Rightarrow> nat \<Rightarrow> nat \<Rightarrow> world res" where
  "interleave_disconnect w c chan =
     rbind (deref (w_conns w) c) (\<lambda>x.
       case c_proto_state x of
         PS_null \<Rightarrow> Inl NullDeref
       | PS_http _ \<Rightarrow> Inl OutOfBounds
       | PS_rtsp ichan \<Rightarrow>
           rbind (aget ichan chan) (\<lambda>(_, rtcp). rbind (aset ichan chan (None, rtcp)) (\<lambda>ichan.
             Inr (put_conn w c (x\<lparr>c_proto_state := PS_rtsp ichan\<rparr>)))))"

definition del_rtp_endpoint :: "world \<Rightarrow> nat \<Rightarrow> world res" where
  "del_rtp_endpoint w e =
     rbind (deref (w_eps w) e) (\<lambda>ep.
       let w = ev_remove w (ep_rtcp_send_event ep) in
       rbind (case ep_trans ep of
                No_trans \<Rightarrow> Inr w
              | Trans_udp _ _ rtp_fd rtp_event rtcp_fd rtcp_event \<Rightarrow>
                  Inr (close_fd (ev_remove (close_fd (ev_remove w rtp_event) rtp_fd) rtcp_event) rtcp_fd)
              | Trans_inter c rtp_chan rtcp_chan \<Rightarrow>
                  rbind (interleave_disconnect w c rtp_chan) (\<lambda>w. interleave_disconnect w c rtcp_chan)) (\<lambda>w.
       Inr (w\<lparr>w_eps := (w_eps w)(e := None)\<rparr>)))"

section \<open>Live sources\<close>

definition stream_do :: "world \<Rightarrow> (consumer streams \<Rightarrow> consumer streams res) \<Rightarrow> world res" where
  "stream_do w f = rbind (f (w_streams w)) (\<lambda>st. Inr (w\<lparr>w_streams := st\<rparr>))"

text \<open>The pointer \<^verbatim>\<open>ls = s->private\<close> with what it leads to.\<close>

definition live_of :: "world \<Rightarrow> nat \<Rightarrow> (session \<times> nat \<times> live_session \<times> live_source) res" where
  "live_of w s =
     rbind (deref (w_sess w) s) (\<lambda>x. rbind (non_null (se_private x)) (\<lambda>l.
     rbind (deref (w_lives w) l) (\<lambda>ls. rbind (deref (w_sources w) (ls_source ls)) (\<lambda>src.
       Inr (x, l, ls, src)))))"

text \<open>\<open>jpeg_get_sdp\<close>, and the calls through the function pointers of \<^verbatim>\<open>struct rtp_media\<close>.\<close>

definition jpeg_get_sdp :: "int \<Rightarrow> string" where
  "jpeg_get_sdp port = ''m=video '' @ dec port @ '' RTP/AVP 26'' @ crlf @ ''a=rtpmap:26 JPEG/90000'' @ crlf"

fun media_get_sdp :: "media \<Rightarrow> int \<Rightarrow> int \<Rightarrow> string option" where
  "media_get_sdp (Media_jpeg out) payload port = Some (jpeg_get_sdp port)"
| "media_get_sdp (Media_rawaudio out) payload port = rawaudio_get_sdp payload port out"

fun media_get_payload :: "media \<Rightarrow> int \<Rightarrow> int" where
  "media_get_payload (Media_jpeg out) payload = jpeg_get_payload payload"
| "media_get_payload (Media_rawaudio out) payload = rawaudio_get_payload payload out"

text \<open>The tracks a loop over \<^verbatim>\<open>t < MAX_TRACKS && track[t].rtp\<close> visits.\<close>

definition used_tracks :: "live_source \<Rightarrow> nat" where
  "used_tracks src = length (takeWhile (\<lambda>tr. tr_rtp tr \<noteq> None) (so_track src))"

text \<open>\<open>live_get_sdp\<close>: the number of tracks and the text. A result of -1 from \<^verbatim>\<open>get_sdp\<close> moves the end of the text back.\<close>

fun sdp_tracks :: "world \<Rightarrow> session \<Rightarrow> live_source \<Rightarrow> nat list \<Rightarrow> string \<Rightarrow> (nat \<times> string) res" where
  "sdp_tracks w x src [] txt = Inr (used_tracks src, txt)"
| "sdp_tracks w x src (t # ts) txt =
     (let tr = so_track src ! t in
      if \<not> tr_ready tr then Inr (0, txt)
      else rbind (aget (se_ep x) t) (\<lambda>e.
           rbind (case e of None \<Rightarrow> Inr 0
                  | Some e \<Rightarrow> rbind (deref (w_eps w) e) (\<lambda>ep. case ep_trans ep of Trans_udp _ p _ _ _ _ \<Rightarrow> Inr p | _ \<Rightarrow> Inr 0)) (\<lambda>port.
           let txt = (case media_get_sdp (the (tr_rtp tr)) (96 + int t) port of None \<Rightarrow> butlast txt | Some u \<Rightarrow> txt @ u);
               txt = (if port = 0 then txt @ ''a=control:track'' @ dec (int t) @ crlf else txt)
           in sdp_tracks w x src ts txt)))"

definition sdp_head :: "string \<Rightarrow> string" where
  "sdp_head addr =
     ''v=0'' @ crlf @ ''o=- 1 1 IN IP4 127.0.0.1'' @ crlf @ ''s=Test'' @ crlf @ ''a=type:broadcast'' @ crlf @
     ''t=0 0'' @ crlf @ ''c=IN '' @ addr @ crlf"

definition live_get_sdp :: "world \<Rightarrow> nat \<Rightarrow> nat \<Rightarrow> (nat \<times> string) res" where
  "live_get_sdp w s len =
     rbind (live_of w s) (\<lambda>(x, l, ls, src).
       if used_tracks src = 0 \<or> \<not> tr_ready (so_track src ! 0) then Inr (0, [])
       else rbind (aget (se_ep x) 0) (\<lambda>e.
            rbind (case e of None \<Rightarrow> Inr ''IP4 0.0.0.0''
                   | Some e \<Rightarrow> rbind (deref (w_eps w) e) (\<lambda>ep.
                       case ep_trans ep of Trans_udp a _ _ _ _ _ \<Rightarrow> Inr a | _ \<Rightarrow> Inr ''IP4 0.0.0.0'')) (\<lambda>addr.
            rbind (sdp_tracks w x src [0..<used_tracks src] (sdp_head addr)) (\<lambda>(t, txt).
              if length txt \<ge> len then Inl OutOfBounds else Inr (t, txt)))))"

definition live_setup :: "osenv \<Rightarrow> world \<Rightarrow> nat \<Rightarrow> nat \<Rightarrow> (world \<times> int) res" where
  "live_setup E w s t =
     rbind (live_of w s) (\<lambda>(x, l, ls, src). rbind (aget (so_track src) t) (\<lambda>tr.
       case tr_rtp tr of
         None \<Rightarrow> Inr (w, -1)
       | Some m \<Rightarrow>
           let (e, w) = new_rtp_endpoint E w s (media_get_payload m (96 + int t)) in
           rbind (aset (se_ep x) t (Some e)) (\<lambda>eps.
           rbind (deref (w_eps w) e) (\<lambda>ep.
           let w = put_sess w s (x\<lparr>se_ep := eps\<rparr>);
               w = put_ep w e (ep\<lparr>ep_max_data_size := so_max_trans_size src, ep_pvQosAnalyser := True\<rparr>)
           in rbind (non_null (tr_stream tr)) (\<lambda>d.
              rbind (stream_do w (\<lambda>st. get_enc_pipe_num st d)) (\<lambda>w. Inr (w, 0)))))))"

fun play_tracks :: "world \<Rightarrow> session \<Rightarrow> live_source \<Rightarrow> nat list \<Rightarrow> world res" where
  "play_tracks w x src [] = Inr w"
| "play_tracks w x src (t # ts) =
     rbind (aget (se_ep x) t) (\<lambda>e.
       if e = None then play_tracks w x src ts
       else rbind (non_null (tr_stream (so_track src ! t))) (\<lambda>d.
            rbind (stream_do w (\<lambda>st. set_waiting st d True)) (\<lambda>w.
            rbind (stream_do w (\<lambda>st. new_listener_notify st d)) (\<lambda>w. play_tracks w x src ts))))"

text \<open>\<open>live_play\<close>; the position it reports back is always -1.\<close>

definition live_play :: "world \<Rightarrow> nat \<Rightarrow> world res" where
  "live_play w s =
     rbind (live_of w s) (\<lambda>(x, l, ls, src).
       let w = put_live w l (ls\<lparr>ls_playing := True\<rparr>);
           src = src\<lparr>so_cur_conn := so_cur_conn src + 1\<rparr>;
           w = put_source w (ls_source ls) src
       in play_tracks w x src [0..<used_tracks src])"

fun any_playing :: "world \<Rightarrow> nat \<Rightarrow> nat list \<Rightarrow> bool res" where
  "any_playing w t [] = Inr False"
| "any_playing w t (l # ls) =
     rbind (deref (w_lives w) l) (\<lambda>y.
       if \<not> ls_playing y then any_playing w t ls
       else rbind (deref (w_sess w) (ls_sess y)) (\<lambda>x. rbind (aget (se_ep x) t) (\<lambda>e.
         if e \<noteq> None then Inr True else any_playing w t ls)))"

definition track_check_running :: "world \<Rightarrow> nat \<Rightarrow> nat \<Rightarrow> world res" where
  "track_check_running w source t =
     rbind (deref (w_sources w) source) (\<lambda>src. rbind (any_playing w t (so_sess_list src)) (\<lambda>b.
       if b then Inr w
       else rbind (aget (so_track src) t) (\<lambda>tr. rbind (non_null (tr_stream tr)) (\<lambda>d.
         stream_do w (\<lambda>st. set_waiting st d False)))))"

text \<open>The loop of \<open>live_teardown\<close>, counting the endpoints that remain.\<close>

fun teardown_tracks :: "world \<Rightarrow> nat \<Rightarrow> nat option \<Rightarrow> nat list \<Rightarrow> nat \<Rightarrow> (world \<times> nat) res" where
  "teardown_tracks w s ep [] remaining = Inr (w, remaining)"
| "teardown_tracks w s ep (i # is) remaining =
     rbind (live_of w s) (\<lambda>(x, l, ls, src). rbind (aget (se_ep x) i) (\<lambda>e.
       case e of
         None \<Rightarrow> teardown_tracks w s ep is remaining
       | Some e \<Rightarrow>
           if ep = None \<or> ep = Some e then
             rbind (del_rtp_endpoint w e) (\<lambda>w.
             rbind (deref (w_sess w) s) (\<lambda>x.
             let w = put_sess w s (x\<lparr>se_ep := (se_ep x)[i := None]\<rparr>) in
             rbind (track_check_running w (ls_source ls) i) (\<lambda>w.
               teardown_tracks w s ep is remaining)))
           else teardown_tracks w s ep is (remaining + 1)))"

definition live_teardown :: "world \<Rightarrow> nat \<Rightarrow> nat option \<Rightarrow> world res" where
  "live_teardown w s ep =
     rbind (live_of w s) (\<lambda>(_, _, _, src).
     rbind (teardown_tracks w s ep [0..<used_tracks src] 0) (\<lambda>(w, remaining).
       if remaining \<noteq> 0 then Inr w
       else rbind (live_of w s) (\<lambda>(x, l, ls, src).
         let src = (if so_cur_conn src > 0 \<and> ls_playing ls then src\<lparr>so_cur_conn := so_cur_conn src - 1\<rparr> else src);
             src = src\<lparr>so_sess_list := remove1 l (so_sess_list src)\<rparr>;
             w = put_source w (ls_source ls) src;
             w = w\<lparr>w_lives := (w_lives w)(l := None)\<rparr>
         in del_session w s)))"

definition live_open :: "osenv \<Rightarrow> world \<Rightarrow> nat \<Rightarrow> (world \<times> nat option) res" where
  "live_open E w source =
     rbind (deref (w_sources w) source) (\<lambda>src.
       if so_cur_conn src \<ge> so_max_conn src then Inr (w, None)
       else
         let l = w_next w; w = w\<lparr>w_next := l + 1\<rparr>;
             w = put_source w source (src\<lparr>so_sess_list := l # so_sess_list src\<rparr>);
             (s, w) = new_session E w;
             w = put_live w l \<lparr>ls_sess = s, ls_source = source, ls_playing = False\<rparr>
         in rbind (deref (w_sess w) s) (\<lambda>x. Inr (put_sess w s (x\<lparr>se_private := Some l\<rparr>), Some s)))"

section \<open>Sending on an endpoint\<close>

text \<open>\<open>send_data\<close> and \<open>interleave_send\<close> on a connection.\<close>

definition conn_send :: "world \<Rightarrow> nat \<Rightarrow> byte list \<Rightarrow> (world \<times> int) res" where
  "conn_send w c d =
     rbind (deref (w_conns w) c) (\<lambda>x.
       case send_data (c_ring x) d of (r, rc) \<Rightarrow>
         if rc \<noteq> 0 then Inr (w, rc)
         else Inr (ev_enable (put_conn w c (x\<lparr>c_ring := r\<rparr>)) (c_write_event x) True, 0))"

text \<open>A null entry of the vector is read when the packet is queued, and only then.\<close>

definition conn_interleave_send :: "osenv \<Rightarrow> world \<Rightarrow> nat \<Rightarrow> nat \<Rightarrow> iovec list \<Rightarrow> (world \<times> int) res" where
  "conn_interleave_send E w c chan v =
     rbind (deref (w_conns w) c) (\<lambda>x.
     let (k, w) = call w in
     case interleave_send (o_writes E k) (c_ring x) chan (map iov_bytes v) of
       None \<Rightarrow> Inl Hangs
     | Some (rc, sent, r, _) \<Rightarrow>
         if rc = 0 \<and> list_ex iov_null v then Inl NullDeref
         else let w = put_conn w c (x\<lparr>c_ring := r\<rparr>);
                  w = (if sent = [] then w else w\<lparr>w_out := w_out w @ [(c_fd x, sent)]\<rparr>)
              in Inr (if rc = 0 then ev_enable w (c_write_event x) True else w, rc))"

text \<open>The environment of \<open>send_rtp_packet\<close> and \<open>rtcp_send\<close>: the world, or the fault that ended the call. On a socket, the
  system reads the vector: a null entry makes \<^verbatim>\<open>sendmsg\<close> fail with \<^verbatim>\<open>EFAULT\<close>. The rate control changes the encoder only.\<close>

definition srv_env :: "osenv \<Rightarrow> world res rtp_env" where
  "srv_env E = \<lparr>
     xmit = (\<lambda>r p. case r of Inl f \<Rightarrow> (Inl f, -1)
       | Inr w \<Rightarrow> (case p of
           To_fd fd v \<Rightarrow> (let (k, w) = call w in
             if list_ex iov_null v \<or> o_sends E k < 0 then (Inr w, -1)
             else (Inr (w\<lparr>w_out := w_out w @ [(fd, iov_concat v)]\<rparr>), o_sends E k))
         | To_chan c ch v \<Rightarrow> (case conn_interleave_send E w c ch v of Inl f \<Rightarrow> (Inl f, -1) | Inr (w, rc) \<Rightarrow> (Inr w, rc)))),
     arm = (\<lambda>r e. case r of Inl f \<Rightarrow> Inl f | Inr w \<Rightarrow> Inr (ev_enable w e True)),
     slow_down = (\<lambda>r ep. r)\<rparr>"

text \<open>The end of both: the endpoint is stored, or torn down when there is none left.\<close>

definition finish_send :: "nat \<Rightarrow> nat \<Rightarrow> rtp_endpoint option \<times> world res \<times> int \<Rightarrow> (world \<times> int) res" where
  "finish_send s e r =
     (case r of (ep, w, rc) \<Rightarrow> rbind w (\<lambda>w.
        case ep of
          Some ep \<Rightarrow> Inr (put_ep w e ep, rc)
        | None \<Rightarrow> rbind (live_teardown w s (Some e)) (\<lambda>w. Inr (w, rc))))"

definition ep_send :: "osenv \<Rightarrow> nat \<Rightarrow> world sender" where
  "ep_send E e w iov ts m =
     rbind (deref (w_eps w) e) (\<lambda>ep.
       let (t1, w) = now E w; (t2, w) = now E w; (t3, w) = now E w in
       finish_send (ep_session ep) e (send_rtp_packet (srv_env E) (t1, t2, t3) ep iov ts m (Inr w)))"

text \<open>The callbacks of an endpoint.\<close>

definition rtcp_fire :: "osenv \<Rightarrow> world \<Rightarrow> nat \<Rightarrow> world res" where
  "rtcp_fire E w e =
     rbind (deref (w_eps w) e) (\<lambda>ep.
       let (t1, w) = now E w; (t2, w) = now E w in
       rbind (finish_send (ep_session ep) e (rtcp_send (srv_env E) t1 t2 ep (Inr w))) (\<lambda>(w, _). Inr w))"

definition udp_rtp_read :: "osenv \<Rightarrow> world \<Rightarrow> nat \<Rightarrow> world res" where
  "udp_rtp_read E w e =
     rbind (deref (w_eps w) e) (\<lambda>ep.
       let (k, w) = call w in
       if fst (o_udp_read E k) > 0
       then let (t, w) = now E w in Inr (put_ep w e (ep\<lparr>ep_last_rtcp_recv := t\<rparr>))
       else live_teardown w (ep_session ep) (Some e))"

text \<open>\<open>udp_rtcp_read\<close> and \<open>interleave_recv_rtcp\<close>, up to the quality analysis, which does not change what is modelled of an
  endpoint.\<close>

definition udp_rtcp_read :: "osenv \<Rightarrow> world \<Rightarrow> nat \<Rightarrow> world res" where
  "udp_rtcp_read E w e =
     rbind (deref (w_eps w) e) (\<lambda>ep.
       let (k, w) = call w in
       if fst (o_udp_read E k) > 0
       then let (t, w) = now E w in Inr (put_ep w e (ep\<lparr>ep_last_rtcp_recv := t\<rparr>))
       else live_teardown w (ep_session ep) (Some e))"

definition interleave_recv_rtcp :: "osenv \<Rightarrow> world \<Rightarrow> nat \<Rightarrow> world res" where
  "interleave_recv_rtcp E w e =
     rbind (deref (w_eps w) e) (\<lambda>ep. let (t, w) = now E w in Inr (put_ep w e (ep\<lparr>ep_last_rtcp_recv := t\<rparr>)))"

section \<open>Frames\<close>

text \<open>\<^verbatim>\<open>track->rtp->frame\<close> and \<^verbatim>\<open>track->rtp->send\<close>; \<open>ms\<close> is the time of the frame.\<close>

fun media_frame :: "byte list \<Rightarrow> u64 \<Rightarrow> media \<Rightarrow> (media \<times> bool) res" where
  "media_frame fr ms (Media_jpeg out) =
     rbind (jpeg_process_frame fr (int (length fr)) ms out) (\<lambda>(out, ok). Inr (Media_jpeg out, ok))"
| "media_frame fr ms (Media_rawaudio out) =
     (case rawaudio_process_frame (int (length fr)) (ucast ms) out of (out, r) \<Rightarrow> Inr (Media_rawaudio out, r \<noteq> 0))"

fun media_send :: "'s sender \<Rightarrow> int \<Rightarrow> byte list \<Rightarrow> media \<Rightarrow> 's \<Rightarrow> ('s \<times> int) res option" where
  "media_send send maxds fr (Media_jpeg out) s = jpeg_send send maxds out fr s"
| "media_send send maxds fr (Media_rawaudio out) s = rawaudio_send send maxds out fr s"

text \<open>The loop over the sessions: \<^verbatim>\<open>next\<close> is read before the endpoint is used, and sending can only free the session
  itself, so the loop runs over the list as it was at the start.\<close>

fun send_to_sessions :: "osenv \<Rightarrow> byte list \<Rightarrow> media \<Rightarrow> nat \<Rightarrow> nat list \<Rightarrow> world \<Rightarrow> world res" where
  "send_to_sessions E fr m t [] w = Inr w"
| "send_to_sessions E fr m t (l # ls) w =
     rbind (deref (w_lives w) l) (\<lambda>y.
       if \<not> ls_playing y then send_to_sessions E fr m t ls w
       else rbind (deref (w_sess w) (ls_sess y)) (\<lambda>x. rbind (aget (se_ep x) t) (\<lambda>e.
         case e of
           None \<Rightarrow> send_to_sessions E fr m t ls w
         | Some e \<Rightarrow>
             rbind (deref (w_eps w) e) (\<lambda>ep.
             rbind (returned (media_send (ep_send E e) (ep_max_data_size ep) fr m w)) (\<lambda>(w, _).
               send_to_sessions E fr m t ls w)))))"

definition next_live_frame :: "osenv \<Rightarrow> world \<Rightarrow> nat \<Rightarrow> nat \<Rightarrow> byte list \<Rightarrow> u64 \<Rightarrow> world res" where
  "next_live_frame E w source t fr ms =
     rbind (deref (w_sources w) source) (\<lambda>src. rbind (aget (so_track src) t) (\<lambda>tr. rbind (non_null (tr_rtp tr)) (\<lambda>m.
     rbind (media_frame fr ms m) (\<lambda>(m, ok).
       let w = put_source w source (src\<lparr>so_track := (so_track src)[t := tr\<lparr>tr_rtp := Some m\<rparr>]\<rparr>) in
       if \<not> ok then Inr w
       else rbind (if tr_ready tr then Inr w
                   else rbind (non_null (tr_stream tr)) (\<lambda>d.
                        rbind (stream_do w (\<lambda>st. set_waiting st d False)) (\<lambda>w.
                        Inr (put_source w source (src\<lparr>so_track := (so_track src)[t := tr\<lparr>tr_rtp := Some m, tr_ready := True\<rparr>]\<rparr>))))) (\<lambda>w.
            send_to_sessions E fr m t (so_sess_list src) w)))))"

end
