(* ===== verification/Rtsp.thy ===== *)
theory Rtsp
  imports World
begin

text \<open>
  The RTSP server (\<^verbatim>\<open>rtsp.c\<close>): locations, RTSP sessions, interleaved channels and the request handlers, with the rendering
  of responses by \<open>tcp_send_pmsg\<close> (\<^verbatim>\<open>tcp.c\<close>).

  A handler gets the world, the connection and the parsed request, and returns the world and the C result; the
  response is a local message. \<^verbatim>\<open>snprintf\<close> and \<^verbatim>\<open>sprintf\<close> into a fixed array are a fault when the text does not fit.
  Log output is left out, except that \<open>log_request\<close> reads two headers of the request.
\<close>

section \<open>Responses\<close>

fun headers_text :: "pmsg \<Rightarrow> nat list \<Rightarrow> string res" where
  "headers_text m [] = Inr []"
| "headers_text m (f # fs) =
     rbind (aget (hfields m) f) (\<lambda>(n, v). rbind (str_ptr m n) (\<lambda>name. rbind (str_ptr m v) (\<lambda>val.
     rbind (headers_text m fs) (\<lambda>r. Inr (header_line (name, val) @ r)))))"

text \<open>What \<open>tcp_send_pmsg\<close> prints into \<^verbatim>\<open>buf[2048]\<close>.\<close>

definition resp_text :: "pmsg \<Rightarrow> int \<Rightarrow> string res" where
  "resp_text m len =
     rbind (str_ptr m (proto_id m)) (\<lambda>pr. rbind (str_ptr m (stat_reason m)) (\<lambda>reason.
     rbind (headers_text m [0..<header_count m]) (\<lambda>hs.
     let t = pr @ '' '' @ dec (stat_code m) @ '' '' @ reason @ crlf @ hs @
             (if len \<ge> 0 then ''Content-Length: '' @ dec len @ crlf @ crlf else crlf)
     in if length t + 1 > 2048 then Inl OutOfBounds else Inr t)))"

definition tcp_send_pmsg :: "world \<Rightarrow> nat \<Rightarrow> pmsg \<Rightarrow> int \<Rightarrow> (world \<times> int) res" where
  "tcp_send_pmsg w c m len =
     (if ptype m \<noteq> PMSG_RESP then Inr (w, -1)
      else rbind (resp_text m len) (\<lambda>t. rbind (deref (w_conns w) c) (\<lambda>x.
           let totlen = int (length t) + (if len \<ge> 0 then len else 0)
           in if avail_send_buf (c_ring x) < totlen then Inr (w, -1)
              else rbind (conn_send w c (bytes_of t)) (\<lambda>(w, _). Inr (w, 0)))))"

definition log_request :: "pmsg \<Rightarrow> unit res" where
  "log_request m = rbind (get_header m ''referer'') (\<lambda>_. rbind (get_header m ''user-agent'') (\<lambda>_. Inr ()))"

definition status_line :: "pmsg \<Rightarrow> string \<Rightarrow> int \<Rightarrow> string \<Rightarrow> pmsg" where
  "status_line r proto code reason =
     (let r = r\<lparr>ptype := PMSG_RESP\<rparr>;
          (r, p) = add_pmsg_string r proto;
          r = r\<lparr>proto_id := p, stat_code := code\<rparr>;
          (r, q) = add_pmsg_string r reason
      in r\<lparr>stat_reason := q\<rparr>)"

definition rtsp_create_reply :: "osenv \<Rightarrow> world \<Rightarrow> pmsg \<Rightarrow> int \<Rightarrow> string \<Rightarrow> (world \<times> pmsg) res" where
  "rtsp_create_reply E w m code reason =
     (let (k, w) = call w;
          r = status_line (new_pmsg (garbage E k 512)) ''RTSP/1.0'' code reason
      in rbind (copy_headers r m ''CSeq'') (\<lambda>(r, _). Inr (w, r)))"

definition rtsp_send_error :: "osenv \<Rightarrow> world \<Rightarrow> nat \<Rightarrow> pmsg \<Rightarrow> int \<Rightarrow> string \<Rightarrow> world res" where
  "rtsp_send_error E w c m code reason =
     rbind (log_request m) (\<lambda>_. rbind (rtsp_create_reply E w m code reason) (\<lambda>(w, r).
     rbind (tcp_send_pmsg w c r (-1)) (\<lambda>(w, _). Inr w)))"

text \<open>Answers of a handler: with an error, or with a finished response.\<close>

definition answer_error :: "osenv \<Rightarrow> world \<Rightarrow> nat \<Rightarrow> pmsg \<Rightarrow> int \<Rightarrow> string \<Rightarrow> (world \<times> int) res" where
  "answer_error E w c m code reason = rbind (rtsp_send_error E w c m code reason) (\<lambda>w. Inr (w, 0))"

definition answer_with :: "world \<Rightarrow> nat \<Rightarrow> pmsg \<Rightarrow> pmsg \<Rightarrow> (world \<times> int) res" where
  "answer_with w c m r = rbind (log_request m) (\<lambda>_. rbind (tcp_send_pmsg w c r (-1)) (\<lambda>(w, _). Inr (w, 0)))"

section \<open>Locations\<close>

definition get_local_path :: "string \<Rightarrow> string option" where
  "get_local_path path =
     (if \<not> strncaseeq path ''rtsp://'' 7 then None
      else let c = dropWhile (\<lambda>c. c \<noteq> CHR ''/'') (drop 7 path) in Some (if c = [] then ''/'' else c))"

fun node_find_location :: "rtsp_location list \<Rightarrow> string \<Rightarrow> nat \<Rightarrow> rtsp_location option res" where
  "node_find_location [] path len = Inr None"
| "node_find_location (loc # locs) path len =
     rbind (str_at (lo_path loc) 0) (\<lambda>p.
       if strneq path p (length p)
       then rbind (aget (lo_path loc) len) (\<lambda>ch.
              if ch = CHR ''/'' \<or> ch = NUL then Inr (Some loc) else node_find_location locs path len)
       else node_find_location locs path len)"

text \<open>\<^verbatim>\<open>strrchr(path, '/')\<close>\<close>

definition last_slash :: "string \<Rightarrow> string option" where
  "last_slash path =
     (if CHR ''/'' \<in> set path then Some (CHR ''/'' # rev (takeWhile (\<lambda>c. c \<noteq> CHR ''/'') (rev path))) else None)"

text \<open>The track and the length of the path in front of it.\<close>

definition split_track :: "string \<Rightarrow> int \<times> nat" where
  "split_track path =
     (case last_slash path of
        None \<Rightarrow> (-1, length path)
      | Some c \<Rightarrow>
          if strneq c ''/track'' 6
          then (case strtol10 (drop 6 c) of (t, rest) \<Rightarrow> (t, if rest = [] then length path - length c else length path))
          else (-1, length path))"

text \<open>\<open>find_rtsp_location\<close>: the location, the base and the track, which are only meaningful when asked for. The base is
  stored in an array of 256 bytes.\<close>

definition find_rtsp_location :: "world \<Rightarrow> string \<Rightarrow> bool \<Rightarrow> bool \<Rightarrow> (rtsp_location option \<times> string \<times> int) res" where
  "find_rtsp_location w uri want_base want_track =
     (case get_local_path uri of
        None \<Rightarrow> Inr (None, [], -1)
      | Some path \<Rightarrow>
          let (track, len) = (if want_track then split_track path else (-1, length path));
              len = (if len > 1 \<and> path ! (len - 1) = CHR ''/'' then len - 1 else len)
          in if want_base \<and> len \<ge> 256 then Inl OutOfBounds
             else rbind (node_find_location (w_rtsp_locs w) path len) (\<lambda>loc. Inr (loc, take len path, track)))"

text \<open>\<open>init_location\<close> and \<open>new_rtsp_location\<close>; \<open>mem\<close> is what the allocated \<^verbatim>\<open>path\<close> array holds.\<close>

definition store_string :: "string \<Rightarrow> string \<Rightarrow> string res" where
  "store_string mem s = (if length s + 1 > length mem then Inl OutOfBounds else Inr (s @ NUL # drop (length s + 1) mem))"

definition new_rtsp_location :: "world \<Rightarrow> string \<Rightarrow> string \<Rightarrow> string option \<Rightarrow> string option \<Rightarrow> string option \<Rightarrow> nat \<Rightarrow> world res" where
  "new_rtsp_location w mem path realm username password private =
     rbind (store_string (take 256 mem) path) (\<lambda>p.
       let r = case_option [] id realm; u = case_option [] id username; pw = case_option [] id password in
       if length r \<ge> 128 \<or> length u \<ge> 128 \<or> length pw \<ge> 128 then Inl OutOfBounds
       else Inr (w\<lparr>w_rtsp_locs := \<lparr>lo_path = p, lo_realm = r, lo_username = u, lo_password = pw, lo_private = private\<rparr> # w_rtsp_locs w\<rparr>))"

section \<open>RTSP sessions\<close>

definition new_rtsp_session :: "osenv \<Rightarrow> world \<Rightarrow> nat \<Rightarrow> (world \<times> nat) res" where
  "new_rtsp_session E w sess =
     (let r = w_next w; (k, w) = call (w\<lparr>w_next := r + 1\<rparr>);
          w = w\<lparr>w_rtsp_list := r # w_rtsp_list w,
                w_rtsp := (w_rtsp w)(r \<mapsto> \<lparr>rs_id = random_id (random_bytes E k 15), rs_sess = sess\<rparr>)\<rparr>
      in rbind (deref (w_sess w) sess) (\<lambda>x. Inr (put_sess w sess (x\<lparr>se_control := Some r\<rparr>), r)))"

fun find_session :: "world \<Rightarrow> string \<Rightarrow> nat list \<Rightarrow> nat option res" where
  "find_session w sid [] = Inr None"
| "find_session w sid (r # rs) =
     rbind (deref (w_rtsp w) r) (\<lambda>x. if rs_id x = sid then Inr (Some r) else find_session w sid rs)"

definition get_session :: "world \<Rightarrow> string option \<Rightarrow> nat option res" where
  "get_session w sid = (case sid of None \<Rightarrow> Inr None | Some sid \<Rightarrow> find_session w sid (w_rtsp_list w))"

section \<open>Interleaved channels\<close>

fun disconnect_channels :: "world \<Rightarrow> nat \<Rightarrow> nat list \<Rightarrow> world res" where
  "disconnect_channels w c [] = Inr w"
| "disconnect_channels w c (i # is) =
     rbind (deref (w_conns w) c) (\<lambda>x.
       case c_proto_state x of
         PS_null \<Rightarrow> Inl NullDeref
       | PS_http _ \<Rightarrow> Inl OutOfBounds
       | PS_rtsp ichan \<Rightarrow>
           rbind (aget ichan i) (\<lambda>(e, rtcp).
             case e of
               None \<Rightarrow> disconnect_channels w c is
             | Some e \<Rightarrow>
                 if rtcp then disconnect_channels w c is
                 else rbind (deref (w_eps w) e) (\<lambda>ep.
                      rbind (live_teardown w (ep_session ep) (Some e)) (\<lambda>w. disconnect_channels w c is))))"

text \<open>\<open>rtsp_conn_disconnect\<close>; the pointer to the freed state stays in the connection, which its only caller frees next.\<close>

definition rtsp_conn_disconnect :: "world \<Rightarrow> nat \<Rightarrow> world res" where
  "rtsp_conn_disconnect w c = disconnect_channels w c [0..<MAX_INTERLEAVE_CHANNELS]"

definition interleave_recv :: "osenv \<Rightarrow> world \<Rightarrow> nat \<Rightarrow> nat \<Rightarrow> (world \<times> int) res" where
  "interleave_recv E w c chan =
     (if chan \<ge> MAX_INTERLEAVE_CHANNELS then Inr (w, -1)
      else rbind (deref (w_conns w) c) (\<lambda>x.
        case c_proto_state x of
          PS_null \<Rightarrow> Inl NullDeref
        | PS_http _ \<Rightarrow> Inl OutOfBounds
        | PS_rtsp ichan \<Rightarrow>
            rbind (aget ichan chan) (\<lambda>(e, rtcp).
              case e of
                None \<Rightarrow> Inr (w, -1)
              | Some e \<Rightarrow> if rtcp then rbind (interleave_recv_rtcp E w e) (\<lambda>w. Inr (w, 0)) else Inr (w, 0))))"

section \<open>Handlers\<close>

definition rtsp_verify_auth :: "osenv \<Rightarrow> world \<Rightarrow> nat \<Rightarrow> pmsg \<Rightarrow> rtsp_location \<Rightarrow> (world \<times> int) res" where
  "rtsp_verify_auth E w c m loc =
     (let (k, w) = call w in
      rbind (check_digest_response (o_stack E) (w_secret w) (o_time E k) m (lo_realm loc) (lo_username loc) (lo_password loc)) (\<lambda>rc.
        if rc > 0 then Inr (w, 0)
        else rbind (log_request m) (\<lambda>_. rbind (rtsp_create_reply E w m 401 ''Unauthorized'') (\<lambda>(w, r).
             let (k, w) = call w; (k', w) = call w in
             rbind (add_digest_challenge (o_stack E) (w_secret w) (random_id (random_bytes E k 8)) (o_time E k)
                      (random_bytes E k' 12) r (lo_realm loc) (rc = 0)) (\<lambda>(r, sec, _).
             rbind (tcp_send_pmsg (w\<lparr>w_secret := Some sec\<rparr>) c r (-1)) (\<lambda>(w, _). Inr (w, -1)))))))"

definition handle_OPTIONS :: "osenv \<Rightarrow> world \<Rightarrow> nat \<Rightarrow> pmsg \<Rightarrow> (world \<times> int) res" where
  "handle_OPTIONS E w c m =
     rbind (rtsp_create_reply E w m 200 ''OK'') (\<lambda>(w, r).
       answer_with w c m (fst (add_header r ''Public'' ''DESCRIBE, SETUP, TEARDOWN, PLAY, PAUSE'')))"

text \<open>\<open>handle_DESCRIBE\<close>; the part that sends the description.\<close>

definition describe_ok :: "osenv \<Rightarrow> world \<Rightarrow> nat \<Rightarrow> pmsg \<Rightarrow> string \<Rightarrow> string \<Rightarrow> world res" where
  "describe_ok E w c m uri sdp =
     rbind (rtsp_create_reply E w m 200 ''OK'') (\<lambda>(w, r).
       if length uri + 2 > 512 then Inl OutOfBounds
       else let r = fst (add_header r ''Content-Base'' (uri @ ''/''));
                r = fst (add_header r ''Content-Type'' ''application/sdp'')
            in rbind (log_request m) (\<lambda>_. rbind (tcp_send_pmsg w c r (int (length sdp))) (\<lambda>(w, rc).
               if rc \<ge> 0 then rbind (conn_send w c (bytes_of sdp)) (\<lambda>(w, _). Inr w) else Inr w)))"

definition handle_DESCRIBE :: "osenv \<Rightarrow> world \<Rightarrow> nat \<Rightarrow> pmsg \<Rightarrow> (world \<times> int) res" where
  "handle_DESCRIBE E w c m =
     rbind (str_ptr m (req_uri m)) (\<lambda>uri.
     rbind (find_rtsp_location w uri True False) (\<lambda>(loc, path, _).
       case loc of
         None \<Rightarrow> answer_error E w c m 404 ''Not Found''
       | Some loc \<Rightarrow>
           rbind (live_open E w (lo_private loc)) (\<lambda>(w, s).
             case s of
               None \<Rightarrow> answer_error E w c m 404 ''Not Found''
             | Some s \<Rightarrow>
                 rbind (if lo_realm loc \<noteq> [] then rtsp_verify_auth E w c m loc else Inr (w, 0)) (\<lambda>(w, auth).
                   if auth < 0 then Inr (w, 0)
                   else rbind (live_get_sdp w s 8190) (\<lambda>(n, sdp).
                        rbind (if n > 0 then describe_ok E w c m uri sdp
                               else rtsp_send_error E w c m 404 ''Not Found'') (\<lambda>w.
                        rbind (live_teardown w s None) (\<lambda>w. Inr (w, 0))))))))"

text \<open>\<^verbatim>\<open>strstr\<close>: the string from the first occurrence on.\<close>

fun strstr :: "string \<Rightarrow> string \<Rightarrow> string option" where
  "strstr [] pat = (if pat = [] then Some [] else None)"
| "strstr (x # xs) pat = (if take (length pat) (x # xs) = pat then Some (x # xs) else strstr xs pat)"

text \<open>The number behind \<open>name=\<close>; \<open>None\<close> when it is missing.\<close>

definition param_number :: "string \<Rightarrow> int option" where
  "param_number p =
     (if length p \<le> 11 \<or> p ! 11 \<noteq> CHR ''='' then None
      else case strtol10 (drop 12 p) of (v, rest) \<Rightarrow> if rest = drop 12 p then None else Some v)"

definition rtsp_udp_setup :: "osenv \<Rightarrow> world \<Rightarrow> nat \<Rightarrow> nat \<Rightarrow> nat \<Rightarrow> pmsg \<Rightarrow> string \<Rightarrow> (world \<times> pmsg \<times> int) res" where
  "rtsp_udp_setup E w s track c r t =
     (case strstr t ''client_port'' of
        None \<Rightarrow> Inr (w, r, -1)
      | Some p \<Rightarrow>
          (case param_number p of
             None \<Rightarrow> Inr (w, r, -1)
           | Some cport \<Rightarrow>
               rbind (deref (w_sess w) s) (\<lambda>x. rbind (aget (se_ep x) track) (\<lambda>e. rbind (non_null e) (\<lambda>e.
               rbind (deref (w_eps w) e) (\<lambda>ep.
               let (k, w) = call w in
               case connect_udp_endpoint (o_udp E k) (w_ports w) (o_random E k 0)
                      (\<lambda>w fd rtcp. prod.swap (ev_add_fd w fd False (if rtcp then Cb_udp_rtcp_read else Cb_udp_rtp_read) e)) ep w of
                 (None, _) \<Rightarrow> Inr (w, r, -1)
               | (Some (ep, server_port, w), _) \<Rightarrow>
                   Inr (put_ep w e ep,
                        fst (add_header r ''Transport''
                          (''RTP/AVP;unicast;client_port='' @ dec cport @ ''-'' @ dec (s32 (cport + 1)) @
                           '';server_port='' @ dec server_port @ ''-'' @ dec (server_port + 1))), 0)))))))"

text \<open>The channels of \<open>rtsp_interleave_setup\<close>: \<open>ichan\<close> is the state of the connection, if it has one.\<close>

definition free_chan :: "(nat option \<times> bool) list \<Rightarrow> nat \<Rightarrow> bool" where
  "free_chan ichan i \<longleftrightarrow> fst (ichan ! i) = None"

definition choose_channels :: "(nat option \<times> bool) list option \<Rightarrow> string \<Rightarrow> (nat \<times> nat) option" where
  "choose_channels rc t =
     (case strstr t ''interleaved'' of
        Some p \<Rightarrow>
          (case param_number p of
             None \<Rightarrow> None
           | Some rtp_chan \<Rightarrow>
               let rtcp_chan = s32 (rtp_chan + 1) in
               if rtp_chan < 0 \<or> rtcp_chan < 0 \<or> rtp_chan \<ge> int MAX_INTERLEAVE_CHANNELS \<or> rtcp_chan \<ge> int MAX_INTERLEAVE_CHANNELS
               then None
               else (case rc of
                       None \<Rightarrow> Some (nat rtp_chan, nat rtcp_chan)
                     | Some ichan \<Rightarrow>
                         if free_chan ichan (nat rtp_chan) \<and> free_chan ichan (nat rtcp_chan)
                         then Some (nat rtp_chan, nat rtcp_chan) else None))
      | None \<Rightarrow>
          (case rc of
             None \<Rightarrow> Some (0, 1)
           | Some ichan \<Rightarrow>
               (case filter (\<lambda>i. free_chan ichan i \<and> free_chan ichan (i + 1)) [0, 2, 4, 6] of
                  [] \<Rightarrow> None
                | i # _ \<Rightarrow> Some (i, i + 1))))"

definition rtsp_interleave_setup :: "osenv \<Rightarrow> world \<Rightarrow> nat \<Rightarrow> nat \<Rightarrow> nat \<Rightarrow> pmsg \<Rightarrow> string \<Rightarrow> (world \<times> pmsg \<times> int) res" where
  "rtsp_interleave_setup E w s track c r t =
     rbind (deref (w_conns w) c) (\<lambda>x.
     rbind (case c_proto_state x of PS_null \<Rightarrow> Inr None | PS_http _ \<Rightarrow> Inl OutOfBounds | PS_rtsp ichan \<Rightarrow> Inr (Some ichan)) (\<lambda>rc.
       case choose_channels rc t of
         None \<Rightarrow> Inr (w, r, -1)
       | Some (rtp_chan, rtcp_chan) \<Rightarrow>
           let ichan = (case rc of Some ichan \<Rightarrow> ichan | None \<Rightarrow> replicate MAX_INTERLEAVE_CHANNELS (None, False)) in
           rbind (deref (w_sess w) s) (\<lambda>y. rbind (aget (se_ep y) track) (\<lambda>e.
           rbind (aset ichan rtp_chan (e, False)) (\<lambda>ichan. rbind (aset ichan rtcp_chan (e, True)) (\<lambda>ichan.
           rbind (non_null e) (\<lambda>e. rbind (deref (w_eps w) e) (\<lambda>ep.
             let w = put_conn w c (x\<lparr>c_proto_state := PS_rtsp ichan\<rparr>);
                 w = put_ep w e (connect_interleaved_endpoint ep c rtp_chan rtcp_chan)
             in Inr (w, fst (add_header r ''Transport''
                  (''RTP/AVP/TCP;unicast;interleaved='' @ dec (int rtp_chan) @ ''-'' @ dec (int rtcp_chan))), 0)))))))))"

text \<open>\<open>handle_SETUP\<close>, from the point where the session is known; \<open>rs\<close> is the RTSP session, if there was one.\<close>

definition setup_transport :: "osenv \<Rightarrow> world \<Rightarrow> nat \<Rightarrow> nat \<Rightarrow> nat \<Rightarrow> pmsg \<Rightarrow> string \<Rightarrow> (world \<times> pmsg \<times> int) res" where
  "setup_transport E w s track c r t =
     (if strncaseeq t ''RTP/AVP/TCP'' 11 then rtsp_interleave_setup E w s track c r t
      else if (strncaseeq t ''RTP/AVP'' 7 \<and> \<not> (length t > 7 \<and> t ! 7 = CHR ''/'')) \<or> strncaseeq t ''RTP/AVP/UDP'' 11
      then rtsp_udp_setup E w s track c r t
      else Inr (w, r, -1))"

definition setup_session :: "osenv \<Rightarrow> world \<Rightarrow> nat \<Rightarrow> pmsg \<Rightarrow> string \<Rightarrow> nat \<Rightarrow> nat option \<Rightarrow> nat \<Rightarrow> (world \<times> int) res" where
  "setup_session E w c m t track rs s =
     rbind (deref (w_sess w) s) (\<lambda>x. rbind (aget (se_ep x) track) (\<lambda>e.
       if e \<noteq> None then answer_error E w c m 461 ''Unsupported Transport''
       else rbind (live_setup E w s track) (\<lambda>(w, rc).
         if rc < 0 then
           rbind (rtsp_send_error E w c m 404 ''Not Found'') (\<lambda>w.
             if rs = None then rbind (live_teardown w s None) (\<lambda>w. Inr (w, 0)) else Inr (w, 0))
         else
           rbind (rtsp_create_reply E w m 200 ''OK'') (\<lambda>(w, r).
           rbind (setup_transport E w s track c r t) (\<lambda>(w, r, rc).
             if rc < 0 then
               rbind (rtsp_send_error E w c m 461 ''Unsupported Transport'') (\<lambda>w.
               rbind (deref (w_sess w) s) (\<lambda>x. rbind (aget (se_ep x) track) (\<lambda>e.
               rbind (live_teardown w s e) (\<lambda>w. Inr (w, 0)))))
             else
               rbind (case rs of Some q \<Rightarrow> Inr (w, q) | None \<Rightarrow> new_rtsp_session E w s) (\<lambda>(w, q).
               rbind (deref (w_rtsp w) q) (\<lambda>y. answer_with w c m (fst (add_header r ''Session'' (rs_id y))))))))))"

definition handle_SETUP :: "osenv \<Rightarrow> world \<Rightarrow> nat \<Rightarrow> pmsg \<Rightarrow> (world \<times> int) res" where
  "handle_SETUP E w c m =
     rbind (str_ptr m (req_uri m)) (\<lambda>uri.
     rbind (find_rtsp_location w uri True True) (\<lambda>(loc, path, track).
       case loc of
         None \<Rightarrow> answer_error E w c m 404 ''Not Found''
       | Some loc \<Rightarrow>
           if track < 0 \<or> track \<ge> int MAX_TRACKS then answer_error E w c m 404 ''Not Found''
           else rbind (if lo_realm loc \<noteq> [] then rtsp_verify_auth E w c m loc else Inr (w, 0)) (\<lambda>(w, auth).
             if auth < 0 then Inr (w, 0)
             else rbind (get_header m ''Transport'') (\<lambda>t.
               case t of
                 None \<Rightarrow> answer_error E w c m 461 ''Unspecified Transport''
               | Some t \<Rightarrow>
                   rbind (get_header m ''Session'') (\<lambda>sh.
                     case sh of
                       None \<Rightarrow>
                         rbind (live_open E w (lo_private loc)) (\<lambda>(w, s).
                           case s of
                             None \<Rightarrow> answer_error E w c m 404 ''Not Found''
                           | Some s \<Rightarrow>
                               rbind (deref (w_conns w) c) (\<lambda>x. rbind (deref (w_sess w) s) (\<lambda>y.
                                 setup_session E (put_sess w s (y\<lparr>se_addr := ''IP4 '' @ c_client_addr x\<rparr>)) c m t (nat track) None s)))
                     | Some sid \<Rightarrow>
                         rbind (get_session w (Some sid)) (\<lambda>rs.
                           case rs of
                             None \<Rightarrow> answer_error E w c m 454 ''Session Not Found''
                           | Some q \<Rightarrow>
                               rbind (deref (w_rtsp w) q) (\<lambda>y. setup_session E w c m t (nat track) (Some q) (rs_sess y))))))))"

text \<open>\<open>handle_PLAY\<close>: \<open>live_play\<close> sets the start position to -1, so a requested range is never confirmed.\<close>

definition handle_PLAY :: "osenv \<Rightarrow> world \<Rightarrow> nat \<Rightarrow> pmsg \<Rightarrow> (world \<times> int) res" where
  "handle_PLAY E w c m =
     rbind (get_header m ''Session'') (\<lambda>sh. rbind (get_session w sh) (\<lambda>rs.
       case rs of
         None \<Rightarrow> answer_error E w c m 454 ''Session Not Found''
       | Some q \<Rightarrow>
           rbind (get_header m ''Range'') (\<lambda>_.
           rbind (deref (w_rtsp w) q) (\<lambda>y. rbind (live_play w (rs_sess y)) (\<lambda>w.
           rbind (rtsp_create_reply E w m 200 ''OK'') (\<lambda>(w, r).
             answer_with w c m (fst (add_header r ''Session'' (rs_id y)))))))))"

text \<open>No session has a \<^verbatim>\<open>pause\<close>: \<open>new_session\<close> clears it and \<open>live_open\<close> does not set it.\<close>

definition handle_PAUSE :: "osenv \<Rightarrow> world \<Rightarrow> nat \<Rightarrow> pmsg \<Rightarrow> (world \<times> int) res" where
  "handle_PAUSE E w c m =
     rbind (get_header m ''Session'') (\<lambda>sh. rbind (get_session w sh) (\<lambda>rs.
       case rs of
         None \<Rightarrow> answer_error E w c m 454 ''Session Not Found''
       | Some q \<Rightarrow> rbind (deref (w_rtsp w) q) (\<lambda>y. rbind (deref (w_sess w) (rs_sess y)) (\<lambda>_.
           answer_error E w c m 501 ''Not Implemented''))))"

definition handle_TEARDOWN :: "osenv \<Rightarrow> world \<Rightarrow> nat \<Rightarrow> pmsg \<Rightarrow> (world \<times> int) res" where
  "handle_TEARDOWN E w c m =
     rbind (str_ptr m (req_uri m)) (\<lambda>uri.
     rbind (find_rtsp_location w uri False True) (\<lambda>(loc, _, track).
       if loc = None \<or> track \<ge> int MAX_TRACKS then answer_error E w c m 404 ''Not Found''
       else rbind (get_header m ''Session'') (\<lambda>sh. rbind (get_session w sh) (\<lambda>rs.
         case rs of
           None \<Rightarrow> answer_error E w c m 454 ''Session Not Found''
         | Some q \<Rightarrow>
             rbind (deref (w_rtsp w) q) (\<lambda>y.
             rbind (rtsp_create_reply E w m 200 ''OK'') (\<lambda>(w, r).
             let r = fst (add_header r ''Session'' (rs_id y)) in
             rbind (deref (w_sess w) (rs_sess y)) (\<lambda>x.
             rbind (if track < 0 then Inr None else aget (se_ep x) (nat track)) (\<lambda>e.
             rbind (live_teardown w (rs_sess y) e) (\<lambda>w. answer_with w c m r)))))))))"

definition rtsp_handle_unknown :: "osenv \<Rightarrow> world \<Rightarrow> nat \<Rightarrow> pmsg \<Rightarrow> (world \<times> int) res" where
  "rtsp_handle_unknown E w c m = answer_error E w c m 501 ''Not Implemented''"

definition rtsp_handle_msg :: "osenv \<Rightarrow> world \<Rightarrow> nat \<Rightarrow> pmsg \<Rightarrow> (world \<times> int) res" where
  "rtsp_handle_msg E w c m =
     rbind (str_ptr m (req_method m)) (\<lambda>meth.
       if strcaseeq meth ''OPTIONS'' then handle_OPTIONS E w c m
       else if strcaseeq meth ''DESCRIBE'' then handle_DESCRIBE E w c m
       else if strcaseeq meth ''SETUP'' then handle_SETUP E w c m
       else if strcaseeq meth ''PLAY'' then handle_PLAY E w c m
       else if strcaseeq meth ''PAUSE'' then handle_PAUSE E w c m
       else if strcaseeq meth ''TEARDOWN'' then handle_TEARDOWN E w c m
       else rtsp_handle_unknown E w c m)"

end
