(* ===== verification/Http.thy ===== *)
theory Http
  imports Rtsp
begin

text \<open>
  The HTTP image server (\<^verbatim>\<open>http.c\<close>): locations with the last picture of a JPEG stream, single pictures and server push.
  A picture without a JFIF header gets one on the way out.
\<close>

fun http_find_node :: "world \<Rightarrow> nat list \<Rightarrow> string \<Rightarrow> nat \<Rightarrow> nat option res" where
  "http_find_node w [] path len = Inr None"
| "http_find_node w (h # hs) path len =
     rbind (deref (w_http_locs w) h) (\<lambda>loc. rbind (str_at (hl_path loc) 0) (\<lambda>p.
       if strneq path p (length p)
       then rbind (aget (hl_path loc) len) (\<lambda>ch.
              if ch = CHR ''/'' \<or> ch = NUL then Inr (Some h) else http_find_node w hs path len)
       else http_find_node w hs path len))"

definition find_http_location :: "world \<Rightarrow> string \<Rightarrow> nat option res" where
  "find_http_location w path =
     (if path = [] then Inl OutOfBounds
      else http_find_node w (w_http_list w) path (if last path = CHR ''/'' then length path - 1 else length path))"

definition http_create_reply :: "osenv \<Rightarrow> world \<Rightarrow> int \<Rightarrow> string \<Rightarrow> world \<times> pmsg" where
  "http_create_reply E w code reply =
     (let (k, w) = call w in (w, status_line (new_pmsg (garbage E k 512)) ''HTTP/1.0'' code reply))"

definition drop_later :: "world \<Rightarrow> nat \<Rightarrow> world res" where
  "drop_later w c = rbind (deref (w_conns w) c) (\<lambda>x. Inr (put_conn w c (x\<lparr>c_drop_after := True\<rparr>)))"

definition http_send_error :: "osenv \<Rightarrow> world \<Rightarrow> nat \<Rightarrow> pmsg \<Rightarrow> int \<Rightarrow> string \<Rightarrow> string \<Rightarrow> (world \<times> int) res" where
  "http_send_error E w c m code reply t =
     rbind (log_request m) (\<lambda>_.
       let (w, r) = http_create_reply E w code reply;
           r = fst (add_header r ''Connection'' ''close'');
           r = fst (add_header r ''Content-Type'' ''text/html'')
       in rbind (drop_later w c) (\<lambda>w. rbind (tcp_send_pmsg w c r (int (length t))) (\<lambda>(w, rc).
          if rc \<ge> 0 then rbind (conn_send w c (bytes_of t)) (\<lambda>(w, _). Inr (w, 0)) else Inr (w, 0))))"

definition http_conn_disconnect :: "world \<Rightarrow> nat \<Rightarrow> world res" where
  "http_conn_disconnect w c =
     rbind (deref (w_conns w) c) (\<lambda>x.
       case c_proto_state x of
         PS_null \<Rightarrow> Inl NullDeref
       | PS_rtsp _ \<Rightarrow> Inl OutOfBounds
       | PS_http h \<Rightarrow>
           rbind (deref (w_https w) h) (\<lambda>hs. rbind (deref (w_http_locs w) (hs_loc hs)) (\<lambda>loc.
             Inr (w\<lparr>w_http_locs := (w_http_locs w)(hs_loc hs \<mapsto> loc\<lparr>hl_sess_list := remove1 h (hl_sess_list loc)\<rparr>),
                    w_https := (w_https w)(h := None)\<rparr>))))"

definition add_http_stream_session :: "world \<Rightarrow> nat \<Rightarrow> nat \<Rightarrow> world res" where
  "add_http_stream_session w l c =
     (let h = w_next w; w = w\<lparr>w_next := h + 1\<rparr> in
      rbind (deref (w_http_locs w) l) (\<lambda>loc. rbind (deref (w_conns w) c) (\<lambda>x.
        let w = w\<lparr>w_http_locs := (w_http_locs w)(l \<mapsto> loc\<lparr>hl_sess_list := h # hl_sess_list loc\<rparr>),
                  w_https := (w_https w)(h \<mapsto> \<lparr>hs_loc = l, hs_conn = c\<rparr>)\<rparr>
        in Inr (put_conn w c (x\<lparr>c_proto_state := PS_http h\<rparr>)))))"

definition add_jfif :: "byte list" where
  "add_jfif = [0xff, 0xd8, 0xff, 0xe0, 0x00, 0x10, 0x4a, 0x46, 0x49, 0x46,
               0x00, 0x01, 0x02, 0x01, 0x00, 0x48, 0x00, 0x48, 0x00, 0x00]"

text \<open>The bytes \<open>send_frame_with_jfif\<close> sends, in one or two calls of \<open>send_data\<close>.\<close>

definition send_frame_with_jfif :: "world \<Rightarrow> nat \<Rightarrow> http_location \<Rightarrow> world res" where
  "send_frame_with_jfif w c loc =
     rbind (non_null (hl_frame loc)) (\<lambda>f.
       if hl_length_with_jfif loc > int (length f) then
         rbind (conn_send w c add_jfif) (\<lambda>(w, _).
         rbind (aslice f 2 (int (length f) - 2)) (\<lambda>d. rbind (conn_send w c d) (\<lambda>(w, _). Inr w)))
       else rbind (conn_send w c f) (\<lambda>(w, _). Inr w))"

definition multipart_head :: "int \<Rightarrow> string" where
  "multipart_head n =
     ''--boundary'' @ crlf @ ''Content-Type: image/jpeg'' @ crlf @ ''Content-Length: '' @ dec n @ crlf @ crlf"

definition send_multipart_frame :: "world \<Rightarrow> nat \<Rightarrow> http_location \<Rightarrow> world res" where
  "send_multipart_frame w c loc =
     (let hdrs = multipart_head (hl_length_with_jfif loc) in
      rbind (deref (w_conns w) c) (\<lambda>x.
        if avail_send_buf (c_ring x) < hl_length_with_jfif loc + int (length hdrs) then Inr w
        else rbind (conn_send w c (bytes_of hdrs)) (\<lambda>(w, _). send_frame_with_jfif w c loc)))"

text \<open>The 404 answers.\<close>

definition not_found :: "osenv \<Rightarrow> world \<Rightarrow> nat \<Rightarrow> pmsg \<Rightarrow> string \<Rightarrow> (world \<times> int) res" where
  "not_found E w c m what = http_send_error E w c m 404 ''Not Found'' (''<html><body><p>'' @ what @ ''</p></body></html>'')"

definition http_handle_GET :: "osenv \<Rightarrow> world \<Rightarrow> nat \<Rightarrow> pmsg \<Rightarrow> (world \<times> int) res" where
  "http_handle_GET E w c m =
     rbind (str_ptr m (req_uri m)) (\<lambda>uri. rbind (find_http_location w uri) (\<lambda>h.
       case h of
         None \<Rightarrow> not_found E w c m ''File not found''
       | Some h \<Rightarrow>
           rbind (deref (w_http_locs w) h) (\<lambda>loc. rbind (str_at (hl_path loc) 0) (\<lambda>p.
             if length uri > length p then not_found E w c m ''File not found''
             else rbind (deref (w_conns w) c) (\<lambda>x.
               case hl_frame loc of
                 None \<Rightarrow> not_found E w c m ''Image not available''
               | Some f \<Rightarrow>
                   if avail_send_buf (c_ring x) < int (length f) + 400 then not_found E w c m ''Image not available''
                   else
                     let (w, r) = http_create_reply E w 200 ''OK'';
                         r = fst (add_header r ''Expires'' ''0'');
                         r = fst (add_header r ''Pragma'' ''no-cache'');
                         r = fst (add_header r ''Cache-Control'' ''no-cache'')
                     in if hl_streaming loc then
                          rbind (log_request m) (\<lambda>_.
                          let r = fst (add_header r ''Content-Type''
                                    (''multipart/x-mixed-replace;boundary='' @ [QUOTE] @ ''boundary'' @ [QUOTE])) in
                          rbind (tcp_send_pmsg w c r (-1)) (\<lambda>(w, _).
                          rbind (add_http_stream_session w h c) (\<lambda>w.
                          rbind (deref (w_http_locs w) h) (\<lambda>loc.
                          rbind (send_multipart_frame w c loc) (\<lambda>w. Inr (w, 0))))))
                        else
                          rbind (log_request m) (\<lambda>_.
                          let r = fst (add_header r ''Connection'' ''close'');
                              r = fst (add_header r ''Content-Type'' ''image/jpeg'') in
                          rbind (drop_later w c) (\<lambda>w.
                          rbind (tcp_send_pmsg w c r (hl_length_with_jfif loc)) (\<lambda>(w, rc).
                            if rc \<ge> 0 then rbind (send_frame_with_jfif w c loc) (\<lambda>w. Inr (w, 0)) else Inr (w, 0)))))))))"

definition http_handle_msg :: "osenv \<Rightarrow> world \<Rightarrow> nat \<Rightarrow> pmsg \<Rightarrow> (world \<times> int) res" where
  "http_handle_msg E w c m =
     rbind (str_ptr m (req_method m)) (\<lambda>meth.
       if strcaseeq meth ''GET'' then http_handle_GET E w c m
       else http_send_error E w c m 501 ''Not Implemented'' ''<html><body><p>POST requests are unsupported here</p></body></html>'')"

text \<open>\<open>jpeg_next_frame\<close>: whether the picture needs a JFIF header, and the push to the sessions.\<close>

definition lacks_jfif :: "byte list \<Rightarrow> bool res" where
  "lacks_jfif f =
     rbind (aget f 3) (\<lambda>a. if a \<noteq> 0xe0 then Inr True
     else rbind (aget f 10) (\<lambda>b. if b \<noteq> 0 then Inr True
     else rbind (aslice f 6 4) (\<lambda>t. Inr (t \<noteq> bytes_of ''JFIF''))))"

fun push_frame :: "world \<Rightarrow> http_location \<Rightarrow> nat list \<Rightarrow> world res" where
  "push_frame w loc [] = Inr w"
| "push_frame w loc (h # hs) =
     rbind (deref (w_https w) h) (\<lambda>s. rbind (send_multipart_frame w (hs_conn s) loc) (\<lambda>w. push_frame w loc hs))"

definition jpeg_next_frame :: "world \<Rightarrow> nat \<Rightarrow> byte list \<Rightarrow> world res" where
  "jpeg_next_frame w l f =
     rbind (aget f 0) (\<lambda>a. rbind (aget f 1) (\<lambda>b. rbind (aget f 2) (\<lambda>d.
       if a \<noteq> 0xff \<or> b \<noteq> 0xd8 \<or> d \<noteq> 0xff then Inr w
       else rbind (deref (w_http_locs w) l) (\<lambda>loc. rbind (lacks_jfif f) (\<lambda>j.
         let loc = loc\<lparr>hl_frame := Some f, hl_length_with_jfif := int (length f) + (if j then 18 else 0)\<rparr>
         in push_frame (w\<lparr>w_http_locs := (w_http_locs w)(l \<mapsto> loc)\<rparr>) loc (hl_sess_list loc))))))"

end
