(* ===== verification/Tcp.thy ===== *)
theory Tcp
  imports Http
begin

text \<open>
  TCP connections (\<^verbatim>\<open>tcp.c\<close>): accepting, reading and parsing requests, the QuickTime tunnel over two HTTP connections, writing
  the send buffer and dropping connections; and the callback of each event of the server.
\<close>

definition close_open_fd :: "world \<Rightarrow> int \<Rightarrow> world" where
  "close_open_fd w fd = (if fd \<ge> 0 then close_fd w fd else w)"

definition drop_conn :: "world \<Rightarrow> nat \<Rightarrow> world res" where
  "drop_conn w c =
     rbind (deref (w_conns w) c) (\<lambda>x.
     rbind (if c_proto_state x \<noteq> PS_null then
              (case c_proto x of
                 CONN_PROTO_HTTP \<Rightarrow> http_conn_disconnect w c
               | CONN_PROTO_RTSP \<Rightarrow> rtsp_conn_disconnect w c
               | _ \<Rightarrow> Inr w)
            else Inr w) (\<lambda>w.
     let w = ev_remove w (c_read_event x);
         w = (case c_second_read_event x of None \<Rightarrow> w | Some e \<Rightarrow> ev_remove w e);
         w = ev_remove w (c_write_event x);
         w = close_open_fd w (c_fd x);
         w = close_open_fd w (c_second_fd x)
     in Inr (w\<lparr>w_conn_list := remove1 c (w_conn_list w), w_conns := (w_conns w)(c := None)\<rparr>)))"

definition conn_write :: "osenv \<Rightarrow> world \<Rightarrow> nat \<Rightarrow> world res" where
  "conn_write E w c =
     rbind (deref (w_conns w) c) (\<lambda>x.
     let (k, w) = call w in
     case tcp_conn_flush (o_writes E k) (c_ring x) of
       None \<Rightarrow> Inl Hangs
     | Some (sent, r, failed, _) \<Rightarrow>
         let w = put_conn w c (x\<lparr>c_ring := r\<rparr>);
             w = (if sent = [] then w else w\<lparr>w_out := w_out w @ [(c_fd x, sent)]\<rparr>)
         in if failed then drop_conn w c
            else if c_drop_after x then drop_conn w c
            else Inr (ev_enable w (c_write_event x) False))"

text \<open>The texts of \<open>handle_QT_tunnel\<close>.\<close>

definition tunnel_error :: "string \<Rightarrow> string" where
  "tunnel_error what =
     ''HTTP/1.0 400 '' @ what @ '' session cookie'' @ crlf @ ''Connection: close'' @ crlf @ ''Content-Type: text/html'' @ crlf @ crlf @
     ''<html><body><p>Broken RTSP/HTTP tunnel request</p></body></html>'' @ [LF]"

definition tunnel_ok :: string where
  "tunnel_ok =
     ''HTTP/1.0 200 OK'' @ crlf @ ''Connection: close'' @ crlf @ ''Cache-Control: no-cache'' @ crlf @ ''Pragma: no-cache'' @ crlf @
     ''Content-Type: application/x-rtsp-tunnelled'' @ crlf @ crlf"

fun find_cookie :: "world \<Rightarrow> string \<Rightarrow> nat list \<Rightarrow> nat option res" where
  "find_cookie w t [] = Inr None"
| "find_cookie w t (c # cs) =
     rbind (deref (w_conns w) c) (\<lambda>x. if c_http_tunnel_cookie x = t then Inr (Some c) else find_cookie w t cs)"

definition refuse_tunnel :: "world \<Rightarrow> nat \<Rightarrow> string \<Rightarrow> (world \<times> int) res" where
  "refuse_tunnel w c what =
     rbind (conn_send w c (bytes_of (tunnel_error what))) (\<lambda>(w, _). rbind (drop_later w c) (\<lambda>w. Inr (w, 0)))"

definition handle_QT_tunnel :: "world \<Rightarrow> nat \<Rightarrow> pmsg \<Rightarrow> bool \<Rightarrow> (world \<times> int) res" where
  "handle_QT_tunnel w c m post =
     rbind (get_header m ''x-sessioncookie'') (\<lambda>h.
       case h of
         None \<Rightarrow> refuse_tunnel w c ''Missing''
       | Some t \<Rightarrow>
           if length t + 1 > 128 then refuse_tunnel w c ''Missing''
           else if \<not> post then
             rbind (deref (w_conns w) c) (\<lambda>x.
             rbind (conn_send (put_conn w c (x\<lparr>c_http_tunnel_cookie := t\<rparr>)) c (bytes_of tunnel_ok)) (\<lambda>(w, _).
             rbind (deref (w_conns w) c) (\<lambda>x.
               Inr (put_conn w c (x\<lparr>c_proto := CONN_PROTO_RTSP, c_req := (c_req x)\<lparr>base64_count := 0\<rparr>\<rparr>), 0))))
           else
             rbind (find_cookie w t (w_conn_list w)) (\<lambda>cg.
               case cg of
                 None \<Rightarrow> refuse_tunnel w c ''Unknown''
               | Some g \<Rightarrow>
                   rbind (deref (w_conns w) g) (\<lambda>y. rbind (deref (w_conns w) c) (\<lambda>x.
                   let w = close_open_fd w (c_second_fd y);
                       w = (case c_second_read_event y of None \<Rightarrow> w | Some e \<Rightarrow> ev_remove w e);
                       (e, w) = ev_add_fd w (c_fd x) False Cb_do_read g;
                       w = put_conn w g (y\<lparr>c_second_fd := c_fd x, c_second_read_event := Some e\<rparr>)
                   in rbind (deref (w_conns w) c) (\<lambda>x. Inr (put_conn w c (x\<lparr>c_fd := -1\<rparr>), 1))))))"

text \<open>\<open>handle_GET\<close> and \<open>handle_POST\<close>: \<open>hdr\<close> is the header that announces a tunnel.\<close>

definition tunnel_or_http :: "osenv \<Rightarrow> world \<Rightarrow> nat \<Rightarrow> pmsg \<Rightarrow> string \<Rightarrow> bool \<Rightarrow> (world \<times> int) res" where
  "tunnel_or_http E w c m hdr post =
     rbind (get_header m hdr) (\<lambda>t.
       if (case t of None \<Rightarrow> False | Some t \<Rightarrow> strcaseeq t ''application/x-rtsp-tunnelled'')
       then rbind (handle_QT_tunnel w c m post) (\<lambda>(w, rc). Inr (w, if rc \<noteq> 0 then -1 else 0))
       else http_handle_msg E w c m)"

definition handle_GET :: "osenv \<Rightarrow> world \<Rightarrow> nat \<Rightarrow> pmsg \<Rightarrow> (world \<times> int) res" where
  "handle_GET E w c m = tunnel_or_http E w c m ''Accept'' False"

definition handle_POST :: "osenv \<Rightarrow> world \<Rightarrow> nat \<Rightarrow> pmsg \<Rightarrow> (world \<times> int) res" where
  "handle_POST E w c m = tunnel_or_http E w c m ''Content-Type'' True"

definition handle_unknown :: "osenv \<Rightarrow> world \<Rightarrow> nat \<Rightarrow> pmsg \<Rightarrow> (world \<times> int) res" where
  "handle_unknown E w c m =
     rbind (log_request m) (\<lambda>_. rbind (drop_later w c) (\<lambda>w. rbind (str_ptr m (proto_id m)) (\<lambda>pr.
       let (k, w) = call w;
           r = status_line (new_pmsg (garbage E k 256)) pr 501 ''Not Implemented''
       in rbind (copy_headers r m ''CSeq'') (\<lambda>(r, _). rbind (tcp_send_pmsg w c r (-1)) (\<lambda>(w, _). Inr (w, 0))))))"

text \<open>The message \<open>handle_request\<close> parses: a copy of the request buffer.\<close>

definition request_msg :: "req_state \<Rightarrow> pmsg" where
  "request_msg r = (new_pmsg (chars_of (take (req_len r) (req_buf r))))\<lparr>msg_len := req_len r\<rparr>"

definition handle_request :: "osenv \<Rightarrow> world \<Rightarrow> nat \<Rightarrow> (world \<times> int) res" where
  "handle_request E w c =
     rbind (deref (w_conns w) c) (\<lambda>x. rbind (aget (req_buf (c_req x)) 0) (\<lambda>b.
       if b = 0 then Inr (w, -1)
       else rbind (parse_pmsg (request_msg (c_req x))) (\<lambda>(m, rc).
         if rc < 0 then Inr (w, -1)
         else rbind (case c_proto x of
                       CONN_PROTO_HTTP \<Rightarrow>
                         rbind (str_ptr m (req_method m)) (\<lambda>meth.
                           if strcaseeq meth ''GET'' then handle_GET E w c m
                           else if strcaseeq meth ''POST'' then handle_POST E w c m
                           else http_handle_msg E w c m)
                     | CONN_PROTO_RTSP \<Rightarrow> rtsp_handle_msg E w c m
                     | _ \<Rightarrow> handle_unknown E w c m) (\<lambda>(w, rc).
              Inr (w, if rc < 0 then -1 else 0)))))"

text \<open>The request buffer as the C string it is searched as.\<close>

definition req_text :: "req_state \<Rightarrow> string" where
  "req_text r = chars_of (takeWhile (\<lambda>b. b \<noteq> 0) (req_buf r))"

definition clear_request :: "world \<Rightarrow> nat \<Rightarrow> (world \<times> int) res" where
  "clear_request w c =
     rbind (deref (w_conns w) c) (\<lambda>x. Inr (put_conn w c (x\<lparr>c_req := (c_req x)\<lparr>req_len := 0\<rparr>\<rparr>), 0))"

text \<open>The protocol named at the end of the first line.\<close>

definition first_line_proto :: "string \<Rightarrow> proto option" where
  "first_line_proto line =
     (if SP \<notin> set line then None
      else let b = rev (takeWhile (\<lambda>c. c \<noteq> SP) (rev line))
           in if strneq b ''HTTP/'' 5 then Some CONN_PROTO_HTTP
              else if strneq b ''RTSP/'' 5 then Some CONN_PROTO_RTSP else None)"

definition parse_client_data :: "osenv \<Rightarrow> world \<Rightarrow> nat \<Rightarrow> (world \<times> int) res" where
  "parse_client_data E w c =
     rbind (deref (w_conns w) c) (\<lambda>x.
       let r = c_req x in
       case c_proto x of
         CONN_PROTO_START \<Rightarrow>
           if LF \<notin> set (req_text r) then Inr (w, 0)
           else (case first_line_proto (takeWhile (\<lambda>ch. ch \<noteq> LF) (req_text r)) of
                   None \<Rightarrow> Inr (w, -1)
                 | Some p \<Rightarrow> Inr (put_conn w c (x\<lparr>c_proto := p\<rparr>), 1))
       | CONN_PROTO_RTSP \<Rightarrow>
           if req_len r < 4 then Inr (w, 0)
           else rbind (aget (req_buf r) 0) (\<lambda>b0. rbind (aget (req_buf r) 2) (\<lambda>b2. rbind (aget (req_buf r) 3) (\<lambda>b3.
             if b0 = 0x24 then
               (if req_len r < unat (GET_16 b2 b3) + 4 then Inr (w, 0)
                else rbind (aget (req_buf r) 1) (\<lambda>b1. rbind (interleave_recv E w c (unat b1)) (\<lambda>(w, _). clear_request w c)))
             else if strstr (req_text r) (crlf @ crlf) = None then Inr (w, 0)
             else rbind (handle_request E w c) (\<lambda>(w, rc). if rc < 0 then Inr (w, -1) else clear_request w c))))
       | CONN_PROTO_HTTP \<Rightarrow>
           if strstr (req_text r) (crlf @ crlf) = None then Inr (w, 0)
           else rbind (handle_request E w c) (\<lambda>(w, rc). if rc < 0 then Inr (w, -1) else clear_request w c)
       | CONN_PROTO_SIP \<Rightarrow> Inr (w, 0))"

text \<open>\<^verbatim>\<open>while ((ret = parse_client_data(c)) > 0);\<close>: the result is positive only when the protocol has just been found.\<close>

fun parse_upto :: "nat \<Rightarrow> osenv \<Rightarrow> world \<Rightarrow> nat \<Rightarrow> (world \<times> int) res" where
  "parse_upto 0 E w c = Inl Hangs"
| "parse_upto (Suc n) E w c =
     rbind (parse_client_data E w c) (\<lambda>(w, rc). if rc > 0 then parse_upto n E w c else Inr (w, rc))"

text \<open>The reading loop of \<open>do_read\<close>; after the answers considered the socket has no more data.\<close>

definition read_ended :: "world \<Rightarrow> nat \<Rightarrow> bool \<Rightarrow> world res" where
  "read_ended w c second =
     (if second then
        rbind (deref (w_conns w) c) (\<lambda>x. rbind (non_null (c_second_read_event x)) (\<lambda>e.
          Inr (put_conn (close_fd (ev_remove w e) (c_second_fd x)) c (x\<lparr>c_second_read_event := None, c_second_fd := -1\<rparr>))))
      else drop_conn w c)"

fun read_loop :: "osenv \<Rightarrow> rdres list \<Rightarrow> world \<Rightarrow> nat \<Rightarrow> bool \<Rightarrow> world res" where
  "read_loop E [] w c second = Inr w"
| "read_loop E (Rd_again # rs) w c second = Inr w"
| "read_loop E (Rd_eof # rs) w c second = read_ended w c second"
| "read_loop E (Rd_error # rs) w c second = read_ended w c second"
| "read_loop E (Got d # rs) w c second =
     rbind (deref (w_conns w) c) (\<lambda>x.
       let d = take (4096 - req_len (c_req x) - 1) d in
       if d = [] then read_ended w c second
       else
         let r = req_append (c_req x) d;
             w = put_conn w c (x\<lparr>c_req := r\<rparr>)
         in if req_len r = 4096 - 1 then drop_conn w c
            else if base64_count r > 0 then read_loop E rs w c second
            else rbind (aset (req_buf r) (req_len r) 0) (\<lambda>b.
                 rbind (parse_upto 2 E (put_conn w c (x\<lparr>c_req := r\<lparr>req_buf := b\<rparr>\<rparr>)) c) (\<lambda>(w, rc).
                   if rc < 0 then drop_conn w c else read_loop E rs w c second)))"

definition do_read :: "osenv \<Rightarrow> world \<Rightarrow> nat \<Rightarrow> evid \<Rightarrow> world res" where
  "do_read E w c ev =
     rbind (deref (w_conns w) c) (\<lambda>x.
       let (k, w) = call w in read_loop E (o_reads E k) w c (c_second_read_event x = Some ev))"

definition do_accept :: "osenv \<Rightarrow> world \<Rightarrow> world res" where
  "do_accept E w =
     (let (k, w) = call w in
      case o_accept E k of
        None \<Rightarrow> Inr w
      | Some (fd, addr) \<Rightarrow>
          let c = w_next w; w = w\<lparr>w_next := c + 1\<rparr>;
              (re, w) = ev_add_fd w fd False Cb_do_read c;
              (we, w) = ev_add_fd w fd True Cb_conn_write c;
              w = ev_enable w we False
          in Inr (put_conn (w\<lparr>w_conn_list := c # w_conn_list w\<rparr>) c
               \<lparr>c_fd = fd, c_second_fd = -1, c_client_addr = addr, c_read_event = re, c_second_read_event = None,
                c_write_event = we, c_proto = CONN_PROTO_START, c_http_tunnel_cookie = [],
                c_req = \<lparr>req_buf = bytes_of (garbage E k 4096), req_len = 0, base64_count = -1\<rparr>,
                c_ring = \<lparr>send_buf = replicate 65536 0, send_buf_r = 0, send_buf_w = 0\<rparr>,
                c_drop_after = False, c_proto_state = PS_null\<rparr>))"

text \<open>\<open>tcp_listen\<close> and \<open>config_port\<close>: the results of \<^verbatim>\<open>socket\<close>, \<^verbatim>\<open>bind\<close> and \<^verbatim>\<open>listen\<close> are arguments.\<close>

definition tcp_listen :: "world \<Rightarrow> int \<Rightarrow> bool \<Rightarrow> bool \<Rightarrow> world \<times> int" where
  "tcp_listen w fd bound listening =
     (if fd < 0 then (w, -1)
      else if \<not> bound then (close_fd w fd, -1)
      else if \<not> listening then (close_fd w fd, -1)
      else (snd (ev_add_fd w fd False Cb_do_accept (nat fd)), 0))"

definition config_port :: "world \<Rightarrow> int \<Rightarrow> int \<Rightarrow> bool \<Rightarrow> bool \<Rightarrow> world \<times> int" where
  "config_port w port fd bound listening =
     (if port \<le> 0 \<or> port > 65535 then (w, -1) else tcp_listen w fd bound listening)"

section \<open>Callbacks\<close>

text \<open>\<open>deliver_frame_to_stream\<close> on the server: what the destinations do with a frame. A consumer returns the number of
  references that are left: all drop theirs, except the HTTP location that keeps the picture, and
  \<open>convert_uyvy_to_rgb24\<close> when there is no frame for the result. A UYVY picture has two bytes per pixel, its conversion three. \<open>n\<close> bounds the chain of conversion streams.\<close>

definition keeps_frame :: "byte list \<Rightarrow> bool" where
  "keeps_frame f \<longleftrightarrow> take 3 f = [0xff, 0xd8, 0xff]"

definition give_frame :: "(world \<Rightarrow> nat \<Rightarrow> byte list \<Rightarrow> world res) \<Rightarrow> osenv \<Rightarrow> byte list \<Rightarrow> u64 \<Rightarrow>
    consumer streams \<times> world \<Rightarrow> consumer \<Rightarrow> nat \<Rightarrow> ((consumer streams \<times> world) \<times> nat) res" where
  "give_frame deliver E f ms sw p refs =
     (let w = (snd sw)\<lparr>w_streams := fst sw\<rparr> in
      rbind (case p of
               To_live_track src t \<Rightarrow> rbind (next_live_frame E w src t f ms) (\<lambda>w. Inr (w, refs - 1))
             | To_http_location l \<Rightarrow> rbind (jpeg_next_frame w l f) (\<lambda>w. Inr (w, if keeps_frame f then refs else refs - 1))
             | To_convert s \<Rightarrow>
                 let (k, w) = call w in
                 case o_new_frame E k of
                   None \<Rightarrow> Inr (w, refs)
                 | Some rgb \<Rightarrow>
                     rbind (uyvy2rgb f rgb (int (length f) div 2)) (\<lambda>rgb.
                     rbind (deliver w s (take (3 * (length f div 2)) rgb)) (\<lambda>w. Inr (w, refs - 1)))) (\<lambda>(w, refs).
        Inr ((w_streams w, w), refs)))"

fun deliver_upto :: "nat \<Rightarrow> osenv \<Rightarrow> u64 \<Rightarrow> world \<Rightarrow> nat \<Rightarrow> byte list \<Rightarrow> world res" where
  "deliver_upto 0 E ms w s f = Inl Hangs"
| "deliver_upto (Suc n) E ms w s f =
     rbind (deliver_frame_to_stream (give_frame (deliver_upto n E ms) E f ms) s (w_streams w, w) 1) (\<lambda>((_, w), _). Inr w)"

text \<open>\<open>exchanger_read\<close> of the exchanger whose frames go to stream \<open>s\<close>.\<close>

definition exchanger_fire :: "osenv \<Rightarrow> world \<Rightarrow> nat \<Rightarrow> world res" where
  "exchanger_fire E w s =
     (let (k, w) = call w in
      case o_exchanger E k of
        None \<Rightarrow> Inr w
      | Some (f, ms) \<Rightarrow> deliver_upto (Suc (length (stream_list (w_streams w)))) E ms w s f)"

text \<open>What happens when an event fires; a number that was never allocated is a wild pointer.\<close>

definition fire_event :: "osenv \<Rightarrow> world \<Rightarrow> evid \<Rightarrow> world res" where
  "fire_event E w ev =
     (let d = data (evs (w_loop w) ev) in
      if ev \<ge> next_id (w_loop w) then Inl OutOfBounds
      else case func (evs (w_loop w) ev) of
        Cb_rtcp_fire \<Rightarrow> rtcp_fire E w d
      | Cb_udp_rtp_read \<Rightarrow> udp_rtp_read E w d
      | Cb_udp_rtcp_read \<Rightarrow> udp_rtcp_read E w d
      | Cb_do_read \<Rightarrow> do_read E w d ev
      | Cb_conn_write \<Rightarrow> conn_write E w d
      | Cb_do_accept \<Rightarrow> do_accept E w
      | Cb_exchanger_read \<Rightarrow> exchanger_fire E w d)"

section \<open>The loop of the server\<close>

text \<open>\<open>event_loop\<close> with these callbacks (the passes of \<open>Event\<close>, on the world).\<close>

fun srv_dispatch :: "osenv \<Rightarrow> (evid \<Rightarrow> (callback, nat) events \<Rightarrow> bool \<times> (callback, nat) events) \<Rightarrow> evid list \<Rightarrow> world \<Rightarrow> world res" where
  "srv_dispatch E step [] w = Inr w"
| "srv_dispatch E step (e # es) w =
     (if \<not> has_flag (w_loop w) e EVENT_F_RUNNING then srv_dispatch E step es w
      else if end_loop (w_loop w) then Inr w
      else case step e (w_loop w) of (fires, l) \<Rightarrow>
        let w = w\<lparr>w_loop := l\<rparr> in
        if fires then rbind (fire_event E w e) (\<lambda>w. srv_dispatch E step es w) else srv_dispatch E step es w)"

definition server_pass :: "osenv \<Rightarrow> (int option \<Rightarrow> sel) \<Rightarrow> world \<Rightarrow> world res" where
  "server_pass E select w =
     (let (nexttime, l) = mark_all (o_clock E) (w_loop w); r = select nexttime; w = w\<lparr>w_loop := l\<rparr> in
      rbind (srv_dispatch E (time_step (o_clock E)) (time_event_list (w_loop w)) w) (\<lambda>w.
      rbind (srv_dispatch E always_step (always_event_list (w_loop w)) w) (\<lambda>w.
      rbind (if ret r > 0 then srv_dispatch E (fd_step (rfds r) (wfds r)) (fd_event_list (w_loop w)) w else Inr w) (\<lambda>w.
      Inr (w\<lparr>w_loop := strip_all (w_loop w)\<rparr>)))))"

fun server_passes :: "osenv \<Rightarrow> (int option \<Rightarrow> sel) list \<Rightarrow> world \<Rightarrow> world res" where
  "server_passes E [] w = Inr w"
| "server_passes E (sl # sels) w =
     rbind (server_pass E sl w) (\<lambda>w. if end_loop (w_loop w) then Inr w else server_passes E sels w)"

definition server_loop :: "osenv \<Rightarrow> (int option \<Rightarrow> sel) list \<Rightarrow> world \<Rightarrow> world res" where
  "server_loop E sels w = server_passes E sels (w\<lparr>w_loop := (w_loop w)\<lparr>end_loop := False\<rparr>\<rparr>)"

section \<open>The bound of the parsing loop\<close>

lemma clear_request_0: "clear_request w c = Inr (w', rc) \<Longrightarrow> rc = 0"
  by (auto simp: clear_request_def rbind_eq_Inr)

text \<open>Two rounds are enough: a positive result means that the protocol was just found, and then the next result is not positive.\<close>

lemma parse_client_data_positive:
  assumes "parse_client_data E w c = Inr (w', rc)" "0 < rc"
  shows "\<exists>x. w_conns w' c = Some x \<and> c_proto x \<in> {CONN_PROTO_HTTP, CONN_PROTO_RTSP} \<and>
    (\<exists>y. w_conns w c = Some y \<and> c_proto y = CONN_PROTO_START)"
  using assms by (auto simp: parse_client_data_def rbind_eq_Inr deref_def put_conn_def first_line_proto_def Let_def
      split: option.splits proto.splits if_splits dest!: clear_request_0)

theorem parse_upto_enough: "parse_upto (Suc (Suc n)) E w c = parse_upto 2 E w c"
proof (cases "parse_client_data E w c")
  case (Inr r)
  then obtain w1 rc where r: "parse_client_data E w c = Inr (w1, rc)" by (cases r) auto
  have "rc' \<le> 0" if "parse_client_data E w1 c = Inr (w2, rc')" "0 < rc" for w2 rc'
  proof (rule ccontr)
    assume "\<not> rc' \<le> 0"
    then show False using parse_client_data_positive [OF r that(2)] parse_client_data_positive [OF that(1)] by auto
  qed
  then show ?thesis using r
    by (cases "parse_client_data E w1 c") (fastforce simp: numeral_2_eq_2)+
qed (simp add: numeral_2_eq_2)

end
