(* ===== verification/HeapInv.thy ===== *)
theory HeapInv
  imports Tcp
begin

text \<open>
  Memory safety of the running server. The objects of \<open>World\<close> point to each other in every direction: a connection to the
  endpoints of its channels, an endpoint to its session and its connection, a session to its endpoints, its live session
  and its RTSP session, an event to the object its callback is given. The invariant \<open>wf\<close> says that all these pointers lead
  to live objects that point back, and that an event that was not removed belongs to a live object.

  Only part of each object matters for it: the \<^emph>\<open>views\<close> below. \<open>sim w w'\<close> says that two worlds have the same views, which is
  the case for most operations, and \<open>wf\<close> is transported by it. The remaining operations are shown to keep \<open>wf\<close> one by one.
  \<open>safe m P\<close> is the weakest precondition used throughout: the computation does not touch a freed object, and \<open>P\<close> holds of
  its result. Other faults (a write outside an array, a NULL pointer) are allowed here; they are the subject of other
  theorems.
\<close>

section \<open>Computations that touch no freed object\<close>

definition safe :: "'a res \<Rightarrow> ('a \<Rightarrow> bool) \<Rightarrow> bool" where
  "safe m P \<longleftrightarrow> (case m of Inl f \<Rightarrow> f \<noteq> UseAfterFree | Inr x \<Rightarrow> P x)"

lemma safe_simps [simp]: "safe (Inl f) P \<longleftrightarrow> f \<noteq> UseAfterFree" "safe (Inr x) P \<longleftrightarrow> P x"
  by (simp_all add: safe_def)

lemma safe_rbind: "safe m (\<lambda>x. safe (f x) P) \<Longrightarrow> safe (rbind m f) P"
  by (cases m) simp_all

lemma safe_mono: "safe m P \<Longrightarrow> (\<And>x. P x \<Longrightarrow> Q x) \<Longrightarrow> safe m Q"
  by (cases m) simp_all

lemma safe_bind: "safe m Q \<Longrightarrow> (\<And>x. Q x \<Longrightarrow> safe (f x) P) \<Longrightarrow> safe (rbind m f) P"
  by (cases m) simp_all

text \<open>A computation that cannot find a freed object because it does not look at the heap.\<close>

definition heapless :: "'a res \<Rightarrow> bool" where
  "heapless m \<longleftrightarrow> m \<noteq> Inl UseAfterFree"

lemma safe_heapless: "heapless m \<Longrightarrow> (\<And>x. m = Inr x \<Longrightarrow> P x) \<Longrightarrow> safe m P"
  by (cases m) (simp_all add: heapless_def)

lemma heapless_simps [simp]: "heapless (Inr x)" "heapless (Inl f) \<longleftrightarrow> f \<noteq> UseAfterFree"
  by (simp_all add: heapless_def)

lemma heapless_rbind [intro]: "heapless m \<Longrightarrow> (\<And>x. m = Inr x \<Longrightarrow> heapless (f x)) \<Longrightarrow> heapless (rbind m f)"
  by (cases m) simp_all

lemma heapless_aget [simp]: "heapless (aget xs i)" by (simp add: aget_def)
lemma heapless_aset [simp]: "heapless (aset xs i v)" by (simp add: aset_def)
lemma heapless_aslice [simp]: "heapless (aslice xs i n)" by (simp add: aslice_def)
lemma heapless_non_null [simp]: "heapless (non_null p)" by (simp add: non_null_def split: option.splits)
lemma heapless_str_at [simp]: "heapless (str_at d p)" by (simp add: str_at_def)
lemma heapless_str_ptr [simp]: "heapless (str_ptr m p)" by (simp add: str_ptr_def split: option.splits)

lemma safe_aget: "(i < length xs \<Longrightarrow> safe (f (xs ! i)) P) \<Longrightarrow> safe (rbind (aget xs i) f) P"
  by (cases "i < length xs") (simp_all add: aget_def)

lemma safe_aset: "(i < length xs \<Longrightarrow> safe (f (xs[i := v])) P) \<Longrightarrow> safe (rbind (aset xs i v) f) P"
  by (cases "i < length xs") (simp_all add: aset_def)

lemma safe_non_null: "(\<And>x. p = Some x \<Longrightarrow> safe (f x) P) \<Longrightarrow> safe (rbind (non_null p) f) P"
  by (cases p) (simp_all add: non_null_def)

lemma safe_deref: "m i \<noteq> None \<Longrightarrow> (\<And>x. m i = Some x \<Longrightarrow> safe (f x) P) \<Longrightarrow> safe (rbind (deref m i) f) P"
  by (cases "m i") (simp_all add: deref_def)

lemma safe_pure: "heapless m \<Longrightarrow> (\<And>x. m = Inr x \<Longrightarrow> safe (f x) P) \<Longrightarrow> safe (rbind m f) P"
  by (cases m) (simp_all add: heapless_def)

section \<open>Views\<close>

definition v_sess :: "world \<Rightarrow> nat \<Rightarrow> (nat option \<times> nat option \<times> nat option list) option" where
  "v_sess w s = map_option (\<lambda>x. (se_private x, se_control x, se_ep x)) (w_sess w s)"

definition v_live :: "world \<Rightarrow> nat \<Rightarrow> (nat \<times> nat) option" where
  "v_live w l = map_option (\<lambda>y. (ls_sess y, ls_source y)) (w_lives w l)"

definition v_src :: "world \<Rightarrow> nat \<Rightarrow> (nat list \<times> (nat option \<times> bool) list) option" where
  "v_src w q = map_option (\<lambda>x. (so_sess_list x, map (\<lambda>t. (tr_stream t, tr_rtp t \<noteq> None)) (so_track x))) (w_sources w q)"

definition v_ep :: "world \<Rightarrow> nat \<Rightarrow> (nat \<times> evid \<times> transport) option" where
  "v_ep w e = map_option (\<lambda>p. (ep_session p, ep_rtcp_send_event p, ep_trans p)) (w_eps w e)"

definition v_conn :: "world \<Rightarrow> nat \<Rightarrow> (evid \<times> evid option \<times> evid \<times> proto \<times> proto_state) option" where
  "v_conn w c = map_option (\<lambda>x. (c_read_event x, c_second_read_event x, c_write_event x, c_proto x, c_proto_state x)) (w_conns w c)"

definition v_rtsp :: "world \<Rightarrow> nat \<Rightarrow> nat option" where
  "v_rtsp w r = map_option rs_sess (w_rtsp w r)"

text \<open>An event that was removed and is not about to fire. (A one-shot event is marked for removal while it fires.)\<close>

definition ev_dead :: "('f, 'd) events \<Rightarrow> evid \<Rightarrow> bool" where
  "ev_dead l i \<longleftrightarrow> has_flag l i EVENT_F_REMOVE \<and> \<not> has_flag l i EVENT_F_RUNNING"

definition v_ev :: "world \<Rightarrow> evid \<Rightarrow> (callback \<times> nat \<times> bool) option" where
  "v_ev w i = (if i < next_id (w_loop w)
     then Some (func (evs (w_loop w) i), data (evs (w_loop w) i), ev_dead (w_loop w) i) else None)"

definition v_http :: "world \<Rightarrow> nat \<Rightarrow> (bool \<times> nat list) option" where
  "v_http w h = map_option (\<lambda>x. (hl_streaming x, hl_sess_list x)) (w_http_locs w h)"

definition v_dest :: "world \<Rightarrow> nat \<Rightarrow> bool" where
  "v_dest w d \<longleftrightarrow> st_dests (w_streams w) d \<noteq> None"

definition v_strm :: "world \<Rightarrow> nat \<Rightarrow> bool" where
  "v_strm w s \<longleftrightarrow> st_streams (w_streams w) s \<noteq> None"

definition v_cons :: "world \<Rightarrow> nat \<Rightarrow> consumer option" where
  "v_cons w d = map_option de_process (st_dests (w_streams w) d)"

lemmas view_defs = v_sess_def v_live_def v_src_def v_ep_def v_conn_def v_rtsp_def v_ev_def v_http_def v_dest_def v_strm_def v_cons_def

text \<open>The lists, counters and shapes that belong to the views.\<close>

definition sim :: "world \<Rightarrow> world \<Rightarrow> bool" where
  "sim w w' \<longleftrightarrow>
     v_sess w' = v_sess w \<and> v_live w' = v_live w \<and> v_src w' = v_src w \<and> v_ep w' = v_ep w \<and> v_conn w' = v_conn w \<and>
     v_rtsp w' = v_rtsp w \<and> v_ev w' = v_ev w \<and> v_http w' = v_http w \<and> same_shape (w_streams w) (w_streams w') \<and>
     w_sess_list w' = w_sess_list w \<and> w_rtsp_list w' = w_rtsp_list w \<and> w_conn_list w' = w_conn_list w \<and>
     w_http_list w' = w_http_list w \<and> map lo_private (w_rtsp_locs w') = map lo_private (w_rtsp_locs w) \<and>
     w_next w' = w_next w \<and> next_id (w_loop w') = next_id (w_loop w)"

lemma sim_refl [simp]: "sim w w"
  by (simp add: sim_def)

lemma sim_trans: "sim a b \<Longrightarrow> sim b c \<Longrightarrow> sim a c"
  by (auto simp: sim_def intro: same_shape_trans)

section \<open>The invariant\<close>

text \<open>What the callback of an event is given.\<close>

definition target :: "world \<Rightarrow> evid \<Rightarrow> callback \<Rightarrow> nat \<Rightarrow> bool" where
  "target w i f d =
     (case f of
        Cb_rtcp_fire \<Rightarrow> (\<exists>s tr. v_ep w d = Some (s, i, tr))
      | Cb_udp_rtp_read \<Rightarrow> (\<exists>s v a p fd fd' j. v_ep w d = Some (s, v, Trans_udp a p fd i fd' j))
      | Cb_udp_rtcp_read \<Rightarrow> (\<exists>s v a p fd fd' j. v_ep w d = Some (s, v, Trans_udp a p fd j fd' i))
      | Cb_do_read \<Rightarrow> (\<exists>re se we pr ps. v_conn w d = Some (re, se, we, pr, ps) \<and> (re = i \<or> se = Some i))
      | Cb_conn_write \<Rightarrow> (\<exists>re se pr ps. v_conn w d = Some (re, se, i, pr, ps))
      | Cb_do_accept \<Rightarrow> True
      | Cb_exchanger_read \<Rightarrow> v_strm w d)"

definition wf_sess :: "world \<Rightarrow> bool" where
  "wf_sess w \<longleftrightarrow> (\<forall>s p r es. v_sess w s = Some (p, r, es) \<longrightarrow>
     length es = MAX_TRACKS \<and> (\<exists>l q. p = Some l \<and> v_live w l = Some (s, q)) \<and> (\<forall>k. r = Some k \<longrightarrow> v_rtsp w k = Some s)) \<and>
     distinct (w_sess_list w) \<and> (\<forall>s \<in> set (w_sess_list w). v_sess w s \<noteq> None)"

definition wf_live :: "world \<Rightarrow> bool" where
  "wf_live w \<longleftrightarrow> (\<forall>l s q. v_live w l = Some (s, q) \<longrightarrow>
     (\<exists>r es. v_sess w s = Some (Some l, r, es)) \<and> (\<exists>ls ts. v_src w q = Some (ls, ts) \<and> l \<in> set ls))"

definition wf_src :: "world \<Rightarrow> bool" where
  "wf_src w \<longleftrightarrow> (\<forall>q ls ts. v_src w q = Some (ls, ts) \<longrightarrow>
     length ts = MAX_TRACKS \<and> distinct ls \<and> (\<forall>l \<in> set ls. \<exists>s. v_live w l = Some (s, q)) \<and> (snd (ts ! 1) \<longrightarrow> snd (ts ! 0)) \<and>
     (\<forall>i < MAX_TRACKS. snd (ts ! i) \<longrightarrow> (\<exists>d. fst (ts ! i) = Some d \<and> v_dest w d))) \<and>
     (\<forall>q \<in> set (map lo_private (w_rtsp_locs w)). v_src w q \<noteq> None)"

definition wf_rtsp :: "world \<Rightarrow> bool" where
  "wf_rtsp w \<longleftrightarrow> (\<forall>r s. v_rtsp w r = Some s \<longrightarrow> (\<exists>p es. v_sess w s = Some (p, Some r, es))) \<and>
     distinct (w_rtsp_list w) \<and> (\<forall>r \<in> set (w_rtsp_list w). v_rtsp w r \<noteq> None)"

definition wf_slot :: "world \<Rightarrow> bool" where
  "wf_slot w \<longleftrightarrow> (\<forall>s p r es i e. v_sess w s = Some (p, r, es) \<longrightarrow> i < MAX_TRACKS \<longrightarrow> es ! i = Some e \<longrightarrow>
     (\<exists>v tr. v_ep w e = Some (s, v, tr)) \<and> (\<forall>j < MAX_TRACKS. es ! j = Some e \<longrightarrow> j = i) \<and>
     (\<forall>l q ls ts. p = Some l \<longrightarrow> v_live w l = Some (s, q) \<longrightarrow> v_src w q = Some (ls, ts) \<longrightarrow> snd (ts ! i)))"

definition wf_ep :: "world \<Rightarrow> bool" where
  "wf_ep w \<longleftrightarrow> (\<forall>e s v tr. v_ep w e = Some (s, v, tr) \<longrightarrow>
     (\<exists>p r es i. v_sess w s = Some (p, r, es) \<and> i < MAX_TRACKS \<and> es ! i = Some e) \<and>
     (\<forall>c a b. tr = Trans_inter c a b \<longrightarrow>
        (\<exists>re se we ich. v_conn w c = Some (re, se, we, CONN_PROTO_RTSP, PS_rtsp ich) \<and> a < MAX_INTERLEAVE_CHANNELS \<and>
           b < MAX_INTERLEAVE_CHANNELS \<and> a \<noteq> b \<and> ich ! a = (Some e, False) \<and> ich ! b = (Some e, True))))"

definition wf_conn :: "world \<Rightarrow> bool" where
  "wf_conn w \<longleftrightarrow> (\<forall>c re se we pr ps. v_conn w c = Some (re, se, we, pr, ps) \<longrightarrow>
     (ps = PS_null \<or> pr = CONN_PROTO_RTSP \<and> (\<exists>ich. ps = PS_rtsp ich \<and> length ich = MAX_INTERLEAVE_CHANNELS \<and>
        (\<forall>i < MAX_INTERLEAVE_CHANNELS. \<forall>e rt. ich ! i = (Some e, rt) \<longrightarrow>
           (\<exists>s v a b. v_ep w e = Some (s, v, Trans_inter c a b) \<and> i = (if rt then b else a)))))) \<and>
     distinct (w_conn_list w) \<and> (\<forall>c \<in> set (w_conn_list w). v_conn w c \<noteq> None)"

definition wf_http :: "world \<Rightarrow> bool" where
  "wf_http w \<longleftrightarrow> (\<forall>h b hs. v_http w h = Some (b, hs) \<longrightarrow> \<not> b \<and> hs = []) \<and> (\<forall>h \<in> set (w_http_list w). v_http w h \<noteq> None)"

definition wf_ev :: "world \<Rightarrow> bool" where
  "wf_ev w \<longleftrightarrow> (\<forall>i f d. v_ev w i = Some (f, d, False) \<longrightarrow> target w i f d)"

definition wf_fresh :: "world \<Rightarrow> bool" where
  "wf_fresh w \<longleftrightarrow> (\<forall>n. w_next w \<le> n \<longrightarrow> v_sess w n = None \<and> v_live w n = None \<and> v_src w n = None \<and> v_ep w n = None \<and>
     v_conn w n = None \<and> v_rtsp w n = None)"

text \<open>What the destinations of the streams are given.\<close>

definition consumer_ok :: "world \<Rightarrow> consumer \<Rightarrow> bool" where
  "consumer_ok w p =
     (case p of
        To_live_track q t \<Rightarrow> v_src w q \<noteq> None \<and> t < MAX_TRACKS
      | To_http_location l \<Rightarrow> v_http w l \<noteq> None
      | To_convert s \<Rightarrow> v_strm w s)"

definition wf_cons :: "world \<Rightarrow> bool" where
  "wf_cons w \<longleftrightarrow> (\<forall>d p. v_cons w d = Some p \<longrightarrow> consumer_ok w p)"

definition wf :: "world \<Rightarrow> bool" where
  "wf w \<longleftrightarrow> wf_sess w \<and> wf_live w \<and> wf_src w \<and> wf_rtsp w \<and> wf_slot w \<and> wf_ep w \<and> wf_conn w \<and> wf_http w \<and> wf_ev w \<and>
     wf_fresh w \<and> wf_streams (w_streams w) \<and> wf_cons w"

lemmas wf_parts = wf_sess_def wf_live_def wf_src_def wf_rtsp_def wf_slot_def wf_ep_def wf_conn_def wf_http_def wf_ev_def wf_fresh_def

lemma wf_destruct:
  assumes "wf w"
  shows wfD_sess: "v_sess w s = Some (p, r, es) \<Longrightarrow> length es = MAX_TRACKS \<and> (\<exists>l q. p = Some l \<and> v_live w l = Some (s, q)) \<and>
        (\<forall>k. r = Some k \<longrightarrow> v_rtsp w k = Some s)"
    and wfD_sess_list: "distinct (w_sess_list w) \<and> (\<forall>s \<in> set (w_sess_list w). v_sess w s \<noteq> None)"
    and wfD_live: "v_live w l = Some (s, q) \<Longrightarrow> (\<exists>r es. v_sess w s = Some (Some l, r, es)) \<and> (\<exists>ls ts. v_src w q = Some (ls, ts) \<and> l \<in> set ls)"
    and wfD_src: "v_src w q = Some (ls, ts) \<Longrightarrow> length ts = MAX_TRACKS \<and> distinct ls \<and> (\<forall>l \<in> set ls. \<exists>s. v_live w l = Some (s, q)) \<and>
        (snd (ts ! 1) \<longrightarrow> snd (ts ! 0)) \<and> (\<forall>i < MAX_TRACKS. snd (ts ! i) \<longrightarrow> (\<exists>d. fst (ts ! i) = Some d \<and> v_dest w d))"
    and wfD_locs: "\<forall>q \<in> set (map lo_private (w_rtsp_locs w)). v_src w q \<noteq> None"
    and wfD_rtsp: "v_rtsp w r' = Some s \<Longrightarrow> \<exists>p es. v_sess w s = Some (p, Some r', es)"
    and wfD_rtsp_list: "distinct (w_rtsp_list w) \<and> (\<forall>r \<in> set (w_rtsp_list w). v_rtsp w r \<noteq> None)"
    and wfD_slot: "v_sess w s = Some (p, r, es) \<Longrightarrow> i < MAX_TRACKS \<Longrightarrow> es ! i = Some e \<Longrightarrow>
        (\<exists>v tr. v_ep w e = Some (s, v, tr)) \<and> (\<forall>j < MAX_TRACKS. es ! j = Some e \<longrightarrow> j = i) \<and>
        (\<forall>l q ls ts. p = Some l \<longrightarrow> v_live w l = Some (s, q) \<longrightarrow> v_src w q = Some (ls, ts) \<longrightarrow> snd (ts ! i))"
    and wfD_ep: "v_ep w e = Some (s, v, tr) \<Longrightarrow> \<exists>p r es i. v_sess w s = Some (p, r, es) \<and> i < MAX_TRACKS \<and> es ! i = Some e"
    and wfD_inter: "v_ep w e = Some (s, v, Trans_inter c a b) \<Longrightarrow>
        \<exists>re se we ich. v_conn w c = Some (re, se, we, CONN_PROTO_RTSP, PS_rtsp ich) \<and> a < MAX_INTERLEAVE_CHANNELS \<and>
           b < MAX_INTERLEAVE_CHANNELS \<and> a \<noteq> b \<and> ich ! a = (Some e, False) \<and> ich ! b = (Some e, True)"
    and wfD_conn: "v_conn w c = Some (re, se, we, pr, ps) \<Longrightarrow> ps = PS_null \<or> pr = CONN_PROTO_RTSP \<and> (\<exists>ich. ps = PS_rtsp ich \<and>
        length ich = MAX_INTERLEAVE_CHANNELS \<and> (\<forall>i < MAX_INTERLEAVE_CHANNELS. \<forall>e rt. ich ! i = (Some e, rt) \<longrightarrow>
           (\<exists>s v a b. v_ep w e = Some (s, v, Trans_inter c a b) \<and> i = (if rt then b else a))))"
    and wfD_conn_list: "distinct (w_conn_list w) \<and> (\<forall>c \<in> set (w_conn_list w). v_conn w c \<noteq> None)"
    and wfD_http: "v_http w h = Some (b', hs) \<Longrightarrow> \<not> b' \<and> hs = []"
    and wfD_http_list: "\<forall>h \<in> set (w_http_list w). v_http w h \<noteq> None"
    and wfD_ev: "v_ev w k = Some (f, d, False) \<Longrightarrow> target w k f d"
    and wfD_fresh: "w_next w \<le> n \<Longrightarrow> v_sess w n = None \<and> v_live w n = None \<and> v_src w n = None \<and> v_ep w n = None \<and> v_conn w n = None \<and> v_rtsp w n = None"
    and wfD_streams: "wf_streams (w_streams w)"
    and wfD_cons: "v_cons w d = Some c' \<Longrightarrow> consumer_ok w c'"
proof -
  have P: "wf_sess w" "wf_live w" "wf_src w" "wf_rtsp w" "wf_slot w" "wf_ep w" "wf_conn w" "wf_http w" "wf_ev w" "wf_fresh w"
    and S: "wf_streams (w_streams w)" and C: "wf_cons w" using assms by (simp_all add: wf_def)
  show "v_sess w s = Some (p, r, es) \<Longrightarrow> length es = MAX_TRACKS \<and> (\<exists>l q. p = Some l \<and> v_live w l = Some (s, q)) \<and>
        (\<forall>k. r = Some k \<longrightarrow> v_rtsp w k = Some s)"
    using conjunct1 [OF P(1) [unfolded wf_sess_def]] by blast
  show "distinct (w_sess_list w) \<and> (\<forall>s \<in> set (w_sess_list w). v_sess w s \<noteq> None)" using P(1) by (simp add: wf_sess_def)
  show "v_live w l = Some (s, q) \<Longrightarrow> (\<exists>r es. v_sess w s = Some (Some l, r, es)) \<and> (\<exists>ls ts. v_src w q = Some (ls, ts) \<and> l \<in> set ls)"
    using P(2) unfolding wf_live_def by blast
  show "v_src w q = Some (ls, ts) \<Longrightarrow> length ts = MAX_TRACKS \<and> distinct ls \<and> (\<forall>l \<in> set ls. \<exists>s. v_live w l = Some (s, q)) \<and>
        (snd (ts ! 1) \<longrightarrow> snd (ts ! 0)) \<and> (\<forall>i < MAX_TRACKS. snd (ts ! i) \<longrightarrow> (\<exists>d. fst (ts ! i) = Some d \<and> v_dest w d))"
    using conjunct1 [OF P(3) [unfolded wf_src_def]] by blast
  show "\<forall>q \<in> set (map lo_private (w_rtsp_locs w)). v_src w q \<noteq> None" using P(3) by (simp add: wf_src_def)
  show "v_rtsp w r' = Some s \<Longrightarrow> \<exists>p es. v_sess w s = Some (p, Some r', es)" using P(4) unfolding wf_rtsp_def by blast
  show "distinct (w_rtsp_list w) \<and> (\<forall>r \<in> set (w_rtsp_list w). v_rtsp w r \<noteq> None)" using P(4) by (simp add: wf_rtsp_def)
  show "v_sess w s = Some (p, r, es) \<Longrightarrow> i < MAX_TRACKS \<Longrightarrow> es ! i = Some e \<Longrightarrow>
        (\<exists>v tr. v_ep w e = Some (s, v, tr)) \<and> (\<forall>j < MAX_TRACKS. es ! j = Some e \<longrightarrow> j = i) \<and>
        (\<forall>l q ls ts. p = Some l \<longrightarrow> v_live w l = Some (s, q) \<longrightarrow> v_src w q = Some (ls, ts) \<longrightarrow> snd (ts ! i))"
    using P(5) unfolding wf_slot_def by blast
  show "v_ep w e = Some (s, v, tr) \<Longrightarrow> \<exists>p r es i. v_sess w s = Some (p, r, es) \<and> i < MAX_TRACKS \<and> es ! i = Some e"
    using P(6) unfolding wf_ep_def by blast
  show "v_ep w e = Some (s, v, Trans_inter c a b) \<Longrightarrow>
        \<exists>re se we ich. v_conn w c = Some (re, se, we, CONN_PROTO_RTSP, PS_rtsp ich) \<and> a < MAX_INTERLEAVE_CHANNELS \<and>
           b < MAX_INTERLEAVE_CHANNELS \<and> a \<noteq> b \<and> ich ! a = (Some e, False) \<and> ich ! b = (Some e, True)"
    using P(6) unfolding wf_ep_def by blast
  show "v_conn w c = Some (re, se, we, pr, ps) \<Longrightarrow> ps = PS_null \<or> pr = CONN_PROTO_RTSP \<and> (\<exists>ich. ps = PS_rtsp ich \<and>
        length ich = MAX_INTERLEAVE_CHANNELS \<and> (\<forall>i < MAX_INTERLEAVE_CHANNELS. \<forall>e rt. ich ! i = (Some e, rt) \<longrightarrow>
           (\<exists>s v a b. v_ep w e = Some (s, v, Trans_inter c a b) \<and> i = (if rt then b else a))))"
    using conjunct1 [OF P(7) [unfolded wf_conn_def]] by blast
  show "distinct (w_conn_list w) \<and> (\<forall>c \<in> set (w_conn_list w). v_conn w c \<noteq> None)" using P(7) by (simp add: wf_conn_def)
  show "v_http w h = Some (b', hs) \<Longrightarrow> \<not> b' \<and> hs = []" using P(8) unfolding wf_http_def by blast
  show "\<forall>h \<in> set (w_http_list w). v_http w h \<noteq> None" using P(8) by (simp add: wf_http_def)
  show "v_ev w k = Some (f, d, False) \<Longrightarrow> target w k f d" using P(9) unfolding wf_ev_def by blast
  show "w_next w \<le> n \<Longrightarrow> v_sess w n = None \<and> v_live w n = None \<and> v_src w n = None \<and> v_ep w n = None \<and> v_conn w n = None \<and> v_rtsp w n = None"
    using P(10) unfolding wf_fresh_def by blast
  show "wf_streams (w_streams w)" by (rule S)
  show "v_cons w d = Some c' \<Longrightarrow> consumer_ok w c'" using C unfolding wf_cons_def by blast
qed

lemma same_shape_v_dest:
  assumes "same_shape (w_streams w) (w_streams w')"
  shows "v_dest w' = v_dest w" "v_strm w' = v_strm w" "v_cons w' = v_cons w"
  using assms unfolding v_dest_def v_strm_def v_cons_def same_shape_def fun_eq_iff by (metis option.map_disc_iff)+

text \<open>Sources and HTTP locations stay, and so do the destinations.\<close>

lemma wf_cons_kept:
  assumes "wf w" "same_shape (w_streams w) (w_streams w')" "\<And>q. v_src w q \<noteq> None \<Longrightarrow> v_src w' q \<noteq> None" "v_http w' = v_http w"
  shows "wf_cons w'"
  unfolding wf_cons_def
proof (intro allI impI)
  fix d p assume "v_cons w' d = Some p"
  then have "consumer_ok w p" using wfD_cons [OF assms(1)] by (simp add: same_shape_v_dest(3) [OF assms(2)])
  then show "consumer_ok w' p"
    using assms(3) by (auto simp: consumer_ok_def assms(4) same_shape_v_dest(2) [OF assms(2)] split: consumer.splits)
qed

lemma wf_sim:
  assumes "sim w w'" "wf w"
  shows "wf w'"
proof -
  have v: "v_sess w' = v_sess w" "v_live w' = v_live w" "v_src w' = v_src w" "v_ep w' = v_ep w" "v_conn w' = v_conn w"
    "v_rtsp w' = v_rtsp w" "v_ev w' = v_ev w" "v_http w' = v_http w" "v_dest w' = v_dest w" "v_strm w' = v_strm w"
    "w_sess_list w' = w_sess_list w" "w_rtsp_list w' = w_rtsp_list w" "w_conn_list w' = w_conn_list w"
    "w_http_list w' = w_http_list w" "map lo_private (w_rtsp_locs w') = map lo_private (w_rtsp_locs w)" "w_next w' = w_next w"
    using assms(1) same_shape_v_dest by (auto simp: sim_def)
  have "wf_streams (w_streams w')" using assms by (auto simp: sim_def wf_def intro: wf_same_shape)
  moreover have "target w' = target w" unfolding target_def v by blast
  moreover from this have "wf_sess w' = wf_sess w" "wf_live w' = wf_live w" "wf_src w' = wf_src w" "wf_rtsp w' = wf_rtsp w"
    "wf_slot w' = wf_slot w" "wf_ep w' = wf_ep w" "wf_conn w' = wf_conn w" "wf_http w' = wf_http w" "wf_ev w' = wf_ev w"
    "wf_fresh w' = wf_fresh w" unfolding wf_parts by (simp_all only: v)
  moreover have "wf_cons w'" by (rule wf_cons_kept [OF assms(2)]) (use assms(1) in \<open>simp_all add: sim_def\<close>)
  ultimately show ?thesis using assms(2) unfolding wf_def by simp
qed

section \<open>Operations that keep the views\<close>

lemma ev_dead_enabled [simp]: "ev_dead (set_event_enabled l e b) i = ev_dead l i"
  by (auto simp: ev_dead_def set_event_enabled_def has_flag_bits clear_flags_def set_flags_def upd_def Let_def bit_simps)

lemma enabled_simps [simp]:
  "func (evs (set_event_enabled l e b) i) = func (evs l i)" "data (evs (set_event_enabled l e b) i) = data (evs l i)"
  "next_id (set_event_enabled l e b) = next_id l"
  by (simp_all add: set_event_enabled_def clear_flags_def set_flags_def upd_def Let_def)

lemma sim_call: "sim w (snd (call w))"
  by (simp add: sim_def view_defs call_def fun_eq_iff)

lemma sim_calls: "sim w (w\<lparr>w_calls := k\<rparr>)"
  by (simp add: sim_def view_defs fun_eq_iff)

lemma sim_now: "sim w (snd (now E w))"
  by (simp add: sim_def view_defs now_def time_now_def ev_dead_def has_flag_def fun_eq_iff)

lemma sim_enable: "sim w (ev_enable w e b)"
  by (simp add: sim_def view_defs ev_enable_def fun_eq_iff)

lemma sim_close: "sim w (close_fd w fd)"
  by (simp add: sim_def view_defs close_fd_def fun_eq_iff)

lemma sim_out: "sim w (w\<lparr>w_out := o'\<rparr>)"
  by (simp add: sim_def view_defs fun_eq_iff)

lemma sim_secret: "sim w (w\<lparr>w_secret := s\<rparr>)"
  by (simp add: sim_def view_defs fun_eq_iff)

lemma sim_put_conn:
  assumes "w_conns w c = Some x" "c_read_event y = c_read_event x" "c_second_read_event y = c_second_read_event x"
    "c_write_event y = c_write_event x" "c_proto y = c_proto x" "c_proto_state y = c_proto_state x"
  shows "sim w (put_conn w c y)"
  using assms by (auto simp: sim_def view_defs put_conn_def fun_eq_iff)

lemma sim_put_ep:
  assumes "w_eps w e = Some x" "ep_session y = ep_session x" "ep_rtcp_send_event y = ep_rtcp_send_event x" "ep_trans y = ep_trans x"
  shows "sim w (put_ep w e y)"
  using assms by (auto simp: sim_def view_defs put_ep_def fun_eq_iff)

lemma sim_put_sess:
  assumes "w_sess w s = Some x" "se_private y = se_private x" "se_control y = se_control x" "se_ep y = se_ep x"
  shows "sim w (put_sess w s y)"
  using assms by (auto simp: sim_def view_defs put_sess_def fun_eq_iff)

lemma sim_put_live:
  assumes "w_lives w l = Some x" "ls_sess y = ls_sess x" "ls_source y = ls_source x"
  shows "sim w (put_live w l y)"
  using assms by (auto simp: sim_def view_defs put_live_def fun_eq_iff)

lemma sim_put_source:
  assumes "w_sources w q = Some x" "so_sess_list y = so_sess_list x"
    "map (\<lambda>t. (tr_stream t, tr_rtp t \<noteq> None)) (so_track y) = map (\<lambda>t. (tr_stream t, tr_rtp t \<noteq> None)) (so_track x)"
  shows "sim w (put_source w q y)"
  using assms by (auto simp: sim_def view_defs put_source_def fun_eq_iff)

subsection \<open>Streams\<close>

lemma safe_update_waiting:
  assumes "wf_streams st" "st_dests st d = Some y"
  shows "safe (update_waiting st d b) (\<lambda>(st', _). same_shape st st')"
proof -
  obtain st' call where "update_waiting st d b = Inr (st', call)" "st' = (if is_waiting st d = b then st else put_waiting st d b)"
    using update_waiting_wf [OF assms] by blast
  then show ?thesis using same_shape_put by auto
qed

lemma safe_set_waiting_upto:
  assumes "wf_streams st" "st_dests st d = Some y"
  shows "safe (set_waiting_upto n st d b) (same_shape st)"
  using assms
proof (induction n arbitrary: st d y)
  case (Suc n)
  show ?case
    unfolding set_waiting_upto.simps
  proof (rule safe_bind [OF safe_update_waiting [OF Suc.prems]], clarify)
    fix st' call assume sh: "same_shape st st'"
    have wf': "wf_streams st'" by (rule wf_same_shape [OF sh Suc.prems(1)])
    obtain y' where y': "st_dests st' d = Some y'" using same_shape_dest(1) [OF sh Suc.prems(2)] by blast
    obtain s where s: "st_streams st' (de_stream y') = Some s" using wf_streamsD(5) [OF wf' y'] by blast
    have "safe (set_waiting_upto n st' p b) (same_shape st)" if p: "st_private s = Some p" "st_set_running s = F_convert" for p
    proof -
      obtain z where "st_dests st' p = Some z" using wf_streamsD(4) [OF wf' s p(2)] p(1) by auto
      from Suc.IH [OF wf' this] show ?thesis by (rule safe_mono) (rule same_shape_trans [OF sh])
    qed
    then show "safe (if \<not> call then Inr st' else rbind (get_dest st' d) (\<lambda>x. rbind (get_stream st' (de_stream x)) (\<lambda>s.
         case st_set_running s of
           F_null \<Rightarrow> Inl NullDeref
         | F_uninit \<Rightarrow> Inl OutOfBounds
         | F_driver \<Rightarrow> Inr (call_driver st' (Call_set_running (de_stream x) b))
         | F_convert \<Rightarrow> (case st_private s of None \<Rightarrow> Inl NullDeref | Some p \<Rightarrow> set_waiting_upto n st' p b)))) (same_shape st)"
      using sh y' s same_shape_call [OF sh]
      by (simp add: get_dest_def get_stream_def split: fptr.split option.split)
  qed
qed simp

lemma safe_stream_call:
  assumes "wf_streams st" "st_dests st d = Some y"
  shows "safe (new_listener_notify st d) (same_shape st)" "safe (get_enc_pipe_num st d) (same_shape st)"
proof -
  obtain s where s: "st_streams st (de_stream y) = Some s" using wf_streamsD(5) [OF assms] by blast
  show "safe (new_listener_notify st d) (same_shape st)" "safe (get_enc_pipe_num st d) (same_shape st)"
    using s assms(2)
    by (simp_all add: new_listener_notify_def get_enc_pipe_num_def get_dest_def get_stream_def same_shape_call split: fptr.split)
qed

lemma sim_streams: "same_shape (w_streams w) st \<Longrightarrow> sim w (w\<lparr>w_streams := st\<rparr>)"
  by (auto simp: sim_def view_defs same_shape_def fun_eq_iff)

lemma safe_stream_do: "safe (f (w_streams w)) (same_shape (w_streams w)) \<Longrightarrow> safe (stream_do w f) (sim w)"
  unfolding stream_do_def by (erule safe_bind) (simp add: sim_streams)

lemma safe_set_waiting:
  assumes "wf w" "v_dest w d"
  shows "safe (stream_do w (\<lambda>st. set_waiting st d b)) (sim w)"
  using assms safe_set_waiting_upto by (intro safe_stream_do) (auto simp: set_waiting_def v_dest_def wf_def simp del: set_waiting_upto.simps)

lemma safe_listener:
  assumes "wf w" "v_dest w d"
  shows "safe (stream_do w (\<lambda>st. new_listener_notify st d)) (sim w)" "safe (stream_do w (\<lambda>st. get_enc_pipe_num st d)) (sim w)"
  using assms by (auto intro!: safe_stream_do safe_stream_call simp: v_dest_def wf_def)

subsection \<open>Sending\<close>

lemma safe_conn_send: "w_conns w c \<noteq> None \<Longrightarrow> safe (conn_send w c d) (\<lambda>(w', _). sim w w')"
  unfolding conn_send_def
  by (rule safe_deref) (auto split: prod.split intro!: sim_trans [OF sim_put_conn sim_enable])

lemma safe_interleave_send:
  assumes "w_conns w c \<noteq> None"
  shows "safe (conn_interleave_send E w c ch v) (\<lambda>(w', _). sim w w')"
proof -
  have s: "sim w (put_conn (w\<lparr>w_calls := k\<rparr>) c (x\<lparr>c_ring := r\<rparr>))" if "w_conns w c = Some x" for x r k
    by (rule sim_trans [OF sim_calls sim_put_conn]) (use that in auto)
  show ?thesis
    unfolding conn_interleave_send_def using assms
    by (rule safe_deref)
       (auto simp: call_def Let_def split: option.split intro: s sim_trans [OF s sim_out] sim_trans [OF s sim_enable]
          sim_trans [OF sim_trans [OF s sim_out] sim_enable])
qed

section \<open>Deleting an endpoint\<close>

lemma remove_flag_set: "ev_dead (remove_event l e) i \<longleftrightarrow> i = e \<or> ev_dead l i"
  by (auto simp: ev_dead_def remove_event_def has_flag_bits set_flags_def clear_flags_def upd_def bit_simps)

lemma remove_event_simps [simp]:
  "func (evs (remove_event l e) i) = func (evs l i)" "data (evs (remove_event l e) i) = data (evs l i)"
  "next_id (remove_event l e) = next_id l"
  by (simp_all add: remove_event_def clear_flags_def set_flags_def upd_def)

text \<open>\<open>sim_but_ev w w'\<close>: the same views up to the events, some of which may have been removed.\<close>

definition sim_but_ev :: "world \<Rightarrow> world \<Rightarrow> evid set \<Rightarrow> bool" where
  "sim_but_ev w w' R \<longleftrightarrow>
     v_sess w' = v_sess w \<and> v_live w' = v_live w \<and> v_src w' = v_src w \<and> v_ep w' = v_ep w \<and> v_conn w' = v_conn w \<and>
     v_rtsp w' = v_rtsp w \<and> v_http w' = v_http w \<and> same_shape (w_streams w) (w_streams w') \<and>
     (\<forall>i. v_ev w' i = map_option (\<lambda>(f, d, b). (f, d, b \<or> i \<in> R)) (v_ev w i)) \<and>
     w_sess_list w' = w_sess_list w \<and> w_rtsp_list w' = w_rtsp_list w \<and> w_conn_list w' = w_conn_list w \<and>
     w_http_list w' = w_http_list w \<and> map lo_private (w_rtsp_locs w') = map lo_private (w_rtsp_locs w) \<and>
     w_next w' = w_next w \<and> next_id (w_loop w') = next_id (w_loop w)"

lemma but_ev_remove: "sim_but_ev w (ev_remove w e) {e}"
  by (auto simp: sim_but_ev_def view_defs ev_remove_def remove_flag_set fun_eq_iff)

lemma but_ev_sim: "sim w w' \<Longrightarrow> sim_but_ev w w' {}"
proof -
  have "x = map_option (\<lambda>(f, d, b). (f, d, b \<or> i \<in> {})) x" for x :: "(callback \<times> nat \<times> bool) option" and i :: nat
    by (cases x) auto
  then show "sim w w' \<Longrightarrow> sim_but_ev w w' {}" by (simp add: sim_but_ev_def sim_def)
qed

lemma but_ev_trans: "sim_but_ev a b R \<Longrightarrow> sim_but_ev b c S \<Longrightarrow> sim_but_ev a c (R \<union> S)"
proof -
  have "map_option (\<lambda>(f, d, b). (f, d, b \<or> i \<in> S)) (map_option (\<lambda>(f, d, b). (f, d, b \<or> i \<in> R)) x) =
      map_option (\<lambda>(f, d, b). (f, d, b \<or> i \<in> R \<union> S)) x" for x :: "(callback \<times> nat \<times> bool) option" and i
    by (cases x) auto
  then show "sim_but_ev a b R \<Longrightarrow> sim_but_ev b c S \<Longrightarrow> sim_but_ev a c (R \<union> S)"
    unfolding sim_but_ev_def using same_shape_trans [of "w_streams a" "w_streams b" "w_streams c"] by simp
qed

text \<open>The channels without an endpoint.\<close>

definition unchan :: "nat \<Rightarrow> (nat option \<times> bool) list \<Rightarrow> (nat option \<times> bool) list" where
  "unchan e ich = map (\<lambda>(x, rt). (if x = Some e then None else x, rt)) ich"

definition unchan_conn :: "nat \<Rightarrow> evid \<times> evid option \<times> evid \<times> proto \<times> proto_state \<Rightarrow> evid \<times> evid option \<times> evid \<times> proto \<times> proto_state" where
  "unchan_conn e v = (case v of (re, se, we, pr, ps) \<Rightarrow>
     (re, se, we, pr, case ps of PS_rtsp ich \<Rightarrow> PS_rtsp (unchan e ich) | _ \<Rightarrow> ps))"

lemma unchan_nth: "i < length ich \<Longrightarrow> unchan e ich ! i = (case ich ! i of (x, rt) \<Rightarrow> (if x = Some e then None else x, rt))"
  by (simp add: unchan_def)

lemma unchan_absent: "(\<And>i rt. i < length ich \<Longrightarrow> ich ! i \<noteq> (Some e, rt)) \<Longrightarrow> unchan e ich = ich"
  by (rule nth_equalityI) (auto simp: unchan_nth unchan_def split: prod.splits)

text \<open>What \<open>del_rtp_endpoint\<close> does to the views.\<close>

definition is_ep_cb :: "callback \<Rightarrow> bool" where
  "is_ep_cb f \<longleftrightarrow> f \<in> {Cb_rtcp_fire, Cb_udp_rtp_read, Cb_udp_rtcp_read}"

definition deleted :: "world \<Rightarrow> world \<Rightarrow> nat \<Rightarrow> bool" where
  "deleted w w' e \<longleftrightarrow>
     v_sess w' = v_sess w \<and> v_live w' = v_live w \<and> v_src w' = v_src w \<and> v_ep w' = (v_ep w)(e := None) \<and>
     v_conn w' = (\<lambda>c. map_option (unchan_conn e) (v_conn w c)) \<and>
     v_rtsp w' = v_rtsp w \<and> v_http w' = v_http w \<and> same_shape (w_streams w) (w_streams w') \<and>
     (\<forall>i f d. v_ev w' i = Some (f, d, False) \<longrightarrow> v_ev w i = Some (f, d, False) \<and> \<not> (is_ep_cb f \<and> d = e)) \<and>
     w_sess_list w' = w_sess_list w \<and> w_rtsp_list w' = w_rtsp_list w \<and> w_conn_list w' = w_conn_list w \<and>
     w_http_list w' = w_http_list w \<and> map lo_private (w_rtsp_locs w') = map lo_private (w_rtsp_locs w) \<and>
     w_next w' = w_next w \<and> next_id (w_loop w') = next_id (w_loop w)"

text \<open>The events of an endpoint.\<close>

definition ep_events :: "evid \<times> transport \<Rightarrow> evid set" where
  "ep_events vt = (case vt of (v, tr) \<Rightarrow> {v} \<union> (case tr of Trans_udp _ _ _ i _ j \<Rightarrow> {i, j} | _ \<Rightarrow> {}))"

lemma deletedI:
  assumes "wf w" "v_ep w e = Some (s, v, tr)" "sim_but_ev w w1 (ep_events (v, tr))"
    and "v_sess w' = v_sess w1" "v_live w' = v_live w1" "v_src w' = v_src w1" "v_ep w' = (v_ep w1)(e := None)"
    and "v_conn w' = (\<lambda>c. map_option (unchan_conn e) (v_conn w1 c))"
    and "v_rtsp w' = v_rtsp w1" "v_http w' = v_http w1" "w_streams w' = w_streams w1" "w_loop w' = w_loop w1"
    and "w_sess_list w' = w_sess_list w1" "w_rtsp_list w' = w_rtsp_list w1" "w_conn_list w' = w_conn_list w1"
    and "w_http_list w' = w_http_list w1" "w_rtsp_locs w' = w_rtsp_locs w1" "w_next w' = w_next w1"
  shows "deleted w w' e"
proof -
  have ev: "v_ev w' = v_ev w1" using assms(12) by (simp add: v_ev_def fun_eq_iff)
  have "v_ev w i = Some (f, d, False) \<and> \<not> (is_ep_cb f \<and> d = e)" if "v_ev w' i = Some (f, d, False)" for i f d
  proof -
    have i: "v_ev w i = Some (f, d, False)" "i \<notin> ep_events (v, tr)"
      using that assms(3) by (auto simp: ev sim_but_ev_def)
    then have "target w i f d" using wfD_ev [OF assms(1)] by blast
    with i(2) assms(2) show ?thesis using i(1) by (auto simp: target_def is_ep_cb_def ep_events_def)
  qed
  with assms show ?thesis by (simp add: deleted_def sim_but_ev_def)
qed

lemma conn_no_ep:
  assumes "wf w" "v_conn w c = Some x" "\<And>a b s v. v_ep w e \<noteq> Some (s, v, Trans_inter c a b)"
  shows "unchan_conn e x = x"
proof -
  obtain re se we pr ps where x: "x = (re, se, we, pr, ps)" by (cases x)
  have "unchan e ich = ich" if "ps = PS_rtsp ich" for ich
  proof (rule unchan_absent)
    fix i rt assume i: "i < length ich"
    have "length ich = MAX_INTERLEAVE_CHANNELS \<and> (\<forall>i < MAX_INTERLEAVE_CHANNELS. \<forall>e rt. ich ! i = (Some e, rt) \<longrightarrow>
           (\<exists>s v a b. v_ep w e = Some (s, v, Trans_inter c a b) \<and> i = (if rt then b else a)))"
      using wfD_conn [OF assms(1, 2) [unfolded x]] that by simp
    with i assms(3) show "ich ! i \<noteq> (Some e, rt)" by auto
  qed
  then show ?thesis by (auto simp: x unchan_conn_def split: proto_state.split)
qed

lemma interleave_disconnect_eq:
  assumes "w_conns w c = Some x" "c_proto_state x = PS_rtsp ich" "a < length ich"
  shows "interleave_disconnect w c a = Inr (put_conn w c (x\<lparr>c_proto_state := PS_rtsp (ich[a := (None, snd (ich ! a))])\<rparr>))"
  using assms by (simp add: interleave_disconnect_def deref_def case_prod_beta)

lemma drop_ep_views:
  "v_sess (w\<lparr>w_eps := (w_eps w)(e := None)\<rparr>) = v_sess w" "v_live (w\<lparr>w_eps := (w_eps w)(e := None)\<rparr>) = v_live w"
  "v_src (w\<lparr>w_eps := (w_eps w)(e := None)\<rparr>) = v_src w" "v_ep (w\<lparr>w_eps := (w_eps w)(e := None)\<rparr>) = (v_ep w)(e := None)"
  "v_conn (w\<lparr>w_eps := (w_eps w)(e := None)\<rparr>) = v_conn w" "v_rtsp (w\<lparr>w_eps := (w_eps w)(e := None)\<rparr>) = v_rtsp w"
  "v_http (w\<lparr>w_eps := (w_eps w)(e := None)\<rparr>) = v_http w"
  by (auto simp: view_defs fun_eq_iff)

lemma unchan_none:
  assumes "wf w" "\<And>c a b s v. v_ep w e \<noteq> Some (s, v, Trans_inter c a b)"
  shows "(\<lambda>c. map_option (unchan_conn e) (v_conn w c)) = v_conn w"
proof
  fix c
  show "map_option (unchan_conn e) (v_conn w c) = v_conn w c"
    using conn_no_ep [OF assms(1) _ assms(2)] by (cases "v_conn w c") auto
qed

lemma wf_inter:
  assumes "wf w" "v_ep w e = Some (s, v, Trans_inter c a b)"
  obtains x ich where "w_conns w c = Some x" "c_proto x = CONN_PROTO_RTSP" "c_proto_state x = PS_rtsp ich"
    "length ich = MAX_INTERLEAVE_CHANNELS" "a < MAX_INTERLEAVE_CHANNELS" "b < MAX_INTERLEAVE_CHANNELS" "a \<noteq> b"
    "ich ! a = (Some e, False)" "ich ! b = (Some e, True)"
    "\<And>i rt. i < MAX_INTERLEAVE_CHANNELS \<Longrightarrow> ich ! i = (Some e, rt) \<Longrightarrow> i = (if rt then b else a)"
proof -
  obtain re se we ich where v: "v_conn w c = Some (re, se, we, CONN_PROTO_RTSP, PS_rtsp ich)" and
    ab: "a < MAX_INTERLEAVE_CHANNELS" "b < MAX_INTERLEAVE_CHANNELS" "a \<noteq> b" "ich ! a = (Some e, False)" "ich ! b = (Some e, True)"
    using wfD_inter [OF assms] by blast
  have i: "length ich = MAX_INTERLEAVE_CHANNELS \<and> (\<forall>i < MAX_INTERLEAVE_CHANNELS. \<forall>e rt. ich ! i = (Some e, rt) \<longrightarrow>
      (\<exists>s v a b. v_ep w e = Some (s, v, Trans_inter c a b) \<and> i = (if rt then b else a)))"
    using wfD_conn [OF assms(1) v] by simp
  obtain x where x: "w_conns w c = Some x" "c_proto x = CONN_PROTO_RTSP" "c_proto_state x = PS_rtsp ich"
    using v by (auto simp: v_conn_def)
  have "i = (if rt then b else a)" if "i < MAX_INTERLEAVE_CHANNELS" "ich ! i = (Some e, rt)" for i rt
    using i that assms(2) by fastforce
  with that [OF x _ ab] i show ?thesis by blast
qed

lemma safe_del_rtp_endpoint:
  assumes "wf w" "w_eps w e = Some ep"
  shows "safe (del_rtp_endpoint w e) (\<lambda>w'. deleted w w' e)"
proof -
  let ?v = "ep_rtcp_send_event ep"
  have v: "v_ep w e = Some (ep_session ep, ?v, ep_trans ep)" using assms(2) by (simp add: v_ep_def)
  have r0: "sim_but_ev w (ev_remove w ?v) {?v}" by (rule but_ev_remove)
  show ?thesis
  proof (cases "ep_trans ep")
    case No_trans
    then have "(\<lambda>c. map_option (unchan_conn e) (v_conn w c)) = v_conn w" using v by (intro unchan_none [OF assms(1)]) simp
    moreover have "v_conn (ev_remove w ?v) = v_conn w" using r0 by (simp add: sim_but_ev_def)
    ultimately have "deleted w ((ev_remove w ?v)\<lparr>w_eps := (w_eps (ev_remove w ?v))(e := None)\<rparr>) e"
      using r0 No_trans by (intro deletedI [OF assms(1) v]) (simp_all add: ep_events_def drop_ep_views)
    then show ?thesis using assms(2) No_trans by (simp add: del_rtp_endpoint_def deref_def Let_def)
  next
    case (Trans_udp ad po fd i fd' j)
    let ?w = "close_fd (ev_remove (close_fd (ev_remove (ev_remove w ?v) i) fd) j) fd'"
    have "sim_but_ev w ?w ((((({?v} \<union> {i}) \<union> {}) \<union> {j}) \<union> {}))"
      by (rule but_ev_trans [OF but_ev_trans [OF but_ev_trans [OF but_ev_trans [OF r0 but_ev_remove [of _ i]]
            but_ev_sim [OF sim_close [of _ fd]]] but_ev_remove [of _ j]] but_ev_sim [OF sim_close [of _ fd']]])
    then have r: "sim_but_ev w ?w (ep_events (?v, ep_trans ep))" using Trans_udp by (simp add: ep_events_def insert_commute)
    have "(\<lambda>c. map_option (unchan_conn e) (v_conn w c)) = v_conn w" using v Trans_udp by (intro unchan_none [OF assms(1)]) simp
    moreover have "v_conn ?w = v_conn w" using r by (simp add: sim_but_ev_def)
    ultimately have "deleted w (?w\<lparr>w_eps := (w_eps ?w)(e := None)\<rparr>) e"
      using r by (intro deletedI [OF assms(1) v]) (simp_all add: drop_ep_views)
    then show ?thesis using assms(2) Trans_udp by (simp add: del_rtp_endpoint_def deref_def Let_def)
  next
    case (Trans_inter c a b)
    obtain x ich where x: "w_conns w c = Some x" "c_proto_state x = PS_rtsp ich" "length ich = MAX_INTERLEAVE_CHANNELS"
      and ab: "a < MAX_INTERLEAVE_CHANNELS" "b < MAX_INTERLEAVE_CHANNELS" "a \<noteq> b" "ich ! a = (Some e, False)" "ich ! b = (Some e, True)"
      and only: "\<And>i rt. i < MAX_INTERLEAVE_CHANNELS \<Longrightarrow> ich ! i = (Some e, rt) \<Longrightarrow> i = (if rt then b else a)"
      using wf_inter [OF assms(1) v [unfolded Trans_inter]] by metis
    let ?w = "ev_remove w ?v"
    let ?ich = "ich[a := (None, False), b := (None, True)]"
    have un: "unchan e ich = ?ich"
    proof (rule nth_equalityI)
      fix i assume "i < length (unchan e ich)"
      then have i: "i < MAX_INTERLEAVE_CHANNELS" "i < length ich" using x(3) by (simp_all add: unchan_def)
      show "unchan e ich ! i = ?ich ! i"
      proof (cases "i = a \<or> i = b")
        case True
        then show ?thesis using ab x(3) i by (auto simp: unchan_nth nth_list_update)
      next
        case False
        then have "fst (ich ! i) \<noteq> Some e" using only [OF i(1), of "snd (ich ! i)"] by (metis prod.collapse)
        then show ?thesis using False i by (simp add: unchan_nth case_prod_beta)
      qed
    qed (simp add: unchan_def)
    let ?w' = "put_conn ?w c (x\<lparr>c_proto_state := PS_rtsp ?ich\<rparr>)"
    have wc: "w_conns ?w c = Some x" using x(1) by (simp add: ev_remove_def)
    have "interleave_disconnect ?w c a = Inr (put_conn ?w c (x\<lparr>c_proto_state := PS_rtsp (ich[a := (None, False)])\<rparr>))"
      using interleave_disconnect_eq [OF wc x(2)] ab x(3) by simp
    moreover have "interleave_disconnect (put_conn ?w c (x\<lparr>c_proto_state := PS_rtsp (ich[a := (None, False)])\<rparr>)) c b = Inr ?w'"
      using interleave_disconnect_eq [of "put_conn ?w c (x\<lparr>c_proto_state := PS_rtsp (ich[a := (None, False)])\<rparr>)" c
          "x\<lparr>c_proto_state := PS_rtsp (ich[a := (None, False)])\<rparr>" "ich[a := (None, False)]" b] ab x(3)
      by (simp add: put_conn_def)
    ultimately have d: "del_rtp_endpoint w e = Inr (?w'\<lparr>w_eps := (w_eps ?w')(e := None)\<rparr>)"
      using assms(2) Trans_inter by (simp add: del_rtp_endpoint_def deref_def Let_def)
    have vc: "v_conn ?w' = (\<lambda>c. map_option (unchan_conn e) (v_conn ?w c))"
    proof
      fix c'
      show "v_conn ?w' c' = map_option (unchan_conn e) (v_conn ?w c')"
      proof (cases "c' = c")
        case True
        then show ?thesis using wc x(2) by (simp add: v_conn_def put_conn_def unchan_conn_def un)
      next
        case False
        have e: "v_conn ?w = v_conn w" by (simp add: v_conn_def ev_remove_def fun_eq_iff)
        have "unchan_conn e y = y" if "v_conn w c' = Some y" for y
          by (rule conn_no_ep [OF assms(1) that]) (use v Trans_inter False in simp)
        then show ?thesis using False by (cases "v_conn w c'") (simp_all add: e, simp_all add: v_conn_def put_conn_def ev_remove_def)
      qed
    qed
    have o: "v_sess ?w' = v_sess ?w" "v_live ?w' = v_live ?w" "v_src ?w' = v_src ?w" "v_ep ?w' = v_ep ?w" "v_rtsp ?w' = v_rtsp ?w"
      "v_http ?w' = v_http ?w" by (simp_all add: view_defs put_conn_def fun_eq_iff)
    have "deleted w (?w'\<lparr>w_eps := (w_eps ?w')(e := None)\<rparr>) e"
      using r0 Trans_inter by (intro deletedI [OF assms(1) v, of ?w]) (simp_all add: ep_events_def drop_ep_views vc o, simp_all add: put_conn_def)
    then show ?thesis by (simp add: d)
  qed
qed

lemma put_sess_views:
  "v_sess (put_sess w s x) = (v_sess w)(s \<mapsto> (se_private x, se_control x, se_ep x))" "v_live (put_sess w s x) = v_live w"
  "v_src (put_sess w s x) = v_src w" "v_ep (put_sess w s x) = v_ep w" "v_conn (put_sess w s x) = v_conn w"
  "v_rtsp (put_sess w s x) = v_rtsp w" "v_ev (put_sess w s x) = v_ev w" "v_http (put_sess w s x) = v_http w"
  "v_dest (put_sess w s x) = v_dest w" "v_strm (put_sess w s x) = v_strm w"
  by (auto simp: view_defs put_sess_def fun_eq_iff)

lemma put_sess_rest:
  "w_sess_list (put_sess w s x) = w_sess_list w" "w_rtsp_list (put_sess w s x) = w_rtsp_list w" "w_conn_list (put_sess w s x) = w_conn_list w"
  "w_http_list (put_sess w s x) = w_http_list w" "w_rtsp_locs (put_sess w s x) = w_rtsp_locs w" "w_next (put_sess w s x) = w_next w"
  "w_streams (put_sess w s x) = w_streams w" "w_loop (put_sess w s x) = w_loop w"
  by (simp_all add: put_sess_def)

lemma unchan_conn_events: "unchan_conn e (re, se, we, pr, ps) = (re, se, we, pr, snd (snd (snd (snd (unchan_conn e (re, se, we, pr, ps))))))"
  by (simp add: unchan_conn_def)

lemma unchan_conn_null: "unchan_conn e (re, se, we, pr, PS_null) = (re, se, we, pr, PS_null)"
  "unchan_conn e (re, se, we, pr, PS_rtsp ich) = (re, se, we, pr, PS_rtsp (unchan e ich))"
  by (simp_all add: unchan_conn_def)

text \<open>Deleting the endpoint of a track and clearing the slot keeps the invariant.\<close>

lemma wf_deleted:
  assumes wf: "wf w" and del: "deleted w w1 e" and x: "w_sess w1 s = Some x" and i: "i < MAX_TRACKS" and e: "se_ep x ! i = Some e"
  shows "wf (put_sess w1 s (x\<lparr>se_ep := (se_ep x)[i := None]\<rparr>))" (is "wf ?w")
proof -
  let ?p = "se_private x" and ?r = "se_control x" and ?es = "se_ep x"
  have "v_sess w1 s = Some (?p, ?r, ?es)" using x by (simp add: v_sess_def)
  then have vs: "v_sess w s = Some (?p, ?r, ?es)" using del by (simp add: deleted_def)
  have V: "v_sess ?w = (v_sess w)(s \<mapsto> (?p, ?r, ?es[i := None]))" "v_live ?w = v_live w" "v_src ?w = v_src w"
    "v_ep ?w = (v_ep w)(e := None)" "v_conn ?w = (\<lambda>c. map_option (unchan_conn e) (v_conn w c))" "v_rtsp ?w = v_rtsp w"
    "v_http ?w = v_http w" "v_dest ?w = v_dest w" "v_strm ?w = v_strm w"
    using del same_shape_v_dest by (auto simp: put_sess_views deleted_def)
  have L: "w_sess_list ?w = w_sess_list w" "w_rtsp_list ?w = w_rtsp_list w" "w_conn_list ?w = w_conn_list w"
    "w_http_list ?w = w_http_list w" "map lo_private (w_rtsp_locs ?w) = map lo_private (w_rtsp_locs w)" "w_next ?w = w_next w"
    using del by (simp_all add: put_sess_rest deleted_def)
  have len: "length ?es = MAX_TRACKS" using wfD_sess [OF wf vs] by blast
  have own: "\<exists>v tr. v_ep w e = Some (s, v, tr)" "\<forall>j < MAX_TRACKS. ?es ! j = Some e \<longrightarrow> j = i"
    using wfD_slot [OF wf vs i e] by blast+
  have slot: "es' ! j = Some e' \<and> e' \<noteq> e \<and> (\<exists>es0. v_sess w s' = Some (p', r', es0) \<and> es0 ! j = Some e')"
    if "v_sess ?w s' = Some (p', r', es')" "j < MAX_TRACKS" "es' ! j = Some e'" for s' p' r' es' j e'
  proof (cases "s' = s")
    case True
    then have es: "es' = ?es[i := None]" "p' = ?p" "r' = ?r" using that(1) V(1) by auto
    then have "j \<noteq> i" using that(3) len i by auto
    then have "?es ! j = Some e'" using that(3) es by simp
    then show ?thesis using own(2) that(2,3) \<open>j \<noteq> i\<close> vs es True by auto
  next
    case False
    then have v: "v_sess w s' = Some (p', r', es')" using that(1) V(1) by simp
    then have "\<exists>v tr. v_ep w e' = Some (s', v, tr)" using wfD_slot [OF wf v that(2,3)] by blast
    then have "e' \<noteq> e" using own(1) False by auto
    then show ?thesis using v that(3) by blast
  qed
  have "wf_sess ?w"
    unfolding wf_sess_def V(2, 6) L
  proof (intro conjI allI impI)
    fix s' p' r' es' assume "v_sess ?w s' = Some (p', r', es')"
    then obtain es0 where "v_sess w s' = Some (p', r', es0)" "length es' = length es0"
      using vs by (cases "s' = s") (auto simp: V(1))
    with wfD_sess [OF wf this(1)] show "length es' = MAX_TRACKS" "\<exists>l q. p' = Some l \<and> v_live w l = Some (s', q)"
      "\<And>k. r' = Some k \<Longrightarrow> v_rtsp w k = Some s'" by auto
  qed (use wfD_sess_list [OF wf] in \<open>auto simp: V(1)\<close>)
  moreover have "wf_live ?w"
    unfolding wf_live_def V(2, 3)
  proof (intro allI impI)
    fix l s' q assume "v_live w l = Some (s', q)"
    from wfD_live [OF wf this] vs
    show "(\<exists>r es. v_sess ?w s' = Some (Some l, r, es)) \<and> (\<exists>ls ts. v_src w q = Some (ls, ts) \<and> l \<in> set ls)"
      by (cases "s' = s") (auto simp: V(1))
  qed
  moreover have "wf_src ?w" using wf unfolding wf_def wf_src_def V(2, 3, 8) L by blast
  moreover have "wf_rtsp ?w"
    unfolding wf_rtsp_def V(6) L
  proof (intro conjI allI impI)
    fix r' s' assume "v_rtsp w r' = Some s'"
    from wfD_rtsp [OF wf this] vs show "\<exists>p es. v_sess ?w s' = Some (p, Some r', es)" by (cases "s' = s") (auto simp: V(1))
  qed (use wfD_rtsp_list [OF wf] in auto)
  moreover have "wf_slot ?w"
    unfolding wf_slot_def
  proof (intro allI impI conjI)
    fix s' p' r' es' j e' assume a: "v_sess ?w s' = Some (p', r', es')" "j < MAX_TRACKS" "es' ! j = Some e'"
    obtain es0 where s: "e' \<noteq> e" "v_sess w s' = Some (p', r', es0)" "es0 ! j = Some e'" using slot [OF a] by blast
    show "\<exists>v tr. v_ep ?w e' = Some (s', v, tr)" using wfD_slot [OF wf s(2) a(2) s(3)] s(1) by (simp add: V(4))
    show "k = j" if "k < MAX_TRACKS" "es' ! k = Some e'" for k
      using slot [OF a(1) that] wfD_slot [OF wf s(2) a(2) s(3)] s(2) that(1) by auto
    show "snd (ts ! j)" if "p' = Some l" "v_live ?w l = Some (s', q)" "v_src ?w q = Some (ls, ts)" for l q ls ts
      using wfD_slot [OF wf s(2) a(2) s(3)] that by (simp add: V(2, 3))
  qed
  moreover have "wf_ep ?w"
    unfolding wf_ep_def
  proof (intro allI impI conjI)
    fix e' s' v tr assume "v_ep ?w e' = Some (s', v, tr)"
    then have e': "e' \<noteq> e" "v_ep w e' = Some (s', v, tr)" by (auto simp: V split: if_splits)
    then obtain p' r' es' j where j: "v_sess w s' = Some (p', r', es')" "j < MAX_TRACKS" "es' ! j = Some e'"
      using wfD_ep [OF wf e'(2)] by blast
    show "\<exists>p r es k. v_sess ?w s' = Some (p, r, es) \<and> k < MAX_TRACKS \<and> es ! k = Some e'"
    proof (cases "s' = s")
      case True
      then have "es' = ?es" "j \<noteq> i" using j vs e e' by auto
      then show ?thesis using True j vs by (auto simp: V)
    next
      case False
      then show ?thesis using j by (auto simp: V)
    qed
    fix c a b assume tr: "tr = Trans_inter c a b"
    then obtain re se we ich where c: "v_conn w c = Some (re, se, we, CONN_PROTO_RTSP, PS_rtsp ich)"
      "a < MAX_INTERLEAVE_CHANNELS" "b < MAX_INTERLEAVE_CHANNELS" "a \<noteq> b" "ich ! a = (Some e', False)" "ich ! b = (Some e', True)"
      using wfD_inter [OF wf e'(2) [unfolded tr]] by blast
    then have "length ich = MAX_INTERLEAVE_CHANNELS" using wfD_conn [OF wf c(1)] by simp
    then show "\<exists>re se we ich. v_conn ?w c = Some (re, se, we, CONN_PROTO_RTSP, PS_rtsp ich) \<and> a < MAX_INTERLEAVE_CHANNELS \<and>
        b < MAX_INTERLEAVE_CHANNELS \<and> a \<noteq> b \<and> ich ! a = (Some e', False) \<and> ich ! b = (Some e', True)"
      using c e'(1) by (simp add: V unchan_conn_null unchan_nth)
  qed
  moreover have "wf_conn ?w"
    unfolding wf_conn_def
  proof (intro conjI allI impI)
    fix c re se we pr ps assume "v_conn ?w c = Some (re, se, we, pr, ps)"
    then obtain ps0 where c: "v_conn w c = Some (re, se, we, pr, ps0)" "(re, se, we, pr, ps) = unchan_conn e (re, se, we, pr, ps0)"
      by (auto simp: V unchan_conn_def)
    consider "ps0 = PS_null" | ich where "pr = CONN_PROTO_RTSP" "ps0 = PS_rtsp ich" "length ich = MAX_INTERLEAVE_CHANNELS"
      "\<forall>i < MAX_INTERLEAVE_CHANNELS. \<forall>e rt. ich ! i = (Some e, rt) \<longrightarrow> (\<exists>s v a b. v_ep w e = Some (s, v, Trans_inter c a b) \<and> i = (if rt then b else a))"
      using wfD_conn [OF wf c(1)] by blast
    then show "ps = PS_null \<or> pr = CONN_PROTO_RTSP \<and> (\<exists>ich. ps = PS_rtsp ich \<and> length ich = MAX_INTERLEAVE_CHANNELS \<and>
        (\<forall>i < MAX_INTERLEAVE_CHANNELS. \<forall>e rt. ich ! i = (Some e, rt) \<longrightarrow>
           (\<exists>s v a b. v_ep ?w e = Some (s, v, Trans_inter c a b) \<and> i = (if rt then b else a))))"
    proof cases
      case 1
      then show ?thesis using c(2) by (simp add: unchan_conn_null)
    next
      case (2 ich)
      then have "ps = PS_rtsp (unchan e ich)" using c(2) by (simp add: unchan_conn_null)
      moreover have "\<exists>s v a b. v_ep ?w e' = Some (s, v, Trans_inter c a b) \<and> k = (if rt then b else a)"
        if k: "k < MAX_INTERLEAVE_CHANNELS" "unchan e ich ! k = (Some e', rt)" for k e' rt
      proof -
        have "ich ! k = (Some e', rt) \<and> e' \<noteq> e" using k 2(3) by (auto simp: unchan_nth split: prod.splits if_splits)
        then show ?thesis using 2(4) k(1) by (auto simp: V)
      qed
      ultimately show ?thesis using 2 by (auto simp: unchan_def)
    qed
  qed (use wfD_conn_list [OF wf] in \<open>auto simp: V(5) L\<close>)
  moreover have "wf_http ?w" using wf unfolding wf_def wf_http_def V(7) L by blast
  moreover have "wf_ev ?w"
    unfolding wf_ev_def
  proof (intro allI impI)
    fix k f d assume "v_ev ?w k = Some (f, d, False)"
    then have k: "v_ev w k = Some (f, d, False)" "\<not> (is_ep_cb f \<and> d = e)" using del by (auto simp: put_sess_views deleted_def)
    then have "target w k f d" using wfD_ev [OF wf] by blast
    then show "target ?w k f d" using k(2) by (cases f) (auto simp: target_def V is_ep_cb_def unchan_conn_def)
  qed
  moreover have "wf_fresh ?w"
    unfolding wf_fresh_def L
  proof (intro allI impI)
    fix n assume "w_next w \<le> n"
    from wfD_fresh [OF wf this] vs show "v_sess ?w n = None \<and> v_live ?w n = None \<and> v_src ?w n = None \<and> v_ep ?w n = None \<and>
        v_conn ?w n = None \<and> v_rtsp ?w n = None" by (auto simp: V)
  qed
  moreover have "wf_streams (w_streams ?w)" using wfD_streams [OF wf] del wf_same_shape by (auto simp: put_sess_rest deleted_def)
  moreover have "wf_cons ?w" by (rule wf_cons_kept [OF wf]) (use del in \<open>simp_all add: V put_sess_rest deleted_def\<close>)
  ultimately show ?thesis by (simp add: wf_def)
qed

section \<open>Tearing down\<close>

lemma live_of_wf:
  assumes "wf w" "v_sess w s = Some (p, r, es)"
  obtains x l ls src where "live_of w s = Inr (x, l, ls, src)" "w_sess w s = Some x" "se_private x = Some l" "p = Some l" "se_control x = r" "se_ep x = es"
    "length es = MAX_TRACKS" "w_lives w l = Some ls" "ls_sess ls = s" "w_sources w (ls_source ls) = Some src" "l \<in> set (so_sess_list src)"
    "length (so_track src) = MAX_TRACKS" "distinct (so_sess_list src)"
proof -
  obtain x where x: "w_sess w s = Some x" "se_private x = p" "se_control x = r" "se_ep x = es" using assms(2) by (auto simp: v_sess_def)
  obtain l q where l: "p = Some l" "v_live w l = Some (s, q)" "length es = MAX_TRACKS" using wfD_sess [OF assms] by blast
  then obtain ls where ls: "w_lives w l = Some ls" "ls_sess ls = s" "ls_source ls = q" by (auto simp: v_live_def)
  obtain lst ts where q: "v_src w q = Some (lst, ts)" "l \<in> set lst" using wfD_live [OF assms(1) l(2)] by blast
  then obtain src where src: "w_sources w q = Some src" "lst = so_sess_list src" "ts = map (\<lambda>t. (tr_stream t, tr_rtp t \<noteq> None)) (so_track src)"
    by (auto simp: v_src_def)
  have "length (so_track src) = MAX_TRACKS" "distinct (so_sess_list src)" using wfD_src [OF assms(1) q(1)] src by auto
  moreover have "live_of w s = Inr (x, l, ls, src)" using x l ls src by (simp add: live_of_def deref_def non_null_def)
  ultimately show ?thesis using that x l ls src q by auto
qed

lemma safe_any_playing:
  assumes "wf w" "\<forall>l \<in> set ls. v_live w l \<noteq> None"
  shows "safe (any_playing w t ls) (\<lambda>_. True)"
  using assms(2)
proof (induction ls)
  case (Cons l ls)
  then obtain s q where l: "v_live w l = Some (s, q)" by auto
  then obtain y where y: "w_lives w l = Some y" "ls_sess y = s" by (auto simp: v_live_def)
  have "w_sess w s \<noteq> None" using wfD_live [OF assms(1) l] by (auto simp: v_sess_def)
  then show ?case using y Cons by (auto simp: deref_def intro!: safe_aget)
qed simp

lemma used_track:
  assumes "length (so_track src) = MAX_TRACKS" "i < used_tracks src"
  shows "i < MAX_TRACKS" "tr_rtp (so_track src ! i) \<noteq> None"
proof -
  show "i < MAX_TRACKS" using assms length_takeWhile_le [of "\<lambda>tr. tr_rtp tr \<noteq> None" "so_track src"] by (simp add: used_tracks_def)
  show "tr_rtp (so_track src ! i) \<noteq> None"
    using set_takeWhileD [OF nth_mem [OF assms(2) [unfolded used_tracks_def]]] takeWhile_nth [OF assms(2) [unfolded used_tracks_def]] by simp
qed

lemma track_stream:
  assumes "wf w" "w_sources w q = Some src" "i < MAX_TRACKS" "tr_rtp (so_track src ! i) \<noteq> None"
  shows "\<exists>d. tr_stream (so_track src ! i) = Some d \<and> v_dest w d"
proof -
  let ?ts = "map (\<lambda>t. (tr_stream t, tr_rtp t \<noteq> None)) (so_track src)"
  have v: "v_src w q = Some (so_sess_list src, ?ts)" using assms(2) by (simp add: v_src_def)
  then have "length (so_track src) = MAX_TRACKS" using wfD_src [OF assms(1)] by fastforce
  then show ?thesis using wfD_src [OF assms(1) v] assms(3, 4) by auto
qed

lemma safe_track_check_running:
  assumes "wf w" "w_sources w q = Some src" "t < MAX_TRACKS" "tr_rtp (so_track src ! t) \<noteq> None"
  shows "safe (track_check_running w q t) (sim w)"
proof -
  have v: "v_src w q = Some (so_sess_list src, map (\<lambda>t. (tr_stream t, tr_rtp t \<noteq> None)) (so_track src))"
    using assms(2) by (simp add: v_src_def)
  then have live: "\<forall>l \<in> set (so_sess_list src). v_live w l \<noteq> None" using wfD_src [OF assms(1)] by fastforce
  obtain d where d: "tr_stream (so_track src ! t) = Some d" "v_dest w d" using track_stream [OF assms] by blast
  show ?thesis
    unfolding track_check_running_def
    apply (rule safe_deref, use assms(2) in simp)
    apply (rule safe_bind [OF safe_any_playing [OF assms(1)]])
    using live assms(2) d safe_set_waiting [OF assms(1) d(2)] by (auto simp: non_null_def intro!: safe_aget)
qed

text \<open>What a teardown does to the connections: endpoints disappear from channels.\<close>

definition cleared :: "(nat option \<times> bool) list \<Rightarrow> (nat option \<times> bool) list \<Rightarrow> bool" where
  "cleared ich ich' \<longleftrightarrow> length ich' = length ich \<and> (\<forall>k < length ich. ich' ! k = ich ! k \<or> fst (ich' ! k) = None)"

definition conn_rel :: "(evid \<times> evid option \<times> evid \<times> proto \<times> proto_state) option \<Rightarrow> (evid \<times> evid option \<times> evid \<times> proto \<times> proto_state) option \<Rightarrow> bool" where
  "conn_rel v v' \<longleftrightarrow> v' = v \<or>
     (\<exists>re se we pr ich ich'. v = Some (re, se, we, pr, PS_rtsp ich) \<and> v' = Some (re, se, we, pr, PS_rtsp ich') \<and> cleared ich ich')"

definition conn_after :: "world \<Rightarrow> world \<Rightarrow> bool" where
  "conn_after w w' \<longleftrightarrow> (\<forall>c. conn_rel (v_conn w c) (v_conn w' c))"

lemma cleared_trans:
  assumes "cleared a b" "cleared b c"
  shows "cleared a c"
proof -
  have "c ! k = a ! k \<or> fst (c ! k) = None" if "k < length a" for k
    using assms that by (cases "c ! k = b ! k") (auto simp: cleared_def)
  then show ?thesis using assms by (simp add: cleared_def)
qed

lemma conn_rel_trans: "conn_rel u v \<Longrightarrow> conn_rel v x \<Longrightarrow> conn_rel u x"
  unfolding conn_rel_def by (elim disjE exE conjE) (auto intro: cleared_trans)

lemma conn_after_trans: "conn_after a b \<Longrightarrow> conn_after b c \<Longrightarrow> conn_after a c"
  unfolding conn_after_def using conn_rel_trans by blast

definition torn0 :: "world \<Rightarrow> world \<Rightarrow> nat \<Rightarrow> bool" where
  "torn0 w w' s \<longleftrightarrow> wf w' \<and> same_shape (w_streams w) (w_streams w') \<and> v_live w' = v_live w \<and> v_src w' = v_src w \<and> v_rtsp w' = v_rtsp w \<and> v_http w' = v_http w \<and>
     (\<forall>s'. s' \<noteq> s \<longrightarrow> v_sess w' s' = v_sess w s') \<and>
     (\<forall>e. v_ep w' e = v_ep w e \<or> v_ep w' e = None \<and> (\<exists>v tr. v_ep w e = Some (s, v, tr))) \<and>
     conn_after w w' \<and> w_conn_list w' = w_conn_list w \<and> w_rtsp_list w' = w_rtsp_list w \<and>
     map lo_private (w_rtsp_locs w') = map lo_private (w_rtsp_locs w) \<and> w_next w' = w_next w"

lemma torn0_sim: "wf w \<Longrightarrow> sim w w' \<Longrightarrow> torn0 w w' s"
  using wf_sim [of w w'] by (simp add: torn0_def sim_def conn_after_def conn_rel_def)

lemma torn0_refl: "wf w \<Longrightarrow> torn0 w w s"
  by (rule torn0_sim) simp_all

lemma torn0_trans: "torn0 a b s \<Longrightarrow> torn0 b c s \<Longrightarrow> torn0 a c s"
proof -
  assume ab: "torn0 a b s" and bc: "torn0 b c s"
  have "v_ep c e = v_ep a e \<or> v_ep c e = None \<and> (\<exists>v tr. v_ep a e = Some (s, v, tr))" for e
  proof -
    have "v_ep b e = v_ep a e \<or> v_ep b e = None \<and> (\<exists>v tr. v_ep a e = Some (s, v, tr))"
      "v_ep c e = v_ep b e \<or> v_ep c e = None \<and> (\<exists>v tr. v_ep b e = Some (s, v, tr))"
      using ab bc by (simp_all only: torn0_def)
    then show ?thesis by (elim disjE conjE) simp_all
  qed
  moreover have "conn_after a c" using ab bc conn_after_trans unfolding torn0_def by blast
  moreover have "same_shape (w_streams a) (w_streams c)" using ab bc same_shape_trans unfolding torn0_def by blast
  ultimately show ?thesis using ab bc by (simp add: torn0_def)
qed

lemma torn0_deleted:
  assumes "wf w" "deleted w w1 e" "w_sess w1 s = Some x" "i < MAX_TRACKS" "se_ep x ! i = Some e"
  shows "torn0 w (put_sess w1 s (x\<lparr>se_ep := (se_ep x)[i := None]\<rparr>)) s"
proof -
  let ?w = "put_sess w1 s (x\<lparr>se_ep := (se_ep x)[i := None]\<rparr>)"
  have "v_sess w1 s = Some (se_private x, se_control x, se_ep x)" using assms(3) by (simp add: v_sess_def)
  then have vs: "v_sess w s = Some (se_private x, se_control x, se_ep x)" using assms(2) by (simp add: deleted_def)
  obtain v tr where v: "v_ep w e = Some (s, v, tr)" using wfD_slot [OF assms(1) vs assms(4, 5)] by blast
  have "conn_after w ?w"
    unfolding conn_after_def conn_rel_def
  proof
    fix c
    have c: "v_conn ?w c = map_option (unchan_conn e) (v_conn w c)" using assms(2) by (simp add: put_sess_views deleted_def)
    show "v_conn ?w c = v_conn w c \<or> (\<exists>re se we pr ich ich'. v_conn w c = Some (re, se, we, pr, PS_rtsp ich) \<and>
        v_conn ?w c = Some (re, se, we, pr, PS_rtsp ich') \<and> cleared ich ich')"
    proof (cases "v_conn w c")
      case (Some y)
      obtain re se we pr ps where y: "y = (re, se, we, pr, ps)" by (cases y)
      show ?thesis
      proof (cases "\<exists>ich. ps = PS_rtsp ich")
        case True
        then obtain ich where ich: "ps = PS_rtsp ich" by blast
        have "cleared ich (unchan e ich)" by (auto simp: cleared_def unchan_def split: prod.splits)
        then show ?thesis using c Some y ich by (auto simp: unchan_conn_def)
      next
        case False
        then show ?thesis using c Some y by (cases ps) (auto simp: unchan_conn_def)
      qed
    qed (use c in simp)
  qed
  then show ?thesis using wf_deleted [OF assms] assms(2) v by (auto simp: torn0_def put_sess_views put_sess_rest deleted_def)
qed

text \<open>The slots of a session after the loop over some tracks.\<close>

definition slots_after :: "nat option \<Rightarrow> nat list \<Rightarrow> nat \<Rightarrow> nat \<Rightarrow> nat option list \<Rightarrow> nat option list \<Rightarrow> bool" where
  "slots_after ep is n n' es es' \<longleftrightarrow> length es' = length es \<and> n \<le> n' \<and> (ep = None \<longrightarrow> n' = n) \<and> (\<forall>i < length es. es' ! i = es ! i \<or> es' ! i = None) \<and>
     (\<forall>i \<in> set is. (es' ! i = None \<or> n < n') \<and> (ep = None \<or> ep = es ! i \<longrightarrow> es' ! i = None))"

lemma slots_after_skip:
  assumes "slots_after ep is n n' es es'" "es ! i = None" "i < length es"
  shows "slots_after ep (i # is) n n' es es'"
  using assms by (auto simp: slots_after_def)

lemma slots_after_keep:
  assumes "slots_after ep is (n + 1) n' es es'" "es ! i \<noteq> None" "ep \<noteq> None" "ep \<noteq> es ! i"
  shows "slots_after ep (i # is) n n' es es'"
  using assms by (auto simp: slots_after_def)

lemma slots_after_clear:
  assumes "slots_after ep is n n' (es[i := None]) es'" "i < length es"
  shows "slots_after ep (i # is) n n' es es'"
proof -
  have A: "length es' = length es" "n \<le> n'" "ep = None \<longrightarrow> n' = n" "\<And>k. k < length es \<Longrightarrow> es' ! k = es[i := None] ! k \<or> es' ! k = None"
    "\<And>k. k \<in> set is \<Longrightarrow> es' ! k = None \<or> n < n'" "\<And>k. k \<in> set is \<Longrightarrow> ep = None \<or> ep = es[i := None] ! k \<Longrightarrow> es' ! k = None"
    using assms(1) by (auto simp: slots_after_def)
  have i: "es' ! i = None" using A(4) [OF assms(2)] assms(2) by simp
  have "es' ! k = es ! k \<or> es' ! k = None" if "k < length es" for k using A(4) [OF that] i by (cases "k = i") auto
  moreover have "es' ! k = None" if "k \<in> set is" "ep = None \<or> ep = es ! k" for k
    using A(6) [OF that(1)] that(2) i by (cases "k = i") auto
  ultimately show ?thesis using A i by (simp add: slots_after_def)
qed

lemma slot_track:
  assumes "wf w" "v_sess w s = Some (p, r, es)" "i < MAX_TRACKS" "es ! i = Some e" "live_of w s = Inr (x, l, ls, src)"
  shows "tr_rtp (so_track src ! i) \<noteq> None"
proof -
  obtain x' l' ls' src' where l: "live_of w s = Inr (x', l', ls', src')" "w_sess w s = Some x'" "p = Some l'"
    "w_lives w l' = Some ls'" "ls_sess ls' = s" "w_sources w (ls_source ls') = Some src'" "length (so_track src') = MAX_TRACKS"
    using live_of_wf [OF assms(1, 2)] by metis
  have e: "src' = src" using l(1) assms(5) by simp
  have "v_live w l' = Some (s, ls_source ls')" using l(4, 5) by (simp add: v_live_def)
  moreover have "v_src w (ls_source ls') = Some (so_sess_list src, map (\<lambda>t. (tr_stream t, tr_rtp t \<noteq> None)) (so_track src))"
    using l(6) e by (simp add: v_src_def)
  ultimately have "snd (map (\<lambda>t. (tr_stream t, tr_rtp t \<noteq> None)) (so_track src) ! i)" using wfD_slot [OF assms(1-4)] l(3) by blast
  then show ?thesis using assms(3) l(7) e by simp
qed

lemma v_srcD:
  assumes "v_src w' q = v_src w q" "w_sources w q = Some src"
  obtains src' where "w_sources w' q = Some src'" "so_sess_list src' = so_sess_list src" "length (so_track src') = length (so_track src)"
    "\<And>i. i < length (so_track src) \<Longrightarrow> (tr_rtp (so_track src' ! i) = None) = (tr_rtp (so_track src ! i) = None) \<and>
       tr_stream (so_track src' ! i) = tr_stream (so_track src ! i)"
proof -
  obtain src' where s: "w_sources w' q = Some src'" "so_sess_list src' = so_sess_list src"
    and m: "map (\<lambda>t. (tr_stream t, tr_rtp t \<noteq> None)) (so_track src') = map (\<lambda>t. (tr_stream t, tr_rtp t \<noteq> None)) (so_track src)"
    using assms by (auto simp: v_src_def)
  have "(tr_rtp (so_track src' ! i) = None) = (tr_rtp (so_track src ! i) = None) \<and> tr_stream (so_track src' ! i) = tr_stream (so_track src ! i)"
    if "i < length (so_track src)" for i
    using arg_cong [OF m, of "\<lambda>l. l ! i"] that map_eq_imp_length_eq [OF m] by auto
  with that [OF s] map_eq_imp_length_eq [OF m] show ?thesis by blast
qed

lemma safe_teardown_tracks:
  assumes "wf w" "v_sess w s = Some (p, r, es)" "\<forall>i \<in> set ks. i < MAX_TRACKS"
  shows "safe (teardown_tracks w s ep ks n) (\<lambda>(w', n'). torn0 w w' s \<and>
     (\<exists>es'. v_sess w' s = Some (p, r, es') \<and> slots_after ep ks n n' es es'))"
  using assms
proof (induction ks arbitrary: w es n)
  case Nil
  then show ?case using torn0_refl by (simp add: slots_after_def)
next
  case (Cons i ks)
  obtain x l ls src where L: "live_of w s = Inr (x, l, ls, src)" "se_ep x = es" "length es = MAX_TRACKS"
    "w_sources w (ls_source ls) = Some src" "length (so_track src) = MAX_TRACKS" "w_sess w s = Some x" "se_private x = p" "se_control x = r"
    using live_of_wf [OF Cons.prems(1, 2)] by metis
  have i: "i < MAX_TRACKS" and ks: "\<forall>i \<in> set ks. i < MAX_TRACKS" using Cons.prems(3) by auto
  let ?Q = "\<lambda>(w', n'). torn0 w w' s \<and> (\<exists>es'. v_sess w' s = Some (p, r, es') \<and> slots_after ep (i # ks) n n' es es')"
  consider "es ! i = None" | e where "es ! i = Some e" "\<not> (ep = None \<or> ep = Some e)" | e where "es ! i = Some e" "ep = None \<or> ep = Some e"
    by (metis option.exhaust)
  then have "safe (case es ! i of None \<Rightarrow> teardown_tracks w s ep ks n
       | Some e \<Rightarrow>
           if ep = None \<or> ep = Some e then
             rbind (del_rtp_endpoint w e) (\<lambda>w.
             rbind (deref (w_sess w) s) (\<lambda>x.
             let w = put_sess w s (x\<lparr>se_ep := (se_ep x)[i := None]\<rparr>) in
             rbind (track_check_running w (ls_source ls) i) (\<lambda>w.
               teardown_tracks w s ep ks n)))
           else teardown_tracks w s ep ks (n + 1)) ?Q"
  proof cases
    case 1
    have "safe (teardown_tracks w s ep ks n) ?Q"
      by (rule safe_mono [OF Cons.IH [OF Cons.prems(1, 2) ks]]) (use 1 i L(3) slots_after_skip in fastforce)
    then show ?thesis using 1 by simp
  next
    case (2 e)
    have "safe (teardown_tracks w s ep ks (n + 1)) ?Q"
      by (rule safe_mono [OF Cons.IH [OF Cons.prems(1, 2) ks]]) (use 2 slots_after_keep in fastforce)
    then show ?thesis using 2 by (simp del: not_None_eq)
  next
    case (3 e)
    obtain v tr where "v_ep w e = Some (s, v, tr)" using wfD_slot [OF Cons.prems(1, 2) i 3(1)] by blast
    then obtain y where y: "w_eps w e = Some y" by (auto simp: v_ep_def)
    have rtp: "tr_rtp (so_track src ! i) \<noteq> None" by (rule slot_track [OF Cons.prems(1, 2) i 3(1) L(1)])
    have "safe (rbind (del_rtp_endpoint w e) (\<lambda>w. rbind (deref (w_sess w) s) (\<lambda>x.
             let w = put_sess w s (x\<lparr>se_ep := (se_ep x)[i := None]\<rparr>) in
             rbind (track_check_running w (ls_source ls) i) (\<lambda>w. teardown_tracks w s ep ks n)))) ?Q"
    proof (rule safe_bind [OF safe_del_rtp_endpoint [OF Cons.prems(1) y]])
      fix w1 assume d: "deleted w w1 e"
      have "v_sess w1 s = Some (p, r, es)" using d Cons.prems(2) by (simp add: deleted_def)
      then obtain x1 where x1: "w_sess w1 s = Some x1" "se_private x1 = p" "se_control x1 = r" "se_ep x1 = es" by (auto simp: v_sess_def)
      let ?w2 = "put_sess w1 s (x1\<lparr>se_ep := (se_ep x1)[i := None]\<rparr>)"
      have t2: "torn0 w ?w2 s" by (rule torn0_deleted [OF Cons.prems(1) d x1(1) i]) (simp add: x1 3)
      have wf2: "wf ?w2" using t2 by (simp add: torn0_def)
      have vs2: "v_sess ?w2 s = Some (p, r, es[i := None])" by (simp add: put_sess_views x1)
      have "v_src ?w2 (ls_source ls) = v_src w (ls_source ls)" using t2 by (simp add: torn0_def)
      from v_srcD [OF this L(4)] obtain src2 where s2: "w_sources ?w2 (ls_source ls) = Some src2" "tr_rtp (so_track src2 ! i) \<noteq> None"
        using i L(5) rtp by metis
      have "safe (rbind (track_check_running ?w2 (ls_source ls) i) (\<lambda>w. teardown_tracks w s ep ks n)) ?Q"
      proof (rule safe_bind [OF safe_track_check_running [OF wf2 s2(1) i s2(2)]])
        fix w3 assume s3: "sim ?w2 w3"
        have wf3: "wf w3" by (rule wf_sim [OF s3 wf2])
        have vs3: "v_sess w3 s = Some (p, r, es[i := None])" using s3 vs2 by (simp add: sim_def)
        have t3: "torn0 w w3 s" by (rule torn0_trans [OF t2 torn0_sim [OF wf2 s3]])
        show "safe (teardown_tracks w3 s ep ks n) ?Q"
          by (rule safe_mono [OF Cons.IH [OF wf3 vs3 ks]])
             (use torn0_trans [OF t3] slots_after_clear [where i = i] i L(3) in fastforce)
      qed
      then show "safe (rbind (deref (w_sess w1) s) (\<lambda>x. let w = put_sess w1 s (x\<lparr>se_ep := (se_ep x)[i := None]\<rparr>) in
             rbind (track_check_running w (ls_source ls) i) (\<lambda>w. teardown_tracks w s ep ks n))) ?Q"
        using x1(1) by (simp add: deref_def)
    qed
    then show ?thesis using 3 by simp
  qed
  then show ?case using L i by simp
qed

text \<open>The end of a session: it disappears with its live session and its RTSP session.\<close>

definition closed_sess :: "world \<Rightarrow> world \<Rightarrow> nat \<Rightarrow> nat \<Rightarrow> nat option \<Rightarrow> nat \<Rightarrow> bool" where
  "closed_sess w w' s l r q \<longleftrightarrow>
     v_sess w' = (v_sess w)(s := None) \<and> v_live w' = (v_live w)(l := None) \<and>
     v_src w' = (v_src w)(q := map_option (\<lambda>(ls, ts). (remove1 l ls, ts)) (v_src w q)) \<and> v_ep w' = v_ep w \<and> v_conn w' = v_conn w \<and>
     v_rtsp w' = (\<lambda>k. if r = Some k then None else v_rtsp w k) \<and> v_ev w' = v_ev w \<and> v_http w' = v_http w \<and>
     w_streams w' = w_streams w \<and> w_sess_list w' = remove1 s (w_sess_list w) \<and>
     w_rtsp_list w' = (case r of None \<Rightarrow> w_rtsp_list w | Some k \<Rightarrow> remove1 k (w_rtsp_list w)) \<and> w_conn_list w' = w_conn_list w \<and>
     w_http_list w' = w_http_list w \<and> map lo_private (w_rtsp_locs w') = map lo_private (w_rtsp_locs w) \<and> w_next w' = w_next w"

lemma wf_closed:
  assumes wf: "wf w" and c: "closed_sess w w' s l r q" and s: "v_sess w s = Some (Some l, r, es)" and l: "v_live w l = Some (s, q)"
    and none: "\<forall>i < MAX_TRACKS. es ! i = None"
  shows "wf w'"
proof -
  have V: "v_sess w' = (v_sess w)(s := None)" "v_live w' = (v_live w)(l := None)"
    "v_src w' = (v_src w)(q := map_option (\<lambda>(ls, ts). (remove1 l ls, ts)) (v_src w q))" "v_ep w' = v_ep w" "v_conn w' = v_conn w"
    "v_rtsp w' = (\<lambda>k. if r = Some k then None else v_rtsp w k)" "v_ev w' = v_ev w" "v_http w' = v_http w" "v_dest w' = v_dest w"
    "v_strm w' = v_strm w"
    using c by (simp_all add: closed_sess_def v_dest_def v_strm_def fun_eq_iff)
  have L: "w_sess_list w' = remove1 s (w_sess_list w)" "w_rtsp_list w' = (case r of None \<Rightarrow> w_rtsp_list w | Some k \<Rightarrow> remove1 k (w_rtsp_list w))"
    "w_conn_list w' = w_conn_list w" "w_http_list w' = w_http_list w" "map lo_private (w_rtsp_locs w') = map lo_private (w_rtsp_locs w)"
    "w_next w' = w_next w" "w_streams w' = w_streams w"
    using c by (simp_all add: closed_sess_def)
  have no_ep: "s' \<noteq> s" if "v_ep w e = Some (s', v, tr)" for e s' v tr
    using wfD_ep [OF wf that] s none by auto
  have src: "\<exists>ls. v_src w q' = Some (ls, ts) \<and> ls' = (if q' = q then remove1 l ls else ls)" if "v_src w' q' = Some (ls', ts)" for q' ls' ts
    using that by (auto simp: V(3) split: if_splits)
  have "wf_sess w'"
    unfolding wf_sess_def
  proof (intro conjI allI impI)
    fix s' p' r' es' assume "v_sess w' s' = Some (p', r', es')"
    then have s': "s' \<noteq> s" "v_sess w s' = Some (p', r', es')" by (auto simp: V split: if_splits)
    note W = wfD_sess [OF wf s'(2)]
    show "length es' = MAX_TRACKS" using W by blast
    obtain l' q' where "p' = Some l'" "v_live w l' = Some (s', q')" using W by blast
    moreover from this have "l' \<noteq> l" using s'(1) l by auto
    ultimately show "\<exists>l q. p' = Some l \<and> v_live w' l = Some (s', q)" by (simp add: V)
    show "v_rtsp w' k = Some s'" if "r' = Some k" for k
      using W that s'(1) wfD_sess [OF wf s] by (auto simp: V)
  qed (use wfD_sess_list [OF wf] in \<open>auto simp: V L\<close>)
  moreover have "wf_live w'"
    unfolding wf_live_def
  proof (intro allI impI conjI)
    fix l' s' q' assume "v_live w' l' = Some (s', q')"
    then have l': "l' \<noteq> l" "v_live w l' = Some (s', q')" by (auto simp: V split: if_splits)
    then have "s' \<noteq> s" using wfD_live [OF wf l'(2)] s by auto
    then show "\<exists>r es. v_sess w' s' = Some (Some l', r, es)" using wfD_live [OF wf l'(2)] by (simp add: V)
    show "\<exists>ls ts. v_src w' q' = Some (ls, ts) \<and> l' \<in> set ls" using wfD_live [OF wf l'(2)] l'(1) by (auto simp: V)
  qed
  moreover have "wf_src w'"
    unfolding wf_src_def
  proof (rule conjI, intro allI impI)
    fix q' ls' ts assume "v_src w' q' = Some (ls', ts)"
    then obtain ls where ls: "v_src w q' = Some (ls, ts)" "ls' = (if q' = q then remove1 l ls else ls)" using src by blast
    note W = wfD_src [OF wf ls(1)]
    have "\<exists>s. v_live w' l' = Some (s, q')" if "l' \<in> set ls'" for l'
    proof -
      have "l' \<in> set ls" using that ls(2) notin_set_remove1 by (metis (full_types))
      then have "\<exists>s. v_live w l' = Some (s, q')" using W by blast
      moreover have "l' \<noteq> l" using that ls(2) W l calculation by (auto split: if_splits)
      ultimately show ?thesis by (simp add: V)
    qed
    moreover have "distinct ls'" using W ls(2) by (simp add: distinct_remove1)
    ultimately show "length ts = MAX_TRACKS \<and> distinct ls' \<and> (\<forall>l \<in> set ls'. \<exists>s. v_live w' l = Some (s, q')) \<and> (snd (ts ! 1) \<longrightarrow> snd (ts ! 0)) \<and>
        (\<forall>i < MAX_TRACKS. snd (ts ! i) \<longrightarrow> (\<exists>d. fst (ts ! i) = Some d \<and> v_dest w' d))"
      using W by (simp add: V(9))
  next
    have "v_src w' q' \<noteq> None" if "v_src w q' \<noteq> None" for q' using that by (auto simp: V)
    then show "\<forall>q \<in> set (map lo_private (w_rtsp_locs w')). v_src w' q \<noteq> None" using wfD_locs [OF wf] unfolding L by blast
  qed
  moreover have "wf_rtsp w'"
    unfolding wf_rtsp_def
  proof (intro conjI allI impI)
    fix k s' assume "v_rtsp w' k = Some s'"
    then have k: "r \<noteq> Some k" "v_rtsp w k = Some s'" by (auto simp: V split: if_splits)
    then have "s' \<noteq> s" using wfD_rtsp [OF wf k(2)] s by auto
    then show "\<exists>p es. v_sess w' s' = Some (p, Some k, es)" using wfD_rtsp [OF wf k(2)] by (simp add: V)
  qed (use wfD_rtsp_list [OF wf] in \<open>auto simp: L V split: option.splits\<close>)
  moreover have "wf_slot w'"
    unfolding wf_slot_def
  proof (intro allI impI conjI)
    fix s' p' r' es' j e' assume a: "v_sess w' s' = Some (p', r', es')" "j < MAX_TRACKS" "es' ! j = Some e'"
    then have s': "v_sess w s' = Some (p', r', es')" by (auto simp: V split: if_splits)
    note W = wfD_slot [OF wf s' a(2, 3)]
    show "\<exists>v tr. v_ep w' e' = Some (s', v, tr)" using W by (simp add: V)
    show "k = j" if "k < MAX_TRACKS" "es' ! k = Some e'" for k using W that by blast
    show "snd (ts ! j)" if "p' = Some l'" "v_live w' l' = Some (s', q')" "v_src w' q' = Some (ls', ts)" for l' q' ls' ts
    proof -
      have "v_live w l' = Some (s', q')" using that(2) by (auto simp: V split: if_splits)
      then show ?thesis using W that(1) src [OF that(3)] by blast
    qed
  qed
  moreover have "wf_ep w'"
    unfolding wf_ep_def V(4, 5)
  proof (intro allI impI conjI)
    fix e' s' v tr assume e: "v_ep w e' = Some (s', v, tr)"
    show "\<exists>p r es i. v_sess w' s' = Some (p, r, es) \<and> i < MAX_TRACKS \<and> es ! i = Some e'"
      using wfD_ep [OF wf e] no_ep [OF e] by (simp add: V)
    show "\<exists>re se we ich. v_conn w c = Some (re, se, we, CONN_PROTO_RTSP, PS_rtsp ich) \<and> a < MAX_INTERLEAVE_CHANNELS \<and>
        b < MAX_INTERLEAVE_CHANNELS \<and> a \<noteq> b \<and> ich ! a = (Some e', False) \<and> ich ! b = (Some e', True)" if "tr = Trans_inter c a b" for c a b
      by (rule wfD_inter [OF wf e [unfolded that]])
  qed
  moreover have "wf_conn w'" using wf unfolding wf_def wf_conn_def V L by blast
  moreover have "wf_http w'" using wf unfolding wf_def wf_http_def V L by blast
  moreover have "wf_ev w'" using wf unfolding wf_def wf_ev_def target_def V by blast
  moreover have "wf_fresh w'"
    unfolding wf_fresh_def L
  proof (intro allI impI)
    fix n assume "w_next w \<le> n"
    from wfD_fresh [OF wf this] show "v_sess w' n = None \<and> v_live w' n = None \<and> v_src w' n = None \<and> v_ep w' n = None \<and>
        v_conn w' n = None \<and> v_rtsp w' n = None" by (auto simp: V)
  qed
  moreover have "wf_streams (w_streams w')" using wfD_streams [OF wf] by (simp add: L)
  moreover have "wf_cons w'" by (rule wf_cons_kept [OF wf]) (auto simp: V L)
  ultimately show ?thesis by (simp add: wf_def)
qed

lemma safe_close_session:
  assumes wf: "wf w" and s: "v_sess w s = Some (p, r, es)" and none: "\<forall>i < MAX_TRACKS. es ! i = None"
  shows "safe (rbind (live_of w s) (\<lambda>(x, l, ls, src).
         let src = (if so_cur_conn src > 0 \<and> ls_playing ls then src\<lparr>so_cur_conn := so_cur_conn src - 1\<rparr> else src);
             src = src\<lparr>so_sess_list := remove1 l (so_sess_list src)\<rparr>;
             w = put_source w (ls_source ls) src;
             w = w\<lparr>w_lives := (w_lives w)(l := None)\<rparr>
         in del_session w s)) (\<lambda>w'. wf w' \<and> (\<exists>l q. p = Some l \<and> v_live w l = Some (s, q) \<and> closed_sess w w' s l r q))"
proof -
  obtain x l ls src where L: "live_of w s = Inr (x, l, ls, src)" "p = Some l" "se_control x = r" "w_sess w s = Some x"
    "w_lives w l = Some ls" "ls_sess ls = s" "w_sources w (ls_source ls) = Some src"
    using live_of_wf [OF wf s] by metis
  let ?q = "ls_source ls"
  have l: "v_live w l = Some (s, ?q)" using L by (simp add: v_live_def)
  have vs: "v_sess w s = Some (Some l, r, es)" using s L(2) by simp
  let ?src1 = "if so_cur_conn src > 0 \<and> ls_playing ls then src\<lparr>so_cur_conn := so_cur_conn src - 1\<rparr> else src"
  let ?src2 = "?src1\<lparr>so_sess_list := remove1 l (so_sess_list ?src1)\<rparr>"
  let ?w1 = "(put_source w ?q ?src2)\<lparr>w_lives := (w_lives (put_source w ?q ?src2))(l := None)\<rparr>"
  have src2: "so_sess_list ?src2 = remove1 l (so_sess_list src)" "so_track ?src2 = so_track src" by simp_all
  define w' where "w' = ?w1\<lparr>w_sess_list := remove1 s (w_sess_list w), w_sess := (w_sess w)(s := None),
     w_rtsp_list := (case r of None \<Rightarrow> w_rtsp_list w | Some k \<Rightarrow> remove1 k (w_rtsp_list w)),
     w_rtsp := (case r of None \<Rightarrow> w_rtsp w | Some k \<Rightarrow> (w_rtsp w)(k := None))\<rparr>"
  have "w_rtsp w k \<noteq> None" if "r = Some k" for k using wfD_sess [OF wf vs] that by (auto simp: v_rtsp_def)
  then have d: "del_session ?w1 s = Inr w'"
    using L(3, 4) unfolding w'_def
    by (cases r) (auto simp: del_session_def rtsp_session_close_def deref_def non_null_def put_source_def split: option.split)
  have "closed_sess w w' s l r ?q"
    using L(3-7) src2 unfolding closed_sess_def w'_def
    by (auto simp: view_defs put_source_def fun_eq_iff split: option.split)
  with wf_closed [OF wf this vs l none] l show ?thesis unfolding L(1) rbind_simps prod.case Let_def d by (simp add: L(2))
qed

text \<open>What a teardown in session \<open>s\<close> leaves alone.\<close>

definition torn :: "world \<Rightarrow> world \<Rightarrow> nat \<Rightarrow> bool" where
  "torn w w' s \<longleftrightarrow> wf w' \<and> same_shape (w_streams w) (w_streams w') \<and> v_http w' = v_http w \<and>
     (\<forall>s'. s' \<noteq> s \<longrightarrow> v_sess w' s' = v_sess w s') \<and>
     (\<forall>l s' q. s' \<noteq> s \<longrightarrow> v_live w l = Some (s', q) \<longrightarrow> v_live w' l = Some (s', q)) \<and>
     (\<forall>r s'. s' \<noteq> s \<longrightarrow> v_rtsp w r = Some s' \<longrightarrow> v_rtsp w' r = Some s') \<and>
     (\<forall>e. v_ep w' e = v_ep w e \<or> v_ep w' e = None \<and> (\<exists>v tr. v_ep w e = Some (s, v, tr))) \<and>
     (\<forall>q ls ts. v_src w q = Some (ls, ts) \<longrightarrow> (\<exists>ls'. v_src w' q = Some (ls', ts))) \<and>
     conn_after w w' \<and> w_conn_list w' = w_conn_list w \<and> map lo_private (w_rtsp_locs w') = map lo_private (w_rtsp_locs w) \<and>
     w_next w' = w_next w"

lemma tornD:
  assumes "torn w w' s"
  shows torn_wf: "wf w'" and torn_shape: "same_shape (w_streams w) (w_streams w')" and torn_http: "v_http w' = v_http w" and torn_sess: "\<forall>s'. s' \<noteq> s \<longrightarrow> v_sess w' s' = v_sess w s'"
    and torn_live: "\<forall>l s' q. s' \<noteq> s \<longrightarrow> v_live w l = Some (s', q) \<longrightarrow> v_live w' l = Some (s', q)"
    and torn_rtsp: "\<forall>r s'. s' \<noteq> s \<longrightarrow> v_rtsp w r = Some s' \<longrightarrow> v_rtsp w' r = Some s'"
    and torn_ep: "\<forall>e. v_ep w' e = v_ep w e \<or> v_ep w' e = None \<and> (\<exists>v tr. v_ep w e = Some (s, v, tr))"
    and torn_src: "\<forall>q ls ts. v_src w q = Some (ls, ts) \<longrightarrow> (\<exists>ls'. v_src w' q = Some (ls', ts))"
    and torn_conn: "conn_after w w'" and torn_conn_list: "w_conn_list w' = w_conn_list w"
    and torn_locs: "map lo_private (w_rtsp_locs w') = map lo_private (w_rtsp_locs w)" and torn_next: "w_next w' = w_next w"
  using assms by (simp_all only: torn_def) ((elim conjE, assumption) | simp)+

lemma torn_torn0: "torn0 w w' s \<Longrightarrow> torn w w' s"
  by (simp add: torn0_def torn_def)

lemma torn_sim: "wf w \<Longrightarrow> sim w w' \<Longrightarrow> torn w w' s"
  by (rule torn_torn0 [OF torn0_sim])

lemma torn_trans: "torn a b s \<Longrightarrow> torn b c s \<Longrightarrow> torn a c s"
proof -
  assume ab: "torn a b s" and bc: "torn b c s"
  have ep: "v_ep c e = v_ep a e \<or> v_ep c e = None \<and> (\<exists>v tr. v_ep a e = Some (s, v, tr))" for e
    using torn_ep [OF ab, rule_format, of e] torn_ep [OF bc, rule_format, of e] by (elim disjE conjE) simp_all
  have src: "\<exists>ls'. v_src c q = Some (ls', ts)" if q: "v_src a q = Some (ls, ts)" for q ls ts
  proof -
    obtain ls' where "v_src b q = Some (ls', ts)" using torn_src [OF ab, rule_format, OF q] ..
    then show ?thesis by (rule torn_src [OF bc, rule_format])
  qed
  have "v_sess c s' = v_sess a s'" if "s' \<noteq> s" for s' using torn_sess [OF ab] torn_sess [OF bc] that by simp
  then show ?thesis
    using ep src conn_after_trans [OF torn_conn [OF ab] torn_conn [OF bc]] torn_live [OF ab] torn_live [OF bc] torn_rtsp [OF ab] torn_rtsp [OF bc]
      torn_wf [OF bc] torn_http [OF ab] torn_http [OF bc] torn_conn_list [OF ab] torn_conn_list [OF bc] torn_locs [OF ab] torn_locs [OF bc]
      torn_next [OF ab] torn_next [OF bc] same_shape_trans [OF torn_shape [OF ab] torn_shape [OF bc]] unfolding torn_def by simp
qed

lemma torn_closed:
  assumes "wf w'" "closed_sess w w' s l r q" "v_live w l = Some (s, q)" "v_sess w s = Some (p, r, es)" "wf w"
  shows "torn w w' s"
proof -
  have "v_rtsp w' k = Some s'" if "s' \<noteq> s" "v_rtsp w k = Some s'" for k s'
  proof -
    have "r \<noteq> Some k" using wfD_sess [OF assms(5, 4)] that by auto
    then show ?thesis using assms(2) that by (simp add: closed_sess_def)
  qed
  moreover have "v_live w' l' = Some (s', q')" if "s' \<noteq> s" "v_live w l' = Some (s', q')" for l' s' q'
    using assms(2, 3) that by (auto simp: closed_sess_def)
  moreover have "\<exists>ls'. v_src w' q' = Some (ls', ts)" if "v_src w q' = Some (ls, ts)" for q' ls ts
    using assms(2) that by (auto simp: closed_sess_def)
  ultimately show ?thesis using assms(1, 2) by (auto simp: torn_def closed_sess_def conn_after_def conn_rel_def)
qed

lemma track_used:
  assumes "wf w" "w_sources w q = Some src" "i < MAX_TRACKS" "tr_rtp (so_track src ! i) \<noteq> None"
  shows "i < used_tracks src"
proof -
  have v: "v_src w q = Some (so_sess_list src, map (\<lambda>t. (tr_stream t, tr_rtp t \<noteq> None)) (so_track src))" using assms(2) by (simp add: v_src_def)
  have len: "length (so_track src) = MAX_TRACKS" using wfD_src [OF assms(1) v] by simp
  then obtain a b where ab: "so_track src = [a, b]" by (metis (no_types, opaque_lifting) One_nat_def Suc_1 length_0_conv length_Suc_conv)
  have "tr_rtp b \<noteq> None \<Longrightarrow> tr_rtp a \<noteq> None" using wfD_src [OF assms(1) v] ab by simp
  then show ?thesis using assms(3, 4) ab by (cases i) (auto simp: used_tracks_def)
qed

lemma safe_live_teardown:
  assumes "wf w" "v_sess w s = Some (p, r, es)"
  shows "safe (live_teardown w s ep) (\<lambda>w'. torn w w' s \<and> (\<forall>e. (ep = None \<or> ep = Some e) \<and> Some e \<in> set es \<longrightarrow> v_ep w' e = None) \<and>
     (ep = None \<longrightarrow> v_sess w' s = None))"
proof -
  obtain x l ls src where L: "live_of w s = Inr (x, l, ls, src)" "length (so_track src) = MAX_TRACKS" "w_sources w (ls_source ls) = Some src"
    "length es = MAX_TRACKS" using live_of_wf [OF assms] by metis
  have used: "\<forall>i \<in> set [0..<used_tracks src]. i < MAX_TRACKS" using used_track(1) [OF L(2)] by simp
  have rest: "i < used_tracks src" if i: "i < MAX_TRACKS" "es ! i = Some e" for i e
    by (rule track_used [OF assms(1) L(3) i(1)]) (rule slot_track [OF assms i L(1)])
  let ?Q = "\<lambda>w'. torn w w' s \<and> (\<forall>e. (ep = None \<or> ep = Some e) \<and> Some e \<in> set es \<longrightarrow> v_ep w' e = None) \<and> (ep = None \<longrightarrow> v_sess w' s = None)"
  have "safe (rbind (teardown_tracks w s ep [0..<used_tracks src] 0) (\<lambda>(w, remaining).
       if remaining \<noteq> 0 then Inr w
       else rbind (live_of w s) (\<lambda>(x, l, ls, src).
         let src = (if so_cur_conn src > 0 \<and> ls_playing ls then src\<lparr>so_cur_conn := so_cur_conn src - 1\<rparr> else src);
             src = src\<lparr>so_sess_list := remove1 l (so_sess_list src)\<rparr>;
             w = put_source w (ls_source ls) src;
             w = w\<lparr>w_lives := (w_lives w)(l := None)\<rparr>
         in del_session w s))) ?Q"
  proof (rule safe_bind [OF safe_teardown_tracks [OF assms used]], clarify)
    fix w1 n es' assume t: "torn0 w w1 s" and s1: "v_sess w1 s = Some (p, r, es')" and sl: "slots_after ep [0..<used_tracks src] 0 n es es'"
    have wf1: "wf w1" using t by (simp add: torn0_def)
    have len: "length es' = MAX_TRACKS" using sl L(4) by (simp add: slots_after_def)
    have keep: "es' ! i = es ! i \<or> es' ! i = None" if "i < MAX_TRACKS" for i using sl that L(4) by (simp add: slots_after_def)
    have none: "es' ! i = None" if "ep = None \<or> ep = es ! i" "i < MAX_TRACKS" for i
    proof (cases "es ! i")
      case (Some e)
      then show ?thesis using rest [OF that(2) Some] sl that(1) by (auto simp: slots_after_def)
    qed (use keep [OF that(2)] in auto)
    have gone: "v_ep w1 e = None" if e: "ep = None \<or> ep = Some e" "Some e \<in> set es" for e
    proof (rule ccontr)
      assume "v_ep w1 e \<noteq> None"
      then obtain s' v tr where e1: "v_ep w1 e = Some (s', v, tr)" by auto
      obtain i where i: "i < MAX_TRACKS" "es ! i = Some e" using e(2) L(4) by (metis in_set_conv_nth)
      have "v_ep w1 e = v_ep w e" using t e1 unfolding torn0_def by (metis option.discI)
      then have "s' = s" using wfD_slot [OF assms i] e1 by auto
      then obtain j where j: "j < MAX_TRACKS" "es' ! j = Some e" using wfD_ep [OF wf1 e1] s1 by auto
      then have "es ! j = Some e" using keep by fastforce
      then show False using none [of j] j e(1) by auto
    qed
    have n: "n = 0" if "ep = None" using sl that by (simp add: slots_after_def)
    show "safe (if n \<noteq> 0 then Inr w1
       else rbind (live_of w1 s) (\<lambda>(x, l, ls, src).
         let src = (if so_cur_conn src > 0 \<and> ls_playing ls then src\<lparr>so_cur_conn := so_cur_conn src - 1\<rparr> else src);
             src = src\<lparr>so_sess_list := remove1 l (so_sess_list src)\<rparr>;
             w = put_source w1 (ls_source ls) src;
             w = w\<lparr>w_lives := (w_lives w)(l := None)\<rparr>
         in del_session w s)) ?Q"
    proof (cases "n = 0")
      case False
      then show ?thesis using torn_torn0 [OF t] gone n by auto
    next
      case True
      have all: "\<forall>i < MAX_TRACKS. es' ! i = None"
      proof (intro allI impI)
        fix i assume i: "i < MAX_TRACKS"
        show "es' ! i = None"
        proof (cases "es ! i")
          case (Some e)
          then show ?thesis using rest [OF i Some] sl True by (simp add: slots_after_def)
        qed (use keep [OF i] in auto)
      qed
      have "safe (rbind (live_of w1 s) (\<lambda>(x, l, ls, src).
         let src = (if so_cur_conn src > 0 \<and> ls_playing ls then src\<lparr>so_cur_conn := so_cur_conn src - 1\<rparr> else src);
             src = src\<lparr>so_sess_list := remove1 l (so_sess_list src)\<rparr>;
             w = put_source w1 (ls_source ls) src;
             w = w\<lparr>w_lives := (w_lives w)(l := None)\<rparr>
         in del_session w s)) ?Q"
      proof (rule safe_mono [OF safe_close_session [OF wf1 s1 all]], elim conjE exE)
        fix w2 l2 q2 assume c: "wf w2" "v_live w1 l2 = Some (s, q2)" "closed_sess w1 w2 s l2 r q2"
        have "torn w w2 s" by (rule torn_trans [OF torn_torn0 [OF t] torn_closed [OF c(1, 3, 2) s1 wf1]])
        then show "?Q w2" using gone c(3) by (simp add: closed_sess_def)
      qed
      then show ?thesis using True by simp
    qed
  qed
  then show ?thesis unfolding live_teardown_def L(1) by simp
qed

end
