(* ===== verification/Create.thy ===== *)
theory Create
  imports HeapInv
begin

text \<open>
  The operations that add objects to the heap keep the invariant: opening a live session, setting up a track, connecting
  an endpoint over UDP or over the channels of its connection, giving a session an RTSP identity, and accepting a
  connection.
\<close>

section \<open>Events\<close>

text \<open>\<open>sim_new_ev w w' e f d\<close>: the same views, but a new event.\<close>

definition sim_new_ev :: "world \<Rightarrow> world \<Rightarrow> evid \<Rightarrow> callback \<Rightarrow> nat \<Rightarrow> bool" where
  "sim_new_ev w w' e f d \<longleftrightarrow>
     v_sess w' = v_sess w \<and> v_live w' = v_live w \<and> v_src w' = v_src w \<and> v_ep w' = v_ep w \<and> v_conn w' = v_conn w \<and>
     v_rtsp w' = v_rtsp w \<and> v_http w' = v_http w \<and> same_shape (w_streams w) (w_streams w') \<and>
     v_ev w' = (v_ev w)(e \<mapsto> (f, d, False)) \<and> v_ev w e = None \<and>
     w_sess_list w' = w_sess_list w \<and> w_rtsp_list w' = w_rtsp_list w \<and> w_conn_list w' = w_conn_list w \<and>
     w_http_list w' = w_http_list w \<and> map lo_private (w_rtsp_locs w') = map lo_private (w_rtsp_locs w) \<and>
     w_next w' = w_next w"

lemma new_ev_add_fd:
  assumes "ev_add_fd w fd wr f d = (e, w')"
  shows "sim_new_ev w w' e f d"
proof -
  have "(1 :: u32) AND 2 = 0" by simp
  then show ?thesis
    using assms by (auto simp: ev_add_fd_def add_fd_event_def new_event_def upd_def sim_new_ev_def view_defs ev_dead_def has_flag_def fun_eq_iff)
qed

lemma new_ev_sim: "sim_new_ev a b e f d \<Longrightarrow> sim b c \<Longrightarrow> sim_new_ev a c e f d"
  using same_shape_trans by (auto simp: sim_new_ev_def sim_def)

lemma sim_new_ev_trans: "sim a b \<Longrightarrow> sim_new_ev b c e f d \<Longrightarrow> sim_new_ev a c e f d"
  using same_shape_trans by (auto simp: sim_new_ev_def sim_def)

lemma new_ev_timer:
  assumes "add_timer_event g (w_loop w) ms 0 f d = (e, l)"
  shows "sim_new_ev w (w\<lparr>w_loop := l\<rparr>) e f d"
proof -
  have "((0 AND NOT 2 :: u32) OR 1) AND 2 = 0" by simp
  then show ?thesis
    using assms
    by (auto simp: add_timer_event_def resched_event_def time_now_def time_future_def new_event_def upd_def set_flags_def clear_flags_def
         sim_new_ev_def view_defs ev_dead_def has_flag_def fun_eq_iff Let_def split: prod.splits if_splits)
qed

lemma target_old:
  assumes "wf w" "v_ev w i = Some (f, d, False)" "i \<noteq> e" "\<And>d. v_ep w' d = v_ep w d \<or> v_ep w d = None" "v_conn w' = v_conn w" "v_strm w' = v_strm w"
  shows "target w' i f d"
  using wfD_ev [OF assms(1, 2)] assms(4) [of d] assms(5, 6) by (cases f) (auto simp: target_def)

section \<open>Opening a live session\<close>

definition opened :: "world \<Rightarrow> world \<Rightarrow> nat \<Rightarrow> nat \<Rightarrow> nat \<Rightarrow> bool" where
  "opened w w' q l s \<longleftrightarrow> l = w_next w \<and> s = w_next w + 1 \<and>
     v_sess w' = (v_sess w)(s \<mapsto> (Some l, None, [None, None])) \<and> v_live w' = (v_live w)(l \<mapsto> (s, q)) \<and>
     v_src w' = (v_src w)(q := map_option (\<lambda>(ls, ts). (l # ls, ts)) (v_src w q)) \<and> v_ep w' = v_ep w \<and> v_conn w' = v_conn w \<and>
     v_rtsp w' = v_rtsp w \<and> v_ev w' = v_ev w \<and> v_http w' = v_http w \<and>
     w_streams w' = w_streams w \<and> w_sess_list w' = s # w_sess_list w \<and> w_rtsp_list w' = w_rtsp_list w \<and> w_conn_list w' = w_conn_list w \<and>
     w_http_list w' = w_http_list w \<and> map lo_private (w_rtsp_locs w') = map lo_private (w_rtsp_locs w) \<and> w_next w' = w_next w + 2"

lemma wf_opened:
  assumes wf: "wf w" and c: "opened w w' q l s" and q: "v_src w q \<noteq> None"
  shows "wf w'"
proof -
  have V: "v_sess w' = (v_sess w)(s \<mapsto> (Some l, None, [None, None]))" "v_live w' = (v_live w)(l \<mapsto> (s, q))"
    "v_src w' = (v_src w)(q := map_option (\<lambda>(ls, ts). (l # ls, ts)) (v_src w q))" "v_ep w' = v_ep w" "v_conn w' = v_conn w"
    "v_rtsp w' = v_rtsp w" "v_ev w' = v_ev w" "v_http w' = v_http w" "v_dest w' = v_dest w" "v_strm w' = v_strm w"
    using c by (simp_all add: opened_def v_dest_def v_strm_def fun_eq_iff)
  have L: "w_sess_list w' = s # w_sess_list w" "w_rtsp_list w' = w_rtsp_list w"
    "w_conn_list w' = w_conn_list w" "w_http_list w' = w_http_list w" "map lo_private (w_rtsp_locs w') = map lo_private (w_rtsp_locs w)"
    "w_next w' = w_next w + 2" "w_streams w' = w_streams w" and N: "l = w_next w" "s = w_next w + 1"
    using c by (simp_all add: opened_def)
  have F: "v_sess w s = None" "v_live w l = None" using wfD_fresh [OF wf, of s] wfD_fresh [OF wf, of l] N by simp_all
  have src: "\<exists>ls. v_src w q' = Some (ls, ts) \<and> ls' = (if q' = q then l # ls else ls)" if "v_src w' q' = Some (ls', ts)" for q' ls' ts
    using that by (auto simp: V(3) split: if_splits)
  have "wf_sess w'"
    unfolding wf_sess_def
  proof (intro conjI allI impI)
    fix s' p' r' es' assume s': "v_sess w' s' = Some (p', r', es')"
    have "length es' = MAX_TRACKS \<and> (\<exists>l q. p' = Some l \<and> v_live w' l = Some (s', q)) \<and> (\<forall>k. r' = Some k \<longrightarrow> v_rtsp w' k = Some s')"
    proof (cases "s' = s")
      case True
      then show ?thesis using s' by (auto simp: V)
    next
      case False
      then have "v_sess w s' = Some (p', r', es')" using s' by (simp add: V)
      from wfD_sess [OF wf this] show ?thesis using F(2) by (auto simp: V)
    qed
    then show "length es' = MAX_TRACKS" "\<exists>l q. p' = Some l \<and> v_live w' l = Some (s', q)" "r' = Some k \<Longrightarrow> v_rtsp w' k = Some s'" for k by blast+
  qed (use wfD_sess_list [OF wf] F in \<open>auto simp: V L\<close>)
  moreover have "wf_live w'"
    unfolding wf_live_def
  proof (intro allI impI)
    fix l' s' q' assume l': "v_live w' l' = Some (s', q')"
    show "(\<exists>r es. v_sess w' s' = Some (Some l', r, es)) \<and> (\<exists>ls ts. v_src w' q' = Some (ls, ts) \<and> l' \<in> set ls)"
    proof (cases "l' = l")
      case True
      then show ?thesis using l' q by (auto simp: V)
    next
      case False
      then have "v_live w l' = Some (s', q')" using l' by (simp add: V)
      from wfD_live [OF wf this] show ?thesis using F(1) by (auto simp: V)
    qed
  qed
  moreover have "wf_src w'"
    unfolding wf_src_def
  proof (rule conjI, intro allI impI)
    fix q' ls' ts assume "v_src w' q' = Some (ls', ts)"
    then obtain ls where ls: "v_src w q' = Some (ls, ts)" "ls' = (if q' = q then l # ls else ls)" using src by blast
    note W = wfD_src [OF wf ls(1)]
    have "l \<notin> set ls" using W F(2) by auto
    then have "distinct ls'" "\<forall>l \<in> set ls'. \<exists>s. v_live w' l = Some (s, q')" using W ls(2) by (auto simp: V)
    then show "length ts = MAX_TRACKS \<and> distinct ls' \<and> (\<forall>l \<in> set ls'. \<exists>s. v_live w' l = Some (s, q')) \<and> (snd (ts ! 1) \<longrightarrow> snd (ts ! 0)) \<and>
        (\<forall>i < MAX_TRACKS. snd (ts ! i) \<longrightarrow> (\<exists>d. fst (ts ! i) = Some d \<and> v_dest w' d))"
      using W by (simp add: V(9))
  next
    have "v_src w' q' \<noteq> None" if "v_src w q' \<noteq> None" for q' using that by (auto simp: V)
    then show "\<forall>q \<in> set (map lo_private (w_rtsp_locs w')). v_src w' q \<noteq> None" using wfD_locs [OF wf] unfolding L by blast
  qed
  moreover have "wf_rtsp w'"
    unfolding wf_rtsp_def
  proof (intro conjI allI impI)
    fix k s' assume k: "v_rtsp w' k = Some s'"
    then have "\<exists>p es. v_sess w s' = Some (p, Some k, es)" using wfD_rtsp [OF wf] by (simp add: V)
    then show "\<exists>p es. v_sess w' s' = Some (p, Some k, es)" using F(1) by (auto simp: V)
  qed (use wfD_rtsp_list [OF wf] in \<open>auto simp: L V\<close>)
  moreover have "wf_slot w'"
    unfolding wf_slot_def
  proof (intro allI impI)
    fix s' p' r' es' j e' assume a: "v_sess w' s' = Some (p', r', es')" "j < MAX_TRACKS" "es' ! j = Some e'"
    then have "s' \<noteq> s" by (cases j) (auto simp: V)
    then have s': "v_sess w s' = Some (p', r', es')" using a(1) by (simp add: V)
    note W = wfD_slot [OF wf s' a(2, 3)]
    have "snd (ts ! j)" if "p' = Some l'" "v_live w' l' = Some (s', q')" "v_src w' q' = Some (ls', ts)" for l' q' ls' ts
    proof -
      have "v_live w l' = Some (s', q')" using that(2) \<open>s' \<noteq> s\<close> by (auto simp: V split: if_splits)
      then show ?thesis using W that(1) src [OF that(3)] by blast
    qed
    then show "(\<exists>v tr. v_ep w' e' = Some (s', v, tr)) \<and> (\<forall>j' < MAX_TRACKS. es' ! j' = Some e' \<longrightarrow> j' = j) \<and>
        (\<forall>l q ls ts. p' = Some l \<longrightarrow> v_live w' l = Some (s', q) \<longrightarrow> v_src w' q = Some (ls, ts) \<longrightarrow> snd (ts ! j))"
      using W unfolding V(4) by blast
  qed
  moreover have "wf_ep w'"
    unfolding wf_ep_def V(4, 5)
  proof (intro allI impI conjI)
    fix e' s' v tr assume e: "v_ep w e' = Some (s', v, tr)"
    show "\<exists>p r es i. v_sess w' s' = Some (p, r, es) \<and> i < MAX_TRACKS \<and> es ! i = Some e'"
      using wfD_ep [OF wf e] F(1) by (auto simp: V)
    show "\<exists>re se we ich. v_conn w c = Some (re, se, we, CONN_PROTO_RTSP, PS_rtsp ich) \<and> a < MAX_INTERLEAVE_CHANNELS \<and>
        b < MAX_INTERLEAVE_CHANNELS \<and> a \<noteq> b \<and> ich ! a = (Some e', False) \<and> ich ! b = (Some e', True)" if "tr = Trans_inter c a b" for c a b
      by (rule wfD_inter [OF wf e [unfolded that]])
  qed
  moreover have "wf_conn w'" using wf unfolding wf_def wf_conn_def V L by blast
  moreover have "wf_http w'" using wf unfolding wf_def wf_http_def V L by blast
  moreover have "wf_ev w'" using wf unfolding wf_def wf_ev_def target_def V by blast
  moreover have "wf_fresh w'"
    unfolding wf_fresh_def L
  proof (intro allI impI)
    fix n assume n: "w_next w + 2 \<le> n"
    then have "w_next w \<le> n" by simp
    from wfD_fresh [OF wf this] show "v_sess w' n = None \<and> v_live w' n = None \<and> v_src w' n = None \<and> v_ep w' n = None \<and>
        v_conn w' n = None \<and> v_rtsp w' n = None" using n N q by (auto simp: V)
  qed
  moreover have "wf_streams (w_streams w')" using wfD_streams [OF wf] by (simp add: L)
  moreover have "wf_cons w'" by (rule wf_cons_kept [OF wf]) (auto simp: V L)
  ultimately show ?thesis by (simp add: wf_def)
qed

lemma safe_live_open:
  assumes "wf w" "v_src w q \<noteq> None"
  shows "safe (live_open E w q) (\<lambda>(w', o'). wf w' \<and> (case o' of None \<Rightarrow> w' = w | Some s \<Rightarrow> opened w w' q (w_next w) s))"
proof -
  obtain src where src: "w_sources w q = Some src" using assms(2) by (auto simp: v_src_def)
  show ?thesis
  proof (cases "so_cur_conn src \<ge> so_max_conn src")
    case True
    then show ?thesis using src assms(1) by (simp add: live_open_def deref_def)
  next
    case False
    define w' where "w' = (case live_open E w q of Inr (w', _) \<Rightarrow> w' | _ \<Rightarrow> w)"
    have e: "live_open E w q = Inr (w', Some (w_next w + 1))"
      using False src by (simp add: w'_def live_open_def deref_def new_session_def now_def put_source_def put_sess_def put_live_def Let_def split: prod.split)
    moreover have "opened w w' q (w_next w) (w_next w + 1)"
      using False src unfolding opened_def
      by (auto simp: w'_def live_open_def deref_def new_session_def now_def time_now_def ev_dead_def has_flag_def put_source_def put_sess_def put_live_def Let_def
           view_defs fun_eq_iff numeral_2_eq_2 split: prod.split)
    ultimately show ?thesis using wf_opened [OF assms(1) _ assms(2)] by auto
  qed
qed

section \<open>Setting up a track\<close>

definition set_up :: "world \<Rightarrow> world \<Rightarrow> nat \<Rightarrow> nat \<Rightarrow> nat \<Rightarrow> evid \<Rightarrow> bool" where
  "set_up w w' s t e ev \<longleftrightarrow> e = w_next w \<and>
     v_sess w' = (v_sess w)(s := map_option (\<lambda>(p, r, es). (p, r, es[t := Some e])) (v_sess w s)) \<and> v_live w' = v_live w \<and>
     v_src w' = v_src w \<and> v_ep w' = (v_ep w)(e \<mapsto> (s, ev, No_trans)) \<and> v_conn w' = v_conn w \<and>
     v_rtsp w' = v_rtsp w \<and> v_ev w' = (v_ev w)(ev \<mapsto> (Cb_rtcp_fire, e, False)) \<and> v_ev w ev = None \<and> v_http w' = v_http w \<and>
     same_shape (w_streams w) (w_streams w') \<and> w_sess_list w' = w_sess_list w \<and> w_rtsp_list w' = w_rtsp_list w \<and> w_conn_list w' = w_conn_list w \<and>
     w_http_list w' = w_http_list w \<and> map lo_private (w_rtsp_locs w') = map lo_private (w_rtsp_locs w) \<and> w_next w' = w_next w + 1"

lemma wf_set_up:
  assumes wf: "wf w" and c: "set_up w w' s t e ev" and s: "v_sess w s = Some (Some l, r, es)" and t: "t < MAX_TRACKS" "es ! t = None"
    and q: "v_live w l = Some (s, q)" "v_src w q = Some (ls, ts)" "snd (ts ! t)"
  shows "wf w'"
proof -
  have V: "v_sess w' = (v_sess w)(s \<mapsto> (Some l, r, es[t := Some e]))" "v_live w' = v_live w"
    "v_src w' = v_src w" "v_ep w' = (v_ep w)(e \<mapsto> (s, ev, No_trans))" "v_conn w' = v_conn w"
    "v_rtsp w' = v_rtsp w" "v_ev w' = (v_ev w)(ev \<mapsto> (Cb_rtcp_fire, e, False))" "v_http w' = v_http w" "v_dest w' = v_dest w" "v_strm w' = v_strm w"
    using c s same_shape_v_dest by (simp_all add: set_up_def)
  have L: "w_sess_list w' = w_sess_list w" "w_rtsp_list w' = w_rtsp_list w"
    "w_conn_list w' = w_conn_list w" "w_http_list w' = w_http_list w" "map lo_private (w_rtsp_locs w') = map lo_private (w_rtsp_locs w)"
    "w_next w' = w_next w + 1" "same_shape (w_streams w) (w_streams w')" and N: "e = w_next w"
    using c by (simp_all add: set_up_def)
  have F: "v_ep w e = None" using wfD_fresh [OF wf, of e] N by simp
  have len: "length es = MAX_TRACKS" using wfD_sess [OF wf s] by blast
  have unused: "es' ! i \<noteq> Some e" if "v_sess w s' = Some (p', r', es')" "i < MAX_TRACKS" for s' p' r' es' i
    using wfD_slot [OF wf that] F by auto
  have "wf_sess w'"
    unfolding wf_sess_def V(2, 6) L
  proof (intro conjI allI impI)
    fix s' p' r' es' assume "v_sess w' s' = Some (p', r', es')"
    then obtain es0 where "v_sess w s' = Some (p', r', es0)" "length es' = length es0"
      using s by (cases "s' = s") (auto simp: V(1))
    with wfD_sess [OF wf this(1)] show "length es' = MAX_TRACKS" "\<exists>l q. p' = Some l \<and> v_live w l = Some (s', q)"
      "\<And>k. r' = Some k \<Longrightarrow> v_rtsp w k = Some s'" by auto
  qed (use wfD_sess_list [OF wf] in \<open>auto simp: V(1)\<close>)
  moreover have "wf_live w'"
    unfolding wf_live_def V(2, 3)
  proof (intro allI impI)
    fix l' s' q' assume "v_live w l' = Some (s', q')"
    from wfD_live [OF wf this] s
    show "(\<exists>r es. v_sess w' s' = Some (Some l', r, es)) \<and> (\<exists>ls ts. v_src w q' = Some (ls, ts) \<and> l' \<in> set ls)"
      by (cases "s' = s") (auto simp: V(1))
  qed
  moreover have "wf_src w'" using wf unfolding wf_def wf_src_def V(2, 3, 9) L by blast
  moreover have "wf_rtsp w'"
    unfolding wf_rtsp_def V(6) L
  proof (intro conjI allI impI)
    fix r' s' assume "v_rtsp w r' = Some s'"
    from wfD_rtsp [OF wf this] s show "\<exists>p es. v_sess w' s' = Some (p, Some r', es)" by (cases "s' = s") (auto simp: V(1))
  qed (use wfD_rtsp_list [OF wf] in auto)
  moreover have "wf_slot w'"
    unfolding wf_slot_def
  proof (intro allI impI)
    fix s' p' r' es' j e' assume a: "v_sess w' s' = Some (p', r', es')" "j < MAX_TRACKS" "es' ! j = Some e'"
    show "(\<exists>v tr. v_ep w' e' = Some (s', v, tr)) \<and> (\<forall>j' < MAX_TRACKS. es' ! j' = Some e' \<longrightarrow> j' = j) \<and>
        (\<forall>l q ls ts. p' = Some l \<longrightarrow> v_live w' l = Some (s', q) \<longrightarrow> v_src w' q = Some (ls, ts) \<longrightarrow> snd (ts ! j))"
    proof (cases "e' = e")
      case True
      have es: "s' = s" "p' = Some l" "es' = es[t := Some e]" using a unused True by (auto simp: V split: if_splits)
      have "j' = t" if "j' < MAX_TRACKS" "es' ! j' = Some e" for j' using that es unused [OF s that(1)] len by (cases "j' = t") auto
      then show ?thesis using es True a q by (auto simp: V)
    next
      case False
      obtain es0 where es0: "v_sess w s' = Some (p', r', es0)" "es0 ! j = Some e'" "\<forall>k. es' ! k = Some e' \<longrightarrow> k < MAX_TRACKS \<longrightarrow> es0 ! k = Some e'"
        using a s False len t by (cases "s' = s") (auto simp: V nth_list_update split: if_splits)
      note W = wfD_slot [OF wf es0(1) a(2) es0(2)]
      show ?thesis using W es0(3) False by (auto simp: V)
    qed
  qed
  moreover have "wf_ep w'"
    unfolding wf_ep_def
  proof (intro allI impI conjI)
    fix e' s' v tr assume e: "v_ep w' e' = Some (s', v, tr)"
    show "\<exists>p r es i. v_sess w' s' = Some (p, r, es) \<and> i < MAX_TRACKS \<and> es ! i = Some e'"
    proof (cases "e' = e")
      case True
      then show ?thesis using e t len by (auto simp: V)
    next
      case False
      then have "v_ep w e' = Some (s', v, tr)" using e by (simp add: V)
      from wfD_ep [OF wf this] obtain p' r' es' i where i: "v_sess w s' = Some (p', r', es')" "i < MAX_TRACKS" "es' ! i = Some e'" by blast
      show ?thesis
      proof (cases "s' = s")
        case True
        then have "es[t := Some e] ! i = Some e'" using i s t by (cases "i = t") auto
        then show ?thesis using i(2) True by (auto simp: V)
      qed (use i in \<open>auto simp: V\<close>)
    qed
    fix c a b assume tr: "tr = Trans_inter c a b"
    then have "v_ep w e' = Some (s', v, Trans_inter c a b)" using e by (auto simp: V split: if_splits)
    from wfD_inter [OF wf this] show "\<exists>re se we ich. v_conn w' c = Some (re, se, we, CONN_PROTO_RTSP, PS_rtsp ich) \<and> a < MAX_INTERLEAVE_CHANNELS \<and>
        b < MAX_INTERLEAVE_CHANNELS \<and> a \<noteq> b \<and> ich ! a = (Some e', False) \<and> ich ! b = (Some e', True)" by (simp add: V)
  qed
  moreover have "wf_conn w'"
    unfolding wf_conn_def V(5) L
  proof (intro conjI allI impI)
    fix c re se we pr ps assume "v_conn w c = Some (re, se, we, pr, ps)"
    from wfD_conn [OF wf this] F show "ps = PS_null \<or> pr = CONN_PROTO_RTSP \<and> (\<exists>ich. ps = PS_rtsp ich \<and> length ich = MAX_INTERLEAVE_CHANNELS \<and>
        (\<forall>i < MAX_INTERLEAVE_CHANNELS. \<forall>e rt. ich ! i = (Some e, rt) \<longrightarrow>
           (\<exists>s v a b. v_ep w' e = Some (s, v, Trans_inter c a b) \<and> i = (if rt then b else a))))"
      by (fastforce simp: V)
  qed (use wfD_conn_list [OF wf] in auto)
  moreover have "wf_http w'" using wf unfolding wf_def wf_http_def V L by blast
  moreover have "wf_ev w'"
    unfolding wf_ev_def
  proof (intro allI impI)
    fix i f d assume i: "v_ev w' i = Some (f, d, False)"
    show "target w' i f d"
    proof (cases "i = ev")
      case True
      then show ?thesis using i by (auto simp: V target_def)
    next
      case False
      then have "v_ev w i = Some (f, d, False)" using i by (simp add: V)
      then show ?thesis using False by (rule target_old [OF wf]) (use F in \<open>auto simp: V\<close>)
    qed
  qed
  moreover have "wf_fresh w'"
    unfolding wf_fresh_def L
  proof (intro allI impI)
    fix n assume n: "w_next w + 1 \<le> n"
    then have "w_next w \<le> n" by simp
    from wfD_fresh [OF wf this] show "v_sess w' n = None \<and> v_live w' n = None \<and> v_src w' n = None \<and> v_ep w' n = None \<and>
        v_conn w' n = None \<and> v_rtsp w' n = None" using n N s by (auto simp: V)
  qed
  moreover have "wf_streams (w_streams w')" using wfD_streams [OF wf] L(7) wf_same_shape by blast
  moreover have "wf_cons w'" by (rule wf_cons_kept [OF wf L(7)]) (simp_all add: V)
  ultimately show ?thesis by (simp add: wf_def)
qed

lemma put_ep_views:
  "v_sess (put_ep w e y) = v_sess w" "v_live (put_ep w e y) = v_live w" "v_src (put_ep w e y) = v_src w"
  "v_ep (put_ep w e y) = (v_ep w)(e \<mapsto> (ep_session y, ep_rtcp_send_event y, ep_trans y))" "v_conn (put_ep w e y) = v_conn w"
  "v_rtsp (put_ep w e y) = v_rtsp w" "v_ev (put_ep w e y) = v_ev w" "v_http (put_ep w e y) = v_http w"
  "v_dest (put_ep w e y) = v_dest w" "v_strm (put_ep w e y) = v_strm w"
  by (auto simp: view_defs put_ep_def fun_eq_iff)

lemma put_ep_rest:
  "w_sess_list (put_ep w e y) = w_sess_list w" "w_rtsp_list (put_ep w e y) = w_rtsp_list w" "w_conn_list (put_ep w e y) = w_conn_list w"
  "w_http_list (put_ep w e y) = w_http_list w" "w_rtsp_locs (put_ep w e y) = w_rtsp_locs w" "w_next (put_ep w e y) = w_next w"
  "w_streams (put_ep w e y) = w_streams w" "w_loop (put_ep w e y) = w_loop w"
  by (simp_all add: put_ep_def)

lemma next_views:
  "v_sess (w\<lparr>w_next := k\<rparr>) = v_sess w" "v_live (w\<lparr>w_next := k\<rparr>) = v_live w" "v_src (w\<lparr>w_next := k\<rparr>) = v_src w"
  "v_ep (w\<lparr>w_next := k\<rparr>) = v_ep w" "v_conn (w\<lparr>w_next := k\<rparr>) = v_conn w" "v_rtsp (w\<lparr>w_next := k\<rparr>) = v_rtsp w"
  "v_ev (w\<lparr>w_next := k\<rparr>) = v_ev w" "v_http (w\<lparr>w_next := k\<rparr>) = v_http w"
  by (simp_all add: view_defs fun_eq_iff)

lemma new_rtp_endpoint_ev:
  obtains ev w1 y where "new_rtp_endpoint E w s payload = (w_next w, put_ep w1 (w_next w) y)"
    "sim_new_ev (w\<lparr>w_next := w_next w + 1\<rparr>) w1 ev Cb_rtcp_fire (w_next w)"
    "ep_session y = s" "ep_rtcp_send_event y = ev" "ep_trans y = No_trans" "w_sess w1 = w_sess w"
proof -
  let ?e = "w_next w"
  let ?w0 = "w\<lparr>w_next := ?e + 1\<rparr>"
  let ?wb = "snd (call (snd (call (snd (call ?w0)))))"
  obtain ev l where a: "add_timer_event (o_clock E) (w_loop ?wb) 5000 0 Cb_rtcp_fire ?e = (ev, l)" by (cases "add_timer_event (o_clock E) (w_loop ?wb) 5000 0 Cb_rtcp_fire ?e")
  let ?wc = "snd (now E (snd (now E (ev_enable (?wb\<lparr>w_loop := l\<rparr>) ev False))))"
  have "sim ?w0 ?wb" by (meson sim_call sim_trans)
  from new_ev_sim [OF sim_new_ev_trans [OF this new_ev_timer [OF a]] sim_trans [OF sim_enable sim_trans [OF sim_now sim_now]]]
  have n: "sim_new_ev ?w0 ?wc ev Cb_rtcp_fire ?e" .
  have l0: "w_loop ?wb = w_loop w" by (simp add: call_def)
  have "\<exists>y. new_rtp_endpoint E w s payload = (?e, put_ep ?wc ?e y) \<and> ep_session y = s \<and> ep_rtcp_send_event y = ev \<and> ep_trans y = No_trans"
    using a unfolding l0 by (simp add: new_rtp_endpoint_def call_def Let_def case_prod_beta) (rule exI, rule conjI, rule refl, simp)
  moreover have "w_sess ?wc = w_sess w" by (simp add: now_def ev_enable_def call_def case_prod_beta)
  ultimately show ?thesis using n that by blast
qed

lemma live_of_track:
  assumes "wf w" "v_sess w s = Some (p, r, es)" "live_of w s = Inr (x, l, ls, src)"
  shows "p = Some l" "v_live w l = Some (s, ls_source ls)" "w_sess w s = Some x" "se_ep x = es" "se_private x = p" "se_control x = r"
    "v_src w (ls_source ls) = Some (so_sess_list src, map (\<lambda>t. (tr_stream t, tr_rtp t \<noteq> None)) (so_track src))"
    "length (so_track src) = MAX_TRACKS" "w_lives w l = Some ls" "w_sources w (ls_source ls) = Some src" "length es = MAX_TRACKS"
  using live_of_wf [OF assms(1, 2)] assms(3) by (auto simp: v_live_def v_src_def)

lemma safe_live_setup:
  assumes wf: "wf w" and s: "v_sess w s = Some (p, r, es)" and t: "t < MAX_TRACKS" "es ! t = None"
  shows "safe (live_setup E w s t) (\<lambda>(w', rc). wf w' \<and> (rc < 0 \<and> w' = w \<or> rc \<ge> 0 \<and> (\<exists>ev. set_up w w' s t (w_next w) ev)))"
proof -
  obtain x l ls src where L: "live_of w s = Inr (x, l, ls, src)" using live_of_wf [OF wf s] by metis
  note T = live_of_track [OF wf s L]
  have "safe (case tr_rtp (so_track src ! t) of
         None \<Rightarrow> Inr (w, -1 :: int)
       | Some m \<Rightarrow>
           let (e, w) = new_rtp_endpoint E w s (media_get_payload m (96 + int t)) in
           rbind (aset (se_ep x) t (Some e)) (\<lambda>eps.
           rbind (deref (w_eps w) e) (\<lambda>ep.
           let w = put_sess w s (x\<lparr>se_ep := eps\<rparr>);
               w = put_ep w e (ep\<lparr>ep_max_data_size := so_max_trans_size src, ep_pvQosAnalyser := True\<rparr>)
           in rbind (non_null (tr_stream (so_track src ! t))) (\<lambda>d.
              rbind (stream_do w (\<lambda>st. get_enc_pipe_num st d)) (\<lambda>w. Inr (w, 0))))))
     (\<lambda>(w', rc). wf w' \<and> (rc < 0 \<and> w' = w \<or> rc \<ge> 0 \<and> (\<exists>ev. set_up w w' s t (w_next w) ev)))"
  proof (cases "tr_rtp (so_track src ! t)")
    case None
    then show ?thesis using wf by simp
  next
    case (Some m)
    let ?e = "w_next w"
    obtain ev w1 y where n: "new_rtp_endpoint E w s (media_get_payload m (96 + int t)) = (?e, put_ep w1 ?e y)"
      "sim_new_ev (w\<lparr>w_next := ?e + 1\<rparr>) w1 ev Cb_rtcp_fire ?e" "ep_session y = s" "ep_rtcp_send_event y = ev" "ep_trans y = No_trans"
      "w_sess w1 = w_sess w" by (rule new_rtp_endpoint_ev)
    let ?w2 = "put_ep (put_sess (put_ep w1 ?e y) s (x\<lparr>se_ep := es[t := Some ?e]\<rparr>)) ?e (y\<lparr>ep_max_data_size := so_max_trans_size src, ep_pvQosAnalyser := True\<rparr>)"
    have up: "set_up w ?w2 s t ?e ev"
      using n(2-6) s T(3-6) unfolding set_up_def sim_new_ev_def
      by (simp add: put_ep_views put_ep_rest put_sess_views put_sess_rest next_views)
    have wf2: "wf ?w2"
      by (rule wf_set_up [OF wf up s [unfolded T(1)] t T(2, 7)]) (use Some t T(8) in simp)
    obtain d where d: "tr_stream (so_track src ! t) = Some d" "v_dest w d"
      using track_stream [OF wf T(10) t(1)] Some by auto
    have "v_dest ?w2 d" using d(2) up same_shape_v_dest by (auto simp: set_up_def)
    from safe_listener(2) [OF wf2 this]
    have "safe (stream_do ?w2 (\<lambda>st. get_enc_pipe_num st d)) (\<lambda>w'. wf w' \<and> set_up w w' s t ?e ev)"
    proof (rule safe_mono)
      fix w' assume sm: "sim ?w2 w'"
      have "same_shape (w_streams w) (w_streams w')" using up sm same_shape_trans unfolding set_up_def sim_def by blast
      then have "set_up w w' s t ?e ev" using up sm by (simp add: set_up_def sim_def)
      then show "wf w' \<and> set_up w w' s t ?e ev" using wf_sim [OF sm wf2] by simp
    qed
    then have "safe (rbind (stream_do ?w2 (\<lambda>st. get_enc_pipe_num st d)) (\<lambda>w. Inr (w, 0 :: int)))
       (\<lambda>(w', rc). wf w' \<and> (rc < 0 \<and> w' = w \<or> rc \<ge> 0 \<and> (\<exists>ev. set_up w w' s t ?e ev)))"
      by (rule safe_bind) auto
    then show ?thesis using Some n(1) T(4, 11) t(1) d(1) by (simp add: deref_def put_ep_def non_null_def Let_def)
  qed
  then show ?thesis unfolding live_setup_def using L T(8) t(1) by simp
qed

section \<open>Connecting an endpoint\<close>

text \<open>The endpoint gets its transport; the connections and the events are dealt with by the callers.\<close>

definition connected :: "world \<Rightarrow> world \<Rightarrow> nat \<Rightarrow> transport \<Rightarrow> bool" where
  "connected w w' e tr \<longleftrightarrow>
     v_sess w' = v_sess w \<and> v_live w' = v_live w \<and> v_src w' = v_src w \<and>
     v_ep w' = (v_ep w)(e := map_option (\<lambda>(s, v, _). (s, v, tr)) (v_ep w e)) \<and>
     v_rtsp w' = v_rtsp w \<and> v_http w' = v_http w \<and> same_shape (w_streams w) (w_streams w') \<and>
     w_sess_list w' = w_sess_list w \<and> w_rtsp_list w' = w_rtsp_list w \<and> w_conn_list w' = w_conn_list w \<and>
     w_http_list w' = w_http_list w \<and> map lo_private (w_rtsp_locs w') = map lo_private (w_rtsp_locs w) \<and> w_next w' = w_next w"

lemma wf_connected:
  assumes wf: "wf w" and c: "connected w w' e tr" and e: "v_ep w e = Some (s, v, No_trans)"
    and dom: "\<And>c. v_conn w c = None \<Longrightarrow> v_conn w' c = None"
    and inter: "\<And>e' s' v' c a b. v_ep w' e' = Some (s', v', Trans_inter c a b) \<Longrightarrow>
        \<exists>re se we ich. v_conn w' c = Some (re, se, we, CONN_PROTO_RTSP, PS_rtsp ich) \<and> a < MAX_INTERLEAVE_CHANNELS \<and>
        b < MAX_INTERLEAVE_CHANNELS \<and> a \<noteq> b \<and> ich ! a = (Some e', False) \<and> ich ! b = (Some e', True)"
    and parts: "wf_conn w'" "wf_ev w'"
  shows "wf w'"
proof -
  have V: "v_sess w' = v_sess w" "v_live w' = v_live w" "v_src w' = v_src w" "v_ep w' = (v_ep w)(e \<mapsto> (s, v, tr))"
    "v_rtsp w' = v_rtsp w" "v_http w' = v_http w" "v_dest w' = v_dest w" "v_strm w' = v_strm w"
    using c e same_shape_v_dest by (simp_all add: connected_def)
  have L: "w_sess_list w' = w_sess_list w" "w_rtsp_list w' = w_rtsp_list w"
    "w_conn_list w' = w_conn_list w" "w_http_list w' = w_http_list w" "map lo_private (w_rtsp_locs w') = map lo_private (w_rtsp_locs w)"
    "w_next w' = w_next w" "same_shape (w_streams w) (w_streams w')"
    using c by (simp_all add: connected_def)
  have "wf_sess w'" using wf unfolding wf_def wf_sess_def V L by blast
  moreover have "wf_live w'" using wf unfolding wf_def wf_live_def V by blast
  moreover have "wf_src w'" using wf unfolding wf_def wf_src_def V L by blast
  moreover have "wf_rtsp w'" using wf unfolding wf_def wf_rtsp_def V L by blast
  moreover have "wf_slot w'"
    unfolding wf_slot_def V(1-3)
  proof (intro allI impI)
    fix s' p' r' es' j e' assume a: "v_sess w s' = Some (p', r', es')" "j < MAX_TRACKS" "es' ! j = Some e'"
    note W = wfD_slot [OF wf a]
    then have "\<exists>v tr. v_ep w' e' = Some (s', v, tr)" using e by (auto simp: V)
    with W show "(\<exists>v tr. v_ep w' e' = Some (s', v, tr)) \<and> (\<forall>j' < MAX_TRACKS. es' ! j' = Some e' \<longrightarrow> j' = j) \<and>
        (\<forall>l q ls ts. p' = Some l \<longrightarrow> v_live w l = Some (s', q) \<longrightarrow> v_src w q = Some (ls, ts) \<longrightarrow> snd (ts ! j))" by blast
  qed
  moreover have "wf_ep w'"
    unfolding wf_ep_def V(1)
  proof (intro allI impI conjI)
    fix e' s' v' tr' assume e': "v_ep w' e' = Some (s', v', tr')"
    then obtain tr0 where "v_ep w e' = Some (s', v', tr0)" using e by (auto simp: V split: if_splits)
    from wfD_ep [OF wf this] show "\<exists>p r es i. v_sess w s' = Some (p, r, es) \<and> i < MAX_TRACKS \<and> es ! i = Some e'" .
  qed (use inter in blast)
  moreover have "wf_http w'" using wf unfolding wf_def wf_http_def V L by blast
  moreover have "wf_fresh w'"
    unfolding wf_fresh_def L
  proof (intro allI impI)
    fix n assume n: "w_next w \<le> n"
    from wfD_fresh [OF wf this] show "v_sess w' n = None \<and> v_live w' n = None \<and> v_src w' n = None \<and> v_ep w' n = None \<and>
        v_conn w' n = None \<and> v_rtsp w' n = None" using e dom by (auto simp: V)
  qed
  moreover have "wf_streams (w_streams w')" using wfD_streams [OF wf] L(7) wf_same_shape by blast
  moreover have "wf_cons w'" by (rule wf_cons_kept [OF wf L(7)]) (simp_all add: V)
  ultimately show ?thesis using parts by (simp add: wf_def)
qed

lemma wf_udp_connected:
  assumes wf: "wf w" and c: "connected w w' e (Trans_udp ad po fd i fd' j)" and e: "v_ep w e = Some (s, v, No_trans)"
    and conn: "v_conn w' = v_conn w" and ev: "v_ev w' = (v_ev w)(i \<mapsto> (Cb_udp_rtp_read, e, False), j \<mapsto> (Cb_udp_rtcp_read, e, False))" "i \<noteq> j"
  shows "wf w'"
proof (rule wf_connected [OF wf c e])
  have V: "v_ep w' = (v_ep w)(e \<mapsto> (s, v, Trans_udp ad po fd i fd' j))" "w_conn_list w' = w_conn_list w" "v_strm w' = v_strm w"
    using c e same_shape_v_dest(2) by (simp_all add: connected_def)
  show "\<exists>re se we ich. v_conn w' c = Some (re, se, we, CONN_PROTO_RTSP, PS_rtsp ich) \<and> a < MAX_INTERLEAVE_CHANNELS \<and>
        b < MAX_INTERLEAVE_CHANNELS \<and> a \<noteq> b \<and> ich ! a = (Some e', False) \<and> ich ! b = (Some e', True)"
    if "v_ep w' e' = Some (s', v', Trans_inter c a b)" for e' s' v' c a b
  proof -
    have "v_ep w e' = Some (s', v', Trans_inter c a b)" using that by (auto simp: V split: if_splits)
    from wfD_inter [OF wf this] show ?thesis by (simp add: conn)
  qed
  show "wf_conn w'"
    unfolding wf_conn_def conn V(2)
  proof (intro conjI allI impI)
    fix c re se we pr ps assume "v_conn w c = Some (re, se, we, pr, ps)"
    from wfD_conn [OF wf this] e show "ps = PS_null \<or> pr = CONN_PROTO_RTSP \<and> (\<exists>ich. ps = PS_rtsp ich \<and> length ich = MAX_INTERLEAVE_CHANNELS \<and>
        (\<forall>i < MAX_INTERLEAVE_CHANNELS. \<forall>e rt. ich ! i = (Some e, rt) \<longrightarrow>
           (\<exists>s v a b. v_ep w' e = Some (s, v, Trans_inter c a b) \<and> i = (if rt then b else a))))"
      by (fastforce simp: V)
  qed (use wfD_conn_list [OF wf] in auto)
  show "wf_ev w'"
    unfolding wf_ev_def
  proof (intro allI impI)
    fix k f d assume k: "v_ev w' k = Some (f, d, False)"
    show "target w' k f d"
    proof (cases "k = i \<or> k = j")
      case True
      then show ?thesis using k ev(2) by (auto simp: ev target_def V)
    next
      case False
      then have "v_ev w k = Some (f, d, False)" using k by (simp add: ev)
      from wfD_ev [OF wf this] show ?thesis using e by (cases f) (auto simp: target_def V conn)
    qed
  qed
qed (simp add: conn)

text \<open>An endpoint is connected to two free channels of its connection.\<close>

lemma wf_inter_connected:
  assumes wf: "wf w" and c: "connected w w' e (Trans_inter c a b)" and e: "v_ep w e = Some (s, v, No_trans)"
    and conn: "v_conn w c = Some (re, se, we, CONN_PROTO_RTSP, ps)" "ps = PS_null \<and> ich = replicate MAX_INTERLEAVE_CHANNELS (None, False) \<or> ps = PS_rtsp ich"
    and conn': "v_conn w' = (v_conn w)(c \<mapsto> (re, se, we, CONN_PROTO_RTSP, PS_rtsp (ich[a := (Some e, False), b := (Some e, True)])))"
    and ab: "a < MAX_INTERLEAVE_CHANNELS" "b < MAX_INTERLEAVE_CHANNELS" "a \<noteq> b" "fst (ich ! a) = None" "fst (ich ! b) = None"
    and ev: "v_ev w' = v_ev w"
  shows "wf w'"
proof (rule wf_connected [OF wf c e])
  let ?ich = "ich[a := (Some e, False), b := (Some e, True)]"
  have V: "v_ep w' = (v_ep w)(e \<mapsto> (s, v, Trans_inter c a b))" "w_conn_list w' = w_conn_list w" "v_strm w' = v_strm w"
    using c e same_shape_v_dest(2) by (simp_all add: connected_def)
  have len: "length ich = MAX_INTERLEAVE_CHANNELS" using wfD_conn [OF wf conn(1)] conn(2) by auto
  have own: "\<exists>s v a b. v_ep w e' = Some (s, v, Trans_inter c a b) \<and> k = (if rt then b else a)"
    if "k < MAX_INTERLEAVE_CHANNELS" "ich ! k = (Some e', rt)" for k e' rt
    using conn(2)
  proof
    assume "ps = PS_null \<and> ich = replicate MAX_INTERLEAVE_CHANNELS (None, False)"
    then show ?thesis using that by simp
  next
    assume "ps = PS_rtsp ich"
    then show ?thesis using wfD_conn [OF wf conn(1)] that by simp
  qed
  show "\<exists>re se we ich. v_conn w' c' = Some (re, se, we, CONN_PROTO_RTSP, PS_rtsp ich) \<and> a' < MAX_INTERLEAVE_CHANNELS \<and>
        b' < MAX_INTERLEAVE_CHANNELS \<and> a' \<noteq> b' \<and> ich ! a' = (Some e', False) \<and> ich ! b' = (Some e', True)"
    if e': "v_ep w' e' = Some (s', v', Trans_inter c' a' b')" for e' s' v' c' a' b'
  proof (cases "e' = e")
    case True
    then show ?thesis using e' ab len by (auto simp: V conn')
  next
    case False
    then have "v_ep w e' = Some (s', v', Trans_inter c' a' b')" using e' by (simp add: V)
    from wfD_inter [OF wf this] obtain re' se' we' ich' where i: "v_conn w c' = Some (re', se', we', CONN_PROTO_RTSP, PS_rtsp ich')"
      "a' < MAX_INTERLEAVE_CHANNELS" "b' < MAX_INTERLEAVE_CHANNELS" "a' \<noteq> b'" "ich' ! a' = (Some e', False)" "ich' ! b' = (Some e', True)" by blast
    show ?thesis
    proof (cases "c' = c")
      case True
      then have "ich' = ich" using i(1) conn by auto
      then have "a' \<noteq> a" "a' \<noteq> b" "b' \<noteq> a" "b' \<noteq> b" using i(5, 6) ab(4, 5) by auto
      then show ?thesis using True i \<open>ich' = ich\<close> by (simp add: conn')
    qed (use i in \<open>simp add: conn'\<close>)
  qed
  show "wf_conn w'"
    unfolding wf_conn_def V(2)
  proof (intro conjI allI impI)
    fix c' re' se' we' pr ps' assume c': "v_conn w' c' = Some (re', se', we', pr, ps')"
    show "ps' = PS_null \<or> pr = CONN_PROTO_RTSP \<and> (\<exists>ich. ps' = PS_rtsp ich \<and> length ich = MAX_INTERLEAVE_CHANNELS \<and>
        (\<forall>i < MAX_INTERLEAVE_CHANNELS. \<forall>e rt. ich ! i = (Some e, rt) \<longrightarrow>
           (\<exists>s v a b. v_ep w' e = Some (s, v, Trans_inter c' a b) \<and> i = (if rt then b else a))))"
    proof (cases "c' = c")
      case True
      have chan: "\<exists>s v a b. v_ep w' e' = Some (s, v, Trans_inter c a b) \<and> k = (if rt then b else a)"
        if k: "k < MAX_INTERLEAVE_CHANNELS" "?ich ! k = (Some e', rt)" for k e' rt
      proof (cases "k = a \<or> k = b")
        case True
        then show ?thesis using k len ab(1-3) by (auto simp: V nth_list_update)
      next
        case False
        then have "ich ! k = (Some e', rt)" using k by simp
        from own [OF k(1) this] e show ?thesis by (auto simp: V)
      qed
      have eq: "pr = CONN_PROTO_RTSP" "ps' = PS_rtsp ?ich" "length ?ich = MAX_INTERLEAVE_CHANNELS" using True c' len by (auto simp: conn')
      show ?thesis using eq chan True by blast
    next
      case False
      then have "v_conn w c' = Some (re', se', we', pr, ps')" using c' by (simp add: conn')
      from wfD_conn [OF wf this] e show ?thesis by (fastforce simp: V)
    qed
  qed (use wfD_conn_list [OF wf] in \<open>auto simp: conn'\<close>)
  show "wf_ev w'"
    unfolding wf_ev_def ev
  proof (intro allI impI)
    fix k f d assume "v_ev w k = Some (f, d, False)"
    from wfD_ev [OF wf this] show "target w' k f d" using e conn(1) by (cases f) (auto simp: target_def V conn')
  qed
qed (use conn in \<open>auto simp: conn' split: if_splits\<close>)

end
