(* ===== verification/Serve.thy ===== *)
theory Serve
  imports Create
begin

text \<open>
  The request handlers of \<^verbatim>\<open>rtsp.c\<close> and \<^verbatim>\<open>http.c\<close> keep the invariant and touch no freed object; \<open>Callbacks\<close> and \<open>Running\<close>
  carry this on to the callbacks of the event loop.
\<close>

section \<open>Computations that do not look at the heap\<close>

lemma heapless_put [simp]: "heapless (put_msg m i ch)" "heapless (put_name m i)" "heapless (put_value m i)"
  by (auto simp: put_msg_def put_name_def put_value_def intro!: heapless_rbind split: prod.split)

lemma heapless_header_line [simp]: "heapless (parse_header_line m i)"
proof -
  have "heapless (parse_header_name m i)" for m i
    by (auto simp: parse_header_name_def Let_def intro!: heapless_rbind split: prod.split if_split)
  moreover have "heapless (parse_header_value m i)" for m i
    by (auto simp: parse_header_value_def Let_def intro!: heapless_rbind split: prod.split if_split)
  ultimately show ?thesis by (auto simp: parse_header_line_def intro!: heapless_rbind split: prod.split option.split)
qed

lemma heapless_if: "(b \<Longrightarrow> heapless x) \<Longrightarrow> (\<not> b \<Longrightarrow> heapless y) \<Longrightarrow> heapless (if b then x else y)"
  by simp

lemma heapless_parse_headers [simp]: "heapless (parse_headers m i)"
proof (induction m i rule: parse_headers.induct)
  case (1 m i)
  let ?i = "if i < msg_len m \<and> aget (msg m) i = Inr CR then i + 1 else i"
  have "heapless (case r of None \<Rightarrow> Inr (m', -1) | Some i \<Rightarrow> parse_headers m' i)"
    if "?i \<noteq> msg_len m" "aget (msg m) ?i = Inr ch" "ch \<noteq> LF" "\<not> (ch = TAB \<or> ch = SP)" "parse_header_line m ?i = Inr (m', r)" for ch m' r
    using 1 [OF refl refl that refl] by (auto split: option.split)
  then show ?case
    unfolding parse_headers.simps [of m i] Let_def by (intro heapless_if heapless_rbind) (auto simp del: aget_in)
qed

lemma heapless_parse_rest [simp]: "heapless (parse_rest m i)"
  by (auto simp: parse_rest_def Let_def intro!: heapless_rbind)

lemma heapless_parse_pmsg [simp]: "heapless (parse_pmsg m)"
proof -
  have "heapless (parse_resp_line m)" for m by (auto simp: parse_resp_line_def Let_def intro!: heapless_rbind)
  moreover have "heapless (parse_req_line m)" for m by (auto simp: parse_req_line_def Let_def intro!: heapless_rbind)
  ultimately show ?thesis by (auto simp: parse_pmsg_def Let_def intro!: heapless_rbind)
qed

lemma heapless_find_field [simp]: "heapless (find_field m name is)"
  by (induction m name "is" rule: find_field.induct) (auto intro!: heapless_rbind split: prod.split)

lemma heapless_get_header [simp]: "heapless (get_header m name)"
  by (auto simp: get_header_def intro!: heapless_rbind split: option.split prod.split)

lemma heapless_copy_headers [simp]: "heapless (copy_headers r m name)"
proof -
  have "heapless (copy_fields r m name is n)" for r "is" n
    by (induction r m name "is" n rule: copy_fields.induct) (auto intro!: heapless_rbind split: prod.split)
  then show ?thesis by (simp add: copy_headers_def)
qed

lemma heapless_log_request [simp]: "heapless (log_request m)"
  by (auto simp: log_request_def intro!: heapless_rbind)

lemma heapless_resp_text [simp]: "heapless (resp_text m len)"
proof -
  have "heapless (headers_text m fs)" for fs
    by (induction m fs rule: headers_text.induct) (auto intro!: heapless_rbind split: prod.split)
  then show ?thesis by (auto simp: resp_text_def Let_def intro!: heapless_rbind)
qed

lemma heapless_auth [simp]: "heapless (check_digest_response st sec t m realm user pw)"
  "heapless (add_digest_challenge st sec s t rnd m realm stale)"
  by (auto simp: check_digest_response_def add_digest_challenge_def Let_def intro!: heapless_rbind split: option.split prod.split)

lemma safe_if: "(b \<Longrightarrow> safe x P) \<Longrightarrow> (\<not> b \<Longrightarrow> safe y P) \<Longrightarrow> safe (if b then x else y) P"
  by simp

lemma safe_opt: "(x = None \<Longrightarrow> safe a P) \<Longrightarrow> (\<And>y. x = Some y \<Longrightarrow> safe (f y) P) \<Longrightarrow> safe (case x of None \<Rightarrow> a | Some y \<Rightarrow> f y) P"
  by (cases x) simp_all

section \<open>Responses\<close>

lemma sim_wf: "sim w w' \<Longrightarrow> wf w \<Longrightarrow> wf w'"
  by (rule wf_sim)

lemma conn_alive: "v_conn w c \<noteq> None \<longleftrightarrow> w_conns w c \<noteq> None"
  by (simp add: v_conn_def)

lemma safe_tcp_send_pmsg: "v_conn w c \<noteq> None \<Longrightarrow> safe (tcp_send_pmsg w c m len) (\<lambda>(w', _). sim w w')"
  unfolding tcp_send_pmsg_def
  by (auto simp: v_conn_def Let_def intro!: safe_pure safe_deref safe_bind [OF safe_conn_send])

lemma sim_conn: "sim w w' \<Longrightarrow> v_conn w' = v_conn w"
  by (simp add: sim_def)

lemma safe_create_reply: "safe (rtsp_create_reply E w m code reason) (\<lambda>(w', _). sim w w')"
  unfolding rtsp_create_reply_def by (auto simp: call_def Let_def sim_calls intro!: safe_pure)

lemma safe_send_error:
  assumes "v_conn w c \<noteq> None"
  shows "safe (rtsp_send_error E w c m code reason) (sim w)"
  unfolding rtsp_send_error_def
proof (rule safe_pure, simp, rule safe_bind [OF safe_create_reply], clarify)
  fix w1 r assume s: "sim w w1"
  then have "v_conn w1 c \<noteq> None" using assms by (simp add: sim_conn)
  then show "safe (rbind (tcp_send_pmsg w1 c r (-1)) (\<lambda>(w, _). Inr w)) (sim w)"
    by (rule safe_bind [OF safe_tcp_send_pmsg]) (auto intro: sim_trans [OF s])
qed

lemma safe_answer_error: "v_conn w c \<noteq> None \<Longrightarrow> safe (answer_error E w c m code reason) (\<lambda>(w', _). sim w w')"
  unfolding answer_error_def by (erule safe_bind [OF safe_send_error]) simp

lemma safe_answer_with: "v_conn w c \<noteq> None \<Longrightarrow> safe (answer_with w c m r) (\<lambda>(w', _). sim w w')"
  unfolding answer_with_def by (auto intro!: safe_pure safe_bind [OF safe_tcp_send_pmsg])

lemma safe_verify_auth:
  assumes "v_conn w c \<noteq> None"
  shows "safe (rtsp_verify_auth E w c m loc) (\<lambda>(w', _). sim w w')"
proof -
  have 1: "safe (rbind (rtsp_create_reply E w1 m 401 ''Unauthorized'') (\<lambda>(w, r).
             let (k, w) = call w; (k', w) = call w in
             rbind (add_digest_challenge (o_stack E) (w_secret w) (random_id (random_bytes E k 8)) (o_time E k)
                      (random_bytes E k' 12) r (lo_realm loc) stale) (\<lambda>(r, sec, _).
             rbind (tcp_send_pmsg (w\<lparr>w_secret := Some sec\<rparr>) c r (-1)) (\<lambda>(w, _). Inr (w, -1 :: int))))) (\<lambda>(w', _). sim w w')"
    if s: "sim w w1" for w1 stale
  proof (rule safe_bind [OF safe_create_reply], clarify)
    fix w2 r assume s2: "sim w1 w2"
    have "safe (rbind (tcp_send_pmsg (w2\<lparr>w_calls := k, w_secret := Some sec\<rparr>) c r' (-1)) (\<lambda>(w, _). Inr (w, -1 :: int))) (\<lambda>(w', _). sim w w')"
      for k sec r'
    proof -
      have s3: "sim w (w2\<lparr>w_calls := k, w_secret := Some sec\<rparr>)" by (rule sim_trans [OF s sim_trans [OF s2 sim_trans [OF sim_calls sim_secret]]])
      then have "v_conn (w2\<lparr>w_calls := k, w_secret := Some sec\<rparr>) c \<noteq> None" using assms by (simp add: sim_conn)
      then show ?thesis by (rule safe_bind [OF safe_tcp_send_pmsg]) (auto intro: sim_trans [OF s3])
    qed
    then show "safe (let (k, w) = call w2; (k', w) = call w in
             rbind (add_digest_challenge (o_stack E) (w_secret w) (random_id (random_bytes E k 8)) (o_time E k)
                      (random_bytes E k' 12) r (lo_realm loc) stale) (\<lambda>(r, sec, _).
             rbind (tcp_send_pmsg (w\<lparr>w_secret := Some sec\<rparr>) c r (-1)) (\<lambda>(w, _). Inr (w, -1 :: int)))) (\<lambda>(w', _). sim w w')"
      by (auto simp: call_def intro!: safe_pure [OF heapless_auth(2)])
  qed
  show ?thesis
    unfolding rtsp_verify_auth_def call_def [of w] Let_def prod.case
    by (rule safe_pure [OF heapless_auth(1)], rule safe_if, simp add: sim_calls)
       (rule safe_pure [OF heapless_log_request], rule 1 [unfolded Let_def, OF sim_calls])
qed

section \<open>RTSP handlers\<close>

definition served :: "world \<Rightarrow> world \<Rightarrow> bool" where
  "served w w' \<longleftrightarrow> wf w' \<and> (\<forall>c. v_conn w c \<noteq> None \<longrightarrow> v_conn w' c \<noteq> None)"

lemma served_conn: "wf w' \<Longrightarrow> v_conn w' = v_conn w \<Longrightarrow> served w w'"
  by (simp add: served_def)

lemma served_sim: "wf w \<Longrightarrow> sim w w' \<Longrightarrow> served w w'"
  by (rule served_conn [OF wf_sim]) (simp_all add: sim_def)

lemma served_trans: "served a b \<Longrightarrow> served b c \<Longrightarrow> served a c"
  by (simp add: served_def)

lemma served_torn: "torn w w' s \<Longrightarrow> served w w'"
  using torn_wf torn_conn unfolding served_def conn_after_def conn_rel_def by (metis option.distinct(1))

lemma served_wf: "served w w' \<Longrightarrow> wf w'"
  by (simp add: served_def)

lemma served_cn: "served w w' \<Longrightarrow> v_conn w c \<noteq> None \<Longrightarrow> v_conn w' c \<noteq> None"
  by (simp add: served_def)

lemma served_refl: "wf w \<Longrightarrow> served w w"
  by (simp add: served_def)

lemma heapless_find_node [simp]: "heapless (node_find_location locs path len)"
  by (induction locs path len rule: node_find_location.induct) (auto intro!: heapless_rbind)

lemma find_node_in: "node_find_location locs path len = Inr (Some loc) \<Longrightarrow> loc \<in> set locs"
  by (induction locs path len rule: node_find_location.induct) (auto simp: rbind_eq_Inr split: if_splits)

lemma heapless_find_location [simp]: "heapless (find_rtsp_location w uri b t)"
  by (auto simp: find_rtsp_location_def Let_def intro!: heapless_rbind split: option.split prod.split)

lemma find_location_in: "find_rtsp_location w uri b t = Inr (Some loc, path, track) \<Longrightarrow> loc \<in> set (w_rtsp_locs w)"
  by (auto simp: find_rtsp_location_def Let_def rbind_eq_Inr find_node_in split: option.splits prod.splits if_splits)

lemma location_source: "wf w \<Longrightarrow> loc \<in> set (w_rtsp_locs w) \<Longrightarrow> v_src w (lo_private loc) \<noteq> None"
  using wfD_locs by simp

lemma safe_options:
  assumes "v_conn w c \<noteq> None"
  shows "safe (handle_OPTIONS E w c m) (\<lambda>(w', _). sim w w')"
  unfolding handle_OPTIONS_def
proof (rule safe_bind [OF safe_create_reply], clarify)
  fix w1 r assume "sim w w1"
  then show "safe (answer_with w1 c m (fst (add_header r ''Public'' ''DESCRIBE, SETUP, TEARDOWN, PLAY, PAUSE''))) (\<lambda>(w', _). sim w w')"
    using assms safe_mono [OF safe_answer_with [of w1 c m]] sim_trans [of w w1] by (auto simp: sim_conn)
qed

lemma slot_ep: "wf w \<Longrightarrow> v_sess w s = Some (p, r, es) \<Longrightarrow> i < length es \<Longrightarrow> es ! i = Some e \<Longrightarrow> w_eps w e \<noteq> None"
  using wfD_slot [of w s p r es i e] wfD_sess [of w s p r es] by (auto simp: v_ep_def)

lemma safe_sdp_tracks:
  assumes "wf w" "v_sess w s = Some (p, r, se_ep x)"
  shows "safe (sdp_tracks w x src ts tx) (\<lambda>_. True)"
proof (induction ts arbitrary: tx)
  case (Cons t ts)
  show ?case
    using Cons slot_ep [OF assms]
    by (auto simp: Let_def intro!: safe_aget safe_bind [where Q = "\<lambda>_. True"] safe_deref split: option.split transport.split)
qed simp

lemma safe_get_sdp:
  assumes "wf w" "v_sess w s = Some (p, r, es)"
  shows "safe (live_get_sdp w s len) (\<lambda>_. True)"
proof -
  obtain x l ls src where L: "live_of w s = Inr (x, l, ls, src)" using live_of_wf [OF assms] by metis
  note T = live_of_track [OF assms L]
  have v: "v_sess w s = Some (p, r, se_ep x)" using assms(2) T(4) by simp
  show ?thesis
    unfolding live_get_sdp_def L
    using slot_ep [OF assms(1) v] slot_ep [OF assms(1) v, of 0] safe_sdp_tracks [OF assms(1) v]
    by (auto intro!: safe_aget safe_bind [where Q = "\<lambda>_. True"] safe_deref split: option.split transport.split)
qed

lemma safe_describe_ok:
  assumes "v_conn w c \<noteq> None"
  shows "safe (describe_ok E w c m uri sdp) (sim w)"
  unfolding describe_ok_def
proof (rule safe_bind [OF safe_create_reply], clarify)
  fix w1 r assume s: "sim w w1"
  have "safe (rbind (tcp_send_pmsg w1 c r' n) (\<lambda>(w, rc).
      if rc \<ge> 0 then rbind (conn_send w c (bytes_of sdp)) (\<lambda>(w, _). Inr w) else Inr w)) (sim w)" for r' n
  proof (rule safe_bind [OF safe_tcp_send_pmsg], use s assms in \<open>simp add: sim_conn\<close>, clarify)
    fix w2 and rc :: int assume s2: "sim w1 w2"
    have s3: "sim w w2" by (rule sim_trans [OF s s2])
    then have "w_conns w2 c \<noteq> None" using assms by (simp add: conn_alive [symmetric] sim_conn del: not_None_eq)
    then show "safe (if rc \<ge> 0 then rbind (conn_send w2 c (bytes_of sdp)) (\<lambda>(w, _). Inr w) else Inr w2) (sim w)"
      using s3 by (auto intro!: safe_bind [OF safe_conn_send] intro: sim_trans [OF s3])
  qed
  then show "safe (if length uri + 2 > 512 then Inl OutOfBounds
       else let r = fst (add_header r ''Content-Base'' (uri @ ''/''));
                r = fst (add_header r ''Content-Type'' ''application/sdp'')
            in rbind (log_request m) (\<lambda>_. rbind (tcp_send_pmsg w1 c r (int (length sdp))) (\<lambda>(w, rc).
               if rc \<ge> 0 then rbind (conn_send w c (bytes_of sdp)) (\<lambda>(w, _). Inr w) else Inr w))) (sim w)"
    by (auto simp: Let_def intro!: safe_pure [OF heapless_log_request])
qed

lemma opened_sess: "opened w w' q l s \<Longrightarrow> v_sess w' s = Some (Some l, None, [None, None])"
  by (simp add: opened_def)

lemma safe_teardown_all:
  assumes "wf w" "v_sess w s = Some (p, r, es)"
  shows "safe (live_teardown w s ep) (served w)"
  by (rule safe_mono [OF safe_live_teardown [OF assms]]) (use served_torn in blast)

lemma safe_describe:
  assumes wf: "wf w" and c: "v_conn w c \<noteq> None"
  shows "safe (handle_DESCRIBE E w c m) (\<lambda>(w', _). served w w')"
proof -
  have err: "safe (answer_error E w c m 404 ''Not Found'') (\<lambda>(w', _). served w w')"
    by (rule safe_mono [OF safe_answer_error [OF c]]) (auto intro: served_sim [OF wf])
  have rest: "safe (rbind (if lo_realm loc \<noteq> [] then rtsp_verify_auth E w1 c m loc else Inr (w1, 0)) (\<lambda>(w, auth).
                   if auth < 0 then Inr (w, 0 :: int)
                   else rbind (live_get_sdp w s 8190) (\<lambda>(n, sdp).
                        rbind (if n > 0 then describe_ok E w c m uri sdp
                               else rtsp_send_error E w c m 404 ''Not Found'') (\<lambda>w.
                        rbind (live_teardown w s None) (\<lambda>w. Inr (w, 0)))))) (\<lambda>(w', _). served w w')"
    if wf1: "wf w1" and o1: "opened w w1 q l s" for w1 loc uri q l s
  proof -
    have c1: "v_conn w1 c \<noteq> None" "served w w1" using o1 c wf1 by (auto simp: opened_def intro: served_conn)
    have "safe (if lo_realm loc \<noteq> [] then rtsp_verify_auth E w1 c m loc else Inr (w1, 0)) (\<lambda>(w', _). sim w1 w')"
      using safe_verify_auth [OF c1(1)] by simp
    then show ?thesis
    proof (rule safe_bind, clarify)
      fix w2 and auth :: int assume s2: "sim w1 w2"
      have wf2: "wf w2" and vs: "v_sess w2 s = Some (Some l, None, [None, None])" and c2: "v_conn w2 c \<noteq> None" and sv2: "served w w2"
        using wf_sim [OF s2 wf1] opened_sess [OF o1] s2 c1(1) served_trans [OF c1(2) served_sim [OF wf1 s2]] by (simp_all add: sim_def)
      have td: "safe (rbind (live_teardown w3 s None) (\<lambda>w. Inr (w, 0 :: int))) (\<lambda>(w', _). served w w')" if s3: "sim w2 w3" for w3
      proof -
        have "wf w3" "v_sess w3 s = Some (Some l, None, [None, None])" using wf_sim [OF s3 wf2] vs s3 by (simp_all add: sim_def)
        then show ?thesis
          by (rule safe_bind [OF safe_teardown_all]) (use served_trans [OF served_trans [OF sv2 served_sim [OF wf2 s3]]] in auto)
      qed
      have snd_: "safe (if n > 0 then describe_ok E w2 c m uri sdp else rtsp_send_error E w2 c m 404 ''Not Found'') (sim w2)" for n :: nat and sdp
        using safe_describe_ok [OF c2] safe_send_error [OF c2] by simp
      have "safe (rbind (live_get_sdp w2 s 8190) (\<lambda>(n, sdp).
                        rbind (if n > 0 then describe_ok E w2 c m uri sdp
                               else rtsp_send_error E w2 c m 404 ''Not Found'') (\<lambda>w.
                        rbind (live_teardown w s None) (\<lambda>w. Inr (w, 0 :: int))))) (\<lambda>(w', _). served w w')"
        by (rule safe_bind [OF safe_get_sdp [OF wf2 vs]], clarify, rule safe_bind [OF snd_], erule td)
      then show "safe (if auth < 0 then Inr (w2, 0 :: int)
                   else rbind (live_get_sdp w2 s 8190) (\<lambda>(n, sdp).
                        rbind (if n > 0 then describe_ok E w2 c m uri sdp
                               else rtsp_send_error E w2 c m 404 ''Not Found'') (\<lambda>w.
                        rbind (live_teardown w s None) (\<lambda>w. Inr (w, 0))))) (\<lambda>(w', _). served w w')"
        using sv2 by simp
    qed
  qed
  show ?thesis
    unfolding handle_DESCRIBE_def
  proof (rule safe_pure [OF heapless_str_ptr], rule safe_pure [OF heapless_find_location], clarify)
    fix uri loc path tr assume f: "find_rtsp_location w uri True False = Inr (loc, path, tr)"
    show "safe (case loc of
         None \<Rightarrow> answer_error E w c m 404 ''Not Found''
       | Some loc \<Rightarrow>
           rbind (live_open E w (lo_private loc)) (\<lambda>(w, s).
             case s of
               None \<Rightarrow> answer_error E w c m 404 ''Not Found''
             | Some s \<Rightarrow>
                 rbind (if lo_realm loc \<noteq> [] then rtsp_verify_auth E w c m loc else Inr (w, 0)) (\<lambda>(w, auth).
                   if auth < 0 then Inr (w, 0)
                   else rbind (live_get_sdp w s 8190) (\<lambda>(n, sdp).
                        rbind (if n > 0 then describe_ok E w c m uri sdp
                               else rtsp_send_error E w c m 404 ''Not Found'') (\<lambda>w.
                        rbind (live_teardown w s None) (\<lambda>w. Inr (w, 0))))))) (\<lambda>(w', _). served w w')"
    proof (cases loc)
      case (Some lc)
      have "v_src w (lo_private lc) \<noteq> None" using location_source [OF wf] find_location_in f Some by blast
      from safe_live_open [OF wf this] show ?thesis
        unfolding Some option.case
      proof (rule safe_bind, clarify)
        fix w1 so assume o1: "wf w1" "case so of None \<Rightarrow> w1 = w | Some s \<Rightarrow> opened w w1 (lo_private lc) (w_next w) s"
        show "safe (case so of
               None \<Rightarrow> answer_error E w1 c m 404 ''Not Found''
             | Some s \<Rightarrow>
                 rbind (if lo_realm lc \<noteq> [] then rtsp_verify_auth E w1 c m lc else Inr (w1, 0)) (\<lambda>(w, auth).
                   if auth < 0 then Inr (w, 0)
                   else rbind (live_get_sdp w s 8190) (\<lambda>(n, sdp).
                        rbind (if n > 0 then describe_ok E w c m uri sdp
                               else rtsp_send_error E w c m 404 ''Not Found'') (\<lambda>w.
                        rbind (live_teardown w s None) (\<lambda>w. Inr (w, 0)))))) (\<lambda>(w', _). served w w')"
        proof (cases so)
          case (Some s)
          show ?thesis unfolding Some option.case by (rule rest [OF o1(1)]) (use o1(2) Some in simp)
        qed (use err o1 in simp)
      qed
    qed (use err in simp)
  qed
qed

subsection \<open>Transports\<close>

lemma connected_sim: "sim a b \<Longrightarrow> connected b c e tr \<Longrightarrow> connected a c e tr"
  using same_shape_trans by (auto simp: connected_def sim_def)

lemma new_ev_ep:
  assumes "sim_new_ev a b i f d" "sim_new_ev b b' j g d" "v_ep a e = Some (ep_session y, ep_rtcp_send_event y, No_trans)"
  shows "connected a (put_ep b' e y) e (ep_trans y)" "v_conn (put_ep b' e y) = v_conn a"
    "v_ev (put_ep b' e y) = (v_ev a)(i \<mapsto> (f, d, False), j \<mapsto> (g, d, False))" "i \<noteq> j"
  using assms same_shape_trans [of "w_streams a" "w_streams b" "w_streams b'"]
  by (auto simp: connected_def sim_new_ev_def put_ep_views put_ep_rest)

lemma connect_udp_ok:
  assumes "connect_udp_endpoint o' rng n add y w = (Some (y', po, w'), opd)"
  shows "\<exists>ad sp fd fd' i j wa. add w fd False = (wa, i) \<and> add wa fd' True = (w', j) \<and> y' = y\<lparr>ep_trans := Trans_udp ad sp fd i fd' j\<rparr>"
proof -
  let ?rng = "rtp_port_end rng - rtp_port_start rng"
  let ?port = "let port = rtp_port_start rng + int n mod ?rng in if odd port then port + 1 else port"
  obtain r opn where t: "try_ports o' rng (nat ((?rng + 1) div 2)) ?port (-1) (-1) 0 [] = (r, opn)" by fastforce
  then obtain po' fd fd' where r: "r = Some (po', fd, fd')" using assms by (cases r) (auto simp: connect_udp_endpoint_def Let_def)
  obtain ad sp where sn: "os_sockname o' = Some (ad, sp)" "os_connect o' 0" "os_connect o' 1"
    using assms t r by (auto simp: connect_udp_endpoint_def Let_def split: if_split_asm option.split_asm)
  obtain wa i where a: "add w fd False = (wa, i)" by fastforce
  obtain wb j where b: "add wa fd' True = (wb, j)" by fastforce
  have "y\<lparr>ep_trans := Trans_udp (''IP4 '' @ ad) sp fd i fd' j\<rparr> = y'" "wb = w'"
    using assms t r sn a b by (simp_all add: connect_udp_endpoint_def Let_def)
  then show ?thesis using a b by blast
qed

lemma safe_udp_setup:
  assumes wf: "wf w" and s: "v_sess w s = Some (p, r, es)" "t < MAX_TRACKS" "es ! t = Some e" and e: "v_ep w e = Some (s, v, No_trans)"
  shows "safe (rtsp_udp_setup E w s t c m tx) (\<lambda>(w', _, _). wf w' \<and> v_sess w' = v_sess w \<and> v_conn w' = v_conn w)"
proof -
  obtain x where x: "w_sess w s = Some x" "se_ep x = es" using s(1) by (auto simp: v_sess_def)
  obtain y where y: "w_eps w e = Some y" "ep_session y = s" "ep_rtcp_send_event y = v" "ep_trans y = No_trans" using e by (auto simp: v_ep_def)
  have len: "length es = MAX_TRACKS" using wfD_sess [OF wf s(1)] by blast
  let ?add = "\<lambda>w fd rtcp. prod.swap (ev_add_fd w fd False (if rtcp then Cb_udp_rtcp_read else Cb_udp_rtp_read) e)"
  let ?Q = "\<lambda>(w', _ :: pmsg, _ :: int). wf w' \<and> v_sess w' = v_sess w \<and> v_conn w' = v_conn w"
  have ok: "wf (put_ep w2 e y') \<and> v_sess (put_ep w2 e y') = v_sess w \<and> v_conn (put_ep w2 e y') = v_conn w"
    if r: "connect_udp_endpoint o' rng n ?add y w1 = (Some (y', po, w2), fds)" and s1: "sim w w1" for o' rng n w1 y' po w2 fds
  proof -
    have e1: "v_ep w1 e = Some (s, v, No_trans)" using s1 e by (simp add: sim_def)
    obtain ad sp fd fd' i j wa where a: "ev_add_fd w1 fd False Cb_udp_rtp_read e = (i, wa)" "ev_add_fd wa fd' False Cb_udp_rtcp_read e = (j, w2)"
      "y' = y\<lparr>ep_trans := Trans_udp ad sp fd i fd' j\<rparr>"
      using connect_udp_ok [OF r] by (auto simp: prod.swap_def prod_eq_iff)
    have y': "v_ep w1 e = Some (ep_session y', ep_rtcp_send_event y', No_trans)" using e1 y a(3) by simp
    note N = new_ev_ep [OF new_ev_add_fd [OF a(1)] new_ev_add_fd [OF a(2)] y']
    have "wf (put_ep w2 e y')"
      by (rule wf_udp_connected [OF wf_sim [OF s1 wf] _ e1 N(2, 3, 4)]) (use N(1) a(3) in simp)
    then show ?thesis using N(1, 2) s1 by (simp add: connected_def sim_def)
  qed
  have "safe (case connect_udp_endpoint o' rng n ?add y (w\<lparr>w_calls := k\<rparr>) of
                 (None, _) \<Rightarrow> Inr (w\<lparr>w_calls := k\<rparr>, m, -1)
               | (Some (ep, server_port, w), _) \<Rightarrow> Inr (put_ep w e ep, f server_port, 0)) ?Q" for o' rng n k f
    using ok [OF _ sim_calls] wf_sim [OF sim_calls wf] sim_calls [of w k]
    by (auto simp: sim_def split: prod.split option.split)
  then show ?thesis
    unfolding rtsp_udp_setup_def using wf x y(1) s(2, 3) len
    by (auto simp: deref_def non_null_def call_def split: option.split)
qed

lemma first_pair:
  "(case filter P xs of [] \<Rightarrow> None | i # _ \<Rightarrow> Some (i, i + 1 :: nat)) = Some (a, b) \<Longrightarrow> a \<in> set xs \<and> P a \<and> b = a + 1"
  by (cases "filter P xs") (auto simp: filter_eq_Cons_iff)

lemma choose_channels_free:
  assumes "choose_channels rc t = Some (a, b)" "rc = Some ich \<or> rc = None \<and> ich = replicate MAX_INTERLEAVE_CHANNELS (None, False)"
  shows "a < MAX_INTERLEAVE_CHANNELS \<and> b < MAX_INTERLEAVE_CHANNELS \<and> a \<noteq> b \<and> fst (ich ! a) = None \<and> fst (ich ! b) = None"
proof (cases "strstr t ''interleaved''")
  case None
  show ?thesis
  proof (cases rc)
    assume "rc = None"
    then show ?thesis using assms None by (auto simp: choose_channels_def)
  next
    fix i assume "rc = Some i"
    then have rc: "rc = Some ich" using assms(2) by auto
    have "(case filter (\<lambda>i. free_chan ich i \<and> free_chan ich (i + 1)) [0, 2, 4, 6] of [] \<Rightarrow> None | i # _ \<Rightarrow> Some (i, i + 1)) = Some (a, b)"
      using assms(1) unfolding choose_channels_def rc None option.case by assumption
    from first_pair [OF this] show ?thesis by (auto simp: free_chan_def)
  qed
next
  case (Some p)
  obtain n where n: "param_number p = Some n" using assms(1) Some by (auto simp: choose_channels_def split: option.splits)
  have b: "0 \<le> n" "n < 8" "s32 (n + 1) \<ge> 0" "s32 (n + 1) < 8" and ab: "a = nat n" "b = nat (s32 (n + 1))"
    and fr: "rc = Some i \<Longrightarrow> free_chan i (nat n) \<and> free_chan i (nat (s32 (n + 1)))" for i
    using assms(1) Some n by (auto simp: choose_channels_def Let_def split: if_splits option.splits)
  have "s32 (n + 1) = n + 1" using b by (simp add: s32_id)
  then show ?thesis using b ab fr [of ich] assms(2) by (auto simp: free_chan_def)
qed

lemma safe_interleave_setup:
  assumes wf: "wf w" and s: "v_sess w s = Some (p, r, es)" "t < MAX_TRACKS" "es ! t = Some e" and e: "v_ep w e = Some (s, v, No_trans)"
    and c: "v_conn w c = Some (re, se, we, CONN_PROTO_RTSP, ps)"
  shows "safe (rtsp_interleave_setup E w s t c m tx) (\<lambda>(w', _, _). served w w' \<and> v_sess w' = v_sess w)"
proof -
  obtain x where x: "w_conns w c = Some x" "c_proto_state x = ps" "c_read_event x = re" "c_second_read_event x = se" "c_write_event x = we"
    "c_proto x = CONN_PROTO_RTSP" using c by (auto simp: v_conn_def)
  obtain z where z: "w_sess w s = Some z" "se_ep z = es" using s(1) by (auto simp: v_sess_def)
  obtain y where y: "w_eps w e = Some y" "ep_session y = s" "ep_rtcp_send_event y = v" "ep_trans y = No_trans" using e by (auto simp: v_ep_def)
  have len: "length es = MAX_TRACKS" using wfD_sess [OF wf s(1)] by blast
  define rc where "rc = (case ps of PS_rtsp ich \<Rightarrow> Some ich | _ \<Rightarrow> None)"
  define ich where "ich = (case rc of Some ich \<Rightarrow> ich | None \<Rightarrow> replicate MAX_INTERLEAVE_CHANNELS (None, False))"
  have ps: "ps = PS_null \<and> rc = None \<or> ps = PS_rtsp ich \<and> rc = Some ich" and li: "length ich = MAX_INTERLEAVE_CHANNELS"
    using wfD_conn [OF wf c] by (auto simp: rc_def ich_def split: proto_state.splits)
  have rc: "(case ps of PS_null \<Rightarrow> Inr None | PS_http _ \<Rightarrow> Inl OutOfBounds | PS_rtsp ich \<Rightarrow> Inr (Some ich)) = Inr rc"
    using ps by auto
  show ?thesis
  proof (cases "choose_channels rc tx")
    case None
    then show ?thesis using x z rc served_refl [OF wf] by (simp add: rtsp_interleave_setup_def deref_def)
  next
    case (Some ab)
    obtain a b where ab: "ab = (a, b)" by (cases ab)
    have f: "a < MAX_INTERLEAVE_CHANNELS" "b < MAX_INTERLEAVE_CHANNELS" "a \<noteq> b" "fst (ich ! a) = None" "fst (ich ! b) = None"
      using choose_channels_free [of rc tx a b ich] Some ab by (auto simp: ich_def split: option.splits)
    let ?ich = "ich[a := (Some e, False), b := (Some e, True)]"
    let ?w = "put_ep (put_conn w c (x\<lparr>c_proto_state := PS_rtsp ?ich\<rparr>)) e (connect_interleaved_endpoint y c a b)"
    have V: "connected w ?w e (Trans_inter c a b)" "v_conn ?w = (v_conn w)(c \<mapsto> (re, se, we, CONN_PROTO_RTSP, PS_rtsp ?ich))" "v_ev ?w = v_ev w"
      using e x y by (auto simp: connected_def view_defs put_ep_def put_conn_def connect_interleaved_endpoint_def fun_eq_iff)
    have "wf ?w"
      by (rule wf_inter_connected [OF wf V(1) e c _ V(2) f V(3)]) (use ps in \<open>auto simp: ich_def\<close>)
    then have "served w ?w" "v_sess ?w = v_sess w" using V(1, 2) by (auto simp: served_def connected_def)
    then show ?thesis
      using x z y(1) rc Some ab f(1, 2) li s(2, 3) len unfolding rtsp_interleave_setup_def
      by (simp add: deref_def non_null_def Let_def ich_def [symmetric])
  qed
qed

subsection \<open>RTSP identities\<close>

lemma wf_identified:
  assumes wf: "wf w" and s: "v_sess w s = Some (p, None, es)"
    and V: "v_sess w' = (v_sess w)(s \<mapsto> (p, Some (w_next w), es))" "v_rtsp w' = (v_rtsp w)(w_next w \<mapsto> s)"
      "v_live w' = v_live w" "v_src w' = v_src w" "v_ep w' = v_ep w" "v_conn w' = v_conn w" "v_ev w' = v_ev w" "v_http w' = v_http w"
    and L: "w_streams w' = w_streams w" "w_sess_list w' = w_sess_list w" "w_rtsp_list w' = w_next w # w_rtsp_list w" "w_conn_list w' = w_conn_list w"
      "w_http_list w' = w_http_list w" "w_rtsp_locs w' = w_rtsp_locs w" "w_next w' = w_next w + 1"
  shows "wf w'"
proof -
  let ?k = "w_next w"
  have D: "v_dest w' = v_dest w" "v_strm w' = v_strm w" using L(1) by (simp_all add: v_dest_def v_strm_def fun_eq_iff)
  have F: "v_rtsp w ?k = None" using wfD_fresh [OF wf, of ?k] by simp
  have fwd: "\<exists>r. v_sess w s' = Some (p', r, es') \<and> (r' = r \<or> s' = s \<and> r' = Some ?k)" if "v_sess w' s' = Some (p', r', es')" for s' p' r' es'
    using that s by (auto simp: V(1) split: if_splits)
  have bwd: "\<exists>r'. v_sess w' s' = Some (p', r', es') \<and> (r' = r \<or> s' = s)" if "v_sess w s' = Some (p', r, es')" for s' p' r es'
    using that s by (auto simp: V(1))
  have "wf_sess w'"
    unfolding wf_sess_def
  proof (intro conjI allI impI)
    fix s' p' r' es' assume a: "v_sess w' s' = Some (p', r', es')"
    then obtain r where r: "v_sess w s' = Some (p', r, es')" "r' = r \<or> s' = s \<and> r' = Some ?k" using fwd by blast
    note W = wfD_sess [OF wf r(1)]
    show "length es' = MAX_TRACKS" "\<exists>l q. p' = Some l \<and> v_live w' l = Some (s', q)" using W by (simp_all add: V(3))
    show "v_rtsp w' k = Some s'" if "r' = Some k" for k using W r(2) that F by (auto simp: V(2))
  qed (use wfD_sess_list [OF wf] in \<open>auto simp: V(1) L\<close>)
  moreover have "wf_live w'"
    unfolding wf_live_def V(3, 4)
  proof (intro allI impI)
    fix l' s' q' assume "v_live w l' = Some (s', q')"
    from wfD_live [OF wf this] bwd show "(\<exists>r es. v_sess w' s' = Some (Some l', r, es)) \<and> (\<exists>ls ts. v_src w q' = Some (ls, ts) \<and> l' \<in> set ls)" by blast
  qed
  moreover have "wf_src w'" using wf unfolding wf_def wf_src_def V(3, 4) L D by blast
  moreover have "wf_rtsp w'"
    unfolding wf_rtsp_def
  proof (intro conjI allI impI)
    fix k s' assume k: "v_rtsp w' k = Some s'"
    show "\<exists>p es. v_sess w' s' = Some (p, Some k, es)"
    proof (cases "k = ?k")
      case True
      then show ?thesis using k by (simp add: V(1, 2))
    next
      case False
      then have "v_rtsp w k = Some s'" using k by (simp add: V(2))
      then obtain p' es' where "v_sess w s' = Some (p', Some k, es')" using wfD_rtsp [OF wf] by blast
      then show ?thesis using s by (auto simp: V(1))
    qed
  qed (use wfD_rtsp_list [OF wf] F in \<open>auto simp: V(2) L\<close>)
  moreover have "wf_slot w'"
    unfolding wf_slot_def V(3-5)
  proof (intro allI impI)
    fix s' p' r' es' j e' assume a: "v_sess w' s' = Some (p', r', es')" "j < MAX_TRACKS" "es' ! j = Some e'"
    obtain r where "v_sess w s' = Some (p', r, es')" using fwd [OF a(1)] by blast
    from wfD_slot [OF wf this a(2, 3)]
    show "(\<exists>v tr. v_ep w e' = Some (s', v, tr)) \<and> (\<forall>j' < MAX_TRACKS. es' ! j' = Some e' \<longrightarrow> j' = j) \<and>
        (\<forall>l q ls ts. p' = Some l \<longrightarrow> v_live w l = Some (s', q) \<longrightarrow> v_src w q = Some (ls, ts) \<longrightarrow> snd (ts ! j))" .
  qed
  moreover have "wf_ep w'"
    unfolding wf_ep_def V(5, 6)
  proof (intro allI impI conjI)
    fix e' s' v tr assume e: "v_ep w e' = Some (s', v, tr)"
    show "\<exists>p r es i. v_sess w' s' = Some (p, r, es) \<and> i < MAX_TRACKS \<and> es ! i = Some e'" using wfD_ep [OF wf e] bwd by blast
    show "\<exists>re se we ich. v_conn w c = Some (re, se, we, CONN_PROTO_RTSP, PS_rtsp ich) \<and> a < MAX_INTERLEAVE_CHANNELS \<and>
        b < MAX_INTERLEAVE_CHANNELS \<and> a \<noteq> b \<and> ich ! a = (Some e', False) \<and> ich ! b = (Some e', True)" if "tr = Trans_inter c a b" for c a b
      by (rule wfD_inter [OF wf e [unfolded that]])
  qed
  moreover have "wf_conn w'" using wf unfolding wf_def wf_conn_def V(5, 6) L by blast
  moreover have "wf_http w'" using wf unfolding wf_def wf_http_def V(8) L by blast
  moreover have "wf_ev w'" using wf unfolding wf_def wf_ev_def target_def V(5-7) D(2) by blast
  moreover have "wf_fresh w'"
    unfolding wf_fresh_def L
  proof (intro allI impI)
    fix n assume n: "w_next w + 1 \<le> n"
    then have "w_next w \<le> n" by simp
    from wfD_fresh [OF wf this] show "v_sess w' n = None \<and> v_live w' n = None \<and> v_src w' n = None \<and> v_ep w' n = None \<and>
        v_conn w' n = None \<and> v_rtsp w' n = None" using n s by (auto simp: V)
  qed
  moreover have "wf_streams (w_streams w')" using wfD_streams [OF wf] by (simp add: L)
  moreover have "wf_cons w'" by (rule wf_cons_kept [OF wf]) (simp_all add: V L)
  ultimately show ?thesis by (simp add: wf_def)
qed

lemma safe_new_rtsp_session:
  assumes wf: "wf w" and s: "v_sess w s = Some (p, None, es)"
  shows "safe (new_rtsp_session E w s) (\<lambda>(w', k). served w w' \<and> v_rtsp w' k \<noteq> None)"
proof -
  obtain x where x: "w_sess w s = Some x" "se_private x = p" "se_control x = None" "se_ep x = es" using s by (auto simp: v_sess_def)
  let ?k = "w_next w"
  let ?y = "\<lparr>rs_id = random_id (random_bytes E (w_calls w) 15), rs_sess = s\<rparr>"
  have y: "new_rtsp_session E w s = Inr (put_sess (w\<lparr>w_next := ?k + 1, w_calls := w_calls w + 1, w_rtsp_list := ?k # w_rtsp_list w,
       w_rtsp := (w_rtsp w)(?k \<mapsto> ?y)\<rparr>) s (x\<lparr>se_control := Some ?k\<rparr>), ?k)" (is "_ = Inr (?w, _)")
    using x(1) by (simp add: new_rtsp_session_def call_def Let_def deref_def)
  have "wf ?w"
    by (rule wf_identified [OF wf s]) (use x in \<open>auto simp: view_defs put_sess_def fun_eq_iff\<close>)
  moreover have "v_conn ?w = v_conn w" "v_rtsp ?w ?k \<noteq> None" by (simp_all add: v_conn_def v_rtsp_def put_sess_def fun_eq_iff)
  ultimately show ?thesis using y served_conn by simp
qed

lemma safe_find_session:
  assumes "\<forall>k \<in> set ks. v_rtsp w k \<noteq> None"
  shows "safe (find_session w sid ks) (\<lambda>r. \<forall>k. r = Some k \<longrightarrow> v_rtsp w k \<noteq> None)"
  using assms by (induction ks) (auto simp: v_rtsp_def intro!: safe_deref)

lemma safe_get_session:
  assumes "wf w"
  shows "safe (get_session w sid) (\<lambda>r. \<forall>k. r = Some k \<longrightarrow> v_rtsp w k \<noteq> None)"
  using safe_find_session [of "w_rtsp_list w" w] wfD_rtsp_list [OF assms] by (auto simp: get_session_def split: option.split)

lemma safe_setup_transport:
  assumes wf: "wf w" and s: "v_sess w s = Some (p, r, es)" "t < MAX_TRACKS" "es ! t = Some e" and e: "v_ep w e = Some (s, v, No_trans)"
    and c: "v_conn w c = Some (re, se, we, CONN_PROTO_RTSP, ps)"
  shows "safe (setup_transport E w s t c m tx) (\<lambda>(w', _, _). served w w' \<and> v_sess w' = v_sess w)"
  unfolding setup_transport_def
  using safe_interleave_setup [OF assms] safe_mono [OF safe_udp_setup [OF wf s e]] served_conn served_refl [OF wf]
  by (auto intro!: safe_if)

lemma safe_setup_session:
  assumes wf: "wf w" and s: "v_sess w s = Some (p, r, es)" and t: "t < MAX_TRACKS"
    and c: "v_conn w c = Some (re, se, we, CONN_PROTO_RTSP, ps)" and rs: "case rs of None \<Rightarrow> r = None | Some q \<Rightarrow> r = Some q"
  shows "safe (setup_session E w c m tx t rs s) (\<lambda>(w', _). served w w')"
proof -
  have len: "length es = MAX_TRACKS" using wfD_sess [OF wf s] by blast
  obtain x where x: "w_sess w s = Some x" "se_ep x = es" using s by (auto simp: v_sess_def)
  have fail: "safe (rbind (rtsp_send_error E w c m 404 ''Not Found'') (\<lambda>w.
             if rs = None then rbind (live_teardown w s None) (\<lambda>w. Inr (w, 0 :: int)) else Inr (w, 0))) (\<lambda>(w', _). served w w')"
  proof (rule safe_bind [OF safe_send_error], use c in simp)
    fix w2 assume s2: "sim w w2"
    have "v_sess w2 s = Some (p, r, es)" using s s2 by (simp add: sim_def)
    from safe_teardown_all [OF wf_sim [OF s2 wf] this]
    have "safe (rbind (live_teardown w2 s None) (\<lambda>w. Inr (w, 0 :: int))) (\<lambda>(w', _). served w w')"
      by (rule safe_bind) (simp add: served_trans [OF served_sim [OF wf s2]])
    then show "safe (if rs = None then rbind (live_teardown w2 s None) (\<lambda>w. Inr (w, 0 :: int)) else Inr (w2, 0)) (\<lambda>(w', _). served w w')"
      using served_sim [OF wf s2] by simp
  qed
  have ok: "safe (rbind (rtsp_create_reply E w1 m 200 ''OK'') (\<lambda>(w, r).
           rbind (setup_transport E w s t c r tx) (\<lambda>(w, r, rc).
             if rc < 0 then
               rbind (rtsp_send_error E w c m 461 ''Unsupported Transport'') (\<lambda>w.
               rbind (deref (w_sess w) s) (\<lambda>x. rbind (aget (se_ep x) t) (\<lambda>e.
               rbind (live_teardown w s e) (\<lambda>w. Inr (w, 0)))))
             else
               rbind (case rs of Some q \<Rightarrow> Inr (w, q) | None \<Rightarrow> new_rtsp_session E w s) (\<lambda>(w, q).
               rbind (deref (w_rtsp w) q) (\<lambda>y. answer_with w c m (fst (add_header r ''Session'' (rs_id y)))))))) (\<lambda>(w', _). served w w')"
    if wf1: "wf w1" and up: "set_up w w1 s t e ev" for w1 e ev
  proof (rule safe_bind [OF safe_create_reply], clarify)
    fix w2 rp assume s2: "sim w1 w2"
    have wf2: "wf w2" by (rule wf_sim [OF s2 wf1])
    have vs: "v_sess w2 s = Some (p, r, es[t := Some e])" "v_ep w2 e = Some (s, ev, No_trans)" "v_conn w2 c = Some (re, se, we, CONN_PROTO_RTSP, ps)"
      using up s2 s c by (simp_all add: set_up_def sim_def)
    have sv2: "served w w2" using wf2 up s2 by (intro served_conn) (simp_all add: set_up_def sim_def)
    show "safe (rbind (setup_transport E w2 s t c rp tx) (\<lambda>(w, r, rc).
             if rc < 0 then
               rbind (rtsp_send_error E w c m 461 ''Unsupported Transport'') (\<lambda>w.
               rbind (deref (w_sess w) s) (\<lambda>x. rbind (aget (se_ep x) t) (\<lambda>e.
               rbind (live_teardown w s e) (\<lambda>w. Inr (w, 0 :: int)))))
             else
               rbind (case rs of Some q \<Rightarrow> Inr (w, q) | None \<Rightarrow> new_rtsp_session E w s) (\<lambda>(w, q).
               rbind (deref (w_rtsp w) q) (\<lambda>y. answer_with w c m (fst (add_header r ''Session'' (rs_id y))))))) (\<lambda>(w', _). served w w')"
    proof (rule safe_bind [OF safe_setup_transport [OF wf2 vs(1) t _ vs(2, 3)]], use t len in simp, clarify)
      fix w3 rp' and rc :: int assume sv: "served w2 w3" and vs3: "v_sess w3 = v_sess w2"
      have s3: "v_sess w3 s = Some (p, r, es[t := Some e])" using vs(1) vs3 by simp
      have wf3: "wf w3" and sv3: "served w w3" and c3: "v_conn w3 c \<noteq> None"
        using served_wf [OF sv] served_trans [OF sv2 sv] served_cn [OF sv] vs(3) by auto
      have bad: "safe (rbind (rtsp_send_error E w3 c m 461 ''Unsupported Transport'') (\<lambda>w.
               rbind (deref (w_sess w) s) (\<lambda>x. rbind (aget (se_ep x) t) (\<lambda>e.
               rbind (live_teardown w s e) (\<lambda>w. Inr (w, 0 :: int)))))) (\<lambda>(w', _). served w w')"
      proof (rule safe_bind [OF safe_send_error [OF c3]])
        fix w4 assume s4: "sim w3 w4"
        have vs4: "v_sess w4 s = Some (p, r, es[t := Some e])" using s3 s4 by (simp add: sim_def)
        have sv4: "served w w4" by (rule served_trans [OF sv3 served_sim [OF wf3 s4]])
        show "safe (rbind (deref (w_sess w4) s) (\<lambda>x. rbind (aget (se_ep x) t) (\<lambda>e.
               rbind (live_teardown w4 s e) (\<lambda>w. Inr (w, 0 :: int))))) (\<lambda>(w', _). served w w')"
          by (rule safe_deref, use vs4 in \<open>auto simp: v_sess_def\<close>)
             (rule safe_aget, rule safe_bind [OF safe_teardown_all [OF wf_sim [OF s4 wf3] vs4]], use served_trans [OF sv4] in simp)
      qed
      have fin: "safe (rbind (deref (w_rtsp w4) q) (\<lambda>y. answer_with w4 c m (fst (add_header rp' ''Session'' (rs_id y))))) (\<lambda>(w', _). served w w')"
        if sv4: "served w3 w4" and q: "v_rtsp w4 q \<noteq> None" for w4 q
      proof -
        have w4: "wf w4" "served w w4" using served_wf [OF sv4] served_trans [OF sv3 sv4] by auto
        show ?thesis
          by (rule safe_deref, use q in \<open>simp add: v_rtsp_def\<close>)
             (rule safe_mono [OF safe_answer_with [OF served_cn [OF sv4 c3]]], use served_trans [OF w4(2) served_sim [OF w4(1)]] in auto)
      qed
      have good: "safe (rbind (case rs of Some q \<Rightarrow> Inr (w3, q) | None \<Rightarrow> new_rtsp_session E w3 s) (\<lambda>(w, q).
               rbind (deref (w_rtsp w) q) (\<lambda>y. answer_with w c m (fst (add_header rp' ''Session'' (rs_id y)))))) (\<lambda>(w', _). served w w')"
      proof (cases rs)
        case None
        then have "v_sess w3 s = Some (p, None, es[t := Some e])" using rs s3 by simp
        from safe_new_rtsp_session [OF wf3 this] show ?thesis
          unfolding None option.case by (rule safe_bind) (use fin in auto)
      next
        case (Some q)
        then have "v_rtsp w3 q = Some s" using rs s3 wfD_sess [OF wf3 s3] by auto
        then show ?thesis unfolding Some option.case rbind_simps prod.case by (intro fin served_refl wf3) simp
      qed
      show "safe (if rc < 0 then
               rbind (rtsp_send_error E w3 c m 461 ''Unsupported Transport'') (\<lambda>w.
               rbind (deref (w_sess w) s) (\<lambda>x. rbind (aget (se_ep x) t) (\<lambda>e.
               rbind (live_teardown w s e) (\<lambda>w. Inr (w, 0 :: int)))))
             else
               rbind (case rs of Some q \<Rightarrow> Inr (w3, q) | None \<Rightarrow> new_rtsp_session E w3 s) (\<lambda>(w, q).
               rbind (deref (w_rtsp w) q) (\<lambda>y. answer_with w c m (fst (add_header rp' ''Session'' (rs_id y)))))) (\<lambda>(w', _). served w w')"
        by (rule safe_if [OF bad good])
    qed
  qed
  have "safe (rbind (live_setup E w s t) (\<lambda>(w, rc).
         if rc < 0 then
           rbind (rtsp_send_error E w c m 404 ''Not Found'') (\<lambda>w.
             if rs = None then rbind (live_teardown w s None) (\<lambda>w. Inr (w, 0)) else Inr (w, 0))
         else
           rbind (rtsp_create_reply E w m 200 ''OK'') (\<lambda>(w, r).
           rbind (setup_transport E w s t c r tx) (\<lambda>(w, r, rc).
             if rc < 0 then
               rbind (rtsp_send_error E w c m 461 ''Unsupported Transport'') (\<lambda>w.
               rbind (deref (w_sess w) s) (\<lambda>x. rbind (aget (se_ep x) t) (\<lambda>e.
               rbind (live_teardown w s e) (\<lambda>w. Inr (w, 0)))))
             else
               rbind (case rs of Some q \<Rightarrow> Inr (w, q) | None \<Rightarrow> new_rtsp_session E w s) (\<lambda>(w, q).
               rbind (deref (w_rtsp w) q) (\<lambda>y. answer_with w c m (fst (add_header r ''Session'' (rs_id y))))))))) (\<lambda>(w', _). served w w')"
    if "es ! t = None"
  proof (rule safe_bind [OF safe_live_setup [OF wf s t that]], clarify, rule safe_if, goal_cases)
    case (1 w1 rc)
    then show ?case using fail by auto
  next
    case (2 w1 rc)
    then show ?case using ok by (elim disjE conjE exE) simp_all
  qed
  then show ?thesis
    unfolding setup_session_def
    using x safe_mono [OF safe_answer_error [of w c E m 461 "''Unsupported Transport''"]] served_sim [OF wf] c
    by (auto simp: deref_def intro!: safe_aget safe_if)
qed

subsection \<open>The remaining requests\<close>

lemma sim_dest: "sim w w' \<Longrightarrow> v_dest w' = v_dest w" "sim w w' \<Longrightarrow> v_strm w' = v_strm w" "sim w w' \<Longrightarrow> v_cons w' = v_cons w"
  using same_shape_v_dest by (simp_all add: sim_def)

lemma safe_play_tracks:
  assumes "wf w" "\<forall>t \<in> set ts. \<exists>d. tr_stream (so_track src ! t) = Some d \<and> v_dest w d"
  shows "safe (play_tracks w x src ts) (sim w)"
  using assms
proof (induction ts arbitrary: w)
  case (Cons t ts)
  obtain d where d: "tr_stream (so_track src ! t) = Some d" "v_dest w d" using Cons.prems(2) by auto
  have rest: "safe (play_tracks w' x src ts) (sim w)" if "sim w w'" for w'
    by (rule safe_mono [OF Cons.IH [OF wf_sim [OF that Cons.prems(1)]] sim_trans [OF that]])
       (use Cons.prems(2) in \<open>simp_all add: sim_dest [OF that]\<close>)
  have "safe (rbind (stream_do w (\<lambda>st. set_waiting st d True)) (\<lambda>w.
      rbind (stream_do w (\<lambda>st. new_listener_notify st d)) (\<lambda>w. play_tracks w x src ts))) (sim w)"
  proof (rule safe_bind [OF safe_set_waiting [OF Cons.prems(1) d(2)]])
    fix w1 assume s: "sim w w1"
    have "v_dest w1 d" using d(2) s by (simp add: sim_dest)
    then show "safe (rbind (stream_do w1 (\<lambda>st. new_listener_notify st d)) (\<lambda>w. play_tracks w x src ts)) (sim w)"
      by (rule safe_bind [OF safe_listener(1) [OF wf_sim [OF s Cons.prems(1)]]]) (rule rest [OF sim_trans [OF s]])
  qed
  then show ?case using rest [OF sim_refl] d(1) by (auto simp: non_null_def intro!: safe_aget)
qed simp

lemma safe_live_play:
  assumes wf: "wf w" and s: "v_sess w s \<noteq> None"
  shows "safe (live_play w s) (sim w)"
proof -
  obtain p r es where vs: "v_sess w s = Some (p, r, es)" using s by (cases "v_sess w s") auto
  obtain x l ls src where L: "live_of w s = Inr (x, l, ls, src)" using live_of_wf [OF wf vs] by metis
  note T = live_of_track [OF wf vs L]
  let ?src = "src\<lparr>so_cur_conn := so_cur_conn src + 1\<rparr>"
  let ?w = "put_source (put_live w l (ls\<lparr>ls_playing := True\<rparr>)) (ls_source ls) ?src"
  have sm: "sim w ?w"
    by (rule sim_trans [OF sim_put_live [OF T(9)] sim_put_source]) (use T(10) in \<open>auto simp: put_live_def\<close>)
  have "\<exists>d. tr_stream (so_track ?src ! t) = Some d \<and> v_dest ?w d" if "t < used_tracks src" for t
    using track_stream [OF wf T(10) used_track [OF T(8) that]] by (simp add: sim_dest [OF sm])
  then have "safe (play_tracks ?w x ?src [0..<used_tracks src]) (sim ?w)"
    by (intro safe_play_tracks wf_sim [OF sm wf]) simp
  from safe_mono [OF this sim_trans [OF sm]] show ?thesis
    unfolding live_play_def L by (simp add: Let_def used_tracks_def)
qed

lemma rtsp_sess: "wf w \<Longrightarrow> w_rtsp w q = Some y \<Longrightarrow> \<exists>p es. v_sess w (rs_sess y) = Some (p, Some q, es)"
  using wfD_rtsp [of w q "rs_sess y"] by (simp add: v_rtsp_def)

lemma safe_err:
  assumes "wf w" "v_conn w c \<noteq> None"
  shows "safe (answer_error E w c m code reason) (\<lambda>(w', _). served w w')"
  by (rule safe_mono [OF safe_answer_error [OF assms(2)]]) (auto intro: served_sim [OF assms(1)])

lemma safe_play:
  assumes wf: "wf w" and c: "v_conn w c \<noteq> None"
  shows "safe (handle_PLAY E w c m) (\<lambda>(w', _). served w w')"
proof -
  have "safe (rbind (live_play w (rs_sess y)) (\<lambda>w. rbind (rtsp_create_reply E w m 200 ''OK'') (\<lambda>(w, r).
             answer_with w c m (fst (add_header r ''Session'' (rs_id y)))))) (\<lambda>(w', _). served w w')"
    if "w_rtsp w q = Some y" for q y
  proof (rule safe_bind [OF safe_live_play [OF wf]], use rtsp_sess [OF wf that] in force, rule safe_bind [OF safe_create_reply], clarify)
    fix w1 w2 r assume "sim w w1" "sim w1 w2"
    then have s: "sim w w2" by (rule sim_trans)
    then have "v_conn w2 c \<noteq> None" using c by (simp add: sim_conn)
    from safe_answer_with [OF this] show "safe (answer_with w2 c m (fst (add_header r ''Session'' (rs_id y)))) (\<lambda>(w', _). served w w')"
      by (rule safe_mono) (auto intro: served_sim [OF wf] sim_trans [OF s])
  qed
  then show ?thesis
    unfolding handle_PLAY_def
    by (auto simp: v_rtsp_def intro!: safe_pure [OF heapless_get_header] safe_bind [OF safe_get_session [OF wf]] safe_err [OF wf c] safe_deref split: option.split)
qed

lemma safe_pause:
  assumes wf: "wf w" and c: "v_conn w c \<noteq> None"
  shows "safe (handle_PAUSE E w c m) (\<lambda>(w', _). served w w')"
proof -
  have "w_sess w (rs_sess y) \<noteq> None" if "w_rtsp w q = Some y" for q y
    using rtsp_sess [OF wf that] by (auto simp: v_sess_def)
  then show ?thesis
    unfolding handle_PAUSE_def
    by (auto simp: v_rtsp_def intro!: safe_pure [OF heapless_get_header] safe_bind [OF safe_get_session [OF wf]] safe_err [OF wf c] safe_deref split: option.split)
qed

lemma safe_teardown:
  assumes wf: "wf w" and c: "v_conn w c \<noteq> None"
  shows "safe (handle_TEARDOWN E w c m) (\<lambda>(w', _). served w w')"
proof -
  have "safe (rbind (rtsp_create_reply E w m 200 ''OK'') (\<lambda>(w, r).
             let r = fst (add_header r ''Session'' (rs_id y)) in
             rbind (deref (w_sess w) (rs_sess y)) (\<lambda>x.
             rbind (if track < 0 then Inr None else aget (se_ep x) (nat track)) (\<lambda>e.
             rbind (live_teardown w (rs_sess y) e) (\<lambda>w. answer_with w c m r))))) (\<lambda>(w', _). served w w')"
    if y: "w_rtsp w q = Some y" for q y and track :: int
  proof (rule safe_bind [OF safe_create_reply], clarify, unfold Let_def)
    fix w1 r assume s: "sim w w1"
    have wf1: "wf w1" by (rule wf_sim [OF s wf])
    obtain p es where vs: "v_sess w1 (rs_sess y) = Some (p, Some q, es)" using rtsp_sess [OF wf y] s by (auto simp: sim_def)
    then have al: "w_sess w1 (rs_sess y) \<noteq> None" by (auto simp: v_sess_def)
    have td: "safe (rbind (live_teardown w1 (rs_sess y) e) (\<lambda>w. answer_with w c m r')) (\<lambda>(w', _). served w w')" for e r'
    proof (rule safe_bind [OF safe_teardown_all [OF wf1 vs]])
      fix w2 assume sv: "served w1 w2"
      have sv2: "served w w2" by (rule served_trans [OF served_sim [OF wf s] sv])
      show "safe (answer_with w2 c m r') (\<lambda>(w', _). served w w')"
        by (rule safe_mono [OF safe_answer_with [OF served_cn [OF sv2 c]]]) (auto intro: served_trans [OF sv2 served_sim [OF served_wf [OF sv2]]])
    qed
    show "safe (rbind (deref (w_sess w1) (rs_sess y)) (\<lambda>x.
             rbind (if track < 0 then Inr None else aget (se_ep x) (nat track)) (\<lambda>e.
             rbind (live_teardown w1 (rs_sess y) e) (\<lambda>w. answer_with w c m (fst (add_header r ''Session'' (rs_id y))))))) (\<lambda>(w', _). served w w')"
      by (rule safe_deref, simp add: al) (rule safe_pure, simp, rule td)
  qed
  note ok = this
  show ?thesis
    unfolding handle_TEARDOWN_def
    apply (rule safe_pure [OF heapless_str_ptr], rule safe_pure [OF heapless_find_location], clarify)
    apply (rule safe_if [OF safe_err [OF wf c]])
    apply (rule safe_pure [OF heapless_get_header], rule safe_bind [OF safe_get_session [OF wf]])
    using ok by (auto simp: v_rtsp_def intro!: safe_err [OF wf c] safe_deref split: option.split)
qed

lemma safe_setup:
  assumes wf: "wf w" and c: "v_conn w c = Some (re, se, we, CONN_PROTO_RTSP, ps)"
  shows "safe (handle_SETUP E w c m) (\<lambda>(w', _). served w w')"
proof -
  have cn: "v_conn w c \<noteq> None" using c by simp
  have fresh: "safe (rbind (live_open E w1 (lo_private loc)) (\<lambda>(w, s).
                           case s of
                             None \<Rightarrow> answer_error E w c m 404 ''Not Found''
                           | Some s \<Rightarrow>
                               rbind (deref (w_conns w) c) (\<lambda>x. rbind (deref (w_sess w) s) (\<lambda>y.
                                 setup_session E (put_sess w s (y\<lparr>se_addr := ''IP4 '' @ c_client_addr x\<rparr>)) c m t (nat track) None s)))) (\<lambda>(w', _). served w w')"
    if s1: "sim w w1" and loc: "loc \<in> set (w_rtsp_locs w)" and tr: "nat track < MAX_TRACKS" for w1 loc t track
  proof -
    have wf1: "wf w1" by (rule wf_sim [OF s1 wf])
    have sv1: "served w w1" by (rule served_sim [OF wf s1])
    have c1: "v_conn w1 c = Some (re, se, we, CONN_PROTO_RTSP, ps)" using c s1 by (simp add: sim_def)
    have "v_src w1 (lo_private loc) \<noteq> None" using location_source [OF wf loc] s1 by (simp add: sim_def)
    from safe_live_open [OF wf1 this] show ?thesis
    proof (rule safe_bind, clarify)
      fix w2 so assume wf2: "wf w2" and o2: "case so of None \<Rightarrow> w2 = w1 | Some s \<Rightarrow> opened w1 w2 (lo_private loc) (w_next w1) s"
      show "safe (case so of
                             None \<Rightarrow> answer_error E w2 c m 404 ''Not Found''
                           | Some s \<Rightarrow>
                               rbind (deref (w_conns w2) c) (\<lambda>x. rbind (deref (w_sess w2) s) (\<lambda>y.
                                 setup_session E (put_sess w2 s (y\<lparr>se_addr := ''IP4 '' @ c_client_addr x\<rparr>)) c m t (nat track) None s))) (\<lambda>(w', _). served w w')"
      proof (cases so)
        case None
        have "safe (answer_error E w1 c m 404 ''Not Found'') (\<lambda>(w', _). served w1 w')" by (rule safe_err [OF wf1]) (simp add: c1)
        then show ?thesis using None o2 served_trans [OF sv1] by (auto elim!: safe_mono)
      next
        case (Some s)
        then have o2: "opened w1 w2 (lo_private loc) (w_next w1) s" using o2 by simp
        have v2: "v_sess w2 s = Some (Some (w_next w1), None, [None, None])" "v_conn w2 = v_conn w1" using o2 by (simp_all add: opened_def)
        have sv2: "served w w2" by (rule served_trans [OF sv1 served_conn [OF wf2 v2(2)]])
        have ses: "safe (setup_session E (put_sess w2 s (y\<lparr>se_addr := a\<rparr>)) c m t (nat track) None s) (\<lambda>(w', _). served w w')"
          if y: "w_sess w2 s = Some y" for y a
        proof -
          have s3: "sim w2 (put_sess w2 s (y\<lparr>se_addr := a\<rparr>))" by (rule sim_put_sess [OF y]) simp_all
          have v3: "v_sess (put_sess w2 s (y\<lparr>se_addr := a\<rparr>)) s = Some (Some (w_next w1), None, [None, None])"
            "v_conn (put_sess w2 s (y\<lparr>se_addr := a\<rparr>)) c = Some (re, se, we, CONN_PROTO_RTSP, ps)"
            using s3 v2 c1 by (simp_all add: sim_def)
          show ?thesis
            by (rule safe_mono [OF safe_setup_session [OF wf_sim [OF s3 wf2] v3(1) tr v3(2)]])
               (use served_trans [OF served_trans [OF sv2 served_sim [OF wf2 s3]]] in auto)
        qed
        have "w_conns w2 c \<noteq> None" using v2(2) c1 by (simp add: conn_alive [symmetric] del: not_None_eq)
        moreover have "w_sess w2 s \<noteq> None" using v2(1) by (auto simp: v_sess_def)
        ultimately show ?thesis unfolding Some option.case by (intro safe_deref ses) auto
      qed
    qed
  qed
  have known: "safe (rbind (deref (w_rtsp w1) q) (\<lambda>y. setup_session E w1 c m t (nat track) (Some q) (rs_sess y))) (\<lambda>(w', _). served w w')"
    if s1: "sim w w1" and q: "v_rtsp w1 q \<noteq> None" and tr: "nat track < MAX_TRACKS" for w1 q t track
  proof (rule safe_deref, use q in \<open>simp add: v_rtsp_def\<close>)
    fix y assume y: "w_rtsp w1 q = Some y"
    have wf1: "wf w1" by (rule wf_sim [OF s1 wf])
    obtain p es where vs: "v_sess w1 (rs_sess y) = Some (p, Some q, es)" using rtsp_sess [OF wf1 y] by blast
    have c1: "v_conn w1 c = Some (re, se, we, CONN_PROTO_RTSP, ps)" using c s1 by (simp add: sim_def)
    show "safe (setup_session E w1 c m t (nat track) (Some q) (rs_sess y)) (\<lambda>(w', _). served w w')"
      by (rule safe_mono [OF safe_setup_session [OF wf1 vs tr c1]]) (use served_trans [OF served_sim [OF wf s1]] in auto)
  qed
  show ?thesis
    unfolding handle_SETUP_def
  proof (rule safe_pure [OF heapless_str_ptr], rule safe_pure [OF heapless_find_location], clarify)
    fix uri loc path and track :: int assume f: "find_rtsp_location w uri True True = Inr (loc, path, track)"
    have "safe (rbind (if lo_realm lc \<noteq> [] then rtsp_verify_auth E w c m lc else Inr (w, 0)) (\<lambda>(w, auth).
             if auth < 0 then Inr (w, 0)
             else rbind (get_header m ''Transport'') (\<lambda>t.
               case t of
                 None \<Rightarrow> answer_error E w c m 461 ''Unspecified Transport''
               | Some t \<Rightarrow>
                   rbind (get_header m ''Session'') (\<lambda>sh.
                     case sh of
                       None \<Rightarrow>
                         rbind (live_open E w (lo_private lc)) (\<lambda>(w, s).
                           case s of
                             None \<Rightarrow> answer_error E w c m 404 ''Not Found''
                           | Some s \<Rightarrow>
                               rbind (deref (w_conns w) c) (\<lambda>x. rbind (deref (w_sess w) s) (\<lambda>y.
                                 setup_session E (put_sess w s (y\<lparr>se_addr := ''IP4 '' @ c_client_addr x\<rparr>)) c m t (nat track) None s)))
                     | Some sid \<Rightarrow>
                         rbind (get_session w (Some sid)) (\<lambda>rs.
                           case rs of
                             None \<Rightarrow> answer_error E w c m 454 ''Session Not Found''
                           | Some q \<Rightarrow>
                               rbind (deref (w_rtsp w) q) (\<lambda>y. setup_session E w c m t (nat track) (Some q) (rs_sess y))))))) (\<lambda>(w', _). served w w')"
      if loc: "lc \<in> set (w_rtsp_locs w)" and tr: "nat track < MAX_TRACKS" for lc
    proof -
      have "safe (if lo_realm lc \<noteq> [] then rtsp_verify_auth E w c m lc else Inr (w, 0)) (\<lambda>(w', _). sim w w')"
        using safe_verify_auth [OF cn] by simp
      then show ?thesis
      proof (rule safe_bind, clarify)
        fix w1 and auth :: int assume s1: "sim w w1"
        have wf1: "wf w1" by (rule wf_sim [OF s1 wf])
        have err: "safe (answer_error E w1 c m code reason) (\<lambda>(w', _). served w w')" for code reason
          by (rule safe_mono [OF safe_err [OF wf1]]) (use cn s1 served_trans [OF served_sim [OF wf s1]] in \<open>auto simp: sim_conn\<close>)
        show "safe (if auth < 0 then Inr (w1, 0)
             else rbind (get_header m ''Transport'') (\<lambda>t.
               case t of
                 None \<Rightarrow> answer_error E w1 c m 461 ''Unspecified Transport''
               | Some t \<Rightarrow>
                   rbind (get_header m ''Session'') (\<lambda>sh.
                     case sh of
                       None \<Rightarrow>
                         rbind (live_open E w1 (lo_private lc)) (\<lambda>(w, s).
                           case s of
                             None \<Rightarrow> answer_error E w c m 404 ''Not Found''
                           | Some s \<Rightarrow>
                               rbind (deref (w_conns w) c) (\<lambda>x. rbind (deref (w_sess w) s) (\<lambda>y.
                                 setup_session E (put_sess w s (y\<lparr>se_addr := ''IP4 '' @ c_client_addr x\<rparr>)) c m t (nat track) None s)))
                     | Some sid \<Rightarrow>
                         rbind (get_session w1 (Some sid)) (\<lambda>rs.
                           case rs of
                             None \<Rightarrow> answer_error E w1 c m 454 ''Session Not Found''
                           | Some q \<Rightarrow>
                               rbind (deref (w_rtsp w1) q) (\<lambda>y. setup_session E w1 c m t (nat track) (Some q) (rs_sess y)))))) (\<lambda>(w', _). served w w')"
          by (intro safe_if safe_pure [OF heapless_get_header] safe_opt err fresh [OF s1 loc tr] safe_bind [OF safe_get_session [OF wf1]] known [OF s1 _ tr])
             (use served_sim [OF wf s1] in auto)
      qed
    qed
    note rest = this
    show "safe (case loc of
         None \<Rightarrow> answer_error E w c m 404 ''Not Found''
       | Some loc \<Rightarrow>
           if track < 0 \<or> track \<ge> int MAX_TRACKS then answer_error E w c m 404 ''Not Found''
           else rbind (if lo_realm loc \<noteq> [] then rtsp_verify_auth E w c m loc else Inr (w, 0)) (\<lambda>(w, auth).
             if auth < 0 then Inr (w, 0)
             else rbind (get_header m ''Transport'') (\<lambda>t.
               case t of
                 None \<Rightarrow> answer_error E w c m 461 ''Unspecified Transport''
               | Some t \<Rightarrow>
                   rbind (get_header m ''Session'') (\<lambda>sh.
                     case sh of
                       None \<Rightarrow>
                         rbind (live_open E w (lo_private loc)) (\<lambda>(w, s).
                           case s of
                             None \<Rightarrow> answer_error E w c m 404 ''Not Found''
                           | Some s \<Rightarrow>
                               rbind (deref (w_conns w) c) (\<lambda>x. rbind (deref (w_sess w) s) (\<lambda>y.
                                 setup_session E (put_sess w s (y\<lparr>se_addr := ''IP4 '' @ c_client_addr x\<rparr>)) c m t (nat track) None s)))
                     | Some sid \<Rightarrow>
                         rbind (get_session w (Some sid)) (\<lambda>rs.
                           case rs of
                             None \<Rightarrow> answer_error E w c m 454 ''Session Not Found''
                           | Some q \<Rightarrow>
                               rbind (deref (w_rtsp w) q) (\<lambda>y. setup_session E w c m t (nat track) (Some q) (rs_sess y))))))) (\<lambda>(w', _). served w w')"
      by (intro safe_opt safe_if safe_err [OF wf cn] rest) (use f find_location_in in auto)
  qed
qed

end
