(* ===== verification/Callbacks.thy ===== *)
theory Callbacks
  imports Serve
begin

text \<open>
  The callbacks of the event loop and the delivery of frames keep the invariant: sending on an endpoint, with the teardown
  that follows a failure, the packetisers, the loop over the sessions of a source, reading from a connection, writing to
  it, dropping it, and the tunnel that moves a connection under another one.
\<close>

section \<open>Sending\<close>

lemma safe_xmit:
  assumes "safe r (sim w)" "case p of To_chan c _ _ \<Rightarrow> v_conn w c \<noteq> None | _ \<Rightarrow> True"
  shows "safe (fst (xmit (srv_env E) r p)) (sim w)"
proof (cases r)
  case (Inr w1)
  then have s: "sim w w1" using assms(1) by simp
  show ?thesis
  proof (cases p)
    case (To_fd fd v)
    then show ?thesis using Inr sim_trans [OF s sim_calls] sim_trans [OF s sim_trans [OF sim_calls sim_out]]
      by (auto simp: srv_env_def call_def)
  next
    case (To_chan c ch v)
    then have "w_conns w1 c \<noteq> None" using assms(2) s by (simp add: conn_alive [symmetric] sim_conn del: not_None_eq)
    from safe_interleave_send [OF this, of E ch v] show ?thesis
      using Inr To_chan sim_trans [OF s] by (cases "conn_interleave_send E w1 c ch v") (auto simp: srv_env_def)
  qed
qed (use assms(1) in \<open>simp add: srv_env_def\<close>)

lemma safe_arm: "safe r (sim w) \<Longrightarrow> safe (arm (srv_env E) r i) (sim w)"
  using sim_trans [OF _ sim_enable] by (cases r) (auto simp: srv_env_def)

text \<open>The result of sending: the endpoint, if it is still there, is the same for the views, and without one the result is
  negative.\<close>

definition sent_ok :: "world \<Rightarrow> rtp_endpoint \<Rightarrow> rtp_endpoint option \<times> world res \<times> int \<Rightarrow> bool" where
  "sent_ok w y q \<longleftrightarrow> (case q of (o', r, rc) \<Rightarrow> safe r (sim w) \<and>
     (case o' of None \<Rightarrow> rc < 0
      | Some y' \<Rightarrow> ep_session y' = ep_session y \<and> ep_rtcp_send_event y' = ep_rtcp_send_event y \<and> ep_trans y' = ep_trans y))"

definition trans_conn :: "world \<Rightarrow> transport \<Rightarrow> bool" where
  "trans_conn w tr \<longleftrightarrow> (\<forall>c a b. tr = Trans_inter c a b \<longrightarrow> v_conn w c \<noteq> None)"

lemma rtcp_send_ok:
  assumes "safe r (sim w)" "trans_conn w (ep_trans y)"
  shows "sent_ok w y (rtcp_send (srv_env E) t t' y r)"
proof (cases "ep_trans y")
  case No_trans
  then show ?thesis using assms(1) by (simp add: rtcp_send_def sent_ok_def Let_def)
next
  case (Trans_udp ad po fd i fd' j)
  let ?p = "To_fd fd' [Iov (sr_packet (y\<lparr>ep_last_rtcp_send := t', ep_force_rtcp := False\<rparr>) t)]"
  have "safe (fst (xmit (srv_env E) r ?p)) (sim w)" by (rule safe_xmit [OF assms(1)]) simp
  then show ?thesis using Trans_udp assms(1) by (auto simp: rtcp_send_def sent_ok_def Let_def split: prod.split)
next
  case (Trans_inter c a b)
  let ?p = "To_chan c b [Iov (sr_packet (y\<lparr>ep_last_rtcp_send := t', ep_force_rtcp := False\<rparr>) t)]"
  have "safe (fst (xmit (srv_env E) r ?p)) (sim w)" by (rule safe_xmit [OF assms(1)]) (use assms(2) Trans_inter in \<open>simp add: trans_conn_def\<close>)
  then show ?thesis using Trans_inter assms(1) by (auto simp: rtcp_send_def sent_ok_def Let_def split: prod.split)
qed

lemma after_packet_ok:
  assumes "safe r (sim w)" "trans_conn w (ep_trans y)"
  shows "sent_ok w y (after_packet (srv_env E) tms y r)"
proof -
  obtain t t1 t2 where tms: "tms = (t, t1, t2)" by (cases tms)
  have "slow_down (srv_env E) r y = r" by (simp add: srv_env_def)
  then show ?thesis
    using rtcp_send_ok [OF assms, of E t1 t2] assms(1) safe_arm
    by (auto simp: after_packet_def tms sent_ok_def split: prod.splits option.splits)
qed

lemma sent_ok_account: "sent_ok w (account (y\<lparr>ep_last_timestamp := t\<rparr>) v) q \<Longrightarrow> sent_ok w y q"
  by (auto simp: sent_ok_def account_def split: prod.splits option.splits)

lemma send_rtp_packet_ok:
  assumes "trans_conn w (ep_trans y)"
  shows "sent_ok w y (send_rtp_packet (srv_env E) tms y iov ts m (Inr w))"
proof -
  let ?y = "y\<lparr>ep_last_timestamp := ep_start_timestamp y + ts\<rparr>"
  let ?v = "Iov (rtp_header ?y m) # iov"
  have tr: "ep_trans (account ?y ?v) = ep_trans y" by (simp add: account_def)
  have after: "sent_ok w y (after_packet (srv_env E) tms (account ?y ?v) r)" if "safe r (sim w)" for r
    by (rule sent_ok_account [OF after_packet_ok [OF that]]) (simp add: tr assms)
  have fail: "sent_ok w y (None, r, -1)" if "safe r (sim w)" for r using that by (simp add: sent_ok_def)
  show ?thesis
  proof (cases "ep_trans y")
    case No_trans
    then show ?thesis using after by (simp add: send_rtp_packet_def Let_def)
  next
    case (Trans_udp ad po fd i fd' j)
    have "safe (fst (xmit (srv_env E) (Inr w) (To_fd fd ?v))) (sim w)" by (rule safe_xmit) simp_all
    then show ?thesis using Trans_udp after fail by (auto simp: send_rtp_packet_def Let_def split: prod.split)
  next
    case (Trans_inter c a b)
    have "safe (fst (xmit (srv_env E) (Inr w) (To_chan c a ?v))) (sim w)"
      by (rule safe_xmit) (use assms Trans_inter in \<open>simp_all add: trans_conn_def\<close>)
    then show ?thesis using Trans_inter after fail by (auto simp: send_rtp_packet_def Let_def split: prod.split)
  qed
qed

lemma ep_trans_conn: "wf w \<Longrightarrow> v_ep w e = Some (s, v, tr) \<Longrightarrow> trans_conn w tr"
  using wfD_inter unfolding trans_conn_def by fastforce

text \<open>Sending either leaves the views alone or tears the endpoint down.\<close>

definition send_post :: "world \<Rightarrow> nat \<Rightarrow> world \<times> int \<Rightarrow> bool" where
  "send_post w s q \<longleftrightarrow> (case q of (w', rc) \<Rightarrow> torn w w' s \<and> (rc \<ge> 0 \<longrightarrow> sim w w'))"

lemma safe_finish_send:
  assumes wf: "wf w" and e: "w_eps w e = Some y" and q: "sent_ok w y q"
  shows "safe (finish_send (ep_session y) e q) (send_post w (ep_session y))"
proof -
  obtain o' r rc where qq: "q = (o', r, rc)" by (cases q)
  have v: "v_ep w e = Some (ep_session y, ep_rtcp_send_event y, ep_trans y)" using e by (simp add: v_ep_def)
  show ?thesis
  proof (cases r)
    case (Inr w1)
    then have s: "sim w w1" using q qq by (simp add: sent_ok_def)
    have wf1: "wf w1" by (rule wf_sim [OF s wf])
    show ?thesis
    proof (cases o')
      case (Some y')
      have "v_ep w1 e = v_ep w e" using s by (simp add: sim_def)
      then obtain y1 where y1: "w_eps w1 e = Some y1" "ep_session y1 = ep_session y" "ep_rtcp_send_event y1 = ep_rtcp_send_event y" "ep_trans y1 = ep_trans y"
        using v by (auto simp: v_ep_def)
      have "sim w (put_ep w1 e y')" by (rule sim_trans [OF s sim_put_ep [OF y1(1)]]) (use q qq Some y1 in \<open>simp_all add: sent_ok_def\<close>)
      then show ?thesis using qq Inr Some torn_sim [OF wf] by (simp add: finish_send_def send_post_def)
    next
      case None
      obtain p r' es i where vs: "v_sess w (ep_session y) = Some (p, r', es)" using wfD_ep [OF wf v] by blast
      then have vs1: "v_sess w1 (ep_session y) = Some (p, r', es)" using s by (simp add: sim_def)
      have "safe (rbind (live_teardown w1 (ep_session y) (Some e)) (\<lambda>w. Inr (w, rc))) (send_post w (ep_session y))"
        by (rule safe_bind [OF safe_live_teardown [OF wf1 vs1]])
           (use q qq None torn_trans [OF torn_sim [OF wf s]] in \<open>simp add: send_post_def sent_ok_def\<close>)
      then show ?thesis using qq Inr None by (simp add: finish_send_def)
    qed
  qed (use q qq in \<open>simp add: finish_send_def sent_ok_def\<close>)
qed

lemma sent_ok_sim: "sim w w1 \<Longrightarrow> sent_ok w1 y q \<Longrightarrow> sent_ok w y q"
  using sim_trans by (auto simp: sent_ok_def elim!: safe_mono split: prod.splits)

lemma safe_ep_send:
  assumes wf: "wf w" and e: "v_ep w e = Some (s, v, tr)"
  shows "safe (ep_send E e w iov ts m) (send_post w s)"
proof -
  obtain y where y: "w_eps w e = Some y" "ep_session y = s" "ep_trans y = tr" using e by (auto simp: v_ep_def)
  let ?w = "snd (now E (snd (now E (snd (now E w)))))"
  have s: "sim w ?w" by (meson sim_now sim_trans)
  have "trans_conn ?w (ep_trans y)" using ep_trans_conn [OF wf e] s y(3) by (simp add: trans_conn_def sim_conn)
  from sent_ok_sim [OF s send_rtp_packet_ok [OF this]] safe_finish_send [OF wf y(1)]
  show ?thesis using y by (simp add: ep_send_def deref_def case_prod_beta Let_def)
qed

lemma safe_rtcp_fire:
  assumes wf: "wf w" and e: "v_ep w e = Some (s, v, tr)"
  shows "safe (rtcp_fire E w e) (served w)"
proof -
  obtain y where y: "w_eps w e = Some y" "ep_session y = s" "ep_trans y = tr" using e by (auto simp: v_ep_def)
  let ?w = "snd (now E (snd (now E w)))"
  have s: "sim w ?w" by (meson sim_now sim_trans)
  have "trans_conn ?w (ep_trans y)" using ep_trans_conn [OF wf e] s y(3) by (simp add: trans_conn_def sim_conn)
  from safe_finish_send [OF wf y(1) sent_ok_sim [OF s rtcp_send_ok [OF _ this]]]
  have "safe (finish_send (ep_session y) e (rtcp_send (srv_env E) t t' y (Inr ?w))) (send_post w (ep_session y))" for t t' by simp
  then show ?thesis
    unfolding rtcp_fire_def using y(1)
    by (simp add: deref_def case_prod_beta Let_def)
       (rule safe_bind, assumption, auto simp: send_post_def intro: served_torn)
qed

lemma safe_udp_read:
  assumes wf: "wf w" and e: "v_ep w e = Some (s, v, tr)"
  shows "safe (udp_rtp_read E w e) (served w)" "safe (udp_rtcp_read E w e) (served w)"
proof -
  obtain y where y: "w_eps w e = Some y" "ep_session y = s" using e by (auto simp: v_ep_def)
  have "sim w (put_ep (snd (now E (w\<lparr>w_calls := k\<rparr>))) e (y\<lparr>ep_last_rtcp_recv := t\<rparr>))" for k t
    by (rule sim_trans [OF sim_trans [OF sim_calls sim_now] sim_put_ep]) (use y(1) in \<open>simp_all add: now_def case_prod_beta\<close>)
  note upd = served_sim [OF wf this]
  obtain p r es where vs: "v_sess w s = Some (p, r, es)" using wfD_ep [OF wf e] by blast
  have td: "safe (live_teardown (w\<lparr>w_calls := k\<rparr>) s (Some e)) (served w)" for k
  proof -
    have sm: "sim w (w\<lparr>w_calls := k\<rparr>)" by (rule sim_calls)
    have "v_sess (w\<lparr>w_calls := k\<rparr>) s = Some (p, r, es)" using sm vs by (simp add: sim_def)
    from safe_teardown_all [OF wf_sim [OF sm wf] this] show ?thesis
      by (rule safe_mono) (rule served_trans [OF served_sim [OF wf sm]])
  qed
  show "safe (udp_rtp_read E w e) (served w)" "safe (udp_rtcp_read E w e) (served w)"
    using y td upd by (simp_all add: udp_rtp_read_def udp_rtcp_read_def deref_def call_def case_prod_beta Let_def)
qed

section \<open>Frames\<close>

lemma heapless_quant_ptr [simp]: "heapless (quant_ptr out t)"
  by (simp add: quant_ptr_def)

lemma heapless_gather [simp]: "heapless (gather fr iov)"
proof -
  have "heapless (iov_read fr x)" for x by (cases "(fr, x)" rule: iov_read.cases) auto
  then show ?thesis by (induction iov) (auto intro!: heapless_rbind)
qed

lemma heapless_parse_DQT [simp]: "heapless (parse_DQT fr out d len i)"
  by (induction fr out d len i rule: parse_DQT.induct) (subst parse_DQT.simps, auto intro!: heapless_rbind)

lemma heapless_parse_SOF [simp]: "heapless (parse_SOF fr out d)"
proof -
  have "heapless (sof_components fr out cs)" for out cs
    by (induction fr out cs rule: sof_components.induct) (auto intro!: heapless_rbind split: prod.split bool.split)
  then show ?thesis by (auto simp: parse_SOF_def Let_def intro!: heapless_rbind simp del: sof_components.simps)
qed

lemma heapless_segment [simp]: "heapless (jpeg_segment fr out m d len)"
  by (auto simp: jpeg_segment_def parse_DHT_def parse_DRI_def intro!: heapless_rbind)

lemma heapless_walk [simp]: "heapless (jpeg_walk fr flen ms out i)"
  by (induction fr flen ms out i rule: jpeg_walk.induct)
     (subst jpeg_walk.simps, auto intro!: heapless_rbind heapless_if split: prod.split)

lemma heapless_media_frame [simp]: "heapless (media_frame fr ms m)"
  by (cases m) (auto simp: jpeg_process_frame_def intro!: heapless_rbind split: prod.split)

text \<open>A packetiser preserves what its sender preserves: \<open>I\<close> while the sender succeeds, \<open>J\<close> at the end.\<close>

definition sends :: "'s sender \<Rightarrow> ('s \<Rightarrow> bool) \<Rightarrow> ('s \<Rightarrow> bool) \<Rightarrow> bool" where
  "sends send I J \<longleftrightarrow> (\<forall>s. I s \<longrightarrow> J s) \<and> (\<forall>s iov ts m. I s \<longrightarrow> safe (send s iov ts m) (\<lambda>(s', rc). J s' \<and> (rc \<ge> 0 \<longrightarrow> I s')))"

lemma sends_step:
  assumes "sends send I J" "I s" "heapless g" "rbind g (\<lambda>iov. send s (F iov) ts m) = x"
  shows "safe x (\<lambda>(s', rc). J s' \<and> (rc \<ge> 0 \<longrightarrow> I s'))"
  using assms by (cases g) (auto simp: sends_def)

lemma safe_jpeg_loop:
  assumes "jpeg_send_loop send maxds out fr s hdrs hl i = Some x" "sends send I J" "I s"
  shows "safe x (\<lambda>(s', _). J s')"
proof -
  have "sends send I J \<longrightarrow> I s \<longrightarrow> safe x (\<lambda>(s', _). J s')"
    using assms(1)
  proof (rule jpeg_send_loop.raw_induct [rotated], intro impI)
    fix f send maxds out fr s hdrs hl i y
    assume IH: "\<And>send maxds out fr s hdrs hl i y. f send maxds out fr s hdrs hl i = Some y \<Longrightarrow>
        sends send I J \<longrightarrow> I s \<longrightarrow> safe y (\<lambda>(s', _). J s')"
      and y: "(if i < scan_data_len out
          then let plen = scan_data_len out - i;
               plen = (if plen > maxds - hl then maxds - hl else plen)
           in case rbind (gather fr (Local (jpeg_vhdr out i) # hdrs @ [InFrame (Some (scan_data out + nat i)) plen]))
                    (\<lambda>iov. send s iov (j_timestamp out) (plen + i = scan_data_len out)) of
                Inl e \<Rightarrow> Some (Inl e)
              | Inr (s', r) \<Rightarrow>
                  if r < 0 then Some (Inr (s', -1))
                  else f send maxds out fr s' (take (if bHasDRI out then 1 else 0) hdrs) 8 (i + plen)
          else Some (Inr (s, 0))) = Some y"
      and sn: "sends send I J" and I: "I s"
    show "safe y (\<lambda>(s', _). J s')"
    proof (cases "i < scan_data_len out")
      case True
      define plen where "plen = (if scan_data_len out - i > maxds - hl then maxds - hl else scan_data_len out - i)"
      define z where "z = rbind (gather fr (Local (jpeg_vhdr out i) # hdrs @ [InFrame (Some (scan_data out + nat i)) plen]))
                    (\<lambda>iov. send s iov (j_timestamp out) (plen + i = scan_data_len out))"
      have z: "safe z (\<lambda>(s', rc). J s' \<and> (rc \<ge> 0 \<longrightarrow> I s'))"
        by (rule sends_step [where F = "\<lambda>iov. iov", OF sn I heapless_gather z_def [symmetric]])
      have "(case z of Inl e \<Rightarrow> Some (Inl e)
              | Inr (s', r) \<Rightarrow> if r < 0 then Some (Inr (s', -1))
                  else f send maxds out fr s' (take (if bHasDRI out then 1 else 0) hdrs) 8 (i + plen)) = Some y"
        using y True unfolding Let_def plen_def [symmetric] z_def by simp
      then show ?thesis using z IH sn by (auto split: sum.splits if_splits)
    next
      case False
      then show ?thesis using y sn I by (auto simp: sends_def)
    qed
  qed
  then show ?thesis using assms(2, 3) by blast
qed

lemma safe_rawaudio_loop:
  assumes "rawaudio_send_loop send maxds out fr s i = Some x" "sends send I J" "I s"
  shows "safe x (\<lambda>(s', _). J s')"
proof -
  have "sends send I J \<longrightarrow> I s \<longrightarrow> safe x (\<lambda>(s', _). J s')"
    using assms(1)
  proof (rule rawaudio_send_loop.raw_induct [rotated], intro impI)
    fix f send maxds out fr s i y
    assume IH: "\<And>send maxds out fr s i y. f send maxds out fr s i = Some y \<Longrightarrow> sends send I J \<longrightarrow> I s \<longrightarrow> safe y (\<lambda>(s', _). J s')"
      and y: "(if i < rawaudio_len out
          then let plen = rawaudio_len out - i;
               blk = channels out * sampsize out
           in if (plen > maxds \<and> blk = 0) \<or> channels out = 0 \<or> sampsize out = 0 then Some (Inl DivByZero)
              else let plen = (if plen > maxds then maxds - maxds smod blk else plen)
                   in case rbind (aslice fr (nat i) plen)
                        (\<lambda>d. send s [Iov d] (ra_timestamp out + of_int (i sdiv channels out sdiv sampsize out)) False) of
                        Inl e \<Rightarrow> Some (Inl e)
                      | Inr (s', r) \<Rightarrow>
                          if r < 0 then Some (Inr (s', -1))
                          else f send maxds out fr s' (i + plen)
          else Some (Inr (s, 0))) = Some y"
      and sn: "sends send I J" and I: "I s"
    have z: "safe (rbind (aslice fr (nat i) plen) (\<lambda>d. send s [Iov d] ts False)) (\<lambda>(s', rc). J s' \<and> (rc \<ge> 0 \<longrightarrow> I s'))" for plen ts
      by (rule sends_step [OF sn I heapless_aslice, of fr "nat i" plen "\<lambda>d. [Iov d]"]) simp
    have "safe y (\<lambda>(s', _). J s')"
      if "(case x of Inl e \<Rightarrow> Some (Inl e) | Inr (s', r) \<Rightarrow> if r < 0 then Some (Inr (s', -1)) else f send maxds out fr s' j) = Some y"
        "safe x (\<lambda>(s', rc). J s' \<and> (rc \<ge> 0 \<longrightarrow> I s'))" for x :: "(_ \<times> int) res" and j
      using that IH sn by (auto split: sum.splits if_splits)
    from this [OF _ z] show "safe y (\<lambda>(s', _). J s')"
      using y sn I by (auto simp: Let_def sends_def simp del: not_less split: if_split_asm)
  qed
  then show ?thesis using assms(2, 3) by blast
qed

lemma safe_media_send:
  assumes "sends send I J" "I s"
  shows "safe (returned (media_send send maxds fr m s)) (\<lambda>(s', _). J s')"
proof (cases "media_send send maxds fr m s")
  case (Some x)
  have "safe x (\<lambda>(s', _). J s')"
  proof (cases m)
    case (Media_rawaudio out)
    then show ?thesis using Some safe_rawaudio_loop [OF _ assms] by (simp add: rawaudio_send_def)
  next
    case (Media_jpeg out)
    define q where "q = rbind (quant_ptr out (luma_table out)) (\<lambda>lq. rbind (quant_ptr out (chroma_table out)) (\<lambda>cq. Inr (lq, cq)))"
    have "heapless q" unfolding q_def by (auto intro!: heapless_rbind)
    moreover have "jpeg_send send maxds out fr s = Some x" using Some Media_jpeg by simp
    ultimately show ?thesis
      using safe_jpeg_loop [OF _ assms] unfolding jpeg_send_def q_def [symmetric] by (cases q) (auto split: prod.splits)
  qed
  then show ?thesis using Some by (simp add: returned_def)
qed (simp add: returned_def)

lemma ep_send_sends:
  assumes "wf w" "v_ep w e = Some (s, v, tr)"
  shows "sends (ep_send E e) (sim w) (\<lambda>w'. torn w w' s)"
  unfolding sends_def
proof (intro conjI allI impI)
  fix w1 iov ts m assume s: "sim w w1"
  show "torn w w1 s" by (rule torn_sim [OF assms(1) s])
  have "v_ep w1 e = Some (s, v, tr)" using s assms(2) by (simp add: sim_def)
  from safe_ep_send [OF wf_sim [OF s assms(1)] this]
  show "safe (ep_send E e w1 iov ts m) (\<lambda>(s', rc). torn w s' s \<and> (0 \<le> rc \<longrightarrow> sim w s'))"
    by (rule safe_mono) (auto simp: send_post_def intro: torn_trans [OF torn_sim [OF assms(1) s]] sim_trans [OF s])
qed

text \<open>Frames leave the streams and their destinations in place.\<close>

definition framed :: "world \<Rightarrow> world \<Rightarrow> bool" where
  "framed w w' \<longleftrightarrow> served w w' \<and> same_shape (w_streams w) (w_streams w')"

lemma framed_sim: "wf w \<Longrightarrow> sim w w' \<Longrightarrow> framed w w'"
  using served_sim by (simp add: framed_def sim_def)

lemma framed_refl: "wf w \<Longrightarrow> framed w w"
  by (rule framed_sim) simp_all

lemma framed_trans: "framed a b \<Longrightarrow> framed b c \<Longrightarrow> framed a c"
  using served_trans same_shape_trans unfolding framed_def by blast

lemma framed_torn: "torn w w' s \<Longrightarrow> framed w w'"
  using served_torn torn_shape unfolding framed_def by blast

lemma safe_send_to_sessions:
  assumes "wf w" "\<forall>l \<in> set ls. \<exists>s. v_live w l = Some (s, q)" "distinct ls"
  shows "safe (send_to_sessions E fr m t ls w) (framed w)"
  using assms
proof (induction ls arbitrary: w)
  case Nil
  then show ?case using framed_refl by simp
next
  case (Cons l ls)
  obtain s where l: "v_live w l = Some (s, q)" using Cons.prems(2) by auto
  then obtain y where y: "w_lives w l = Some y" "ls_sess y = s" by (auto simp: v_live_def)
  obtain r es where vs: "v_sess w s = Some (Some l, r, es)" using wfD_live [OF Cons.prems(1) l] by blast
  then obtain x where x: "w_sess w s = Some x" "se_ep x = es" by (auto simp: v_sess_def)
  have skip: "safe (send_to_sessions E fr m t ls w) (framed w)" by (rule Cons.IH) (use Cons.prems in auto)
  have send: "safe (rbind (deref (w_eps w) e) (\<lambda>ep. rbind (returned (media_send (ep_send E e) (ep_max_data_size ep) fr m w)) (\<lambda>(w, _).
               send_to_sessions E fr m t ls w))) (framed w)" if e: "t < length es" "es ! t = Some e" for e
  proof -
    have t: "t < MAX_TRACKS" using e(1) wfD_sess [OF Cons.prems(1) vs] by simp
    obtain v tr where ve: "v_ep w e = Some (s, v, tr)" using wfD_slot [OF Cons.prems(1) vs t e(2)] by blast
    then have al: "w_eps w e \<noteq> None" by (auto simp: v_ep_def)
    show ?thesis
    proof (rule safe_deref, simp add: al, rule safe_bind [OF safe_media_send [OF ep_send_sends [OF Cons.prems(1) ve] sim_refl]], clarify)
      fix w1 assume tn: "torn w w1 s"
      have "\<exists>s'. v_live w1 k = Some (s', q)" if k: "k \<in> set ls" for k
      proof -
        obtain s' where s': "v_live w k = Some (s', q)" using Cons.prems(2) k by auto
        have "s' \<noteq> s" using wfD_live [OF Cons.prems(1) s'] vs k Cons.prems(3) by auto
        then show ?thesis using torn_live [OF tn] s' by blast
      qed
      then have "safe (send_to_sessions E fr m t ls w1) (framed w1)" using Cons.IH [OF torn_wf [OF tn]] Cons.prems(3) by simp
      then show "safe (send_to_sessions E fr m t ls w1) (framed w)" by (rule safe_mono) (rule framed_trans [OF framed_torn [OF tn]])
    qed
  qed
  show ?case
    using y x skip send by (auto simp: deref_def intro!: safe_aget split: option.split)
qed

lemma safe_next_live_frame:
  assumes wf: "wf w" and q: "v_src w q \<noteq> None" and t: "t < MAX_TRACKS"
  shows "safe (next_live_frame E w q t fr ms) (framed w)"
proof -
  obtain src where src: "w_sources w q = Some src" using q by (auto simp: v_src_def)
  let ?ts = "map (\<lambda>t. (tr_stream t, tr_rtp t \<noteq> None)) (so_track src)"
  have v: "v_src w q = Some (so_sess_list src, ?ts)" using src by (simp add: v_src_def)
  note W = wfD_src [OF wf v]
  have len: "length (so_track src) = MAX_TRACKS" using W by simp
  let ?tr = "so_track src ! t"
  have put: "sim w (put_source w q (src\<lparr>so_track := (so_track src)[t := tr]\<rparr>))"
    if "tr_stream tr = tr_stream ?tr" "tr_rtp tr \<noteq> None" "tr_rtp ?tr \<noteq> None" for tr
  proof (rule sim_put_source [OF src])
    show "map (\<lambda>t. (tr_stream t, tr_rtp t \<noteq> None)) (so_track (src\<lparr>so_track := (so_track src)[t := tr]\<rparr>)) = ?ts"
      using that len t by (intro nth_equalityI) (auto simp: nth_list_update)
  qed simp
  have go: "safe (send_to_sessions E fr m t (so_sess_list src) w1) (framed w)" if s: "sim w w1" for w1 m
  proof -
    have "\<forall>l \<in> set (so_sess_list src). \<exists>s. v_live w1 l = Some (s, q)" using W s by (simp add: sim_def)
    moreover have "distinct (so_sess_list src)" using W by blast
    ultimately show ?thesis
      by (rule safe_mono [OF safe_send_to_sessions [OF wf_sim [OF s wf]] framed_trans [OF framed_sim [OF wf s]]])
  qed
  have ready: "safe (rbind (stream_do (put_source w q (src\<lparr>so_track := (so_track src)[t := ?tr\<lparr>tr_rtp := Some m\<rparr>]\<rparr>)) (\<lambda>st. set_waiting st d False))
      (\<lambda>w. Inr (put_source w q (src\<lparr>so_track := (so_track src)[t := ?tr\<lparr>tr_rtp := Some m, tr_ready := True\<rparr>]\<rparr>)))) (sim w)"
    if rtp: "tr_rtp ?tr \<noteq> None" and d: "tr_stream ?tr = Some d" for m d
  proof -
    let ?w = "put_source w q (src\<lparr>so_track := (so_track src)[t := ?tr\<lparr>tr_rtp := Some m\<rparr>]\<rparr>)"
    have s1: "sim w ?w" by (rule put) (use rtp in simp_all)
    have "v_dest w d" using track_stream [OF wf src t rtp] d by auto
    then have "v_dest ?w d" by (simp add: sim_dest [OF s1])
    from safe_set_waiting [OF wf_sim [OF s1 wf] this] show ?thesis
    proof (rule safe_bind)
      fix w2 assume s2: "sim ?w w2"
      have sw: "sim w w2" by (rule sim_trans [OF s1 s2])
      have "v_src w2 q = v_src w q" using sw by (simp add: sim_def)
      then obtain src2 where s2': "w_sources w2 q = Some src2" "so_sess_list src2 = so_sess_list src"
        "map (\<lambda>t. (tr_stream t, tr_rtp t \<noteq> None)) (so_track src2) = ?ts" using v by (auto simp: v_src_def)
      have "map (\<lambda>t. (tr_stream t, tr_rtp t \<noteq> None)) ((so_track src)[t := ?tr\<lparr>tr_rtp := Some m, tr_ready := True\<rparr>]) = ?ts"
        using rtp len t by (intro nth_equalityI) (auto simp: nth_list_update)
      then have "sim w2 (put_source w2 q (src\<lparr>so_track := (so_track src)[t := ?tr\<lparr>tr_rtp := Some m, tr_ready := True\<rparr>]\<rparr>))"
        by (intro sim_put_source [OF s2'(1)]) (use s2' in simp_all)
      then show "safe (Inr (put_source w2 q (src\<lparr>so_track := (so_track src)[t := ?tr\<lparr>tr_rtp := Some m, tr_ready := True\<rparr>]\<rparr>))) (sim w)"
        using sim_trans [OF sw] by simp
    qed
  qed
  show ?thesis
    unfolding next_live_frame_def
    apply (rule safe_deref, simp add: src)
    apply (rule safe_aget, rule safe_non_null, rule safe_pure [OF heapless_media_frame], clarify, unfold Let_def)
    subgoal for src' m' m ok
      apply (rule safe_if)
      subgoal using put [of "?tr\<lparr>tr_rtp := Some m\<rparr>"] src framed_sim [OF wf] by simp
      subgoal
        apply (rule safe_bind [where Q = "sim w"])
        subgoal using put [of "?tr\<lparr>tr_rtp := Some m\<rparr>"] src ready by (auto intro!: safe_if safe_non_null)
        subgoal using go src by simp
        done
      done
    done
qed

section \<open>Dropping a connection\<close>

lemma safe_disconnect_channels:
  assumes "wf w" "v_conn w c = Some (re, se, we, pr, PS_rtsp ich)" "\<forall>i \<in> set ks. i < MAX_INTERLEAVE_CHANNELS"
  shows "safe (disconnect_channels w c ks) (\<lambda>w'. wf w' \<and> (\<exists>ich'. v_conn w' c = Some (re, se, we, pr, PS_rtsp ich') \<and> cleared ich ich' \<and>
     (\<forall>i \<in> set ks. \<forall>e. ich' ! i \<noteq> (Some e, False))))"
  using assms
proof (induction ks arbitrary: w ich)
  case Nil
  then show ?case by (simp add: cleared_def)
next
  case (Cons i ks)
  have i: "i < MAX_INTERLEAVE_CHANNELS" and ks: "\<forall>i \<in> set ks. i < MAX_INTERLEAVE_CHANNELS" using Cons.prems(3) by auto
  obtain x where x: "w_conns w c = Some x" "c_proto_state x = PS_rtsp ich" using Cons.prems(2) by (auto simp: v_conn_def)
  have len: "length ich = MAX_INTERLEAVE_CHANNELS" using wfD_conn [OF Cons.prems(1, 2)] by simp
  obtain eo rt where e: "ich ! i = (eo, rt)" by (cases "ich ! i")
  let ?Q = "\<lambda>w'. wf w' \<and> (\<exists>ich'. v_conn w' c = Some (re, se, we, pr, PS_rtsp ich') \<and> cleared ich ich' \<and>
     (\<forall>i \<in> set (i # ks). \<forall>e. ich' ! i \<noteq> (Some e, False)))"
  have go: "safe (disconnect_channels w1 c ks) ?Q"
    if w1: "wf w1" "v_conn w1 c = Some (re, se, we, pr, PS_rtsp ich1)" "cleared ich ich1" "\<And>e. ich1 ! i \<noteq> (Some e, False)" for w1 ich1
  proof (rule safe_mono [OF Cons.IH [OF w1(1, 2) ks]], elim conjE exE)
    fix w2 ich2 assume w2: "wf w2" "v_conn w2 c = Some (re, se, we, pr, PS_rtsp ich2)" "cleared ich1 ich2" "\<forall>i \<in> set ks. \<forall>e. ich2 ! i \<noteq> (Some e, False)"
    have "ich2 ! i = ich1 ! i \<or> fst (ich2 ! i) = None" using w1(3) w2(3) i len by (auto simp: cleared_def)
    then have "ich2 ! i \<noteq> (Some e, False)" for e using w1(4) by auto
    then show "?Q w2" using w2 cleared_trans [OF w1(3) w2(3)] by auto
  qed
  have stay: "cleared ich ich" by (simp add: cleared_def)
  show ?case
  proof (cases "\<exists>e. eo = Some e \<and> \<not> rt")
    case False
    then have "safe (disconnect_channels w c ks) ?Q" using e by (intro go [OF Cons.prems(1, 2) stay]) auto
    then show ?thesis using x e i len False by (auto simp: deref_def split: option.split)
  next
    case True
    then obtain e' where e': "eo = Some e'" "rt = False" by auto
    obtain s v a b where ve: "v_ep w e' = Some (s, v, Trans_inter c a b)" using wfD_conn [OF Cons.prems(1, 2)] i e e' by fastforce
    then obtain y where y: "w_eps w e' = Some y" "ep_session y = s" by (auto simp: v_ep_def)
    obtain p r es j where vs: "v_sess w s = Some (p, r, es)" "j < MAX_TRACKS" "es ! j = Some e'" using wfD_ep [OF Cons.prems(1) ve] by blast
    have es: "Some e' \<in> set es" using vs wfD_sess [OF Cons.prems(1) vs(1)] by (metis nth_mem)
    have "safe (rbind (live_teardown w s (Some e')) (\<lambda>w. disconnect_channels w c ks)) ?Q"
    proof (rule safe_bind [OF safe_live_teardown [OF Cons.prems(1) vs(1)]], elim conjE)
      fix w1 assume t: "torn w w1 s" and gone: "\<forall>e. (Some e' = None \<or> Some e' = Some e) \<and> Some e \<in> set es \<longrightarrow> v_ep w1 e = None"
      have "conn_rel (v_conn w c) (v_conn w1 c)" using torn_conn [OF t] by (simp add: conn_after_def)
      then obtain ich1 where c1: "v_conn w1 c = Some (re, se, we, pr, PS_rtsp ich1)" "cleared ich ich1"
        using Cons.prems(2) stay by (auto simp: conn_rel_def)
      have "ich1 ! i \<noteq> (Some e, False)" for e
      proof
        assume a: "ich1 ! i = (Some e, False)"
        then have "ich1 ! i = ich ! i" using c1(2) i len by (auto simp: cleared_def)
        then have "e = e'" using a e e' by simp
        moreover have "v_ep w1 e \<noteq> None" using wfD_conn [OF torn_wf [OF t] c1(1)] a i by fastforce
        ultimately show False using gone es by simp
      qed
      then show "safe (disconnect_channels w1 c ks) ?Q" by (rule go [OF torn_wf [OF t] c1])
    qed
    then show ?thesis using x e e' y i len by (simp add: deref_def)
  qed
qed

lemma wf_dropped:
  assumes wf: "wf w" and c: "v_conn w c = Some (re, se, we, pr, ps)" and no_ep: "\<And>e s v a b. v_ep w e \<noteq> Some (s, v, Trans_inter c a b)"
    and V: "v_sess w' = v_sess w" "v_live w' = v_live w" "v_src w' = v_src w" "v_ep w' = v_ep w" "v_conn w' = (v_conn w)(c := None)"
      "v_rtsp w' = v_rtsp w" "v_http w' = v_http w"
    and ev: "\<And>i f d. v_ev w' i = Some (f, d, False) \<Longrightarrow> v_ev w i = Some (f, d, False) \<and> i \<notin> {re, we} \<union> set_option se"
    and L: "same_shape (w_streams w) (w_streams w')" "w_sess_list w' = w_sess_list w" "w_rtsp_list w' = w_rtsp_list w" "w_conn_list w' = remove1 c (w_conn_list w)"
      "w_http_list w' = w_http_list w" "map lo_private (w_rtsp_locs w') = map lo_private (w_rtsp_locs w)" "w_next w' = w_next w"
  shows "wf w'"
proof -
  have D: "v_dest w' = v_dest w" "v_strm w' = v_strm w" by (rule same_shape_v_dest [OF L(1)])+
  have "wf_sess w'" using wf unfolding wf_def wf_sess_def V L by blast
  moreover have "wf_live w'" using wf unfolding wf_def wf_live_def V by blast
  moreover have "wf_src w'" using wf unfolding wf_def wf_src_def V L D by blast
  moreover have "wf_rtsp w'" using wf unfolding wf_def wf_rtsp_def V L by blast
  moreover have "wf_slot w'" using wf unfolding wf_def wf_slot_def V by blast
  moreover have "wf_ep w'"
    unfolding wf_ep_def V(1, 4)
  proof (intro allI impI conjI)
    fix e s v tr assume e: "v_ep w e = Some (s, v, tr)"
    show "\<exists>p r es i. v_sess w s = Some (p, r, es) \<and> i < MAX_TRACKS \<and> es ! i = Some e" by (rule wfD_ep [OF wf e])
    fix c' a b assume "tr = Trans_inter c' a b"
    with e no_ep have "c' \<noteq> c" "v_ep w e = Some (s, v, Trans_inter c' a b)" by auto
    from wfD_inter [OF wf this(2)] this(1)
    show "\<exists>re se we ich. v_conn w' c' = Some (re, se, we, CONN_PROTO_RTSP, PS_rtsp ich) \<and> a < MAX_INTERLEAVE_CHANNELS \<and>
        b < MAX_INTERLEAVE_CHANNELS \<and> a \<noteq> b \<and> ich ! a = (Some e, False) \<and> ich ! b = (Some e, True)" by (simp add: V)
  qed
  moreover have "wf_conn w'"
    unfolding wf_conn_def V(4) L
  proof (intro conjI allI impI)
    fix c' re' se' we' pr' ps' assume "v_conn w' c' = Some (re', se', we', pr', ps')"
    then have "v_conn w c' = Some (re', se', we', pr', ps')" by (auto simp: V split: if_splits)
    from wfD_conn [OF wf this] show "ps' = PS_null \<or> pr' = CONN_PROTO_RTSP \<and> (\<exists>ich. ps' = PS_rtsp ich \<and> length ich = MAX_INTERLEAVE_CHANNELS \<and>
        (\<forall>i < MAX_INTERLEAVE_CHANNELS. \<forall>e rt. ich ! i = (Some e, rt) \<longrightarrow>
           (\<exists>s v a b. v_ep w e = Some (s, v, Trans_inter c' a b) \<and> i = (if rt then b else a))))" .
  qed (use wfD_conn_list [OF wf] in \<open>auto simp: V\<close>)
  moreover have "wf_http w'" using wf unfolding wf_def wf_http_def V L by blast
  moreover have "wf_ev w'"
    unfolding wf_ev_def
  proof (intro allI impI)
    fix i f d assume "v_ev w' i = Some (f, d, False)"
    then have i: "v_ev w i = Some (f, d, False)" "i \<notin> {re, we} \<union> set_option se" using ev by blast+
    from wfD_ev [OF wf i(1)] show "target w' i f d" using i(2) c by (cases f) (auto simp: target_def V D)
  qed
  moreover have "wf_fresh w'"
    unfolding wf_fresh_def L
  proof (intro allI impI)
    fix n assume "w_next w \<le> n"
    from wfD_fresh [OF wf this] show "v_sess w' n = None \<and> v_live w' n = None \<and> v_src w' n = None \<and> v_ep w' n = None \<and>
        v_conn w' n = None \<and> v_rtsp w' n = None" by (simp add: V)
  qed
  moreover have "wf_streams (w_streams w')" using wfD_streams [OF wf] L(1) wf_same_shape by blast
  moreover have "wf_cons w'" by (rule wf_cons_kept [OF wf L(1)]) (simp_all add: V)
  ultimately show ?thesis by (simp add: wf_def)
qed

lemma safe_drop_conn:
  assumes wf: "wf w" and c: "v_conn w c \<noteq> None"
  shows "safe (drop_conn w c) wf"
proof -
  obtain re se we pr ps where vc: "v_conn w c = Some (re, se, we, pr, ps)" using c by (cases "v_conn w c") auto
  then obtain x where x: "w_conns w c = Some x" "c_read_event x = re" "c_second_read_event x = se" "c_write_event x = we" "c_proto x = pr" "c_proto_state x = ps"
    by (auto simp: v_conn_def)
  have last: "wf (let w = ev_remove w1 re;
         w = (case se of None \<Rightarrow> w | Some e \<Rightarrow> ev_remove w e);
         w = ev_remove w we;
         w = close_open_fd w (c_fd x);
         w = close_open_fd w (c_second_fd x)
     in w\<lparr>w_conn_list := remove1 c (w_conn_list w), w_conns := (w_conns w)(c := None)\<rparr>)"
    if w1: "wf w1" "v_conn w1 c = Some (re, se, we, pr, ps1)" "\<And>e s v a b. v_ep w1 e \<noteq> Some (s, v, Trans_inter c a b)" for w1 ps1
  proof -
    let ?a = "ev_remove w1 re"
    let ?b = "case se of None \<Rightarrow> ?a | Some e \<Rightarrow> ev_remove ?a e"
    let ?c = "close_open_fd (close_open_fd (ev_remove ?b we) (c_fd x)) (c_second_fd x)"
    have b: "sim_but_ev ?a ?b (set_option se)" using but_ev_remove but_ev_sim [OF sim_refl, of ?a] by (cases se) auto
    have cl: "sim w (close_open_fd w fd)" for w fd using sim_close by (simp add: close_open_fd_def)
    have "sim_but_ev w1 ?c (({re} \<union> set_option se \<union> {we}) \<union> {} \<union> {})"
      by (rule but_ev_trans [OF but_ev_trans [OF but_ev_trans [OF but_ev_trans [OF but_ev_remove b] but_ev_remove] but_ev_sim [OF cl]] but_ev_sim [OF cl]])
    then have B: "sim_but_ev w1 ?c ({re, we} \<union> set_option se)" by (simp add: insert_commute)
    have "wf (?c\<lparr>w_conn_list := remove1 c (w_conn_list ?c), w_conns := (w_conns ?c)(c := None)\<rparr>)" (is "wf ?d")
    proof (rule wf_dropped [OF w1])
      show "v_sess ?d = v_sess w1" "v_live ?d = v_live w1" "v_src ?d = v_src w1" "v_ep ?d = v_ep w1" "v_rtsp ?d = v_rtsp w1" "v_http ?d = v_http w1"
        using B by (simp_all add: sim_but_ev_def view_defs fun_eq_iff)
      show "v_conn ?d = (v_conn w1)(c := None)" using B by (auto simp: sim_but_ev_def v_conn_def fun_eq_iff)
      have "v_ev ?d = v_ev ?c" by (simp add: v_ev_def fun_eq_iff)
      then show "v_ev ?d i = Some (f, d, False) \<Longrightarrow> v_ev w1 i = Some (f, d, False) \<and> i \<notin> {re, we} \<union> set_option se" for i f d
        using B by (auto simp: sim_but_ev_def)
    qed (use B in \<open>simp_all add: sim_but_ev_def\<close>)
    then show ?thesis by (simp only: Let_def)
  qed
  consider "ps = PS_null" | ich where "ps = PS_rtsp ich" "pr = CONN_PROTO_RTSP" "length ich = MAX_INTERLEAVE_CHANNELS"
    using wfD_conn [OF wf vc] by blast
  then show ?thesis
  proof cases
    case 1
    have "v_ep w e \<noteq> Some (s, v, Trans_inter c a b)" for e s v a b using wfD_inter [OF wf] vc 1 by fastforce
    from last [OF wf vc this] show ?thesis unfolding drop_conn_def deref_def x option.case rbind_simps 1 by (simp add: Let_def)
  next
    case (2 ich)
    have "safe (rtsp_conn_disconnect w c) (\<lambda>w1. wf w1 \<and> (\<exists>ps1. v_conn w1 c = Some (re, se, we, pr, ps1)) \<and>
       (\<forall>e s v a b. v_ep w1 e \<noteq> Some (s, v, Trans_inter c a b)))"
      unfolding rtsp_conn_disconnect_def
    proof (rule safe_mono [OF safe_disconnect_channels [OF wf vc [unfolded 2(1)]]], simp, elim conjE exE)
      fix w1 ich1 assume w1: "wf w1" "v_conn w1 c = Some (re, se, we, pr, PS_rtsp ich1)"
        "\<forall>i \<in> set [0..<MAX_INTERLEAVE_CHANNELS]. \<forall>e. ich1 ! i \<noteq> (Some e, False)"
      have "v_ep w1 e \<noteq> Some (s, v, Trans_inter c a b)" for e s v a b using wfD_inter [OF w1(1)] w1(2, 3) by fastforce
      then show "wf w1 \<and> (\<exists>ps1. v_conn w1 c = Some (re, se, we, pr, ps1)) \<and> (\<forall>e s v a b. v_ep w1 e \<noteq> Some (s, v, Trans_inter c a b))"
        using w1 by blast
    qed
    from safe_bind [OF this, of "\<lambda>w1. Inr (let w = ev_remove w1 re;
         w = (case se of None \<Rightarrow> w | Some e \<Rightarrow> ev_remove w e);
         w = ev_remove w we;
         w = close_open_fd w (c_fd x);
         w = close_open_fd w (c_second_fd x)
     in w\<lparr>w_conn_list := remove1 c (w_conn_list w), w_conns := (w_conns w)(c := None)\<rparr>)" wf] last
    show ?thesis using x 2 unfolding drop_conn_def deref_def by (simp add: Let_def) blast
  qed
qed

lemma safe_conn_write:
  assumes wf: "wf w" and c: "v_conn w c \<noteq> None"
  shows "safe (conn_write E w c) wf"
proof -
  obtain x where x: "w_conns w c = Some x" using c by (auto simp: v_conn_def)
  have put: "sim w (put_conn (w\<lparr>w_calls := k\<rparr>) c (x\<lparr>c_ring := r\<rparr>))" for k r
    by (rule sim_trans [OF sim_calls sim_put_conn]) (use x in simp_all)
  have out: "sim w ((put_conn (w\<lparr>w_calls := k\<rparr>) c (x\<lparr>c_ring := r\<rparr>))\<lparr>w_out := o'\<rparr>)" for k r o'
    by (rule sim_trans [OF put sim_out])
  have drop: "safe (drop_conn w1 c) wf" if "sim w w1" for w1
    by (rule safe_drop_conn [OF wf_sim [OF that wf]]) (use c that in \<open>simp add: sim_conn\<close>)
  have stop: "wf (ev_enable w1 i b)" if "sim w w1" for w1 i b by (rule wf_sim [OF sim_trans [OF that sim_enable] wf])
  show ?thesis
    unfolding conn_write_def using x put out drop stop by (auto simp: deref_def call_def Let_def split: option.split)
qed

section \<open>Connections that change\<close>

lemma wf_conn_upd:
  assumes wf: "wf w" and c: "v_conn w c = Some (re, se, we, pr, ps)" and p: "pr' = pr \<or> ps = PS_null"
    and V: "v_sess w' = v_sess w" "v_live w' = v_live w" "v_src w' = v_src w" "v_ep w' = v_ep w" "v_conn w' = (v_conn w)(c \<mapsto> (re, se', we, pr', ps))"
      "v_rtsp w' = v_rtsp w" "v_http w' = v_http w"
    and ev: "\<And>i f d. v_ev w' i = Some (f, d, False) \<Longrightarrow>
        v_ev w i = Some (f, d, False) \<and> (se = Some i \<longrightarrow> se' = Some i) \<or> f = Cb_do_read \<and> d = c \<and> se' = Some i"
    and L: "same_shape (w_streams w) (w_streams w')" "w_sess_list w' = w_sess_list w" "w_rtsp_list w' = w_rtsp_list w" "w_conn_list w' = w_conn_list w"
      "w_http_list w' = w_http_list w" "map lo_private (w_rtsp_locs w') = map lo_private (w_rtsp_locs w)" "w_next w' = w_next w"
  shows "wf w'" "served w w'"
proof -
  have D: "v_dest w' = v_dest w" "v_strm w' = v_strm w" by (rule same_shape_v_dest [OF L(1)])+
  have "wf_sess w'" using wf unfolding wf_def wf_sess_def V L by blast
  moreover have "wf_live w'" using wf unfolding wf_def wf_live_def V by blast
  moreover have "wf_src w'" using wf unfolding wf_def wf_src_def V L D by blast
  moreover have "wf_rtsp w'" using wf unfolding wf_def wf_rtsp_def V L by blast
  moreover have "wf_slot w'" using wf unfolding wf_def wf_slot_def V by blast
  moreover have "wf_ep w'"
    unfolding wf_ep_def V(1, 4)
  proof (intro allI impI conjI)
    fix e s v tr assume e: "v_ep w e = Some (s, v, tr)"
    show "\<exists>p r es i. v_sess w s = Some (p, r, es) \<and> i < MAX_TRACKS \<and> es ! i = Some e" by (rule wfD_ep [OF wf e])
    fix c' a b assume tr: "tr = Trans_inter c' a b"
    from wfD_inter [OF wf e [unfolded tr]] c p
    show "\<exists>re se we ich. v_conn w' c' = Some (re, se, we, CONN_PROTO_RTSP, PS_rtsp ich) \<and> a < MAX_INTERLEAVE_CHANNELS \<and>
        b < MAX_INTERLEAVE_CHANNELS \<and> a \<noteq> b \<and> ich ! a = (Some e, False) \<and> ich ! b = (Some e, True)" by (cases "c' = c") (auto simp: V)
  qed
  moreover have "wf_conn w'"
    unfolding wf_conn_def V(4) L
  proof (intro conjI allI impI)
    fix c' re' se'' we' pr'' ps' assume a: "v_conn w' c' = Some (re', se'', we', pr'', ps')"
    then obtain se0 pr0 where a0: "v_conn w c' = Some (re', se0, we', pr0, ps')" "pr'' = pr0 \<or> ps' = PS_null"
      using c p by (cases "c' = c") (auto simp: V)
    from wfD_conn [OF wf a0(1)] a0(2) show "ps' = PS_null \<or> pr'' = CONN_PROTO_RTSP \<and> (\<exists>ich. ps' = PS_rtsp ich \<and> length ich = MAX_INTERLEAVE_CHANNELS \<and>
        (\<forall>i < MAX_INTERLEAVE_CHANNELS. \<forall>e rt. ich ! i = (Some e, rt) \<longrightarrow>
           (\<exists>s v a b. v_ep w e = Some (s, v, Trans_inter c' a b) \<and> i = (if rt then b else a))))" by blast
  qed (use wfD_conn_list [OF wf] in \<open>auto simp: V\<close>)
  moreover have "wf_http w'" using wf unfolding wf_def wf_http_def V L by blast
  moreover have "wf_ev w'"
    unfolding wf_ev_def
  proof (intro allI impI)
    fix i f d assume i: "v_ev w' i = Some (f, d, False)"
    show "target w' i f d"
    proof (cases "f = Cb_do_read \<and> d = c \<and> se' = Some i")
      case True
      then show ?thesis by (simp add: target_def V)
    next
      case False
      then have "v_ev w i = Some (f, d, False)" "se = Some i \<longrightarrow> se' = Some i" using ev [OF i] by blast+
      with wfD_ev [OF wf this(1)] c show ?thesis by (cases f) (auto simp: target_def V D)
    qed
  qed
  moreover have "wf_fresh w'"
    unfolding wf_fresh_def L
  proof (intro allI impI)
    fix n assume "w_next w \<le> n"
    from wfD_fresh [OF wf this] c show "v_sess w' n = None \<and> v_live w' n = None \<and> v_src w' n = None \<and> v_ep w' n = None \<and>
        v_conn w' n = None \<and> v_rtsp w' n = None" by (auto simp: V)
  qed
  moreover have "wf_streams (w_streams w')" using wfD_streams [OF wf] L(1) wf_same_shape by blast
  moreover have "wf_cons w'" by (rule wf_cons_kept [OF wf L(1)]) (simp_all add: V)
  ultimately show "wf w'" by (simp add: wf_def)
  then show "served w w'" by (simp add: served_def V)
qed

lemma served_proto:
  assumes wf: "wf w" and x: "w_conns w c = Some x" "c_proto_state x = PS_null"
    and y: "c_read_event y = c_read_event x" "c_second_read_event y = c_second_read_event x" "c_write_event y = c_write_event x" "c_proto_state y = PS_null"
  shows "served w (put_conn w c y)"
proof (rule wf_conn_upd(2) [OF wf])
  show "v_conn w c = Some (c_read_event x, c_second_read_event x, c_write_event x, c_proto x, PS_null)" using x by (simp add: v_conn_def)
qed (use x y in \<open>auto simp: view_defs put_conn_def fun_eq_iff\<close>)

lemma other_proto_null: "wf w \<Longrightarrow> w_conns w c = Some x \<Longrightarrow> c_proto x \<noteq> CONN_PROTO_RTSP \<Longrightarrow> c_proto_state x = PS_null"
  using wfD_conn [of w c "c_read_event x" "c_second_read_event x" "c_write_event x" "c_proto x" "c_proto_state x"] by (auto simp: v_conn_def)

lemma safe_drop_later: "w_conns w c \<noteq> None \<Longrightarrow> safe (drop_later w c) (sim w)"
  unfolding drop_later_def by (auto intro!: safe_deref sim_put_conn)

lemma safe_conn_send': "v_conn w c \<noteq> None \<Longrightarrow> safe (conn_send w c d) (\<lambda>(w', _). sim w w')"
  by (rule safe_conn_send) (simp add: v_conn_def)

section \<open>HTTP\<close>

lemma safe_http_send_error:
  assumes "v_conn w c \<noteq> None"
  shows "safe (http_send_error E w c m code reply t) (\<lambda>(w', _). sim w w')"
proof -
  have fin: "safe (rbind (tcp_send_pmsg w1 c r n) (\<lambda>(w, rc).
          if rc \<ge> 0 then rbind (conn_send w c (bytes_of t)) (\<lambda>(w, _). Inr (w, 0 :: int)) else Inr (w, 0))) (\<lambda>(w', _). sim w w')"
    if s: "sim w w1" for w1 r n
  proof (rule safe_bind [OF safe_tcp_send_pmsg], use assms s in \<open>simp add: sim_conn\<close>, clarify)
    fix w2 and rc :: int assume "sim w1 w2"
    then have s2: "sim w w2" by (rule sim_trans [OF s])
    then have "v_conn w2 c \<noteq> None" using assms by (simp add: sim_conn)
    from safe_conn_send' [OF this]
    have "safe (rbind (conn_send w2 c (bytes_of t)) (\<lambda>(w, _). Inr (w, 0 :: int))) (\<lambda>(w', _). sim w w')"
      by (rule safe_bind) (auto intro: sim_trans [OF s2])
    then show "safe (if rc \<ge> 0 then rbind (conn_send w2 c (bytes_of t)) (\<lambda>(w, _). Inr (w, 0 :: int)) else Inr (w2, 0)) (\<lambda>(w', _). sim w w')"
      using s2 by simp
  qed
  have dl: "safe (drop_later (w\<lparr>w_calls := k\<rparr>) c) (sim (w\<lparr>w_calls := k\<rparr>))" for k
    by (rule safe_drop_later) (use assms in \<open>auto simp: v_conn_def\<close>)
  show ?thesis
    unfolding http_send_error_def http_create_reply_def call_def Let_def prod.case
    by (rule safe_pure [OF heapless_log_request], rule safe_bind [OF dl], rule fin) (rule sim_trans [OF sim_calls])
qed

lemma safe_not_found: "v_conn w c \<noteq> None \<Longrightarrow> safe (not_found E w c m what) (\<lambda>(w', _). sim w w')"
  unfolding not_found_def by (rule safe_http_send_error)

lemma safe_find_node:
  assumes "\<forall>h \<in> set hs. v_http w h \<noteq> None"
  shows "safe (http_find_node w hs path len) (\<lambda>r. \<forall>h. r = Some h \<longrightarrow> v_http w h \<noteq> None)"
  using assms
  by (induction hs) (auto simp: v_http_def intro!: safe_deref safe_pure [OF heapless_str_at] safe_aget)

lemma safe_find_http:
  assumes "wf w"
  shows "safe (find_http_location w path) (\<lambda>r. \<forall>h. r = Some h \<longrightarrow> v_http w h \<noteq> None)"
  unfolding find_http_location_def using safe_find_node wfD_http_list [OF assms] by (auto intro!: safe_if)

lemma safe_send_frame:
  assumes "v_conn w c \<noteq> None"
  shows "safe (send_frame_with_jfif w c loc) (sim w)"
  unfolding send_frame_with_jfif_def
proof (rule safe_non_null, rule safe_if)
  fix f
  show "safe (rbind (conn_send w c add_jfif) (\<lambda>(w, _). rbind (aslice f 2 (int (length f) - 2)) (\<lambda>d. rbind (conn_send w c d) (\<lambda>(w, _). Inr w)))) (sim w)"
  proof (rule safe_bind [OF safe_conn_send' [OF assms]], clarify, rule safe_pure [OF heapless_aslice])
    fix w1 d assume s: "sim w w1"
    then have "v_conn w1 c \<noteq> None" using assms by (simp add: sim_conn)
    from safe_conn_send' [OF this] show "safe (rbind (conn_send w1 c d) (\<lambda>(w, _). Inr w)) (sim w)"
      by (rule safe_bind) (auto intro: sim_trans [OF s])
  qed
  show "safe (rbind (conn_send w c f) (\<lambda>(w, _). Inr w)) (sim w)"
    by (rule safe_bind [OF safe_conn_send' [OF assms]]) auto
qed

lemma safe_http_GET:
  assumes wf: "wf w" and c: "v_conn w c \<noteq> None"
  shows "safe (http_handle_GET E w c m) (\<lambda>(w', _). sim w w')"
proof -
  have nf: "safe (not_found E w c m what) (\<lambda>(w', _). sim w w')" for what by (rule safe_not_found [OF c])
  have pic: "safe (rbind (drop_later (w\<lparr>w_calls := k\<rparr>) c) (\<lambda>w. rbind (tcp_send_pmsg w c r n) (\<lambda>(w, rc).
      if rc \<ge> 0 then rbind (send_frame_with_jfif w c loc) (\<lambda>w. Inr (w, 0 :: int)) else Inr (w, 0)))) (\<lambda>(w', _). sim w w')" for k r n loc
  proof -
    have "safe (drop_later (w\<lparr>w_calls := k\<rparr>) c) (sim w)"
      by (rule safe_mono [OF safe_drop_later sim_trans [OF sim_calls]]) (use c in \<open>auto simp: v_conn_def\<close>)
    then show ?thesis
    proof (rule safe_bind)
      fix w1 assume s: "sim w w1"
      then have "v_conn w1 c \<noteq> None" using c by (simp add: sim_conn)
      then show "safe (rbind (tcp_send_pmsg w1 c r n) (\<lambda>(w, rc).
         if rc \<ge> 0 then rbind (send_frame_with_jfif w c loc) (\<lambda>w. Inr (w, 0 :: int)) else Inr (w, 0))) (\<lambda>(w', _). sim w w')"
      proof (rule safe_bind [OF safe_tcp_send_pmsg], clarify)
        fix w2 and rc :: int assume "sim w1 w2"
        then have s2: "sim w w2" by (rule sim_trans [OF s])
        then have "v_conn w2 c \<noteq> None" using c by (simp add: sim_conn)
        from safe_send_frame [OF this] have "safe (rbind (send_frame_with_jfif w2 c loc) (\<lambda>w. Inr (w, 0 :: int))) (\<lambda>(w', _). sim w w')"
          by (rule safe_bind) (auto intro: sim_trans [OF s2])
        then show "safe (if rc \<ge> 0 then rbind (send_frame_with_jfif w2 c loc) (\<lambda>w. Inr (w, 0 :: int)) else Inr (w2, 0)) (\<lambda>(w', _). sim w w')"
          using s2 by simp
      qed
    qed
  qed
  have loc: "\<not> hl_streaming l" if "w_http_locs w h = Some l" for h l
    using wfD_http [OF wf, of h "hl_streaming l" "hl_sess_list l"] that by (simp add: v_http_def)
  show ?thesis
    unfolding http_handle_GET_def
    apply (rule safe_pure [OF heapless_str_ptr], rule safe_bind [OF safe_find_http [OF wf]], rule safe_opt, rule nf)
    apply (rule safe_deref, simp add: v_http_def)
    apply (rule safe_pure [OF heapless_str_at], rule safe_if, rule nf)
    apply (rule safe_deref, use c in \<open>simp add: v_conn_def\<close>)
    apply (rule safe_opt, rule nf, rule safe_if, rule nf)
    using loc pic by (auto simp: http_create_reply_def call_def Let_def intro!: safe_pure [OF heapless_log_request])
qed

lemma safe_http_msg:
  assumes "wf w" "v_conn w c \<noteq> None"
  shows "safe (http_handle_msg E w c m) (\<lambda>(w', _). sim w w')"
  unfolding http_handle_msg_def
  by (intro safe_pure [OF heapless_str_ptr] safe_if safe_http_GET [OF assms] safe_http_send_error [OF assms(2)])

lemma safe_jpeg_next_frame:
  assumes "wf w" "v_http w l \<noteq> None"
  shows "safe (jpeg_next_frame w l f) (sim w)"
proof -
  obtain loc where l: "w_http_locs w l = Some loc" using assms(2) by (auto simp: v_http_def)
  then have none: "hl_sess_list loc = []" using wfD_http [OF assms(1), of l "hl_streaming loc" "hl_sess_list loc"] by (simp add: v_http_def)
  have "sim w (w\<lparr>w_http_locs := (w_http_locs w)(l \<mapsto> loc\<lparr>hl_frame := fo, hl_length_with_jfif := n\<rparr>)\<rparr>)" for fo n
    using l by (auto simp: sim_def view_defs fun_eq_iff)
  moreover have h: "heapless (lacks_jfif f)" by (auto simp: lacks_jfif_def intro!: heapless_rbind)
  ultimately show ?thesis
    unfolding jpeg_next_frame_def using l none by (auto simp: Let_def intro!: safe_aget safe_deref safe_pure [OF h] safe_if)
qed

section \<open>Tunnels\<close>

lemma safe_find_cookie:
  assumes "\<forall>c \<in> set cs. v_conn w c \<noteq> None"
  shows "safe (find_cookie w t cs) (\<lambda>r. \<forall>g. r = Some g \<longrightarrow> v_conn w g \<noteq> None)"
  using assms by (induction cs) (auto simp: v_conn_def intro!: safe_deref)

lemma safe_refuse_tunnel:
  assumes "v_conn w c \<noteq> None"
  shows "safe (refuse_tunnel w c what) (\<lambda>(w', _). sim w w')"
  unfolding refuse_tunnel_def
proof (rule safe_bind [OF safe_conn_send' [OF assms]], clarify)
  fix w1 assume s: "sim w w1"
  then have "w_conns w1 c \<noteq> None" using assms by (simp add: conn_alive [symmetric] sim_conn del: not_None_eq)
  from safe_drop_later [OF this] show "safe (rbind (drop_later w1 c) (\<lambda>w. Inr (w, 0))) (\<lambda>(w', _). sim w w')"
    by (rule safe_bind) (auto intro: sim_trans [OF s])
qed

text \<open>A POST moves its socket under the connection of the GET.\<close>

lemma served_second:
  assumes wf: "wf w" and y: "w_conns w g = Some y" and s: "sim w w1"
    and e: "ev_add_fd (case c_second_read_event y of None \<Rightarrow> w1 | Some e \<Rightarrow> ev_remove w1 e) fd False Cb_do_read g = (e, w2)"
  shows "served w (put_conn w2 g (y\<lparr>c_second_fd := fd, c_second_read_event := Some e\<rparr>))"
proof -
  let ?se = "c_second_read_event y"
  let ?w1 = "case ?se of None \<Rightarrow> w1 | Some e \<Rightarrow> ev_remove w1 e"
  have "sim_but_ev w1 ?w1 (set_option ?se)" using but_ev_remove but_ev_sim [OF sim_refl, of w1] by (cases ?se) auto
  from but_ev_trans [OF but_ev_sim [OF s] this] have B: "sim_but_ev w ?w1 (set_option ?se)" by simp
  have N: "sim_new_ev ?w1 w2 e Cb_do_read g" by (rule new_ev_add_fd [OF e])
  let ?w = "put_conn w2 g (y\<lparr>c_second_fd := fd, c_second_read_event := Some e\<rparr>)"
  show ?thesis
  proof (rule wf_conn_upd(2) [OF wf])
    show "v_conn w g = Some (c_read_event y, ?se, c_write_event y, c_proto y, c_proto_state y)" using y by (simp add: v_conn_def)
    show "v_sess ?w = v_sess w" "v_live ?w = v_live w" "v_src ?w = v_src w" "v_ep ?w = v_ep w" "v_rtsp ?w = v_rtsp w" "v_http ?w = v_http w"
      using B N by (simp_all add: sim_but_ev_def sim_new_ev_def view_defs put_conn_def fun_eq_iff)
    have "v_conn w2 = v_conn w" using B N by (simp add: sim_but_ev_def sim_new_ev_def)
    then show "v_conn ?w = (v_conn w)(g \<mapsto> (c_read_event y, Some e, c_write_event y, c_proto y, c_proto_state y))"
      by (auto simp: v_conn_def put_conn_def fun_eq_iff)
    have ev: "v_ev ?w = v_ev w2" by (simp add: v_ev_def put_conn_def fun_eq_iff)
    show "v_ev ?w i = Some (f, d, False) \<Longrightarrow> v_ev w i = Some (f, d, False) \<and> (?se = Some i \<longrightarrow> Some e = Some i) \<or>
        f = Cb_do_read \<and> d = g \<and> Some e = Some i" for i f d
      using B N unfolding ev by (auto simp: sim_but_ev_def sim_new_ev_def split: if_splits)
    show "same_shape (w_streams w) (w_streams ?w)" using B N same_shape_trans by (auto simp: sim_but_ev_def sim_new_ev_def put_conn_def)
  qed (use B N in \<open>simp_all add: sim_but_ev_def sim_new_ev_def put_conn_def\<close>)
qed

lemma served_put:
  assumes "wf w" "w_conns w c = Some x" "c_read_event y = c_read_event x" "c_second_read_event y = c_second_read_event x"
    "c_write_event y = c_write_event x" "c_proto y = c_proto x" "c_proto_state y = c_proto_state x"
  shows "served w (put_conn w c y)"
  by (rule served_sim [OF assms(1) sim_put_conn [OF assms(2-7)]])

lemma safe_tunnel:
  assumes wf: "wf w" and x: "w_conns w c = Some x" "c_proto x \<noteq> CONN_PROTO_RTSP"
  shows "safe (handle_QT_tunnel w c m post) (\<lambda>(w', _). served w w')"
proof -
  have c: "v_conn w c \<noteq> None" using x(1) by (simp add: v_conn_def)
  have refuse: "safe (refuse_tunnel w c what) (\<lambda>(w', _). served w w')" for what
    by (rule safe_mono [OF safe_refuse_tunnel [OF c]]) (auto intro: served_sim [OF wf])
  have get: "safe (rbind (conn_send (put_conn w c (x\<lparr>c_http_tunnel_cookie := t\<rparr>)) c (bytes_of tunnel_ok)) (\<lambda>(w, _).
             rbind (deref (w_conns w) c) (\<lambda>x.
               Inr (put_conn w c (x\<lparr>c_proto := CONN_PROTO_RTSP, c_req := (c_req x)\<lparr>base64_count := 0\<rparr>\<rparr>), 0 :: int)))) (\<lambda>(w', _). served w w')" for t
  proof -
    let ?w = "put_conn w c (x\<lparr>c_http_tunnel_cookie := t\<rparr>)"
    have s: "sim w ?w" by (rule sim_put_conn [OF x(1)]) simp_all
    have "v_conn ?w c \<noteq> None" using c s by (simp add: sim_conn)
    from safe_conn_send' [OF this] show ?thesis
    proof (rule safe_bind, clarify)
      fix w1 assume "sim ?w w1"
      then have s1: "sim w w1" by (rule sim_trans [OF s])
      have wf1: "wf w1" by (rule wf_sim [OF s1 wf])
      have "v_conn w1 c = v_conn w c" using s1 by (simp add: sim_conn)
      then obtain x1 where x1: "w_conns w1 c = Some x1" "c_proto x1 = c_proto x" using x(1) by (auto simp: v_conn_def)
      have "c_proto_state x1 = PS_null" by (rule other_proto_null [OF wf1 x1(1)]) (simp add: x1 x)
      then have "served w1 (put_conn w1 c (x1\<lparr>c_proto := CONN_PROTO_RTSP, c_req := (c_req x1)\<lparr>base64_count := 0\<rparr>\<rparr>))"
        by (intro served_proto [OF wf1 x1(1)]) simp_all
      then show "safe (rbind (deref (w_conns w1) c) (\<lambda>x.
               Inr (put_conn w1 c (x\<lparr>c_proto := CONN_PROTO_RTSP, c_req := (c_req x)\<lparr>base64_count := 0\<rparr>\<rparr>), 0 :: int))) (\<lambda>(w', _). served w w')"
        using x1(1) served_trans [OF served_sim [OF wf s1]] by (simp add: deref_def)
    qed
  qed
  have post: "safe (rbind (deref (w_conns w) g) (\<lambda>y. rbind (deref (w_conns w) c) (\<lambda>x.
                   let w = close_open_fd w (c_second_fd y);
                       w = (case c_second_read_event y of None \<Rightarrow> w | Some e \<Rightarrow> ev_remove w e);
                       (e, w) = ev_add_fd w (c_fd x) False Cb_do_read g;
                       w = put_conn w g (y\<lparr>c_second_fd := c_fd x, c_second_read_event := Some e\<rparr>)
                   in rbind (deref (w_conns w) c) (\<lambda>x. Inr (put_conn w c (x\<lparr>c_fd := -1\<rparr>), 1 :: int))))) (\<lambda>(w', _). served w w')"
    if g: "v_conn w g \<noteq> None" for g
  proof -
    obtain y where y: "w_conns w g = Some y" using g by (auto simp: v_conn_def)
    let ?w1 = "close_open_fd w (c_second_fd y)"
    have s: "sim w ?w1" using sim_close by (simp add: close_open_fd_def)
    obtain e w2 where e: "ev_add_fd (case c_second_read_event y of None \<Rightarrow> ?w1 | Some e \<Rightarrow> ev_remove ?w1 e) (c_fd x) False Cb_do_read g = (e, w2)"
      by (cases "ev_add_fd (case c_second_read_event y of None \<Rightarrow> ?w1 | Some e \<Rightarrow> ev_remove ?w1 e) (c_fd x) False Cb_do_read g")
    let ?w3 = "put_conn w2 g (y\<lparr>c_second_fd := c_fd x, c_second_read_event := Some e\<rparr>)"
    have sv: "served w ?w3" by (rule served_second [OF wf y s e])
    then obtain x3 where x3: "w_conns ?w3 c = Some x3" using served_cn [OF sv c] by (auto simp: v_conn_def)
    have "served ?w3 (put_conn ?w3 c (x3\<lparr>c_fd := -1\<rparr>))" by (rule served_put [OF served_wf [OF sv] x3]) simp_all
    from served_trans [OF sv this] show ?thesis
      using y x(1) x3 e by (simp add: deref_def Let_def)
  qed
  have cl: "\<forall>c \<in> set (w_conn_list w). v_conn w c \<noteq> None" using wfD_conn_list [OF wf] by blast
  show ?thesis
    unfolding handle_QT_tunnel_def
    apply (rule safe_pure [OF heapless_get_header], rule safe_opt, rule refuse, rule safe_if, rule refuse, rule safe_if)
    subgoal for h t using get x(1) by (simp add: deref_def)
    subgoal for h t
      by (rule safe_bind [OF safe_find_cookie [OF cl]], rule safe_opt, rule refuse, rule post) simp
    done
qed

lemma safe_tunnel_or_http:
  assumes wf: "wf w" and x: "w_conns w c = Some x" "c_proto x \<noteq> CONN_PROTO_RTSP"
  shows "safe (tunnel_or_http E w c m hdr post) (\<lambda>(w', _). served w w')"
proof -
  have c: "v_conn w c \<noteq> None" using x(1) by (simp add: v_conn_def)
  show ?thesis
    unfolding tunnel_or_http_def
    apply (rule safe_pure [OF heapless_get_header], rule safe_if)
    subgoal by (rule safe_bind [OF safe_tunnel [OF assms]]) auto
    subgoal by (rule safe_mono [OF safe_http_msg [OF wf c]]) (auto intro: served_sim [OF wf])
    done
qed

section \<open>Reading\<close>

lemma safe_rtsp_msg:
  assumes wf: "wf w" and x: "w_conns w c = Some x" "c_proto x = CONN_PROTO_RTSP"
  shows "safe (rtsp_handle_msg E w c m) (\<lambda>(w', _). served w w')"
proof -
  have v: "v_conn w c = Some (c_read_event x, c_second_read_event x, c_write_event x, CONN_PROTO_RTSP, c_proto_state x)" using x by (simp add: v_conn_def)
  have c: "v_conn w c \<noteq> None" using v by simp
  have o': "safe (handle_OPTIONS E w c m) (\<lambda>(w', _). served w w')"
    by (rule safe_mono [OF safe_options [OF c]]) (auto intro: served_sim [OF wf])
  show ?thesis
    unfolding rtsp_handle_msg_def rtsp_handle_unknown_def
    by (intro safe_pure [OF heapless_str_ptr] safe_if o' safe_describe [OF wf c] safe_setup [OF wf v] safe_play [OF wf c] safe_pause [OF wf c]
          safe_teardown [OF wf c] safe_err [OF wf c])
qed

lemma safe_unknown:
  assumes wf: "wf w" and c: "v_conn w c \<noteq> None"
  shows "safe (handle_unknown E w c m) (\<lambda>(w', _). served w w')"
proof -
  have "safe (rbind (tcp_send_pmsg (w1\<lparr>w_calls := k\<rparr>) c r (-1)) (\<lambda>(w, _). Inr (w, 0 :: int))) (\<lambda>(w', _). served w w')" if s: "sim w w1" for w1 k r
  proof -
    have s2: "sim w (w1\<lparr>w_calls := k\<rparr>)" by (rule sim_trans [OF s sim_calls])
    then have "v_conn (w1\<lparr>w_calls := k\<rparr>) c \<noteq> None" using c by (simp add: sim_conn)
    then show ?thesis by (rule safe_bind [OF safe_tcp_send_pmsg]) (auto intro: served_sim [OF wf sim_trans [OF s2]])
  qed
  moreover have "safe (drop_later w c) (sim w)" by (rule safe_drop_later) (use c in \<open>simp add: v_conn_def\<close>)
  ultimately show ?thesis
    unfolding handle_unknown_def call_def Let_def prod.case
    by (intro safe_pure [OF heapless_log_request]) (erule safe_bind, auto intro!: safe_pure [OF heapless_str_ptr] safe_pure [OF heapless_copy_headers])
qed

lemma safe_request:
  assumes wf: "wf w" and c: "v_conn w c \<noteq> None"
  shows "safe (handle_request E w c) (\<lambda>(w', _). served w w')"
proof -
  obtain x where x: "w_conns w c = Some x" using c by (auto simp: v_conn_def)
  have http: "safe (tunnel_or_http E w c m hdr post) (\<lambda>(w', _). served w w')" if "c_proto x = CONN_PROTO_HTTP" for m hdr post
    by (rule safe_tunnel_or_http [OF wf x]) (simp add: that)
  have msg: "safe (http_handle_msg E w c m) (\<lambda>(w', _). served w w')" for m
    by (rule safe_mono [OF safe_http_msg [OF wf c]]) (auto intro: served_sim [OF wf])
  have "safe (case c_proto x of
                       CONN_PROTO_HTTP \<Rightarrow>
                         rbind (str_ptr m (req_method m)) (\<lambda>meth.
                           if strcaseeq meth ''GET'' then handle_GET E w c m
                           else if strcaseeq meth ''POST'' then handle_POST E w c m
                           else http_handle_msg E w c m)
                     | CONN_PROTO_RTSP \<Rightarrow> rtsp_handle_msg E w c m
                     | _ \<Rightarrow> handle_unknown E w c m) (\<lambda>(w', _). served w w')" for m
  proof (cases "c_proto x")
    case CONN_PROTO_HTTP
    then show ?thesis
      by (auto simp: handle_GET_def handle_POST_def intro!: safe_pure [OF heapless_str_ptr] safe_if http msg)
  qed (use safe_rtsp_msg [OF wf x] safe_unknown [OF wf c] in auto)
  note dispatch = this
  show ?thesis
    unfolding handle_request_def
    apply (rule safe_deref, simp add: x)
    apply (rule safe_aget, rule safe_if, simp add: served_refl [OF wf])
    apply (rule safe_pure [OF heapless_parse_pmsg], clarify, rule safe_if, simp add: served_refl [OF wf])
    subgoal for x' m rc
    proof -
      assume "w_conns w c = Some x'"
      then have "x' = x" using x by simp
      then show ?thesis by (simp only:) (rule safe_bind [OF dispatch], auto)
    qed
    done
qed

lemma safe_clear_request:
  assumes wf: "wf w" and c: "v_conn w c \<noteq> None"
  shows "safe (clear_request w c) (\<lambda>(w', _). served w w')"
  unfolding clear_request_def
  by (rule safe_deref) (use c in \<open>auto simp: v_conn_def intro!: served_put [OF wf]\<close>)

lemma safe_interleave_recv:
  assumes wf: "wf w" and c: "v_conn w c \<noteq> None"
  shows "safe (interleave_recv E w c chan) (\<lambda>(w', _). served w w')"
proof -
  obtain x where x: "w_conns w c = Some x" using c by (auto simp: v_conn_def)
  have v: "v_conn w c = Some (c_read_event x, c_second_read_event x, c_write_event x, c_proto x, c_proto_state x)" using x by (simp add: v_conn_def)
  have "safe (interleave_recv_rtcp E w e) (served w)" if st: "c_proto_state x = PS_rtsp ich" "chan < MAX_INTERLEAVE_CHANNELS" "ich ! chan = (Some e, rt)" for ich e rt
  proof -
    obtain y where y: "w_eps w e = Some y" using wfD_conn [OF wf v] st by (fastforce simp: v_ep_def)
    have "sim w (put_ep (snd (now E w)) e (y\<lparr>ep_last_rtcp_recv := t\<rparr>))" for t
      by (rule sim_trans [OF sim_now sim_put_ep]) (use y in \<open>simp_all add: now_def case_prod_beta\<close>)
    from served_sim [OF wf this] show ?thesis using y by (simp add: interleave_recv_rtcp_def deref_def case_prod_beta Let_def)
  qed
  note rtcp = this
  show ?thesis
    unfolding interleave_recv_def
    apply (rule safe_if, simp add: served_refl [OF wf], rule safe_deref, simp add: x)
    subgoal for x'
      using x rtcp served_refl [OF wf]
      by (cases "c_proto_state x") (auto intro!: safe_aget safe_bind [where Q = "served w"] split: option.split prod.split)
    done
qed

lemma safe_parse_client_data:
  assumes wf: "wf w" and c: "v_conn w c \<noteq> None"
  shows "safe (parse_client_data E w c) (\<lambda>(w', _). served w w')"
proof -
  obtain x where x: "w_conns w c = Some x" using c by (auto simp: v_conn_def)
  have start: "served w (put_conn w c (x\<lparr>c_proto := p\<rparr>))" if "c_proto x = CONN_PROTO_START" for p
    by (rule served_proto [OF wf x]) (use other_proto_null [OF wf x] that in simp_all)
  have clr: "safe (clear_request w1 c) (\<lambda>(w', _). served w w')" if sv: "served w w1" for w1
    by (rule safe_mono [OF safe_clear_request [OF served_wf [OF sv] served_cn [OF sv c]]]) (auto intro: served_trans [OF sv])
  have req: "safe (rbind (handle_request E w c) (\<lambda>(w, rc). if rc < 0 then Inr (w, -1) else clear_request w c)) (\<lambda>(w', _). served w w')"
    by (rule safe_bind [OF safe_request [OF wf c]]) (auto intro: clr)
  have recv: "safe (rbind (interleave_recv E w c n) (\<lambda>(w, _). clear_request w c)) (\<lambda>(w', _). served w w')" for n
    by (rule safe_bind [OF safe_interleave_recv [OF wf c]]) (auto intro: clr)
  show ?thesis
    unfolding parse_client_data_def
    apply (rule safe_deref, simp add: x)
    subgoal for x'
      using x start req recv served_refl [OF wf]
      by (cases "c_proto x") (auto simp: Let_def intro!: safe_aget safe_if split: option.split)
    done
qed

lemma safe_parse_upto:
  assumes "wf w" "v_conn w c \<noteq> None"
  shows "safe (parse_upto n E w c) (\<lambda>(w', _). served w w')"
  using assms
proof (induction n arbitrary: w)
  case (Suc n)
  show ?case
    unfolding parse_upto.simps
  proof (rule safe_bind [OF safe_parse_client_data [OF Suc.prems]], clarify)
    fix w1 and rc :: int assume sv: "served w w1"
    have "safe (parse_upto n E w1 c) (\<lambda>(w', _). served w w')"
      by (rule safe_mono [OF Suc.IH [OF served_wf [OF sv] served_cn [OF sv Suc.prems(2)]]]) (auto intro: served_trans [OF sv])
    then show "safe (if rc > 0 then parse_upto n E w1 c else Inr (w1, rc)) (\<lambda>(w', _). served w w')" using sv by simp
  qed
qed simp

lemma safe_read_ended:
  assumes wf: "wf w" and c: "v_conn w c \<noteq> None"
  shows "safe (read_ended w c second) wf"
proof -
  obtain x where x: "w_conns w c = Some x" using c by (auto simp: v_conn_def)
  have "wf (put_conn (close_fd (ev_remove w e) (c_second_fd x)) c (x\<lparr>c_second_read_event := None, c_second_fd := -1\<rparr>))" (is "wf ?w")
    if e: "c_second_read_event x = Some e" for e
  proof -
    have "sim_but_ev w (close_fd (ev_remove w e) (c_second_fd x)) ({e} \<union> {})"
      by (rule but_ev_trans [OF but_ev_remove but_ev_sim [OF sim_close]])
    then have B: "sim_but_ev w (close_fd (ev_remove w e) (c_second_fd x)) {e}" by simp
    show ?thesis
    proof (rule wf_conn_upd(1) [OF wf])
      show "v_conn w c = Some (c_read_event x, Some e, c_write_event x, c_proto x, c_proto_state x)" using x e by (simp add: v_conn_def)
      show "v_sess ?w = v_sess w" "v_live ?w = v_live w" "v_src ?w = v_src w" "v_ep ?w = v_ep w" "v_rtsp ?w = v_rtsp w" "v_http ?w = v_http w"
        using B by (simp_all add: sim_but_ev_def view_defs put_conn_def fun_eq_iff)
      have "v_conn (close_fd (ev_remove w e) (c_second_fd x)) = v_conn w" using B by (simp add: sim_but_ev_def)
      then show "v_conn ?w = (v_conn w)(c \<mapsto> (c_read_event x, None, c_write_event x, c_proto x, c_proto_state x))"
        by (auto simp: v_conn_def put_conn_def fun_eq_iff)
      have ev: "v_ev ?w = v_ev (close_fd (ev_remove w e) (c_second_fd x))" by (simp add: v_ev_def put_conn_def fun_eq_iff)
      show "v_ev ?w i = Some (f, d, False) \<Longrightarrow> v_ev w i = Some (f, d, False) \<and> (Some e = Some i \<longrightarrow> None = Some i) \<or>
          f = Cb_do_read \<and> d = c \<and> None = Some i" for i f d
        using B unfolding ev by (auto simp: sim_but_ev_def)
    qed (use B in \<open>simp_all add: sim_but_ev_def put_conn_def\<close>)
  qed
  then show ?thesis
    unfolding read_ended_def using x safe_drop_conn [OF wf c] by (auto simp: deref_def intro!: safe_if safe_non_null)
qed

lemma safe_read_loop:
  assumes "wf w" "v_conn w c \<noteq> None"
  shows "safe (read_loop E rs w c second) wf"
  using assms
proof (induction rs arbitrary: w)
  case (Cons r rs)
  show ?case
  proof (cases r)
    case (Got d)
    obtain x where x: "w_conns w c = Some x" using Cons.prems(2) by (auto simp: v_conn_def)
    have put: "sim w (put_conn w c (x\<lparr>c_req := q\<rparr>))" for q by (rule sim_put_conn [OF x]) simp_all
    have wf1: "wf (put_conn w c (x\<lparr>c_req := q\<rparr>))" "v_conn (put_conn w c (x\<lparr>c_req := q\<rparr>)) c \<noteq> None" for q
      using wf_sim [OF put Cons.prems(1)] sim_conn [OF put] Cons.prems(2) by simp_all
    have wf2: "wf (put_conn (put_conn w c (x\<lparr>c_req := q\<rparr>)) c (x\<lparr>c_req := q'\<rparr>))" "v_conn (put_conn (put_conn w c (x\<lparr>c_req := q\<rparr>)) c (x\<lparr>c_req := q'\<rparr>)) c \<noteq> None" for q q'
      using wf1 [of q'] by (simp_all add: put_conn_def)
    have parse: "safe (rbind (parse_upto 2 E (put_conn (put_conn w c (x\<lparr>c_req := q\<rparr>)) c (x\<lparr>c_req := q'\<rparr>)) c) (\<lambda>(w, rc).
                   if rc < 0 then drop_conn w c else read_loop E rs w c second)) wf" for q q'
    proof (rule safe_bind, rule safe_parse_upto [OF wf2], clarify)
      fix w2 and rc :: int assume sv: "served (put_conn (put_conn w c (x\<lparr>c_req := q\<rparr>)) c (x\<lparr>c_req := q'\<rparr>)) w2"
      have w2: "wf w2" "v_conn w2 c \<noteq> None" using served_wf [OF sv] served_cn [OF sv wf2(2)] by auto
      show "safe (if rc < 0 then drop_conn w2 c else read_loop E rs w2 c second) wf"
        by (intro safe_if safe_drop_conn [OF w2] Cons.IH [OF w2])
    qed
    show ?thesis
      unfolding Got read_loop.simps Let_def
      apply (rule safe_deref, simp add: x)
      subgoal for x'
      proof -
        assume "w_conns w c = Some x'"
        then have "x' = x" using x by simp
        then show ?thesis
          by (simp only:) (intro safe_if safe_aset safe_read_ended [OF Cons.prems] safe_drop_conn [OF wf1] Cons.IH [OF wf1] parse)
      qed
      done
  qed (use Cons.prems safe_read_ended [OF Cons.prems] in simp_all)
qed simp

lemma safe_do_read:
  assumes wf: "wf w" and c: "v_conn w c \<noteq> None"
  shows "safe (do_read E w c ev) wf"
proof -
  have s: "sim w (w\<lparr>w_calls := k\<rparr>)" for k by (rule sim_calls)
  have "safe (read_loop E rs (w\<lparr>w_calls := k\<rparr>) c second) wf" for rs k second
    by (rule safe_read_loop [OF wf_sim [OF s wf]]) (use c sim_conn [OF s] in simp)
  then show ?thesis
    unfolding do_read_def using c by (auto simp: v_conn_def call_def intro!: safe_deref)
qed

section \<open>Accepting a connection\<close>

lemma wf_accepted:
  assumes wf: "wf w" and V: "v_sess w' = v_sess w" "v_live w' = v_live w" "v_src w' = v_src w" "v_ep w' = v_ep w"
      "v_conn w' = (v_conn w)(w_next w \<mapsto> (i, None, j, pr, PS_null))" "v_rtsp w' = v_rtsp w" "v_http w' = v_http w"
    and ev: "v_ev w' = (v_ev w)(i \<mapsto> (Cb_do_read, w_next w, False), j \<mapsto> (Cb_conn_write, w_next w, False))" "i \<noteq> j"
    and L: "same_shape (w_streams w) (w_streams w')" "w_sess_list w' = w_sess_list w" "w_rtsp_list w' = w_rtsp_list w" "w_conn_list w' = w_next w # w_conn_list w"
      "w_http_list w' = w_http_list w" "map lo_private (w_rtsp_locs w') = map lo_private (w_rtsp_locs w)" "w_next w' = w_next w + 1"
  shows "wf w'"
proof -
  let ?c = "w_next w"
  have D: "v_dest w' = v_dest w" "v_strm w' = v_strm w" by (rule same_shape_v_dest [OF L(1)])+
  have F: "v_conn w ?c = None" using wfD_fresh [OF wf, of ?c] by simp
  have "wf_sess w'" using wf unfolding wf_def wf_sess_def V L by blast
  moreover have "wf_live w'" using wf unfolding wf_def wf_live_def V by blast
  moreover have "wf_src w'" using wf unfolding wf_def wf_src_def V L D by blast
  moreover have "wf_rtsp w'" using wf unfolding wf_def wf_rtsp_def V L by blast
  moreover have "wf_slot w'" using wf unfolding wf_def wf_slot_def V by blast
  moreover have "wf_ep w'"
    unfolding wf_ep_def V(1, 4)
  proof (intro allI impI conjI)
    fix e s v tr assume e: "v_ep w e = Some (s, v, tr)"
    show "\<exists>p r es i. v_sess w s = Some (p, r, es) \<and> i < MAX_TRACKS \<and> es ! i = Some e" by (rule wfD_ep [OF wf e])
    fix c' a b assume tr: "tr = Trans_inter c' a b"
    from wfD_inter [OF wf e [unfolded tr]] F
    show "\<exists>re se we ich. v_conn w' c' = Some (re, se, we, CONN_PROTO_RTSP, PS_rtsp ich) \<and> a < MAX_INTERLEAVE_CHANNELS \<and>
        b < MAX_INTERLEAVE_CHANNELS \<and> a \<noteq> b \<and> ich ! a = (Some e, False) \<and> ich ! b = (Some e, True)" by (cases "c' = ?c") (auto simp: V)
  qed
  moreover have "wf_conn w'"
    unfolding wf_conn_def V(4) L
  proof (intro conjI allI impI)
    fix c' re se we pr' ps assume a: "v_conn w' c' = Some (re, se, we, pr', ps)"
    show "ps = PS_null \<or> pr' = CONN_PROTO_RTSP \<and> (\<exists>ich. ps = PS_rtsp ich \<and> length ich = MAX_INTERLEAVE_CHANNELS \<and>
        (\<forall>i < MAX_INTERLEAVE_CHANNELS. \<forall>e rt. ich ! i = (Some e, rt) \<longrightarrow>
           (\<exists>s v a b. v_ep w e = Some (s, v, Trans_inter c' a b) \<and> i = (if rt then b else a))))"
    proof (cases "c' = ?c")
      case True
      then show ?thesis using a by (simp add: V)
    next
      case False
      then have "v_conn w c' = Some (re, se, we, pr', ps)" using a by (simp add: V)
      from wfD_conn [OF wf this] show ?thesis .
    qed
  qed (use wfD_conn_list [OF wf] F in \<open>auto simp: V\<close>)
  moreover have "wf_http w'" using wf unfolding wf_def wf_http_def V L by blast
  moreover have "wf_ev w'"
    unfolding wf_ev_def
  proof (intro allI impI)
    fix k f d assume k: "v_ev w' k = Some (f, d, False)"
    show "target w' k f d"
    proof (cases "k = i \<or> k = j")
      case True
      then show ?thesis using k ev(2) by (auto simp: ev target_def V)
    next
      case False
      then have "v_ev w k = Some (f, d, False)" using k by (simp add: ev)
      from wfD_ev [OF wf this] show ?thesis using F by (cases f) (auto simp: target_def V D)
    qed
  qed
  moreover have "wf_fresh w'"
    unfolding wf_fresh_def L
  proof (intro allI impI)
    fix n assume n: "w_next w + 1 \<le> n"
    then have "w_next w \<le> n" by simp
    from wfD_fresh [OF wf this] n show "v_sess w' n = None \<and> v_live w' n = None \<and> v_src w' n = None \<and> v_ep w' n = None \<and>
        v_conn w' n = None \<and> v_rtsp w' n = None" by (auto simp: V)
  qed
  moreover have "wf_streams (w_streams w')" using wfD_streams [OF wf] L(1) wf_same_shape by blast
  moreover have "wf_cons w'" by (rule wf_cons_kept [OF wf L(1)]) (simp_all add: V)
  ultimately show ?thesis by (simp add: wf_def)
qed

lemma put_conn_views:
  "v_sess (put_conn w c x) = v_sess w" "v_live (put_conn w c x) = v_live w" "v_src (put_conn w c x) = v_src w" "v_ep (put_conn w c x) = v_ep w"
  "v_conn (put_conn w c x) = (v_conn w)(c \<mapsto> (c_read_event x, c_second_read_event x, c_write_event x, c_proto x, c_proto_state x))"
  "v_rtsp (put_conn w c x) = v_rtsp w" "v_ev (put_conn w c x) = v_ev w" "v_http (put_conn w c x) = v_http w"
  by (auto simp: view_defs put_conn_def fun_eq_iff)

lemma put_conn_rest:
  "w_sess_list (put_conn w c x) = w_sess_list w" "w_rtsp_list (put_conn w c x) = w_rtsp_list w" "w_conn_list (put_conn w c x) = w_conn_list w"
  "w_http_list (put_conn w c x) = w_http_list w" "w_rtsp_locs (put_conn w c x) = w_rtsp_locs w" "w_next (put_conn w c x) = w_next w"
  "w_streams (put_conn w c x) = w_streams w"
  by (simp_all add: put_conn_def)

lemma conn_list_views:
  "v_sess (w\<lparr>w_conn_list := cl\<rparr>) = v_sess w" "v_live (w\<lparr>w_conn_list := cl\<rparr>) = v_live w" "v_src (w\<lparr>w_conn_list := cl\<rparr>) = v_src w"
  "v_ep (w\<lparr>w_conn_list := cl\<rparr>) = v_ep w" "v_conn (w\<lparr>w_conn_list := cl\<rparr>) = v_conn w" "v_rtsp (w\<lparr>w_conn_list := cl\<rparr>) = v_rtsp w"
  "v_ev (w\<lparr>w_conn_list := cl\<rparr>) = v_ev w" "v_http (w\<lparr>w_conn_list := cl\<rparr>) = v_http w"
  by (simp_all add: view_defs fun_eq_iff)

lemma safe_do_accept:
  assumes wf: "wf w"
  shows "safe (do_accept E w) wf"
proof -
  let ?c = "w_next w"
  have acc: "wf (put_conn ((ev_enable w2 j False)\<lparr>w_conn_list := ?c # w_conn_list (ev_enable w2 j False)\<rparr>) ?c x)" (is "wf ?w")
    if i: "ev_add_fd (w\<lparr>w_calls := k, w_next := ?c + 1\<rparr>) fd False Cb_do_read ?c = (i, w1)" and j: "ev_add_fd w1 fd True Cb_conn_write ?c = (j, w2)"
      and x: "c_read_event x = i" "c_second_read_event x = None" "c_write_event x = j" "c_proto_state x = PS_null" for k fd i w1 j w2 x
  proof -
    have s: "sim w2 (ev_enable w2 j False)" by (rule sim_enable)
    have "sim w (w\<lparr>w_calls := k\<rparr>)" by (rule sim_calls)
    then have V: "v_sess (w\<lparr>w_calls := k\<rparr>) = v_sess w" "v_live (w\<lparr>w_calls := k\<rparr>) = v_live w" "v_src (w\<lparr>w_calls := k\<rparr>) = v_src w"
      "v_ep (w\<lparr>w_calls := k\<rparr>) = v_ep w" "v_conn (w\<lparr>w_calls := k\<rparr>) = v_conn w" "v_rtsp (w\<lparr>w_calls := k\<rparr>) = v_rtsp w"
      "v_ev (w\<lparr>w_calls := k\<rparr>) = v_ev w" "v_http (w\<lparr>w_calls := k\<rparr>) = v_http w" by (simp_all add: sim_def)
    note N = new_ev_add_fd [OF i] new_ev_sim [OF new_ev_add_fd [OF j] s]
    have ss: "same_shape (w_streams w) (w_streams ?w)" "i \<noteq> j" using N same_shape_trans by (auto simp: sim_new_ev_def put_conn_rest)
    show ?thesis
      by (rule wf_accepted [OF wf, where i = i and j = j and pr = "c_proto x"])
         (use N x ss in \<open>simp_all add: sim_new_ev_def put_conn_views put_conn_rest conn_list_views next_views V\<close>)
  qed
  show ?thesis
    unfolding do_accept_def call_def Let_def prod.case
    using wf_sim [OF sim_calls wf] acc by (auto split: option.split prod.split)
qed

end
