(* ===== verification/Config.thy ===== *)
theory Config
  imports Tcp
begin

text \<open>
  Configuration and start of the server: the directive tables and their interpreter (\<^verbatim>\<open>conf_parse.c\<close>, \<^verbatim>\<open>global_config.h\<close>), the
  directives of the encoders (\<^verbatim>\<open>encoder-jpeg.c\<close>, \<^verbatim>\<open>encoder-alaw.c\<close>), of the live sources (\<^verbatim>\<open>live.c\<close>) and of the HTTP locations
  (\<^verbatim>\<open>http.c\<close>), the configuration the program gives itself (\<^verbatim>\<open>spook.c\<close>) and the options of \<^verbatim>\<open>main\<close> (\<^verbatim>\<open>RTSPServer.c\<close>).

  The process functions and the block functions of the tables are function pointers in the source; here they are the
  values of \<open>directive\<close> and \<open>cmodule\<close>, and \<open>run_directive\<close>, \<open>run_start_block\<close> and \<open>run_end_block\<close> are the calls. The tokens
  of a configuration file come from a generated scanner and are a parameter. \<open>confenv\<close> has the answers of the operating
  system; the encoder threads that the blocks start are outside.
\<close>

unbundle bit_operations_syntax

section \<open>State\<close>

record jpeg_encoder =
  je_output :: "nat option"
  je_bitrate :: int
  je_vin_planner_width :: u32
  je_vin_planner_height :: u32
  je_vin_packet_width :: u32
  je_vin_packet_height :: u32
  je_jpeg_width :: u32
  je_jpeg_height :: u32
  je_packet_pipe :: u32
  je_overlapping :: u32

record alaw_encoder =
  al_output :: "nat option"
  al_channels :: u32
  al_rate :: u32

text \<open>The private pointer of a stream of an encoder.\<close>

datatype driver = Dr_jpeg nat | Dr_alaw nat

datatype directive =
    D_port | D_rtprange | D_frameheap
  | D_jpeg_output | D_jpeg_bitrate | D_jpeg_pipe | D_vin_planner_width | D_vin_planner_height | D_vin_packet_width
  | D_vin_packet_height | D_jpeg_width | D_jpeg_height | D_jpeg_packet | D_overlapping
  | D_alaw_output
  | D_live_track | D_live_path | D_live_mtu | D_live_conn
  | D_http_input | D_http_path | D_http_mode

datatype cmodule = M_jpeg | M_alaw | M_live | M_http

datatype token = Tok_num int | Tok_str string | Tok_punct char

definition tok_type :: "token \<Rightarrow> nat" where
  "tok_type t = (case t of Tok_num _ \<Rightarrow> 1 | Tok_str _ \<Rightarrow> 2 | Tok_punct c \<Rightarrow> of_char c)"

abbreviation TOKEN_NUM :: nat where "TOKEN_NUM \<equiv> 1"
abbreviation TOKEN_STR :: nat where "TOKEN_STR \<equiv> 2"

record statement =
  sm_directive :: string
  sm_process :: directive
  sm_min_args :: nat
  sm_max_args :: nat
  sm_types :: "nat list"

record config_context =
  cc_type :: string
  cc_name :: string
  cc_block :: "cmodule option"
  cc_statements :: "statement list"

record server =
  sv_world :: world
  sv_jpeg :: "nat \<Rightarrow> jpeg_encoder option"
  sv_alaw :: "nat \<Rightarrow> alaw_encoder option"
  sv_driver :: "nat \<Rightarrow> driver option"
  sv_contexts :: "config_context list"
  sv_frame_heap :: "(int \<times> int) option"

record confenv =
  cf_socket :: "nat \<Rightarrow> int"
  cf_bind :: "nat \<Rightarrow> bool"
  cf_listen :: "nat \<Rightarrow> bool"
  cf_pipe :: "nat \<Rightarrow> int"
  cf_memory :: "nat \<Rightarrow> nat \<Rightarrow> char"
  cf_jpeg :: rtp_jpeg
  cf_urandom :: bool

text \<open>The fields of a token. The source copies strings into \<^verbatim>\<open>str[256]\<close>.\<close>

definition tok_num :: "token list \<Rightarrow> nat \<Rightarrow> int res" where
  "tok_num ts i = rbind (aget ts i) (\<lambda>t. case t of Tok_num n \<Rightarrow> Inr n | _ \<Rightarrow> Inl OutOfBounds)"

definition tok_str :: "token list \<Rightarrow> nat \<Rightarrow> string res" where
  "tok_str ts i = rbind (aget ts i) (\<lambda>t. case t of Tok_str s \<Rightarrow> Inr s | _ \<Rightarrow> Inl OutOfBounds)"

definition str_token :: "string \<Rightarrow> token res" where
  "str_token s = (if length s \<ge> 256 then Inl OutOfBounds else Inr (Tok_str s))"

definition on_world :: "server \<Rightarrow> world res \<Rightarrow> (server \<times> int) res" where
  "on_world sv r = rbind r (\<lambda>w. Inr (sv\<lparr>sv_world := w\<rparr>, 0))"

section \<open>Global directives\<close>

text \<open>\<open>init_frame_heap\<close> dereferences the first slot after the loop that creates the slots.\<close>

definition config_frameheap :: "server \<Rightarrow> token list \<Rightarrow> (server \<times> int) res" where
  "config_frameheap sv ts =
     rbind (tok_num ts 1) (\<lambda>count.
     rbind (if length ts = 3 then tok_num ts 2 else Inr (352 * 288 * 3)) (\<lambda>size.
       if count \<le> 0 then Inl NullDeref else Inr (sv\<lparr>sv_frame_heap := Some (size, count)\<rparr>, 0)))"

definition conf_port :: "confenv \<Rightarrow> server \<Rightarrow> token list \<Rightarrow> (server \<times> int) res" where
  "conf_port F sv ts =
     rbind (tok_num ts 1) (\<lambda>port.
       let (k, w) = call (sv_world sv);
           (w, rc) = config_port w port (cf_socket F k) (cf_bind F k) (cf_listen F k)
       in Inr (sv\<lparr>sv_world := w\<rparr>, rc))"

text \<open>\<open>None\<close> of \<open>config_rtprange\<close> is the exit of the program: the call does not return.\<close>

definition conf_rtprange :: "server \<Rightarrow> token list \<Rightarrow> (server \<times> int) res" where
  "conf_rtprange sv ts =
     rbind (tok_num ts 1) (\<lambda>a. rbind (tok_num ts 2) (\<lambda>b.
       case config_rtprange a b of
         None \<Rightarrow> Inl Hangs
       | Some r \<Rightarrow> Inr (sv\<lparr>sv_world := (sv_world sv)\<lparr>w_ports := r\<rparr>\<rparr>, 0)))"

section \<open>Encoders\<close>

abbreviation FORMAT_MPEG4 :: int where "FORMAT_MPEG4 \<equiv> 100"
abbreviation FORMAT_JPEG :: int where "FORMAT_JPEG \<equiv> 101"
abbreviation FORMAT_MPV :: int where "FORMAT_MPV \<equiv> 102"
abbreviation FORMAT_H263 :: int where "FORMAT_H263 \<equiv> 103"
abbreviation FORMAT_H264 :: int where "FORMAT_H264 \<equiv> 104"
abbreviation FORMAT_MPA :: int where "FORMAT_MPA \<equiv> 200"
abbreviation FORMAT_ADPCM :: int where "FORMAT_ADPCM \<equiv> 202"
abbreviation FORMAT_AAC :: int where "FORMAT_AAC \<equiv> 204"
abbreviation FORMAT_G726 :: int where "FORMAT_G726 \<equiv> 205"

definition on_streams :: "world \<Rightarrow> 'a \<times> consumer streams \<Rightarrow> 'a \<times> world" where
  "on_streams w r = (case r of (x, st) \<Rightarrow> (x, w\<lparr>w_streams := st\<rparr>))"

definition set_stream :: "world \<Rightarrow> nat \<Rightarrow> (stream \<Rightarrow> stream) \<Rightarrow> world res" where
  "set_stream w s f =
     rbind (get_stream (w_streams w) s) (\<lambda>x.
       Inr (w\<lparr>w_streams := (w_streams w)\<lparr>st_streams := (st_streams (w_streams w))(s \<mapsto> f x)\<rparr>\<rparr>))"

text \<open>\<open>new_exchanger\<close>: the event of its pipe, with the stream its frames are delivered to.\<close>

definition new_exchanger :: "confenv \<Rightarrow> world \<Rightarrow> nat \<Rightarrow> world" where
  "new_exchanger F w s = (let (k, w) = call w in snd (ev_add_fd w (cf_pipe F k) False Cb_exchanger_read s))"

definition jpeg_start_block :: "server \<Rightarrow> nat \<times> server" where
  "jpeg_start_block sv =
     (let w = sv_world sv; e = w_next w
      in (e, sv\<lparr>sv_world := w\<lparr>w_next := e + 1\<rparr>,
                sv_jpeg := (sv_jpeg sv)(e \<mapsto> \<lparr>je_output = None, je_bitrate = 0, je_vin_planner_width = 0,
                  je_vin_planner_height = 0, je_vin_packet_width = 0, je_vin_packet_height = 0, je_jpeg_width = 0,
                  je_jpeg_height = 0, je_packet_pipe = 0, je_overlapping = 0\<rparr>)\<rparr>))"

definition jpeg_end_block :: "confenv \<Rightarrow> server \<Rightarrow> nat \<Rightarrow> (server \<times> int) res" where
  "jpeg_end_block F sv e =
     rbind (deref (sv_jpeg sv) e) (\<lambda>en.
       case je_output en of
         None \<Rightarrow> Inr (sv, -1)
       | Some s \<Rightarrow> Inr (sv\<lparr>sv_world := new_exchanger F (sv_world sv) s\<rparr>, 0))"

definition jpeg_set :: "server \<Rightarrow> nat \<Rightarrow> token list \<Rightarrow> (int \<Rightarrow> jpeg_encoder \<Rightarrow> jpeg_encoder) \<Rightarrow> (server \<times> int) res" where
  "jpeg_set sv e ts f =
     rbind (tok_num ts 1) (\<lambda>n. rbind (deref (sv_jpeg sv) e) (\<lambda>en.
       Inr (sv\<lparr>sv_jpeg := (sv_jpeg sv)(e \<mapsto> f n en)\<rparr>, 0)))"

definition jpeg_set_output :: "server \<Rightarrow> nat \<Rightarrow> token list \<Rightarrow> (server \<times> int) res" where
  "jpeg_set_output sv e ts =
     rbind (tok_str ts 1) (\<lambda>name. rbind (deref (sv_jpeg sv) e) (\<lambda>en.
       rbind (new_stream (w_streams (sv_world sv)) name FORMAT_JPEG) (\<lambda>r.
       let (s, w) = on_streams (sv_world sv) r in
       rbind (set_stream w s (\<lambda>x. x\<lparr>st_get_framerate := F_driver, st_set_running := F_driver, st_get_enc_pipe_num := F_driver\<rparr>)) (\<lambda>w.
         Inr (sv\<lparr>sv_world := w, sv_jpeg := (sv_jpeg sv)(e \<mapsto> en\<lparr>je_output := Some s\<rparr>),
                 sv_driver := (sv_driver sv)(s \<mapsto> Dr_jpeg e)\<rparr>, 0)))))"

definition alaw_start_block :: "server \<Rightarrow> nat \<times> server" where
  "alaw_start_block sv =
     (let w = sv_world sv; e = w_next w
      in (e, sv\<lparr>sv_world := w\<lparr>w_next := e + 1\<rparr>,
                sv_alaw := (sv_alaw sv)(e \<mapsto> \<lparr>al_output = None, al_channels = 0, al_rate = 0\<rparr>)\<rparr>))"

definition alaw_end_block :: "confenv \<Rightarrow> server \<Rightarrow> nat \<Rightarrow> (server \<times> int) res" where
  "alaw_end_block F sv e =
     rbind (deref (sv_alaw sv) e) (\<lambda>en.
       case al_output en of
         None \<Rightarrow> Inr (sv, -1)
       | Some s \<Rightarrow> Inr (sv\<lparr>sv_alaw := (sv_alaw sv)(e \<mapsto> en\<lparr>al_channels := 1, al_rate := 8000\<rparr>),
                           sv_world := new_exchanger F (sv_world sv) s\<rparr>, 0))"

definition alaw_set_output :: "server \<Rightarrow> nat \<Rightarrow> token list \<Rightarrow> (server \<times> int) res" where
  "alaw_set_output sv e ts =
     rbind (tok_str ts 1) (\<lambda>name. rbind (deref (sv_alaw sv) e) (\<lambda>en.
       rbind (new_stream (w_streams (sv_world sv)) name FORMAT_ALAW) (\<lambda>r.
       let (s, w) = on_streams (sv_world sv) r in
       rbind (set_stream w s (\<lambda>x. x\<lparr>st_get_framerate := F_driver, st_set_running := F_driver\<rparr>)) (\<lambda>w.
         Inr (sv\<lparr>sv_world := w, sv_alaw := (sv_alaw sv)(e \<mapsto> en\<lparr>al_output := Some s\<rparr>),
                 sv_driver := (sv_driver sv)(s \<mapsto> Dr_alaw e)\<rparr>, 0)))))"

text \<open>\<open>get_framerate\<close> of a stream: of the encoder, or of the base of a conversion stream; \<open>n\<close> bounds the chain.\<close>

definition driver_framerate :: "server \<Rightarrow> nat \<Rightarrow> (int \<times> int) res" where
  "driver_framerate sv s =
     rbind (non_null (sv_driver sv s)) (\<lambda>d.
       case d of
         Dr_jpeg _ \<Rightarrow> Inr (1, 30)
       | Dr_alaw e \<Rightarrow> rbind (deref (sv_alaw sv) e) (\<lambda>en. Inr (sint (al_channels en), sint (al_channels en * al_rate en))))"

fun framerate_upto :: "nat \<Rightarrow> server \<Rightarrow> nat \<Rightarrow> (int \<times> int) res" where
  "framerate_upto 0 sv s = Inl Hangs"
| "framerate_upto (Suc n) sv s =
     rbind (get_stream (w_streams (sv_world sv)) s) (\<lambda>x.
       case st_get_framerate x of
         F_null \<Rightarrow> Inl NullDeref
       | F_uninit \<Rightarrow> Inl OutOfBounds
       | F_driver \<Rightarrow> driver_framerate sv s
       | F_convert \<Rightarrow> rbind (non_null (st_private x)) (\<lambda>b. rbind (get_dest (w_streams (sv_world sv)) b) (\<lambda>y.
           framerate_upto n sv (de_stream y))))"

section \<open>Live sources\<close>

definition live_start_block :: "server \<Rightarrow> nat \<times> server" where
  "live_start_block sv =
     (let w = sv_world sv; q = w_next w;
          tr = \<lparr>tr_stream = None, tr_ready = False, tr_rtp = None\<rparr>
      in (q, sv\<lparr>sv_world := put_source (w\<lparr>w_next := q + 1\<rparr>) q
            \<lparr>so_sess_list = [], so_track = replicate MAX_TRACKS tr, so_max_trans_size = 1400, so_max_conn = 0xFFFFFFFF,
             so_cur_conn = 0\<rparr>\<rparr>))"

definition live_end_block :: "server \<Rightarrow> nat \<Rightarrow> (server \<times> int) res" where
  "live_end_block sv q =
     rbind (deref (w_sources (sv_world sv)) q) (\<lambda>src. rbind (aget (so_track src) 0) (\<lambda>tr.
       Inr (sv, if tr_rtp tr = None then -1 else 0)))"

definition live_formats :: "int list" where
  "live_formats = [FORMAT_MPEG4, FORMAT_MPV, FORMAT_H263, FORMAT_JPEG, FORMAT_PCM, FORMAT_ALAW, FORMAT_MPA, FORMAT_H264,
     FORMAT_ADPCM, FORMAT_ULAW, FORMAT_AAC, FORMAT_G726]"

text \<open>The packetiser of a format; the constructors of the others are commented out in the source.\<close>

definition live_media :: "confenv \<Rightarrow> server \<Rightarrow> nat \<Rightarrow> int \<Rightarrow> media option res" where
  "live_media F sv s format =
     (if format = FORMAT_JPEG then
        rbind (framerate_upto (Suc s) sv s) (\<lambda>(fincr, fbase).
          Inr (Some (Media_jpeg (new_rtp_media_jpeg_stream (cf_jpeg F) fincr fbase))))
      else if format = FORMAT_PCM \<or> format = FORMAT_ALAW \<or> format = FORMAT_ULAW then
        rbind (framerate_upto (Suc s) sv s) (\<lambda>(ch, rate).
        rbind (new_rtp_media_rawaudio_stream format ch rate) (\<lambda>m. Inr (Some (Media_rawaudio m))))
      else Inr None)"

definition live_set_track :: "confenv \<Rightarrow> server \<Rightarrow> nat \<Rightarrow> token list \<Rightarrow> (server \<times> int) res" where
  "live_set_track F sv q ts =
     rbind (deref (w_sources (sv_world sv)) q) (\<lambda>src.
       let t = used_tracks src; w = sv_world sv in
       if t = MAX_TRACKS then Inr (sv, -1)
       else rbind (tok_str ts 1) (\<lambda>name.
            rbind (connect_to_stream (w_streams w) name To_convert (To_live_track q t) live_formats) (\<lambda>(dest, st).
            let w = w\<lparr>w_streams := st\<rparr>;
                tr = (so_track src ! t)\<lparr>tr_stream := dest\<rparr>;
                w = put_source w q (src\<lparr>so_track := (so_track src)[t := tr]\<rparr>);
                sv = sv\<lparr>sv_world := w\<rparr>
            in case dest of
                 None \<Rightarrow> Inr (sv, -1)
               | Some d \<Rightarrow>
                   rbind (get_dest (w_streams w) d) (\<lambda>y. rbind (get_stream (w_streams w) (de_stream y)) (\<lambda>x.
                   rbind (live_media F sv (de_stream y) (st_format x)) (\<lambda>m.
                   let w = put_source w q (src\<lparr>so_track := (so_track src)[t := tr\<lparr>tr_rtp := m\<rparr>]\<rparr>);
                       sv = sv\<lparr>sv_world := w\<rparr>
                   in if m = None then Inr (sv, -1)
                      else on_world sv (stream_do w (\<lambda>st. set_waiting st d True))))))))"

definition live_set_path :: "confenv \<Rightarrow> server \<Rightarrow> nat \<Rightarrow> token list \<Rightarrow> (server \<times> int) res" where
  "live_set_path F sv q ts =
     (let (k, w) = call (sv_world sv); mem = map (cf_memory F k) [0..<256] in
      if length ts = 2 then
        rbind (tok_str ts 1) (\<lambda>p. on_world sv (new_rtsp_location w mem p None None None q))
      else if length ts = 5 then
        rbind (tok_str ts 1) (\<lambda>p. rbind (tok_str ts 2) (\<lambda>r. rbind (tok_str ts 3) (\<lambda>u. rbind (tok_str ts 4) (\<lambda>pw.
          on_world sv (new_rtsp_location w mem p (Some r) (Some u) (Some pw) q)))))
      else Inr (sv, -1))"

definition live_set :: "server \<Rightarrow> nat \<Rightarrow> token list \<Rightarrow> (int \<Rightarrow> live_source \<Rightarrow> live_source) \<Rightarrow> (server \<times> int) res" where
  "live_set sv q ts f =
     rbind (tok_num ts 1) (\<lambda>n. rbind (deref (w_sources (sv_world sv)) q) (\<lambda>src.
       Inr (sv\<lparr>sv_world := put_source (sv_world sv) q (f n src)\<rparr>, 0)))"

definition live_set_mtu :: "server \<Rightarrow> nat \<Rightarrow> token list \<Rightarrow> (server \<times> int) res" where
  "live_set_mtu sv q ts = live_set sv q ts (\<lambda>n src. src\<lparr>so_max_trans_size := n\<rparr>)"

definition live_set_conn :: "server \<Rightarrow> nat \<Rightarrow> token list \<Rightarrow> (server \<times> int) res" where
  "live_set_conn sv q ts = live_set sv q ts (\<lambda>n src. src\<lparr>so_max_conn := of_int n\<rparr>)"

section \<open>HTTP locations\<close>

definition put_http :: "world \<Rightarrow> nat \<Rightarrow> http_location \<Rightarrow> world" where
  "put_http w h loc = w\<lparr>w_http_locs := (w_http_locs w)(h \<mapsto> loc)\<rparr>"

definition http_start_block :: "confenv \<Rightarrow> server \<Rightarrow> nat \<times> server" where
  "http_start_block F sv =
     (let (k, w) = call (sv_world sv); h = w_next w;
          w = w\<lparr>w_next := h + 1, w_http_list := h # w_http_list w\<rparr>
      in (h, sv\<lparr>sv_world := put_http w h \<lparr>hl_path = NUL # map (cf_memory F k) [1..<256], hl_input = None, hl_frame = None,
             hl_length_with_jfif = 0, hl_sess_list = [], hl_streaming = False\<rparr>\<rparr>))"

definition http_end_block :: "server \<Rightarrow> nat \<Rightarrow> (server \<times> int) res" where
  "http_end_block sv h =
     rbind (deref (w_http_locs (sv_world sv)) h) (\<lambda>loc.
       case hl_input loc of
         None \<Rightarrow> Inr (sv, -1)
       | Some d \<Rightarrow>
           rbind (str_at (hl_path loc) 0) (\<lambda>p.
             if p = [] then Inr (sv, -1)
             else on_world sv (stream_do (sv_world sv) (\<lambda>st. set_waiting st d True))))"

definition http_set_input :: "server \<Rightarrow> nat \<Rightarrow> token list \<Rightarrow> (server \<times> int) res" where
  "http_set_input sv h ts =
     rbind (tok_str ts 1) (\<lambda>name. rbind (deref (w_http_locs (sv_world sv)) h) (\<lambda>loc.
     let w = sv_world sv in
     rbind (connect_to_stream (w_streams w) name To_convert (To_http_location h) [FORMAT_JPEG]) (\<lambda>(d, st).
       Inr (sv\<lparr>sv_world := put_http (w\<lparr>w_streams := st\<rparr>) h (loc\<lparr>hl_input := d\<rparr>)\<rparr>, if d = None then -1 else 0))))"

definition http_set_path :: "server \<Rightarrow> nat \<Rightarrow> token list \<Rightarrow> (server \<times> int) res" where
  "http_set_path sv h ts =
     rbind (tok_str ts 1) (\<lambda>p. rbind (deref (w_http_locs (sv_world sv)) h) (\<lambda>loc.
     rbind (store_string (hl_path loc) p) (\<lambda>p.
       Inr (sv\<lparr>sv_world := put_http (sv_world sv) h (loc\<lparr>hl_path := p\<rparr>)\<rparr>, 0))))"

definition http_set_mode :: "server \<Rightarrow> nat \<Rightarrow> token list \<Rightarrow> (server \<times> int) res" where
  "http_set_mode sv h ts =
     rbind (tok_str ts 1) (\<lambda>m. rbind (deref (w_http_locs (sv_world sv)) h) (\<lambda>loc.
       if strcaseeq m ''single'' then Inr (sv\<lparr>sv_world := put_http (sv_world sv) h (loc\<lparr>hl_streaming := False\<rparr>)\<rparr>, 0)
       else if strcaseeq m ''stream'' then Inr (sv\<lparr>sv_world := put_http (sv_world sv) h (loc\<lparr>hl_streaming := True\<rparr>)\<rparr>, 0)
       else Inr (sv, -1)))"

section \<open>Tables\<close>

definition global_statements :: "statement list" where
  "global_statements =
     [\<lparr>sm_directive = ''port'', sm_process = D_port, sm_min_args = 1, sm_max_args = 1, sm_types = [TOKEN_NUM]\<rparr>,
      \<lparr>sm_directive = ''rtprange'', sm_process = D_rtprange, sm_min_args = 2, sm_max_args = 2, sm_types = [TOKEN_NUM, TOKEN_NUM]\<rparr>,
      \<lparr>sm_directive = ''frameheap'', sm_process = D_frameheap, sm_min_args = 1, sm_max_args = 2, sm_types = [TOKEN_NUM, TOKEN_NUM]\<rparr>]"

abbreviation one_num :: "string \<Rightarrow> directive \<Rightarrow> statement" where
  "one_num s d \<equiv> \<lparr>sm_directive = s, sm_process = d, sm_min_args = 1, sm_max_args = 1, sm_types = [TOKEN_NUM]\<rparr>"

abbreviation one_str :: "string \<Rightarrow> directive \<Rightarrow> statement" where
  "one_str s d \<equiv> \<lparr>sm_directive = s, sm_process = d, sm_min_args = 1, sm_max_args = 1, sm_types = [TOKEN_STR]\<rparr>"

definition jpeg_statements :: "statement list" where
  "jpeg_statements =
     [one_str ''output'' D_jpeg_output, one_num ''bitrate'' D_jpeg_bitrate, one_num ''pipe'' D_jpeg_pipe,
      one_num ''vin_planner_width'' D_vin_planner_width, one_num ''vin_planner_height'' D_vin_planner_height,
      one_num ''vin_packet_width'' D_vin_packet_width, one_num ''vin_packet_height'' D_vin_packet_height,
      one_num ''jpeg_width'' D_jpeg_width, one_num ''jpeg_height'' D_jpeg_height, one_num ''jpeg_packet'' D_jpeg_packet,
      one_num ''overlapping'' D_overlapping]"

definition alaw_statements :: "statement list" where
  "alaw_statements = [one_str ''output'' D_alaw_output]"

definition live_statements :: "statement list" where
  "live_statements =
     [one_str ''track'' D_live_track,
      \<lparr>sm_directive = ''path'', sm_process = D_live_path, sm_min_args = 1, sm_max_args = 4,
       sm_types = [TOKEN_STR, TOKEN_STR, TOKEN_STR, TOKEN_STR]\<rparr>,
      one_num ''mtu'' D_live_mtu, one_num ''conn'' D_live_conn]"

definition http_statements :: "statement list" where
  "http_statements = [one_str ''input'' D_http_input, one_str ''path'' D_http_path, one_str ''mode'' D_http_mode]"

definition global_context :: config_context where
  "global_context = \<lparr>cc_type = [], cc_name = [], cc_block = None, cc_statements = global_statements\<rparr>"

definition register_config_context :: "server \<Rightarrow> string \<Rightarrow> string \<Rightarrow> cmodule \<Rightarrow> statement list \<Rightarrow> server" where
  "register_config_context sv t n m s =
     sv\<lparr>sv_contexts := sv_contexts sv @ [\<lparr>cc_type = t, cc_name = n, cc_block = Some m, cc_statements = s\<rparr>]\<rparr>"

definition jpeg_init :: "server \<Rightarrow> server" where
  "jpeg_init sv = register_config_context sv ''encoder'' ''jpeg'' M_jpeg jpeg_statements"

definition alaw_init :: "server \<Rightarrow> server" where
  "alaw_init sv = register_config_context sv ''encoder'' ''alaw'' M_alaw alaw_statements"

definition live_init :: "server \<Rightarrow> server" where
  "live_init sv = register_config_context sv ''rtsp-handler'' ''live'' M_live live_statements"

definition http_init :: "server \<Rightarrow> server" where
  "http_init sv = register_config_context sv ''output'' ''http'' M_http http_statements"

section \<open>The interpreter\<close>

text \<open>The calls through the function pointers of the tables; \<open>d\<close> is the data of the block.\<close>

definition run_directive :: "confenv \<Rightarrow> server \<Rightarrow> directive \<Rightarrow> nat option \<Rightarrow> token list \<Rightarrow> (server \<times> int) res" where
  "run_directive F sv p d ts =
     (case p of
        D_port \<Rightarrow> conf_port F sv ts
      | D_rtprange \<Rightarrow> conf_rtprange sv ts
      | D_frameheap \<Rightarrow> config_frameheap sv ts
      | _ \<Rightarrow> rbind (non_null d) (\<lambda>d.
          case p of
            D_jpeg_output \<Rightarrow> jpeg_set_output sv d ts
          | D_jpeg_bitrate \<Rightarrow> jpeg_set sv d ts (\<lambda>n en. en\<lparr>je_bitrate := n\<rparr>)
          | D_jpeg_pipe \<Rightarrow> Inr (sv, 0)
          | D_vin_planner_width \<Rightarrow> jpeg_set sv d ts (\<lambda>n en. en\<lparr>je_vin_planner_width := of_int n\<rparr>)
          | D_vin_planner_height \<Rightarrow> jpeg_set sv d ts (\<lambda>n en. en\<lparr>je_vin_planner_height := of_int n\<rparr>)
          | D_vin_packet_width \<Rightarrow> jpeg_set sv d ts (\<lambda>n en. en\<lparr>je_vin_packet_width := of_int n\<rparr>)
          | D_vin_packet_height \<Rightarrow> jpeg_set sv d ts (\<lambda>n en. en\<lparr>je_vin_packet_height := of_int n\<rparr>)
          | D_jpeg_width \<Rightarrow> jpeg_set sv d ts (\<lambda>n en. en\<lparr>je_jpeg_width := of_int n\<rparr>)
          | D_jpeg_height \<Rightarrow> jpeg_set sv d ts (\<lambda>n en. en\<lparr>je_jpeg_height := of_int n\<rparr>)
          | D_jpeg_packet \<Rightarrow> jpeg_set sv d ts (\<lambda>n en. en\<lparr>je_packet_pipe := of_int n\<rparr>)
          | D_overlapping \<Rightarrow> jpeg_set sv d ts (\<lambda>n en. en\<lparr>je_overlapping := of_int n\<rparr>)
          | D_alaw_output \<Rightarrow> alaw_set_output sv d ts
          | D_live_track \<Rightarrow> live_set_track F sv d ts
          | D_live_path \<Rightarrow> live_set_path F sv d ts
          | D_live_mtu \<Rightarrow> live_set_mtu sv d ts
          | D_live_conn \<Rightarrow> live_set_conn sv d ts
          | D_http_input \<Rightarrow> http_set_input sv d ts
          | D_http_path \<Rightarrow> http_set_path sv d ts
          | _ \<Rightarrow> http_set_mode sv d ts))"

definition run_start_block :: "confenv \<Rightarrow> server \<Rightarrow> cmodule \<Rightarrow> nat \<times> server" where
  "run_start_block F sv m =
     (case m of M_jpeg \<Rightarrow> jpeg_start_block sv | M_alaw \<Rightarrow> alaw_start_block sv | M_live \<Rightarrow> live_start_block sv | M_http \<Rightarrow> http_start_block F sv)"

definition run_end_block :: "confenv \<Rightarrow> server \<Rightarrow> cmodule \<Rightarrow> nat \<Rightarrow> (server \<times> int) res" where
  "run_end_block F sv m d =
     (case m of M_jpeg \<Rightarrow> jpeg_end_block F sv d | M_alaw \<Rightarrow> alaw_end_block F sv d | M_live \<Rightarrow> live_end_block sv d | M_http \<Rightarrow> http_end_block sv d)"

text \<open>The first statement of the table with this directive whose arguments fit.\<close>

definition args_fit :: "statement \<Rightarrow> token list \<Rightarrow> bool" where
  "args_fit s args \<longleftrightarrow> sm_min_args s \<le> length args \<and> length args \<le> sm_max_args s \<and>
     map tok_type args = take (length args) (sm_types s)"

fun find_statement :: "statement list \<Rightarrow> string \<Rightarrow> token list \<Rightarrow> directive option" where
  "find_statement [] name args = None"
| "find_statement (s # ss) name args =
     (if strcaseeq (sm_directive s) name \<and> args_fit s args then Some (sm_process s) else find_statement ss name args)"

text \<open>The result of the process function is not looked at.\<close>

definition process_statement :: "confenv \<Rightarrow> server \<Rightarrow> config_context \<Rightarrow> nat option \<Rightarrow> token list \<Rightarrow> (server \<times> int) res" where
  "process_statement F sv cc d ts =
     (case ts of
        Tok_str name # args \<Rightarrow>
          (case find_statement (cc_statements cc) name args of
             None \<Rightarrow> Inr (sv, -1)
           | Some p \<Rightarrow> rbind (run_directive F sv p d ts) (\<lambda>(sv, _). Inr (sv, 0)))
      | _ \<Rightarrow> Inr (sv, -1))"

definition find_context :: "server \<Rightarrow> string \<Rightarrow> string \<Rightarrow> config_context option" where
  "find_context sv t n =
     find (\<lambda>cc. strcaseeq (cc_type cc) t \<and> strcaseeq (cc_name cc) n) (global_context # sv_contexts sv)"

definition run_context_start_block :: "confenv \<Rightarrow> server \<Rightarrow> config_context \<Rightarrow> nat option \<times> server" where
  "run_context_start_block F sv cc =
     (case cc_block cc of None \<Rightarrow> (None, sv) | Some m \<Rightarrow> (case run_start_block F sv m of (d, sv) \<Rightarrow> (Some d, sv)))"

definition run_context_end_block :: "confenv \<Rightarrow> server \<Rightarrow> config_context \<Rightarrow> nat option \<Rightarrow> (server \<times> int) res" where
  "run_context_end_block F sv cc d =
     (case d of
        None \<Rightarrow> Inr (sv, -1)
      | Some d \<Rightarrow> (case cc_block cc of None \<Rightarrow> Inr (sv, -1) | Some m \<Rightarrow> run_end_block F sv m d))"

definition run_context_statement :: "confenv \<Rightarrow> server \<Rightarrow> config_context \<Rightarrow> nat option \<Rightarrow> token list \<Rightarrow> (server \<times> int) res" where
  "run_context_statement F sv cc d ts =
     (if d = None then Inr (sv, -1) else process_statement F sv cc d ts)"

text \<open>\<open>read_config_file\<close> on the tokens of the scanner: the directive read so far, the block and its data.\<close>

fun read_tokens :: "confenv \<Rightarrow> server \<Rightarrow> config_context \<Rightarrow> nat option \<Rightarrow> token list \<Rightarrow> token list \<Rightarrow> (server \<times> int) res" where
  "read_tokens F sv cc d cur [] = Inr (sv, 0)"
| "read_tokens F sv cc d cur (Tok_num n # ts) =
     (if length cur + 1 = 10 then Inr (sv, -1) else read_tokens F sv cc d (cur @ [Tok_num n]) ts)"
| "read_tokens F sv cc d cur (Tok_str s # ts) =
     (if length cur + 1 = 10 then Inr (sv, -1) else read_tokens F sv cc d (cur @ [Tok_str s]) ts)"
| "read_tokens F sv cc d cur (Tok_punct c # ts) =
     (if c = CHR '';'' then
        rbind (process_statement F sv cc d cur) (\<lambda>(sv, rc). if rc < 0 then Inr (sv, -1) else read_tokens F sv cc d [] ts)
      else if c = CHR ''{'' then
        (case cur of
           [Tok_str t, Tok_str n] \<Rightarrow>
             if cc_block cc \<noteq> None then Inr (sv, -1)
             else (case find (\<lambda>cc. strcaseeq (cc_type cc) t \<and> strcaseeq (cc_name cc) n) (sv_contexts sv) of
                     None \<Rightarrow> Inr (sv, -1)
                   | Some cc' \<Rightarrow> (case run_context_start_block F sv cc' of (d', sv') \<Rightarrow> read_tokens F sv' cc' d' [] ts))
         | _ \<Rightarrow> Inr (sv, -1))
      else if c = CHR ''}'' then
        (if cur \<noteq> [] \<or> cc_block cc = None then Inr (sv, -1)
         else rbind (run_context_end_block F sv cc d) (\<lambda>(sv, rc).
                if rc < 0 then Inr (sv, -1) else read_tokens F sv global_context None [] ts))
      else Inr (sv, -1))"

definition read_config_file :: "confenv \<Rightarrow> server \<Rightarrow> token list \<Rightarrow> (server \<times> int) res" where
  "read_config_file F sv ts = read_tokens F sv global_context None [] ts"

section \<open>The configuration of the program\<close>

record rtsp_config =
  m_uiFrameSize :: u32
  m_uiFrameCnt :: u32
  m_uiMJPGCamBitRate :: u32
  m_szMJPGCamPath :: "string option"
  m_eMJPGCamAudio :: u32
  m_eH264CamAudio :: u32
  m_uiNumMJPEGCams :: u32
  m_uiRTPDataTransSize :: u32
  m_szAuthRealm :: "string option"
  m_szAuthUserName :: "string option"
  m_szAuthPassword :: "string option"
  m_szAudioStreamPath :: "string option"
  m_eAudioStreamAudio :: u32
  m_auiMJPGMaxConnNum :: "u32 list"
  m_uiVinPlannerWidth :: u32
  m_uiVinPlannerHeight :: u32
  m_uiVinPacketWidth :: u32
  m_uiVinPacketHeight :: u32
  m_uiJpegWidth :: u32
  m_uiJpegHeight :: u32
  m_uiJpegPacketPipe :: u32
  m_uiOverlapping :: u32

abbreviation eRTSP_AUDIOMASK_NONE :: u32 where "eRTSP_AUDIOMASK_NONE \<equiv> 0"
abbreviation eRTSP_AUDIOMASK_ALAW :: u32 where "eRTSP_AUDIOMASK_ALAW \<equiv> 1"
abbreviation eRTSP_AUDIOMASK_ULAW :: u32 where "eRTSP_AUDIOMASK_ULAW \<equiv> 2"
abbreviation eRTSP_AUDIOMASK_DVIADPCM :: u32 where "eRTSP_AUDIOMASK_DVIADPCM \<equiv> 4"
abbreviation eRTSP_AUDIOMASK_AAC :: u32 where "eRTSP_AUDIOMASK_AAC \<equiv> 8"
abbreviation eRTSP_AUDIOMASK_G726 :: u32 where "eRTSP_AUDIOMASK_G726 \<equiv> 16"
abbreviation eRTSP_AUDIOMASK_MP3 :: u32 where "eRTSP_AUDIOMASK_MP3 \<equiv> 32"

definition quoted :: "string \<Rightarrow> string" where
  "quoted s = [QUOTE] @ s @ [QUOTE]"

text \<open>A number stored in \<^verbatim>\<open>v.num\<close>, and a sequence of calls of \<open>run_context_statement\<close>, whose results are not looked at.\<close>

definition num_token :: "u32 \<Rightarrow> token" where
  "num_token n = Tok_num (sint n)"

fun run_statements :: "confenv \<Rightarrow> server \<Rightarrow> config_context \<Rightarrow> nat option \<Rightarrow> token list list \<Rightarrow> server res" where
  "run_statements F sv cc d [] = Inr sv"
| "run_statements F sv cc d (ts # tss) =
     rbind (run_context_statement F sv cc d ts) (\<lambda>(sv, _). run_statements F sv cc d tss)"

definition jpeg_directives :: "rtsp_config \<Rightarrow> nat \<Rightarrow> token list list" where
  "jpeg_directives c i =
     [[Tok_str ''output'', Tok_str (quoted (''compressed'' @ dec (int i)))],
      [Tok_str ''bitrate'', num_token (m_uiMJPGCamBitRate c)],
      [Tok_str ''pipe'', Tok_num (int i)],
      [Tok_str ''vin_planner_width'', num_token (m_uiVinPlannerWidth c)],
      [Tok_str ''vin_planner_height'', num_token (m_uiVinPlannerHeight c)],
      [Tok_str ''vin_packet_width'', num_token (m_uiVinPacketWidth c)],
      [Tok_str ''vin_packet_height'', num_token (m_uiVinPacketHeight c)],
      [Tok_str ''jpeg_width'', num_token (m_uiJpegWidth c)],
      [Tok_str ''jpeg_height'', num_token (m_uiJpegHeight c)],
      [Tok_str ''jpeg_packet'', num_token (m_uiJpegPacketPipe c)],
      [Tok_str ''overlapping'', num_token (m_uiOverlapping c)]]"

fun jpeg_cams :: "confenv \<Rightarrow> rtsp_config \<Rightarrow> config_context \<Rightarrow> server \<Rightarrow> nat list \<Rightarrow> (server \<times> int) res" where
  "jpeg_cams F c cc sv [] = Inr (sv, 0)"
| "jpeg_cams F c cc sv (i # is) =
     (case run_context_start_block F sv cc of (d, sv) \<Rightarrow>
        if d = None then Inr (sv, -1)
        else rbind (run_statements F sv cc d (jpeg_directives c i)) (\<lambda>sv.
             rbind (run_context_end_block F sv cc d) (\<lambda>(sv, rc).
               if rc < 0 then Inr (sv, rc) else jpeg_cams F c cc sv is)))"

definition jpeg_config :: "confenv \<Rightarrow> server \<Rightarrow> rtsp_config \<Rightarrow> (server \<times> int) res" where
  "jpeg_config F sv c =
     (case find_context sv ''encoder'' ''jpeg'' of
        None \<Rightarrow> Inr (sv, -1)
      | Some cc \<Rightarrow> jpeg_cams F c cc sv [0..<unat (m_uiNumMJPEGCams c)])"

text \<open>The body the functions for the audio encoders share.\<close>

definition audio_config :: "confenv \<Rightarrow> server \<Rightarrow> string \<Rightarrow> (server \<times> int) res" where
  "audio_config F sv name =
     (case find_context sv ''encoder'' name of
        None \<Rightarrow> Inr (sv, -1)
      | Some cc \<Rightarrow>
          (case run_context_start_block F sv cc of (d, sv) \<Rightarrow>
             if d = None then Inr (sv, -1)
             else rbind (run_statements F sv cc d [[Tok_str ''output'', Tok_str (quoted name)]]) (\<lambda>sv.
                  run_context_end_block F sv cc d)))"

definition alaw_config :: "confenv \<Rightarrow> server \<Rightarrow> (server \<times> int) res" where
  "alaw_config F sv = audio_config F sv ''alaw''"

definition ulaw_config :: "confenv \<Rightarrow> server \<Rightarrow> (server \<times> int) res" where
  "ulaw_config F sv = audio_config F sv ''ulaw''"

definition adpcm_config :: "confenv \<Rightarrow> server \<Rightarrow> (server \<times> int) res" where
  "adpcm_config F sv = audio_config F sv ''adpcm''"

definition aac_config :: "confenv \<Rightarrow> server \<Rightarrow> (server \<times> int) res" where
  "aac_config F sv = audio_config F sv ''aac''"

definition g726_config :: "confenv \<Rightarrow> server \<Rightarrow> (server \<times> int) res" where
  "g726_config F sv = audio_config F sv ''g726''"

definition mp3_config :: "confenv \<Rightarrow> server \<Rightarrow> (server \<times> int) res" where
  "mp3_config F sv = audio_config F sv ''mp3''"

text \<open>The name of the audio track; without a known bit the token keeps the string it had.\<close>

definition audio_track :: "u32 \<Rightarrow> string \<Rightarrow> string" where
  "audio_track bits old =
     (if bits AND eRTSP_AUDIOMASK_ALAW \<noteq> 0 then quoted ''alaw''
      else if bits AND eRTSP_AUDIOMASK_ULAW \<noteq> 0 then quoted ''ulaw''
      else if bits AND eRTSP_AUDIOMASK_DVIADPCM \<noteq> 0 then quoted ''adpcm''
      else if bits AND eRTSP_AUDIOMASK_AAC \<noteq> 0 then quoted ''aac''
      else if bits AND eRTSP_AUDIOMASK_G726 \<noteq> 0 then quoted ''g726''
      else if bits AND eRTSP_AUDIOMASK_MP3 \<noteq> 0 then quoted ''mp3''
      else old)"

definition path_directive :: "rtsp_config \<Rightarrow> string \<Rightarrow> token list res" where
  "path_directive c p =
     rbind (str_token p) (\<lambda>p.
       case m_szAuthRealm c of
         None \<Rightarrow> Inr [Tok_str ''Path'', p]
       | Some r \<Rightarrow>
           rbind (str_token r) (\<lambda>r. rbind (non_null (m_szAuthUserName c)) (\<lambda>u. rbind (str_token u) (\<lambda>u.
           rbind (non_null (m_szAuthPassword c)) (\<lambda>pw. rbind (str_token pw) (\<lambda>pw. Inr [Tok_str ''Path'', p, r, u, pw]))))))"

definition mjpg_path :: "rtsp_config \<Rightarrow> nat \<Rightarrow> string" where
  "mjpg_path c i =
     (let p = (case m_szMJPGCamPath c of None \<Rightarrow> ''/webcam'' | Some p \<Rightarrow> p)
      in if i \<noteq> 0 then p @ ''-'' @ dec (int i) else p)"

definition mjpg_directives :: "rtsp_config \<Rightarrow> nat \<Rightarrow> u32 \<Rightarrow> token list list" where
  "mjpg_directives c i conns =
     (let video = quoted (''compressed'' @ dec (int i)) in
      [[Tok_str ''Track'', Tok_str video]] @
      (if m_eMJPGCamAudio c \<noteq> eRTSP_AUDIOMASK_NONE then [[Tok_str ''Track'', Tok_str (audio_track (m_eMJPGCamAudio c) video)]] else []) @
      [[Tok_str ''mtu'', num_token (m_uiRTPDataTransSize c)], [Tok_str ''conn'', num_token conns]])"

fun mjpg_cams :: "confenv \<Rightarrow> rtsp_config \<Rightarrow> config_context \<Rightarrow> server \<Rightarrow> nat list \<Rightarrow> (server \<times> int) res" where
  "mjpg_cams F c cc sv [] = Inr (sv, 0)"
| "mjpg_cams F c cc sv (i # is) =
     (case run_context_start_block F sv cc of (d, sv) \<Rightarrow>
        if d = None then Inr (sv, -1)
        else rbind (path_directive c (mjpg_path c i)) (\<lambda>p.
             rbind (aget (m_auiMJPGMaxConnNum c) i) (\<lambda>conns.
             rbind (run_statements F sv cc d (p # mjpg_directives c i conns)) (\<lambda>sv.
             rbind (run_context_end_block F sv cc d) (\<lambda>(sv, _). mjpg_cams F c cc sv is)))))"

definition mjpg_live_config :: "confenv \<Rightarrow> server \<Rightarrow> rtsp_config \<Rightarrow> (server \<times> int) res" where
  "mjpg_live_config F sv c =
     (case find_context sv ''rtsp-handler'' ''live'' of
        None \<Rightarrow> Inr (sv, -1)
      | Some cc \<Rightarrow> mjpg_cams F c cc sv [0..<unat (m_uiNumMJPEGCams c)])"

definition audio_live_config :: "confenv \<Rightarrow> server \<Rightarrow> rtsp_config \<Rightarrow> (server \<times> int) res" where
  "audio_live_config F sv c =
     (case find_context sv ''rtsp-handler'' ''live'' of
        None \<Rightarrow> Inr (sv, -1)
      | Some cc \<Rightarrow>
          (case run_context_start_block F sv cc of (d, sv) \<Rightarrow>
             if d = None then Inr (sv, -1)
             else let path = (case m_szAudioStreamPath c of None \<Rightarrow> ''/audio'' | Some p \<Rightarrow> p) in
                  rbind (path_directive c path) (\<lambda>p.
                  rbind (run_statements F sv cc d [p, [Tok_str ''Track'', Tok_str (audio_track (m_eAudioStreamAudio c) path)],
                           [Tok_str ''mtu'', num_token (m_uiRTPDataTransSize c)]]) (\<lambda>sv.
                  rbind (run_context_end_block F sv cc d) (\<lambda>(sv, _). Inr (sv, 0))))))"

text \<open>One of the audio encoders of \<open>spook_config\<close>: started when it is needed, and noted when that succeeded.\<close>

definition want_audio :: "u32 \<Rightarrow> u32 \<Rightarrow> (server \<Rightarrow> (server \<times> int) res) \<Rightarrow> server \<times> u32 \<Rightarrow> (server \<times> u32) res" where
  "want_audio needed bits config st =
     (case st of (sv, configed) \<Rightarrow>
        if needed AND bits = 0 then Inr (sv, configed)
        else rbind (config sv) (\<lambda>(sv, rc). Inr (sv, if rc < 0 then configed else configed OR bits)))"

definition spook_config :: "confenv \<Rightarrow> server \<Rightarrow> rtsp_config \<Rightarrow> (server \<times> int) res" where
  "spook_config F sv c =
     rbind (config_frameheap sv [Tok_num 0, num_token (m_uiFrameCnt c), num_token (m_uiFrameSize c)]) (\<lambda>(sv, rc).
     if rc < 0 then Inr (sv, -1)
     else rbind (conf_port F sv [Tok_num 0, Tok_num 554]) (\<lambda>(sv, rc).
     if rc < 0 then Inr (sv, -1)
     else rbind (jpeg_config F sv c) (\<lambda>(sv, jpeg_rc).
     let needed = m_eMJPGCamAudio c OR m_eH264CamAudio c OR m_eAudioStreamAudio c in
     rbind (want_audio needed eRTSP_AUDIOMASK_ALAW (alaw_config F) (sv, eRTSP_AUDIOMASK_NONE)) (\<lambda>st.
     rbind (want_audio needed eRTSP_AUDIOMASK_ULAW (ulaw_config F) st) (\<lambda>st.
     rbind (want_audio needed eRTSP_AUDIOMASK_DVIADPCM (adpcm_config F) st) (\<lambda>st.
     rbind (want_audio needed eRTSP_AUDIOMASK_AAC (aac_config F) st) (\<lambda>st.
     rbind (want_audio needed eRTSP_AUDIOMASK_G726 (g726_config F) st) (\<lambda>st.
     rbind (want_audio needed eRTSP_AUDIOMASK_MP3 (mp3_config F) st) (\<lambda>(sv, configed).
     rbind (if jpeg_rc = 0 \<and> (m_eMJPGCamAudio c = eRTSP_AUDIOMASK_NONE \<or> m_eMJPGCamAudio c AND configed \<noteq> 0)
            then rbind (mjpg_live_config F sv c) (\<lambda>(sv, _). Inr sv) else Inr sv) (\<lambda>sv.
     rbind (if m_eAudioStreamAudio c AND configed \<noteq> 0
            then rbind (audio_live_config F sv c) (\<lambda>(sv, _). Inr sv) else Inr sv) (\<lambda>sv.
       Inr (sv, 0))))))))))))"

definition spook_init :: "server \<Rightarrow> server" where
  "spook_init sv = live_init (alaw_init (jpeg_init sv))"

section \<open>The options of the program\<close>

definition default_config :: rtsp_config where
  "default_config =
     \<lparr>m_uiFrameSize = 80000, m_uiFrameCnt = 8, m_uiMJPGCamBitRate = 4000000, m_szMJPGCamPath = None,
      m_eMJPGCamAudio = eRTSP_AUDIOMASK_ALAW, m_eH264CamAudio = eRTSP_AUDIOMASK_NONE, m_uiNumMJPEGCams = 1,
      m_uiRTPDataTransSize = 1400, m_szAuthRealm = None, m_szAuthUserName = None, m_szAuthPassword = None,
      m_szAudioStreamPath = None, m_eAudioStreamAudio = eRTSP_AUDIOMASK_NONE, m_auiMJPGMaxConnNum = replicate 4 0,
      m_uiVinPlannerWidth = 640, m_uiVinPlannerHeight = 480, m_uiVinPacketWidth = 8, m_uiVinPacketHeight = 8,
      m_uiJpegWidth = 640, m_uiJpegHeight = 480, m_uiJpegPacketPipe = 0, m_uiOverlapping = 0\<rparr>"

text \<open>\<^verbatim>\<open>atoi\<close> of an argument, and the sizes: \<open>None\<close> is the exit of the program.\<close>

definition atoi :: "string \<Rightarrow> u32" where
  "atoi s = of_int (fst (strtol10 s))"

definition option_size :: "string \<Rightarrow> u32 option" where
  "option_size arg =
     (let n = atoi arg in if n = 0 then None else Some (if n mod 8 \<noteq> 0 then n AND NOT 7 else n))"

text \<open>One option as \<^verbatim>\<open>getopt\<close> returns it.\<close>

definition apply_option :: "rtsp_config \<Rightarrow> char \<times> string \<Rightarrow> rtsp_config option" where
  "apply_option c opt =
     (case opt of (ch, arg) \<Rightarrow>
        if ch = CHR ''w'' then map_option (\<lambda>n. c\<lparr>m_uiVinPlannerWidth := n\<rparr>) (option_size arg)
        else if ch = CHR ''d'' then map_option (\<lambda>n. c\<lparr>m_uiVinPlannerHeight := n\<rparr>) (option_size arg)
        else if ch = CHR ''x'' then map_option (\<lambda>n. c\<lparr>m_uiVinPacketWidth := n\<rparr>) (option_size arg)
        else if ch = CHR ''y'' then map_option (\<lambda>n. c\<lparr>m_uiVinPacketHeight := n\<rparr>) (option_size arg)
        else if ch = CHR ''i'' then map_option (\<lambda>n. c\<lparr>m_uiJpegWidth := n\<rparr>) (option_size arg)
        else if ch = CHR ''e'' then map_option (\<lambda>n. c\<lparr>m_uiJpegHeight := n\<rparr>) (option_size arg)
        else if ch = CHR ''b'' then Some (if atoi arg \<noteq> 0 then c\<lparr>m_uiMJPGCamBitRate := atoi arg\<rparr> else c)
        else if ch = CHR ''p'' then Some (c\<lparr>m_uiJpegPacketPipe := 1\<rparr>)
        else if ch = CHR ''o'' then Some (c\<lparr>m_uiOverlapping := 1\<rparr>)
        else None)"

fun apply_options :: "rtsp_config \<Rightarrow> (char \<times> string) list \<Rightarrow> rtsp_config option" where
  "apply_options c [] = Some c"
| "apply_options c (opt # opts) = (case apply_option c opt of None \<Rightarrow> None | Some c \<Rightarrow> apply_options c opts)"

definition complete_config :: "rtsp_config \<Rightarrow> rtsp_config" where
  "complete_config c =
     c\<lparr>m_auiMJPGMaxConnNum := replicate 4 2,
       m_szMJPGCamPath := (case m_szMJPGCamPath c of None \<Rightarrow> Some ''/cam1/mpeg4'' | p \<Rightarrow> p),
       m_szAudioStreamPath := (case m_szAudioStreamPath c of None \<Rightarrow> Some ''/audio'' | p \<Rightarrow> p),
       m_szAuthUserName := (case m_szAuthUserName c of None \<Rightarrow> Some [] | p \<Rightarrow> p),
       m_szAuthPassword := (case m_szAuthPassword c of None \<Rightarrow> Some [] | p \<Rightarrow> p)\<rparr>"

text \<open>The state of the program before \<open>main\<close>.\<close>

definition initial_world :: world where
  "initial_world =
     \<lparr>w_sess = \<lambda>_. None, w_sess_list = [], w_lives = \<lambda>_. None, w_sources = \<lambda>_. None, w_rtsp = \<lambda>_. None, w_rtsp_list = [],
      w_rtsp_locs = [], w_eps = \<lambda>_. None, w_conns = \<lambda>_. None, w_conn_list = [], w_https = \<lambda>_. None, w_http_locs = \<lambda>_. None,
      w_http_list = [],
      w_streams = \<lparr>st_streams = \<lambda>_. None, st_dests = \<lambda>_. None, stream_list = [], st_next = 0, st_calls = []\<rparr>,
      w_loop = \<lparr>evs = \<lambda>_. \<lparr>func = Cb_do_accept, data = 0, etype = EVENT_NONE, eflags = 0, fire = \<lparr>tv_sec = 0, tv_usec = 0\<rparr>,
                        ival = 0, efd = 0, ewrite = False\<rparr>,
                time_event_list = [], fd_event_list = [], always_event_list = [], end_loop = False, next_id = 0, readings = 0\<rparr>,
      w_secret = None, w_ports = default_range, w_next = 0, w_calls = 0, w_closed = [], w_out = []\<rparr>"

definition initial_server :: server where
  "initial_server =
     \<lparr>sv_world = initial_world, sv_jpeg = \<lambda>_. None, sv_alaw = \<lambda>_. None, sv_driver = \<lambda>_. None, sv_contexts = [],
      sv_frame_heap = None\<rparr>"

text \<open>\<open>main\<close> up to the event loop; \<open>None\<close> when it ends before.\<close>

definition server_main :: "confenv \<Rightarrow> (char \<times> string) list \<Rightarrow> server option res" where
  "server_main F opts =
     (case apply_options default_config opts of
        None \<Rightarrow> Inr None
      | Some c \<Rightarrow>
          if \<not> cf_urandom F then Inr None
          else rbind (spook_config F (spook_init initial_server) (complete_config c)) (\<lambda>(sv, rc).
                 Inr (if rc < 0 then None else Some sv)))"

end
