(* ===== verification/Running.thy ===== *)
theory Running
  imports Callbacks Config
begin

text \<open>
  The running server: every callback, started on a well-formed world, touches no freed object and leaves a well-formed
  world; the configuration the program gives itself makes one; so the event loop of the program never touches a freed
  object, whatever the clients, the encoders and the operating system do.
\<close>

section \<open>Frames\<close>

lemma heapless_block_loop: "heapless (block_loop f din dout limit src dest i j)"
  by (induction f din dout limit src dest i j rule: block_loop.induct)
     (subst block_loop.simps, auto simp: store_block_def)

lemma heapless_uyvy2rgb [simp]: "heapless (uyvy2rgb src dest n)"
  by (simp add: uyvy2rgb_def heapless_block_loop)

text \<open>The loop over the destinations, for a consumer that keeps the streams in place and drops at most one reference.\<close>

lemma safe_deliver_to:
  assumes step: "\<And>w1 d y r. framed w w1 \<Longrightarrow> st_dests (w_streams w1) d = Some y \<Longrightarrow>
      safe (process (w_streams w1, w1) (de_process y) (Suc r)) (\<lambda>((st, w2), r'). st = w_streams w2 \<and> framed w w2 \<and> r \<le> r')"
    and "framed w w1" "\<forall>d \<in> set ds. v_dest w d"
  shows "safe (deliver_to process ds (w_streams w1, w1) r) (\<lambda>((st, w2), r'). st = w_streams w2 \<and> framed w w2 \<and> r \<le> r')"
  using assms(2-)
proof (induction ds arbitrary: w1 r)
  case (Cons d ds)
  have "v_dest w1 d" using Cons.prems same_shape_v_dest(1) by (auto simp: framed_def)
  then obtain y where y: "st_dests (w_streams w1) d = Some y" by (auto simp: v_dest_def)
  have skip: "safe (deliver_to process ds (w_streams w1, w1) r) (\<lambda>((st, w2), r'). st = w_streams w2 \<and> framed w w2 \<and> r \<le> r')"
    by (rule Cons.IH) (use Cons.prems in auto)
  have go: "safe (rbind (process (w_streams w1, w1) (de_process y) (Suc r)) (\<lambda>(w, refs). deliver_to process ds w refs))
      (\<lambda>((st, w2), r'). st = w_streams w2 \<and> framed w w2 \<and> r \<le> r')"
  proof (rule safe_bind [OF step [OF Cons.prems(1) y]], clarify)
    fix w2 r2 assume f: "framed w w2" and r: "r \<le> r2"
    have "safe (deliver_to process ds (w_streams w2, w2) r2) (\<lambda>((st, w2), r'). st = w_streams w2 \<and> framed w w2 \<and> r2 \<le> r')"
      by (rule Cons.IH [OF f]) (use Cons.prems in auto)
    then show "safe (deliver_to process ds (w_streams w2, w2) r2) (\<lambda>((st, w2), r'). st = w_streams w2 \<and> framed w w2 \<and> r \<le> r')"
      by (rule safe_mono) (use r in auto)
  qed
  show ?case using y skip go by (simp add: get_dest_def)
qed simp

lemma safe_give_frame:
  assumes fr: "framed w w1" and y: "st_dests (w_streams w1) d = Some y"
    and dl: "\<And>w s f. wf w \<Longrightarrow> v_strm w s \<Longrightarrow> safe (deliver w s f) (framed w)"
  shows "safe (give_frame deliver E f ms (w_streams w1, w1) (de_process y) (Suc r))
    (\<lambda>((st, w2), r'). st = w_streams w2 \<and> framed w w2 \<and> r \<le> r')"
proof -
  have wf1: "wf w1" using fr by (simp add: framed_def served_def)
  have ok: "consumer_ok w1 (de_process y)" by (rule wfD_cons [OF wf1, of d]) (simp add: v_cons_def y)
  have final: "safe (rbind m (\<lambda>(w, refs). Inr ((w_streams w, w), refs))) (\<lambda>((st, w2), r'). st = w_streams w2 \<and> framed w w2 \<and> r \<le> r')"
    if "safe m (\<lambda>(w2, r'). framed w w2 \<and> r \<le> r')" for m :: "(world \<times> nat) res"
    by (rule safe_bind [OF that]) auto
  have keep: "safe (rbind m (\<lambda>w. Inr (w, r'))) (\<lambda>(w2, r'). framed w w2 \<and> r \<le> r')" if "safe m (framed w)" "r \<le> r'" for m r'
    by (rule safe_bind [OF that(1)]) (simp add: that(2))
  show ?thesis
  proof (cases "de_process y")
    case (To_live_track q t)
    then have "safe (next_live_frame E w1 q t f ms) (framed w1)"
      using ok by (intro safe_next_live_frame [OF wf1]) (simp_all add: consumer_ok_def)
    from final [OF keep [OF safe_mono [OF this framed_trans [OF fr]]], of r] To_live_track
    show ?thesis by (simp add: give_frame_def Let_def)
  next
    case (To_http_location l)
    then have "safe (jpeg_next_frame w1 l f) (sim w1)"
      using ok by (intro safe_jpeg_next_frame [OF wf1]) (simp add: consumer_ok_def)
    then have "safe (jpeg_next_frame w1 l f) (framed w)"
      by (rule safe_mono) (rule framed_trans [OF fr framed_sim [OF wf1]])
    from final [OF keep [OF this], of "if keeps_frame f then Suc r else r"] To_http_location
    show ?thesis by (simp add: give_frame_def Let_def if_distrib cong: if_cong)
  next
    case (To_convert s)
    let ?w = "w1\<lparr>w_calls := w_calls w1 + 1\<rparr>"
    have s1: "sim w1 ?w" by (rule sim_calls)
    have wf2: "wf ?w" by (rule wf_sim [OF s1 wf1])
    have f2: "framed w ?w" by (rule framed_trans [OF fr framed_sim [OF wf1 s1]])
    have "v_strm ?w s" using ok To_convert by (simp add: consumer_ok_def v_strm_def)
    from safe_mono [OF dl [OF wf2 this] framed_trans [OF f2]] have "safe (deliver ?w s g) (framed w)" for g .
    from keep [OF this order.refl] have conv: "safe (rbind (uyvy2rgb f rgb n) (\<lambda>rgb. rbind (deliver ?w s (h rgb)) (\<lambda>w. Inr (w, r))))
        (\<lambda>(w2, r'). framed w w2 \<and> r \<le> r')" for rgb n h
      by (rule safe_pure [OF heapless_uyvy2rgb])
    from final [OF this] To_convert f2 show ?thesis
      by (cases "o_new_frame E (w_calls w1)") (simp_all add: give_frame_def Let_def call_def)
  qed
qed

lemma safe_deliver_upto: "wf w \<Longrightarrow> v_strm w s \<Longrightarrow> safe (deliver_upto n E ms w s f) (framed w)"
proof (induction n arbitrary: s f w)
  case (Suc n)
  let ?give = "give_frame (deliver_upto n E ms) E f ms"
  obtain x where x: "st_streams (w_streams w) s = Some x" using Suc.prems(2) by (auto simp: v_strm_def)
  have dests: "\<forall>d \<in> set (st_dest_list x). v_dest w d"
    using wf_streamsD(2) [OF wfD_streams [OF Suc.prems(1)] x] by (force simp: v_dest_def)
  have "safe (deliver_to ?give (st_dest_list x) (w_streams w, w) 1) (\<lambda>((st, w2), r'). st = w_streams w2 \<and> framed w w2 \<and> 1 \<le> r')"
  proof (rule safe_deliver_to [OF _ framed_refl [OF Suc.prems(1)] dests])
    fix w1 d y r assume "framed w w1" "st_dests (w_streams w1) d = Some y"
    then show "safe (?give (w_streams w1, w1) (de_process y) (Suc r)) (\<lambda>((st, w2), r'). st = w_streams w2 \<and> framed w w2 \<and> r \<le> r')"
      by (rule safe_give_frame) (rule Suc.IH)
  qed
  then have "safe (deliver_frame_to_stream ?give s (w_streams w, w) 1) (\<lambda>((_, w2), _). framed w w2)"
    unfolding deliver_frame_to_stream_def get_stream_def fst_conv x option.case rbind_simps by (rule safe_bind) auto
  then show ?case unfolding deliver_upto.simps by (rule safe_bind) auto
qed simp

lemma safe_exchanger_fire:
  assumes "wf w" "v_strm w s"
  shows "safe (exchanger_fire E w s) wf"
proof -
  let ?w = "w\<lparr>w_calls := w_calls w + 1\<rparr>"
  have wf: "wf ?w" by (rule wf_sim [OF sim_calls assms(1)])
  have "v_strm ?w s" using assms(2) by (simp add: v_strm_def)
  from safe_deliver_upto [OF wf this] have "safe (deliver_upto n E ms ?w s f) wf" for n f ms
    by (rule safe_mono) (simp add: framed_def served_def)
  then show ?thesis using wf by (auto simp: exchanger_fire_def call_def Let_def split: option.split simp del: deliver_upto.simps)
qed

section \<open>Events\<close>

text \<open>An event that was not removed fires safely.\<close>

lemma safe_fire_event:
  assumes wf: "wf w" and i: "v_ev w i = Some (f, d, False)"
  shows "safe (fire_event E w i) wf"
proof -
  have fd: "func (evs (w_loop w) i) = f" "data (evs (w_loop w) i) = d" "\<not> next_id (w_loop w) \<le> i" using i by (auto simp: v_ev_def split: if_splits)
  have sv: "safe m wf" if "safe m (served w)" for m using that by (rule safe_mono) (simp add: served_def)
  have t: "target w i f d" by (rule wfD_ev [OF wf i])
  show ?thesis
  proof (cases f)
    case Cb_rtcp_fire
    then show ?thesis using t sv [OF safe_rtcp_fire [OF wf]] by (auto simp: fire_event_def fd target_def)
  next
    case Cb_udp_rtp_read
    then show ?thesis using t sv [OF safe_udp_read(1) [OF wf]] by (auto simp: fire_event_def fd target_def)
  next
    case Cb_udp_rtcp_read
    then show ?thesis using t sv [OF safe_udp_read(2) [OF wf]] by (auto simp: fire_event_def fd target_def)
  next
    case Cb_do_read
    then show ?thesis using t safe_do_read [OF wf] by (auto simp: fire_event_def fd target_def)
  next
    case Cb_conn_write
    then show ?thesis using t safe_conn_write [OF wf] by (auto simp: fire_event_def fd target_def)
  next
    case Cb_do_accept
    then show ?thesis using safe_do_accept [OF wf] by (simp add: fire_event_def fd)
  next
    case Cb_exchanger_read
    then show ?thesis using t safe_exchanger_fire [OF wf] by (simp add: fire_event_def fd target_def)
  qed
qed

section \<open>The event loop\<close>

text \<open>What the loop itself changes of the events leaves the views alone.\<close>

definition loop_kept :: "(callback, nat) events \<Rightarrow> (callback, nat) events \<Rightarrow> bool" where
  "loop_kept l l' \<longleftrightarrow> next_id l' = next_id l \<and> (\<forall>i. func (evs l' i) = func (evs l i) \<and> data (evs l' i) = data (evs l i) \<and>
     ev_dead l' i = ev_dead l i)"

lemma loop_kept_refl [simp]: "loop_kept l l"
  by (simp add: loop_kept_def)

lemma loop_kept_trans: "loop_kept a b \<Longrightarrow> loop_kept b c \<Longrightarrow> loop_kept a c"
  by (simp add: loop_kept_def)

lemma sim_loop: "loop_kept (w_loop w) l \<Longrightarrow> sim w (w\<lparr>w_loop := l\<rparr>)"
  by (simp add: sim_def view_defs loop_kept_def fun_eq_iff)

lemma kept_now [simp]: "loop_kept l (snd (time_now gtod l))"
  by (simp add: loop_kept_def ev_dead_def has_flag_def)

lemma kept_upd:
  assumes "\<And>ev. func (f ev) = func ev" "\<And>ev. data (f ev) = data ev" "ev_dead (upd l e f) e = ev_dead l e"
  shows "loop_kept l (upd l e f)"
  unfolding loop_kept_def
proof (intro conjI allI)
  fix i
  show "func (evs (upd l e f) i) = func (evs l i)" "data (evs (upd l e f) i) = data (evs l i)"
    using assms(1, 2) by (simp_all add: upd_def)
  show "ev_dead (upd l e f) i = ev_dead l i"
    using assms(3) by (cases "i = e") (simp_all add: ev_dead_def has_flag_def)
qed simp

text \<open>An event that is about to fire.\<close>

lemma kept_prepare:
  assumes "has_flag l e EVENT_F_RUNNING"
  shows "loop_kept l (set_flags l e fl)" "loop_kept l (resched_event gtod l e None)"
proof -
  have alive: "\<not> ev_dead l' e" if "has_flag l' e EVENT_F_RUNNING" for l' :: "(callback, nat) events" using that by (simp add: ev_dead_def)
  have run: "has_flag (set_flags l' e fl) e EVENT_F_RUNNING" if "has_flag l' e EVENT_F_RUNNING" for l' :: "(callback, nat) events" and fl
    using that by (simp add: has_flag_bits set_flags_def bit_simps)
  have sf: "loop_kept l' (set_flags l' e fl)" if "has_flag l' e EVENT_F_RUNNING" for l' :: "(callback, nat) events" and fl
    unfolding set_flags_def by (rule kept_upd) (use alive that run [OF that] in \<open>simp_all add: set_flags_def\<close>)
  show "loop_kept l (set_flags l e fl)" by (rule sf [OF assms])
  have f: "loop_kept l' (upd l' e (\<lambda>ev. ev\<lparr>fire := t ev\<rparr>)) \<and> has_flag (upd l' e (\<lambda>ev. ev\<lparr>fire := t ev\<rparr>)) e EVENT_F_RUNNING"
    if "has_flag l' e EVENT_F_RUNNING" for l' :: "(callback, nat) events" and t
    using that by (auto intro!: kept_upd simp: ev_dead_def has_flag_def)
  have n: "has_flag (snd (time_now gtod l)) e EVENT_F_RUNNING" using assms by (simp add: has_flag_def)
  have c: "loop_kept l' (clear_flags l' e EVENT_F_REMOVE) \<and> has_flag (clear_flags l' e EVENT_F_REMOVE) e EVENT_F_RUNNING"
    if "has_flag l' e EVENT_F_RUNNING" for l' :: "(callback, nat) events"
  proof -
    have r: "has_flag (clear_flags l' e EVENT_F_REMOVE) e EVENT_F_RUNNING"
      using that by (simp add: has_flag_bits clear_flags_def bit_simps)
    moreover have "loop_kept l' (clear_flags l' e EVENT_F_REMOVE)"
      unfolding clear_flags_def by (rule kept_upd) (use alive that r in \<open>simp_all add: clear_flags_def\<close>)
    ultimately show ?thesis by blast
  qed
  have "loop_kept l (set_flags (clear_flags l1 e EVENT_F_REMOVE) e EVENT_F_ENABLED)"
    if "loop_kept l l1" "has_flag l1 e EVENT_F_RUNNING" for l1
    using loop_kept_trans [OF that(1) loop_kept_trans [OF conjunct1 [OF c [OF that(2)]] sf]] c [OF that(2)] by blast
  then show "loop_kept l (resched_event gtod l e None)"
    unfolding resched_event_def option.case Let_def
    using f [OF assms] f [OF n] loop_kept_trans [OF kept_now]
    by (auto simp: time_future_def time_now_def split: if_split)
qed

lemma kept_steps:
  assumes "has_flag l e EVENT_F_RUNNING"
  shows "loop_kept l (snd (time_step gtod e l))" "loop_kept l (snd (always_step e l))" "loop_kept l (snd (fd_step r w e l))"
proof -
  have n: "has_flag (snd (time_now gtod l)) e EVENT_F_RUNNING" using assms by (simp add: has_flag_def)
  show "loop_kept l (snd (time_step gtod e l))"
    using loop_kept_trans [OF kept_now kept_prepare(1) [OF n]] loop_kept_trans [OF kept_now kept_prepare(2) [OF n]]
    by (simp add: time_step_def split_beta Let_def)
  show "loop_kept l (snd (always_step e l))" "loop_kept l (snd (fd_step r w e l))"
    using kept_prepare(1) [OF assms] by (simp_all add: always_step_def fd_step_def)
qed

lemma safe_srv_dispatch:
  assumes "wf w" "\<And>l e. has_flag l e EVENT_F_RUNNING \<Longrightarrow> loop_kept l (snd (step e l))"
  shows "safe (srv_dispatch E step es w) wf"
  using assms(1)
proof (induction es arbitrary: w)
  case (Cons e es)
  show ?case
  proof (cases "has_flag (w_loop w) e EVENT_F_RUNNING")
    case True
    obtain b l where st: "step e (w_loop w) = (b, l)" by (cases "step e (w_loop w)")
    let ?w = "w\<lparr>w_loop := l\<rparr>"
    have k: "loop_kept (w_loop w) l" using assms(2) [OF True] st by simp
    have wf': "wf ?w" by (rule wf_sim [OF sim_loop [OF k] Cons.prems])
    have fire: "safe (fire_event E ?w e) wf"
    proof (cases "e < next_id l")
      case True
      have "\<not> ev_dead l e" using k \<open>has_flag (w_loop w) e EVENT_F_RUNNING\<close> by (simp add: loop_kept_def ev_dead_def)
      then show ?thesis using True by (intro safe_fire_event [OF wf']) (simp add: v_ev_def)
    qed (simp add: fire_event_def)
    have "safe (rbind (fire_event E ?w e) (\<lambda>w. srv_dispatch E step es w)) wf" by (rule safe_bind [OF fire Cons.IH])
    then show ?thesis using True st Cons.IH [OF wf'] Cons.prems by (simp add: Let_def)
  qed (use Cons in simp)
qed simp

text \<open>Marking: no event on the lists has been removed at the start of a pass.\<close>

definition stripped :: "(callback, nat) events \<Rightarrow> bool" where
  "stripped l \<longleftrightarrow> (\<forall>e \<in> set (time_event_list l) \<union> set (fd_event_list l) \<union> set (always_event_list l). \<not> has_flag l e EVENT_F_REMOVE)"

lemma stripped_strip: "stripped (strip_all l)"
  by (auto simp: stripped_def strip_all_def strip_events_def Let_def has_flag_def)

lemma kept_strip: "loop_kept l (strip_all l)"
  by (simp add: loop_kept_def strip_all_def Let_def ev_dead_def has_flag_def)

lemma mark_removed: "has_flag (mark l e) i EVENT_F_REMOVE = has_flag l i EVENT_F_REMOVE"
  by (cases "i = e") (simp_all add: mark_def has_flag_bits set_flags_def clear_flags_def bit_simps)

lemma kept_mark:
  assumes "\<not> has_flag l e EVENT_F_REMOVE"
  shows "loop_kept l (mark l e)"
proof -
  have d: "\<not> ev_dead l e" "\<not> ev_dead (mark l e) e" using assms by (simp_all add: ev_dead_def mark_removed)
  then show ?thesis
    unfolding mark_def set_flags_def clear_flags_def
    by (auto intro!: kept_upd simp: mark_def set_flags_def clear_flags_def split: if_splits)
qed

lemma now_removed [simp]: "has_flag (snd (time_now gtod l)) i fl = has_flag l i fl"
  by (simp add: has_flag_def)

lemma kept_mark_time:
  "\<forall>e \<in> set es. \<not> has_flag l e EVENT_F_REMOVE \<Longrightarrow> loop_kept l (snd (mark_time gtod es l n)) \<and>
     (\<forall>i. has_flag (snd (mark_time gtod es l n)) i EVENT_F_REMOVE = has_flag l i EVENT_F_REMOVE)"
proof (induction es arbitrary: l n)
  case (Cons e es)
  have step: "loop_kept l l' \<and> (\<forall>i. has_flag l' i EVENT_F_REMOVE = has_flag l i EVENT_F_REMOVE)"
    if "l' = mark l e \<or> l' = mark (snd (time_now gtod l)) e" for l'
    using that kept_mark [of l e] loop_kept_trans [OF kept_now kept_mark [of "snd (time_now gtod l)" e]] Cons.prems
    by (auto simp: mark_removed)
  have "loop_kept l (snd (mark_time gtod es l' n')) \<and>
     (\<forall>i. has_flag (snd (mark_time gtod es l' n')) i EVENT_F_REMOVE = has_flag l i EVENT_F_REMOVE)"
    if "l' = mark l e \<or> l' = mark (snd (time_now gtod l)) e" for l' n'
    using Cons.IH [of l' n'] step [OF that] loop_kept_trans Cons.prems by auto
  then show ?case by (simp add: split_beta Let_def)
qed simp

lemma kept_mark_always:
  "\<forall>e \<in> set es. \<not> has_flag l e EVENT_F_REMOVE \<Longrightarrow> loop_kept l (snd (mark_always es l n)) \<and>
     (\<forall>i. has_flag (snd (mark_always es l n)) i EVENT_F_REMOVE = has_flag l i EVENT_F_REMOVE)"
proof (induction es arbitrary: l n)
  case (Cons e es)
  then show ?case using Cons.IH [of "mark l e"] loop_kept_trans [OF kept_mark [of l e]] by (simp add: mark_removed)
qed simp

lemma kept_mark_fd: "\<forall>e \<in> set es. \<not> has_flag l e EVENT_F_REMOVE \<Longrightarrow> loop_kept l (mark_fd es l)"
  unfolding mark_fd_def
proof (induction es arbitrary: l)
  case (Cons e es)
  then show ?case using Cons.IH [of "mark l e"] loop_kept_trans [OF kept_mark [of l e]] by (simp add: mark_removed)
qed simp

lemma mark_lists [simp]:
  "time_event_list (mark l e) = time_event_list l" "fd_event_list (mark l e) = fd_event_list l"
  "always_event_list (mark l e) = always_event_list l"
  by (simp_all add: mark_def set_flags_def clear_flags_def)

lemma mark_time_lists:
  "fd_event_list (snd (mark_time gtod es l n)) = fd_event_list l \<and> always_event_list (snd (mark_time gtod es l n)) = always_event_list l"
  by (induction es arbitrary: l n) (simp_all add: split_beta Let_def)

lemma mark_always_lists: "fd_event_list (snd (mark_always es l n)) = fd_event_list l"
  by (induction es arbitrary: l n) simp_all

lemma kept_mark_all:
  assumes "stripped l"
  shows "loop_kept l (snd (mark_all gtod l))"
proof -
  obtain n1 l1 where 1: "mark_time gtod (time_event_list l) l None = (n1, l1)" by (cases "mark_time gtod (time_event_list l) l None")
  obtain n2 l2 where 2: "mark_always (always_event_list l1) l1 n1 = (n2, l2)" by (cases "mark_always (always_event_list l1) l1 n1")
  have k1: "loop_kept l l1" "\<forall>i. has_flag l1 i EVENT_F_REMOVE = has_flag l i EVENT_F_REMOVE"
    using kept_mark_time [of "time_event_list l" l gtod None] assms 1 by (simp_all add: stripped_def)
  have l1: "fd_event_list l1 = fd_event_list l" "always_event_list l1 = always_event_list l"
    using mark_time_lists [of gtod "time_event_list l" l None] 1 by simp_all
  have k2: "loop_kept l1 l2" "\<forall>i. has_flag l2 i EVENT_F_REMOVE = has_flag l i EVENT_F_REMOVE"
    using kept_mark_always [of "always_event_list l1" l1 n1] assms 2 k1(2) l1 by (simp_all add: stripped_def)
  have "fd_event_list l2 = fd_event_list l" using mark_always_lists [of "always_event_list l1" l1 n1] 2 l1 by simp
  then have "loop_kept l2 (mark_fd (fd_event_list l2) l2)" using kept_mark_fd assms k2(2) by (simp add: stripped_def)
  then show ?thesis using 1 2 loop_kept_trans [OF loop_kept_trans [OF k1(1) k2(1)]] by (simp add: mark_all_def)
qed

lemma safe_server_pass:
  assumes "wf w" "stripped (w_loop w)"
  shows "safe (server_pass E select w) (\<lambda>w'. wf w' \<and> stripped (w_loop w'))"
proof -
  obtain n l where m: "mark_all (o_clock E) (w_loop w) = (n, l)" by (cases "mark_all (o_clock E) (w_loop w)")
  have "loop_kept (w_loop w) l" using kept_mark_all [OF assms(2), of "o_clock E"] m by simp
  then have wf': "wf (w\<lparr>w_loop := l\<rparr>)" by (rule wf_sim [OF sim_loop assms(1)])
  have strip: "wf (w\<lparr>w_loop := strip_all (w_loop w)\<rparr>)" if "wf w" for w by (rule wf_sim [OF sim_loop [OF kept_strip] that])
  show ?thesis
    unfolding server_pass_def m Let_def prod.case
    by (intro safe_bind [where Q = wf] safe_srv_dispatch wf' kept_steps)
       (auto intro!: safe_srv_dispatch kept_steps simp: strip stripped_strip)
qed

lemma safe_server_passes:
  "wf w \<Longrightarrow> stripped (w_loop w) \<Longrightarrow> safe (server_passes E sels w) wf"
proof (induction sels arbitrary: w)
  case (Cons sl sels)
  have "safe (rbind (server_pass E sl w) (\<lambda>w. if end_loop (w_loop w) then Inr w else server_passes E sels w)) wf"
    by (rule safe_bind [OF safe_server_pass [OF Cons.prems]]) (use Cons.IH in auto)
  then show ?case by simp
qed simp

lemma safe_server_loop:
  assumes "wf w" "stripped (w_loop w)"
  shows "safe (server_loop E sels w) wf"
proof -
  let ?l = "(w_loop w)\<lparr>end_loop := False\<rparr>"
  have "loop_kept (w_loop w) ?l" by (simp add: loop_kept_def ev_dead_def has_flag_def)
  from wf_sim [OF sim_loop [OF this] assms(1)] have "wf (w\<lparr>w_loop := ?l\<rparr>)" .
  moreover have "stripped ?l" using assms(2) by (simp add: stripped_def has_flag_def)
  ultimately show ?thesis unfolding server_loop_def by (intro safe_server_passes) simp_all
qed

end
