(* ===== verification/Startup.thy ===== *)
theory Startup
  imports Running
begin

text \<open>
  The configuration establishes the invariant of the running server. While the server is being configured there are
  sources, locations, streams and the events that wait for clients and frames, but no sessions and no connections
  (\<open>idle\<close>); such a world is well-formed. Every directive the program registers keeps it idle, so the server starts in a
  well-formed state for every configuration, and the theorem of this development on memory safety follows: from
  \<^verbatim>\<open>main\<close> on, no freed object is ever touched.
\<close>

section \<open>Idle worlds\<close>

definition track_ok :: "consumer streams \<Rightarrow> live_track \<Rightarrow> bool" where
  "track_ok st tr \<longleftrightarrow> (tr_rtp tr \<noteq> None \<longrightarrow> (\<exists>d. tr_stream tr = Some d \<and> st_dests st d \<noteq> None))"

definition source_ok :: "consumer streams \<Rightarrow> live_source \<Rightarrow> bool" where
  "source_ok st src \<longleftrightarrow> so_sess_list src = [] \<and> length (so_track src) = MAX_TRACKS \<and>
     (tr_rtp (so_track src ! 1) \<noteq> None \<longrightarrow> tr_rtp (so_track src ! 0) \<noteq> None) \<and> (\<forall>tr \<in> set (so_track src). track_ok st tr)"

definition no_clients :: "world \<Rightarrow> bool" where
  "no_clients w \<longleftrightarrow> w_sess w = (\<lambda>_. None) \<and> w_lives w = (\<lambda>_. None) \<and> w_rtsp w = (\<lambda>_. None) \<and> w_eps w = (\<lambda>_. None) \<and>
     w_conns w = (\<lambda>_. None) \<and> w_sess_list w = [] \<and> w_rtsp_list w = [] \<and> w_conn_list w = []"

definition idle_sources :: "world \<Rightarrow> bool" where
  "idle_sources w \<longleftrightarrow> (\<forall>q x. w_sources w q = Some x \<longrightarrow> q < w_next w \<and> source_ok (w_streams w) x) \<and>
     (\<forall>loc \<in> set (w_rtsp_locs w). w_sources w (lo_private loc) \<noteq> None)"

definition idle_http :: "world \<Rightarrow> bool" where
  "idle_http w \<longleftrightarrow> (\<forall>h x. w_http_locs w h = Some x \<longrightarrow> \<not> hl_streaming x \<and> hl_sess_list x = []) \<and>
     (\<forall>h \<in> set (w_http_list w). w_http_locs w h \<noteq> None)"

definition idle_events :: "world \<Rightarrow> bool" where
  "idle_events w \<longleftrightarrow> (\<forall>i < next_id (w_loop w). func (evs (w_loop w) i) = Cb_do_accept \<or>
       func (evs (w_loop w) i) = Cb_exchanger_read \<and> v_strm w (data (evs (w_loop w) i))) \<and>
     (\<forall>i. \<not> has_flag (w_loop w) i EVENT_F_REMOVE)"

fun consumer_at :: "(nat \<Rightarrow> live_source option) \<Rightarrow> (nat \<Rightarrow> http_location option) \<Rightarrow> consumer \<Rightarrow> bool" where
  "consumer_at src http (To_live_track q t) \<longleftrightarrow> src q \<noteq> None \<and> t < MAX_TRACKS"
| "consumer_at src http (To_http_location l) \<longleftrightarrow> http l \<noteq> None"
| "consumer_at src http (To_convert s) \<longleftrightarrow> False"

definition idle_streams :: "world \<Rightarrow> bool" where
  "idle_streams w \<longleftrightarrow> wf_streams (w_streams w) \<and>
     (\<forall>s x. st_streams (w_streams w) s = Some x \<longrightarrow> st_set_running x = F_driver) \<and>
     (\<forall>d y. st_dests (w_streams w) d = Some y \<longrightarrow> consumer_at (w_sources w) (w_http_locs w) (de_process y))"

definition idle :: "world \<Rightarrow> bool" where
  "idle w \<longleftrightarrow> no_clients w \<and> idle_sources w \<and> idle_http w \<and> idle_events w \<and> idle_streams w"

lemmas idle_parts = no_clients_def idle_sources_def idle_http_def idle_events_def idle_streams_def

lemma idle_wf:
  assumes "idle w"
  shows "wf w" "stripped (w_loop w)"
proof -
  have N: "v_sess w = (\<lambda>_. None)" "v_live w = (\<lambda>_. None)" "v_rtsp w = (\<lambda>_. None)" "v_ep w = (\<lambda>_. None)" "v_conn w = (\<lambda>_. None)"
    "w_sess_list w = []" "w_rtsp_list w = []" "w_conn_list w = []"
    using assms by (simp_all add: idle_def no_clients_def view_defs fun_eq_iff)
  have S: "wf_streams (w_streams w)" using assms by (simp add: idle_def idle_streams_def)
  have "wf_src w"
    unfolding wf_src_def
  proof (intro conjI allI impI ballI)
    fix q ls ts assume q: "v_src w q = Some (ls, ts)"
    then obtain x where x: "w_sources w q = Some x" "ls = so_sess_list x" "ts = map (\<lambda>t. (tr_stream t, tr_rtp t \<noteq> None)) (so_track x)"
      by (auto simp: v_src_def)
    then have ok: "source_ok (w_streams w) x" using assms by (simp add: idle_def idle_sources_def)
    then show "length ts = MAX_TRACKS" "distinct ls" using x by (simp_all add: source_ok_def)
    show "\<exists>s. v_live w l = Some (s, q)" if "l \<in> set ls" for l using that x ok by (simp add: source_ok_def)
    show "snd (ts ! 0)" if "snd (ts ! 1)" using that x ok by (simp add: source_ok_def)
    show "\<exists>d. fst (ts ! i) = Some d \<and> v_dest w d" if "i < MAX_TRACKS" "snd (ts ! i)" for i
    proof -
      have "so_track x ! i \<in> set (so_track x)" "tr_rtp (so_track x ! i) \<noteq> None" using that x ok by (simp_all add: source_ok_def)
      then show ?thesis using ok that x unfolding source_ok_def track_ok_def v_dest_def by fastforce
    qed
  next
    fix q assume "q \<in> set (map lo_private (w_rtsp_locs w))"
    then show "v_src w q \<noteq> None" using assms by (auto simp: idle_def idle_sources_def v_src_def)
  qed
  moreover have "wf_http w" using assms by (auto simp: idle_def idle_http_def wf_http_def v_http_def)
  moreover have "wf_ev w"
    using assms by (auto simp: idle_def idle_events_def wf_ev_def v_ev_def target_def split: if_splits)
  moreover have "wf_fresh w"
    unfolding wf_fresh_def
  proof (intro allI impI)
    fix n assume "w_next w \<le> n"
    then have "\<not> n < w_next w" by simp
    then have "w_sources w n = None" using assms by (cases "w_sources w n") (simp_all add: idle_def idle_sources_def)
    then show "v_sess w n = None \<and> v_live w n = None \<and> v_src w n = None \<and> v_ep w n = None \<and> v_conn w n = None \<and> v_rtsp w n = None"
      by (simp add: N v_src_def)
  qed
  moreover have "wf_cons w"
    unfolding wf_cons_def
  proof (intro allI impI)
    fix d p assume "v_cons w d = Some p"
    then obtain y where "st_dests (w_streams w) d = Some y" "de_process y = p" by (auto simp: v_cons_def)
    then have "consumer_at (w_sources w) (w_http_locs w) p" using assms by (auto simp: idle_def idle_streams_def)
    then show "consumer_ok w p" by (cases p) (auto simp: consumer_ok_def v_src_def v_http_def)
  qed
  ultimately show "wf w"
    using S by (simp add: wf_def wf_sess_def wf_live_def wf_rtsp_def wf_slot_def wf_ep_def wf_conn_def N)
  show "stripped (w_loop w)" using assms by (simp add: idle_def idle_events_def stripped_def)
qed

section \<open>Streams\<close>

lemma wf_new_driver:
  assumes "wf_streams st" "st_dest_list x = []" "st_set_running x = F_driver"
  shows "wf_streams (st\<lparr>st_streams := (st_streams st)(st_next st \<mapsto> x), stream_list := st_next st # stream_list st, st_next := st_next st + 1\<rparr>)"
    (is "wf_streams ?st")
proof -
  have nx: "s < st_next st" if "st_streams st s = Some y" for s y using assms(1) that by (auto simp: wf_streams_def)
  have fresh: "st_streams st (st_next st) = None" using nx by (cases "st_streams st (st_next st)") auto
  have ds: "dstream ?st = dstream st" by (simp add: dstream_def fun_eq_iff)
  show ?thesis
    unfolding wf_streams_def ds
  proof (intro conjI allI impI)
    fix s y assume s: "st_streams ?st s = Some y"
    show "s \<in> set (stream_list ?st)" "distinct (st_dest_list y)" using s assms by (auto simp: wf_streams_def split: if_splits)
    show "s < st_next ?st" using s nx [of s y] by (cases "s = st_next st") simp_all
    show "\<forall>d \<in> set (st_dest_list y). dstream st d = Some s" using s assms by (auto simp: wf_streams_def split: if_splits)
    show "st_set_running y \<in> {F_driver, F_convert}" if "st_dest_list y \<noteq> []" using s that assms by (auto simp: wf_streams_def split: if_splits)
    show "\<exists>b t. st_private y = Some b \<and> dstream st b = Some t \<and> t < s" if "st_set_running y = F_convert"
      using s that assms by (auto simp: wf_streams_def split: if_splits)
  next
    fix d s assume d: "dstream st d = Some s"
    obtain y where y: "st_streams st s = Some y" "d \<in> set (st_dest_list y)" "d < st_next st" using assms(1) d unfolding wf_streams_def by blast
    then show "d < st_next ?st" by simp
    show "\<exists>x. st_streams ?st s = Some x \<and> d \<in> set (st_dest_list x)" using y fresh by auto
  next
    show "\<forall>s \<in> set (stream_list ?st). st_streams ?st s \<noteq> None" using assms(1) by (auto simp: wf_streams_def)
  next
    fix s s' y y' assume "st_streams ?st s = Some y" "st_streams ?st s' = Some y'" "st_set_running y = F_convert" "st_set_running y' = F_convert"
      "st_private y = st_private y'"
    moreover from this have "s \<noteq> st_next st" "s' \<noteq> st_next st" using assms(3) by (auto split: if_splits)
    ultimately show "s = s'" using assms(1) unfolding wf_streams_def by (auto split: if_splits)
  qed
qed

lemma wf_new_dest:
  assumes "wf_streams st" "st_streams st s = Some x" "st_set_running x = F_driver" "new_dest st s p = Inr (d, st')"
  shows "wf_streams st'"
proof -
  let ?x = "x\<lparr>st_dest_list := st_next st # st_dest_list x\<rparr>"
  have st': "st' = st\<lparr>st_streams := (st_streams st)(s \<mapsto> ?x),
      st_dests := (st_dests st)(st_next st \<mapsto> \<lparr>de_stream = s, de_waiting = False, de_process = p\<rparr>), st_next := st_next st + 1\<rparr>"
    using assms(2, 4) by (auto simp: new_dest_def get_stream_def)
  have ds: "dstream st' e = (if e = st_next st then Some s else dstream st e)" for e by (simp add: st' dstream_def)
  have old: "e < st_next st" if "dstream st e = Some t" for e t using assms(1) that unfolding wf_streams_def by blast
  have strm: "st_streams st' t = (if t = s then Some ?x else st_streams st t)" for t by (simp add: st')
  have lst: "e < st_next st" if "st_streams st t = Some y" "e \<in> set (st_dest_list y)" for t y e
    using assms(1) that old unfolding wf_streams_def by blast
  show ?thesis
    unfolding wf_streams_def
  proof (intro conjI allI impI)
    fix t y assume t: "st_streams st' t = Some y"
    then obtain y0 where y0: "st_streams st t = Some y0" "y = (if t = s then ?x else y0)" using assms(2) by (auto simp: strm split: if_splits)
    have W: "t \<in> set (stream_list st)" "t < st_next st" "distinct (st_dest_list y0)" "\<forall>d \<in> set (st_dest_list y0). dstream st d = Some t"
      "st_dest_list y0 \<noteq> [] \<longrightarrow> st_set_running y0 \<in> {F_driver, F_convert}"
      "st_set_running y0 = F_convert \<longrightarrow> (\<exists>b u. st_private y0 = Some b \<and> dstream st b = Some u \<and> u < t)"
      using assms(1) y0(1) unfolding wf_streams_def by blast+
    show "t \<in> set (stream_list st')" "t < st_next st'" using W by (simp_all add: st')
    have nn: "st_next st \<notin> set (st_dest_list y0)" using lst [OF y0(1)] by blast
    show "distinct (st_dest_list y)" using W(3) y0 assms(2) nn by auto
    show "\<forall>d \<in> set (st_dest_list y). dstream st' d = Some t" using W(4) y0 assms(2) lst [OF y0(1)] by (auto simp: ds)
    show "st_set_running y \<in> {F_driver, F_convert}" if "st_dest_list y \<noteq> []" using W(5) y0 assms(2, 3) that by (auto split: if_splits)
    show "\<exists>b u. st_private y = Some b \<and> dstream st' b = Some u \<and> u < t" if "st_set_running y = F_convert"
      using W(6) y0 assms(2, 3) that old by (fastforce simp: ds split: if_splits)
  next
    fix e t assume e: "dstream st' e = Some t"
    show "e < st_next st'" using e old [of e t] by (cases "e = st_next st") (simp_all add: ds, simp_all add: st')
    show "\<exists>y. st_streams st' t = Some y \<and> e \<in> set (st_dest_list y)"
    proof (cases "e = st_next st")
      case True
      then show ?thesis using e by (simp add: ds strm)
    next
      case False
      then have "dstream st e = Some t" using e by (simp add: ds)
      then obtain y where "st_streams st t = Some y" "e \<in> set (st_dest_list y)" using assms(1) unfolding wf_streams_def by blast
      then show ?thesis using assms(2) by (auto simp: strm)
    qed
  next
    show "\<forall>t \<in> set (stream_list st'). st_streams st' t \<noteq> None" using assms(1) by (auto simp: wf_streams_def st')
  next
    fix t t' y y' assume "st_streams st' t = Some y" "st_streams st' t' = Some y'" "st_set_running y = F_convert" "st_set_running y' = F_convert"
      "st_private y = st_private y'"
    moreover from this have "t \<noteq> s" "t' \<noteq> s" using assms(2, 3) by (auto simp: strm)
    ultimately show "t = t'" using assms(1) unfolding wf_streams_def strm by (auto split: if_splits)
  qed
qed

text \<open>No consumer of the server asks for RGB, so \<open>connect_to_stream\<close> creates no conversion stream.\<close>

lemma connect_idle:
  assumes "connect_to_stream st name convert p formats = Inr (d, st')" "formats \<noteq> []" "FORMAT_RAW_RGB24 \<notin> set formats"
  obtains "d = None" "st' = st" | s x where "st_streams st s = Some x" "new_dest st s p = Inr (the d, st')" "d \<noteq> None"
proof -
  have no: "find_convertible st name formats ss = Inr None \<or> (\<exists>f. find_convertible st name formats ss = Inl f)" for ss
    using assms(2, 3) by (induction ss) (auto simp: format_match_def rbind_def split: sum.splits)
  obtain r where r: "find_match st name formats (stream_list st) = Inr r" using assms(1) by (auto simp: connect_to_stream_def rbind_eq_Inr)
  show ?thesis
  proof (cases r)
    case None
    then show ?thesis using assms(1) r no [of "stream_list st"] that(1) by (auto simp: connect_to_stream_def)
  next
    case (Some s)
    then obtain x where "st_streams st s = Some x" using r find_match_sound by blast
    moreover have "\<exists>e. new_dest st s p = Inr (e, st') \<and> d = Some e" using assms(1) r Some by (auto simp: connect_to_stream_def rbind_eq_Inr)
    ultimately show ?thesis using that(2) by auto
  qed
qed

section \<open>Changes of an idle world\<close>

definition grown :: "consumer streams \<Rightarrow> consumer streams \<Rightarrow> bool" where
  "grown st st' \<longleftrightarrow> (\<forall>s. st_streams st s \<noteq> None \<longrightarrow> st_streams st' s \<noteq> None) \<and> (\<forall>d. st_dests st d \<noteq> None \<longrightarrow> st_dests st' d \<noteq> None)"

lemma source_ok_grown: "source_ok st x \<Longrightarrow> grown st st' \<Longrightarrow> source_ok st' x"
  unfolding source_ok_def track_ok_def grown_def by blast

lemma idle_grown:
  assumes "idle w" "grown (w_streams w) st" "wf_streams st" "\<And>s x. st_streams st s = Some x \<Longrightarrow> st_set_running x = F_driver"
    and "\<And>d y. st_dests st d = Some y \<Longrightarrow> consumer_at (w_sources w) (w_http_locs w) (de_process y)"
  shows "idle (w\<lparr>w_streams := st\<rparr>)"
proof -
  have "v_strm w s \<Longrightarrow> v_strm (w\<lparr>w_streams := st\<rparr>) s" for s using assms(2) by (simp add: v_strm_def grown_def)
  moreover have "has_flag (w_loop (w\<lparr>w_streams := st\<rparr>)) = has_flag (w_loop w)" by (simp add: has_flag_def fun_eq_iff)
  ultimately show ?thesis
    using assms source_ok_grown [OF _ assms(2)] unfolding idle_def idle_parts by simp blast
qed

lemma consumer_at_more:
  "consumer_at src http p \<Longrightarrow> consumer_at (src(q \<mapsto> x)) http p" "consumer_at src http p \<Longrightarrow> consumer_at src (http(h \<mapsto> y)) p"
  by (cases p; auto)+

lemma idle_simple:
  assumes "idle w"
  shows "idle (w\<lparr>w_calls := k\<rparr>)" "idle (w\<lparr>w_ports := r\<rparr>)" "idle (w\<lparr>w_next := Suc (w_next w)\<rparr>)" "idle (close_fd w fd)"
  using assms by (auto simp: idle_def idle_parts v_strm_def has_flag_def close_fd_def less_SucI)

lemma idle_event:
  assumes "idle w" "f = Cb_do_accept \<or> f = Cb_exchanger_read \<and> v_strm w d"
  shows "idle (snd (ev_add_fd w fd wr f d))"
proof -
  let ?w = "snd (ev_add_fd w fd wr f d)"
  have e: "evs (w_loop ?w) i = (if i = next_id (w_loop w) then \<lparr>func = f, data = d, etype = EVENT_FD, eflags = 0 OR EVENT_F_ENABLED,
      fire = fire (evs (w_loop w) i), ival = ival (evs (w_loop w) i), efd = fd, ewrite = wr\<rparr> else evs (w_loop w) i)"
    "next_id (w_loop ?w) = next_id (w_loop w) + 1" for i
    by (simp_all add: ev_add_fd_def add_fd_event_def new_event_def upd_def)
  have o: "w_streams ?w = w_streams w" "no_clients ?w = no_clients w" "idle_sources ?w = idle_sources w" "idle_http ?w = idle_http w"
    "idle_streams ?w = idle_streams w"
    by (simp_all add: ev_add_fd_def idle_parts split: prod.split)
  have "idle_events ?w"
    using assms unfolding idle_def idle_events_def v_strm_def o e
    by (auto simp: has_flag_def e less_Suc_eq)
  then show ?thesis using assms(1) by (simp add: idle_def o)
qed

lemma idle_put_source:
  assumes "idle w" "q < w_next w" "source_ok (w_streams w) x"
  shows "idle (put_source w q x)"
  using assms by (auto simp: idle_def idle_parts put_source_def v_strm_def has_flag_def consumer_at_more)

lemma idle_put_http:
  assumes "idle w" "\<not> hl_streaming x" "hl_sess_list x = []"
  shows "idle (put_http w h x)"
  using assms by (auto simp: idle_def idle_parts put_http_def v_strm_def has_flag_def consumer_at_more)

lemma idle_location:
  assumes "idle w" "w_sources w q \<noteq> None"
  shows "rall (new_rtsp_location w mem p r u pw q) idle"
proof -
  have "idle (w\<lparr>w_rtsp_locs := loc # w_rtsp_locs w\<rparr>)" if "lo_private loc = q" for loc
    using assms that by (auto simp: idle_def idle_parts v_strm_def has_flag_def)
  then show ?thesis by (auto simp: new_rtsp_location_def Let_def)
qed

lemma idle_set_waiting:
  assumes "idle w" "st_dests (w_streams w) d \<noteq> None"
  shows "rall (stream_do w (\<lambda>st. set_waiting st d b)) (\<lambda>w'. idle w' \<and> grown (w_streams w) (w_streams w') \<and> w_sources w' = w_sources w)"
proof -
  obtain y where y: "st_dests (w_streams w) d = Some y" using assms(2) by auto
  have wfs: "wf_streams (w_streams w)" using assms(1) by (simp add: idle_def idle_streams_def)
  have "idle (w\<lparr>w_streams := st\<rparr>) \<and> grown (w_streams w) st" if "set_waiting (w_streams w) d b = Inr st" for st
  proof -
    have sh: "same_shape (w_streams w) st"
      using safe_set_waiting_upto [OF wfs y, of "Suc (length (stream_list (w_streams w)))" b] that by (simp add: set_waiting_def del: set_waiting_upto.simps)
    have strm: "st_streams st = st_streams (w_streams w)" using sh by (simp add: same_shape_def)
    have dst: "\<exists>y'. st_dests (w_streams w) e = Some y' \<and> de_process y' = de_process z" if "st_dests st e = Some z" for e z
    proof -
      have "map_option de_process (st_dests st e) = map_option de_process (st_dests (w_streams w) e)" using sh by (simp add: same_shape_def)
      then show ?thesis using that by (cases "st_dests (w_streams w) e") auto
    qed
    have gr: "st_dests st e \<noteq> None" if "st_dests (w_streams w) e \<noteq> None" for e
      using sh that unfolding same_shape_def by (metis option.map_disc_iff)
    have grown: "grown (w_streams w) st" using gr by (simp add: grown_def strm)
    have "idle (w\<lparr>w_streams := st\<rparr>)"
    proof (rule idle_grown [OF assms(1) grown])
      show "wf_streams st" by (rule wf_same_shape [OF sh wfs])
      show "st_set_running x = F_driver" if "st_streams st s = Some x" for s x
        using assms(1) that by (simp add: strm idle_def idle_streams_def)
      show "consumer_at (w_sources w) (w_http_locs w) (de_process z)" if z: "st_dests st e = Some z" for e z
        using dst [OF z] assms(1) unfolding idle_def idle_streams_def by metis
    qed
    then show ?thesis using grown by simp
  qed
  then show ?thesis by (auto simp: stream_do_def)
qed

lemma idle_connect:
  assumes "idle w" "connect_to_stream (w_streams w) name To_convert p formats = Inr (d, st)" "formats \<noteq> []" "FORMAT_RAW_RGB24 \<notin> set formats"
    and "consumer_at (w_sources w) (w_http_locs w) p"
  shows "idle (w\<lparr>w_streams := st\<rparr>)" "\<And>e. d = Some e \<Longrightarrow> st_dests st e \<noteq> None" "grown (w_streams w) st"
proof -
  from assms(2-4) have "idle (w\<lparr>w_streams := st\<rparr>) \<and> (\<forall>e. d = Some e \<longrightarrow> st_dests st e \<noteq> None) \<and> grown (w_streams w) st"
  proof (rule connect_idle)
    assume "d = None" "st = w_streams w"
    then show ?thesis using assms(1) by (simp add: grown_def)
  next
    fix s x assume s: "st_streams (w_streams w) s = Some x" and nd: "new_dest (w_streams w) s p = Inr (the d, st)" and d: "d \<noteq> None"
    have I: "wf_streams (w_streams w)" "st_set_running x = F_driver" using assms(1) s by (auto simp: idle_def idle_streams_def)
    have st: "st = (w_streams w)\<lparr>st_streams := (st_streams (w_streams w))(s \<mapsto> x\<lparr>st_dest_list := the d # st_dest_list x\<rparr>),
        st_dests := (st_dests (w_streams w))(the d \<mapsto> \<lparr>de_stream = s, de_waiting = False, de_process = p\<rparr>), st_next := the d + 1\<rparr>"
      using s nd by (auto simp: new_dest_def get_stream_def)
    have gr: "grown (w_streams w) st" by (simp add: grown_def st)
    have "idle (w\<lparr>w_streams := st\<rparr>)"
    proof (rule idle_grown [OF assms(1) gr wf_new_dest [OF I(1) s I(2) nd]])
      show "st_set_running z = F_driver" if "st_streams st t = Some z" for t z
        using that assms(1) I(2) by (auto simp: st idle_def idle_streams_def split: if_splits)
      show "consumer_at (w_sources w) (w_http_locs w) (de_process z)" if "st_dests st e = Some z" for e z
        using that assms(1, 5) by (auto simp: st idle_def idle_streams_def split: if_splits)
    qed
    then show ?thesis using gr d by (auto simp: st)
  qed
  then show "idle (w\<lparr>w_streams := st\<rparr>)" "\<And>e. d = Some e \<Longrightarrow> st_dests st e \<noteq> None" "grown (w_streams w) st" by auto
qed

section \<open>Directives\<close>

text \<open>The encoders write to streams that exist, and the contexts are those \<open>spook_init\<close> registers.\<close>

abbreviation jpeg_cc :: config_context where
  "jpeg_cc \<equiv> \<lparr>cc_type = ''encoder'', cc_name = ''jpeg'', cc_block = Some M_jpeg, cc_statements = jpeg_statements\<rparr>"
abbreviation alaw_cc :: config_context where
  "alaw_cc \<equiv> \<lparr>cc_type = ''encoder'', cc_name = ''alaw'', cc_block = Some M_alaw, cc_statements = alaw_statements\<rparr>"
abbreviation live_cc :: config_context where
  "live_cc \<equiv> \<lparr>cc_type = ''rtsp-handler'', cc_name = ''live'', cc_block = Some M_live, cc_statements = live_statements\<rparr>"

definition ready :: "server \<Rightarrow> bool" where
  "ready sv \<longleftrightarrow> idle (sv_world sv) \<and>
     (\<forall>e en s. sv_jpeg sv e = Some en \<longrightarrow> je_output en = Some s \<longrightarrow> v_strm (sv_world sv) s) \<and>
     (\<forall>e en s. sv_alaw sv e = Some en \<longrightarrow> al_output en = Some s \<longrightarrow> v_strm (sv_world sv) s) \<and>
     set (sv_contexts sv) \<subseteq> {jpeg_cc, alaw_cc, live_cc}"

lemma ready_idle: "ready sv \<Longrightarrow> idle (sv_world sv)"
  by (simp add: ready_def)

lemma ready_world:
  assumes "ready sv" "idle w" "grown (w_streams (sv_world sv)) (w_streams w)"
  shows "ready (sv\<lparr>sv_world := w\<rparr>)"
  using assms by (auto simp: ready_def grown_def v_strm_def)

lemma grown_refl [simp]: "grown st st"
  by (simp add: grown_def)

lemma ready_world_same:
  "ready sv \<Longrightarrow> idle w \<Longrightarrow> w_streams w = w_streams (sv_world sv) \<Longrightarrow> ready (sv\<lparr>sv_world := w\<rparr>)"
  by (rule ready_world) simp_all

abbreviation keeps_ready :: "(server \<times> int) res \<Rightarrow> bool" where
  "keeps_ready m \<equiv> rall m (\<lambda>(sv, _). ready sv)"

lemma ready_frameheap: "ready sv \<Longrightarrow> keeps_ready (config_frameheap sv ts)"
  by (auto simp: config_frameheap_def ready_def)

lemma ready_rtprange: "ready sv \<Longrightarrow> keeps_ready (conf_rtprange sv ts)"
  by (auto simp: conf_rtprange_def intro!: ready_world_same idle_simple(2) dest: ready_idle)

lemma ready_port:
  assumes "ready sv"
  shows "keeps_ready (conf_port F sv ts)"
proof -
  let ?w = "(sv_world sv)\<lparr>w_calls := w_calls (sv_world sv) + 1\<rparr>"
  have i: "idle ?w" by (rule idle_simple(1) [OF ready_idle [OF assms]])
  have "idle (fst (config_port ?w port fd b l)) \<and> w_streams (fst (config_port ?w port fd b l)) = w_streams (sv_world sv)" for port fd b l
    using i idle_simple(4) [OF i] idle_event [OF i, of Cb_do_accept]
    by (auto simp: config_port_def tcp_listen_def close_fd_def ev_add_fd_def split: prod.split)
  then have "ready (sv\<lparr>sv_world := fst (config_port ?w port fd b l)\<rparr>)" for port fd b l
    using ready_world_same [OF assms] by blast
  then show ?thesis by (auto simp: conf_port_def call_def Let_def split_beta)
qed

lemma ready_exchanger:
  assumes "ready sv" "v_strm (sv_world sv) s"
  shows "ready (sv\<lparr>sv_world := new_exchanger F (sv_world sv) s\<rparr>)"
proof -
  let ?w = "(sv_world sv)\<lparr>w_calls := w_calls (sv_world sv) + 1\<rparr>"
  have i: "idle ?w" by (rule idle_simple(1) [OF ready_idle [OF assms(1)]])
  have "v_strm ?w s" using assms(2) by (simp add: v_strm_def)
  then have "idle (new_exchanger F (sv_world sv) s)" using idle_event [OF i] by (simp add: new_exchanger_def call_def)
  then show ?thesis
    by (rule ready_world_same [OF assms(1)]) (simp add: new_exchanger_def call_def ev_add_fd_def split: prod.split)
qed

text \<open>The stream of an encoder.\<close>

lemma idle_new_driver:
  assumes "idle w" "\<And>x. st_dest_list (f x) = st_dest_list x \<and> st_set_running (f x) = F_driver"
    and "on_streams w r = (s, w1)" "set_stream w1 s f = Inr w2" and "new_stream (w_streams w) name fmt = Inr r"
  shows "idle w2" "grown (w_streams w) (w_streams w2)" "v_strm w2 s" "s = st_next (w_streams w)"
proof -
  let ?st = "w_streams w"
  let ?x = "f \<lparr>st_name = name, st_format = fmt, st_dest_list = [], st_get_framerate = F_null, st_set_running = F_null,
            st_new_listener_notify = F_null, st_get_enc_pipe_num = F_null, st_private = None\<rparr>"
  show s: "s = st_next (w_streams w)" using assms(3, 5) by (auto simp: on_streams_def new_stream_def copy_name_def split: if_splits)
  have w2: "w2 = w\<lparr>w_streams := ?st\<lparr>st_streams := (st_streams ?st)(st_next ?st \<mapsto> ?x), stream_list := st_next ?st # stream_list ?st,
      st_next := st_next ?st + 1\<rparr>\<rparr>"
    using assms(3-5) by (auto simp: on_streams_def new_stream_def copy_name_def set_stream_def get_stream_def split: if_splits)
  have wfs: "wf_streams ?st" using assms(1) by (simp add: idle_def idle_streams_def)
  show gr: "grown (w_streams w) (w_streams w2)" by (simp add: w2 grown_def)
  have "idle (w\<lparr>w_streams := w_streams w2\<rparr>)"
  proof (rule idle_grown [OF assms(1) gr])
    show "wf_streams (w_streams w2)" unfolding w2 using wf_new_driver [OF wfs, of ?x] assms(2) by simp
    show "st_set_running x = F_driver" if "st_streams (w_streams w2) t = Some x" for t x
      using that assms(1, 2) by (auto simp: w2 idle_def idle_streams_def split: if_splits)
    show "consumer_at (w_sources w) (w_http_locs w) (de_process y)" if "st_dests (w_streams w2) d = Some y" for d y
      using that assms(1) by (auto simp: w2 idle_def idle_streams_def)
  qed
  then show "idle w2" by (simp add: w2)
  show "v_strm w2 s" by (simp add: w2 v_strm_def s)
qed

lemma ready_jpeg_output:
  assumes "ready sv"
  shows "keeps_ready (jpeg_set_output sv e ts)"
  unfolding jpeg_set_output_def
proof (rule rall_rbind, rule rall_rbind, rule rall_rbind)
  fix name en r assume "deref (sv_jpeg sv) e = Inr en" and r: "new_stream (w_streams (sv_world sv)) name FORMAT_JPEG = Inr r"
  obtain s w1 where n: "on_streams (sv_world sv) r = (s, w1)" by (cases "on_streams (sv_world sv) r")
  have "ready (sv\<lparr>sv_world := w, sv_jpeg := (sv_jpeg sv)(e \<mapsto> en\<lparr>je_output := Some s\<rparr>), sv_driver := D\<rparr>)"
    if "set_stream w1 s (\<lambda>x. x\<lparr>st_get_framerate := F_driver, st_set_running := F_driver, st_get_enc_pipe_num := F_driver\<rparr>) = Inr w" for w D
    using idle_new_driver [OF ready_idle [OF assms] _ n that r] assms by (auto simp: ready_def grown_def v_strm_def)
  then show "keeps_ready (let (s, w) = on_streams (sv_world sv) r in
       rbind (set_stream w s (\<lambda>x. x\<lparr>st_get_framerate := F_driver, st_set_running := F_driver, st_get_enc_pipe_num := F_driver\<rparr>)) (\<lambda>w.
         Inr (sv\<lparr>sv_world := w, sv_jpeg := (sv_jpeg sv)(e \<mapsto> en\<lparr>je_output := Some s\<rparr>),
                 sv_driver := (sv_driver sv)(s \<mapsto> Dr_jpeg e)\<rparr>, 0)))"
    unfolding n Let_def prod.case by (auto simp del: fun_upd_apply)
qed

lemma ready_alaw_output:
  assumes "ready sv"
  shows "keeps_ready (alaw_set_output sv e ts)"
  unfolding alaw_set_output_def
proof (rule rall_rbind, rule rall_rbind, rule rall_rbind)
  fix name en r assume "deref (sv_alaw sv) e = Inr en" and r: "new_stream (w_streams (sv_world sv)) name FORMAT_ALAW = Inr r"
  obtain s w1 where n: "on_streams (sv_world sv) r = (s, w1)" by (cases "on_streams (sv_world sv) r")
  have "ready (sv\<lparr>sv_world := w, sv_alaw := (sv_alaw sv)(e \<mapsto> en\<lparr>al_output := Some s\<rparr>), sv_driver := D\<rparr>)"
    if "set_stream w1 s (\<lambda>x. x\<lparr>st_get_framerate := F_driver, st_set_running := F_driver\<rparr>) = Inr w" for w D
    using idle_new_driver [OF ready_idle [OF assms] _ n that r] assms by (auto simp: ready_def grown_def v_strm_def)
  then show "keeps_ready (let (s, w) = on_streams (sv_world sv) r in
       rbind (set_stream w s (\<lambda>x. x\<lparr>st_get_framerate := F_driver, st_set_running := F_driver\<rparr>)) (\<lambda>w.
         Inr (sv\<lparr>sv_world := w, sv_alaw := (sv_alaw sv)(e \<mapsto> en\<lparr>al_output := Some s\<rparr>),
                 sv_driver := (sv_driver sv)(s \<mapsto> Dr_alaw e)\<rparr>, 0)))"
    unfolding n Let_def prod.case by (auto simp del: fun_upd_apply)
qed

lemma ready_jpeg_set:
  assumes "ready sv" "\<And>n en. je_output (f n en) = je_output en"
  shows "keeps_ready (jpeg_set sv e ts f)"
  using assms by (auto simp: jpeg_set_def ready_def deref_def split: option.splits if_splits)

lemma ready_end_blocks:
  assumes "ready sv"
  shows "keeps_ready (jpeg_end_block F sv e)" "keeps_ready (alaw_end_block F sv e)"
proof -
  show "keeps_ready (jpeg_end_block F sv e)"
    using assms ready_exchanger [OF assms] by (auto simp: jpeg_end_block_def ready_def deref_def split: option.splits)
  have "ready (sv\<lparr>sv_alaw := (sv_alaw sv)(e \<mapsto> en\<lparr>al_channels := c, al_rate := r\<rparr>), sv_world := new_exchanger F (sv_world sv) s\<rparr>)"
    if "sv_alaw sv e = Some en" "al_output en = Some s" for en s c r
  proof -
    have "v_strm (sv_world sv) s" using assms that by (auto simp: ready_def)
    from ready_exchanger [OF assms this, of F] assms that show ?thesis by (auto simp: ready_def)
  qed
  then show "keeps_ready (alaw_end_block F sv e)"
    using assms by (auto simp: alaw_end_block_def deref_def simp del: fun_upd_apply split: option.splits)
qed

lemma ready_start_blocks:
  assumes "ready sv"
  shows "ready (snd (jpeg_start_block sv))" "ready (snd (alaw_start_block sv))" "ready (snd (live_start_block sv))"
    "ready (snd (http_start_block F sv))"
proof -
  note i = ready_idle [OF assms]
  note n = idle_simple(3) [OF i]
  show "ready (snd (jpeg_start_block sv))" "ready (snd (alaw_start_block sv))"
    using assms n by (auto simp: jpeg_start_block_def alaw_start_block_def ready_def Let_def v_strm_def)
  have "idle (put_source ((sv_world sv)\<lparr>w_next := Suc (w_next (sv_world sv))\<rparr>) (w_next (sv_world sv)) x)"
    if "source_ok (w_streams (sv_world sv)) x" for x
    by (rule idle_put_source [OF n]) (use that in simp_all)
  then show "ready (snd (live_start_block sv))"
    unfolding live_start_block_def Let_def snd_conv
    by (intro ready_world_same [OF assms]) (auto simp: source_ok_def track_ok_def numeral_2_eq_2 put_source_def)
  let ?w = "(sv_world sv)\<lparr>w_calls := w_calls (sv_world sv) + 1, w_next := Suc (w_next (sv_world sv))\<rparr>"
  have w: "idle ?w" using idle_simple(3) [OF idle_simple(1) [OF i, of "w_calls (sv_world sv) + 1"]] by simp
  have "idle (put_http (?w\<lparr>w_http_list := h # w_http_list ?w\<rparr>) h x)" if "\<not> hl_streaming x" "hl_sess_list x = []" for h x
    using idle_put_http [OF w that, of h] by (auto simp: idle_def idle_parts put_http_def v_strm_def has_flag_def)
  from this [of _ "w_next (sv_world sv)"] show "ready (snd (http_start_block F sv))"
    unfolding http_start_block_def Let_def call_def prod.case snd_conv
    by (intro ready_world_same [OF assms]) (auto simp: put_http_def)
qed

text \<open>The live sources. While a block of a source is read the source stays where it is.\<close>

abbreviation keeps_source :: "nat \<Rightarrow> (server \<times> int) res \<Rightarrow> bool" where
  "keeps_source q m \<equiv> rall m (\<lambda>(sv, _). ready sv \<and> w_sources (sv_world sv) q \<noteq> None)"

lemma source_ok_track:
  assumes "source_ok st src" "used_tracks src = t" "t \<noteq> MAX_TRACKS" "m \<noteq> None \<Longrightarrow> \<exists>e. d = Some e \<and> st_dests st e \<noteq> None"
  shows "source_ok st (src\<lparr>so_track := (so_track src)[t := (so_track src ! t)\<lparr>tr_stream := d, tr_rtp := m\<rparr>]\<rparr>)" "t < MAX_TRACKS"
    "tr_rtp (so_track src ! t) = None"
proof -
  obtain a b where ab: "so_track src = [a, b]" using assms(1) by (auto simp: source_ok_def length_Suc_conv numeral_2_eq_2)
  have t: "t = 0 \<and> tr_rtp a = None \<or> t = 1 \<and> tr_rtp a \<noteq> None \<and> tr_rtp b = None"
    using assms(2, 3) by (auto simp: used_tracks_def ab split: if_splits)
  then show "t < MAX_TRACKS" "tr_rtp (so_track src ! t) = None" by (auto simp: ab)
  show "source_ok st (src\<lparr>so_track := (so_track src)[t := (so_track src ! t)\<lparr>tr_stream := d, tr_rtp := m\<rparr>]\<rparr>)"
    using t assms(1, 4) by (auto simp: source_ok_def ab track_ok_def)
qed

lemma live_track_connected:
  assumes "ready sv" "w_sources (sv_world sv) q = Some src" "used_tracks src \<noteq> MAX_TRACKS"
    and c: "connect_to_stream (w_streams (sv_world sv)) name To_convert (To_live_track q (used_tracks src)) live_formats = Inr (d, st)"
    and put: "\<And>m. put m = put_source ((sv_world sv)\<lparr>w_streams := st\<rparr>) q (src\<lparr>so_track := (so_track src)[used_tracks src :=
        (so_track src ! used_tracks src)\<lparr>tr_stream := d, tr_rtp := m\<rparr>]\<rparr>)"
  shows "m = None \<or> d \<noteq> None \<Longrightarrow> ready (sv\<lparr>sv_world := put m\<rparr>) \<and> w_sources (put m) q \<noteq> None"
    and "d = Some e \<Longrightarrow> rall (stream_do (put m) (\<lambda>st. set_waiting st e True)) (\<lambda>w. ready (sv\<lparr>sv_world := w\<rparr>) \<and> w_sources w q \<noteq> None)"
proof -
  let ?w = "sv_world sv" let ?t = "used_tracks src"
  have i: "idle ?w" and ok: "source_ok (w_streams ?w) src" "q < w_next ?w"
    using assms(1, 2) by (auto simp: ready_def idle_def idle_sources_def)
  have at: "consumer_at (w_sources ?w) (w_http_locs ?w) (To_live_track q ?t)"
    using assms(2) source_ok_track(2) [OF ok(1) refl assms(3), of None] by simp
  have "live_formats \<noteq> []" "FORMAT_RAW_RGB24 \<notin> set live_formats" by (simp_all add: live_formats_def FORMAT_PCM_def FORMAT_ALAW_def FORMAT_ULAW_def)
  note C = idle_connect [OF i c this at]
  have st: "w_streams (put m) = st" "w_sources (put m) q \<noteq> None" for m by (simp_all add: put put_source_def)
  have P: "idle (put m)" if "m = None \<or> d \<noteq> None" for m
    unfolding put
  proof (rule idle_put_source [OF C(1)])
    show "q < w_next (?w\<lparr>w_streams := st\<rparr>)" using ok by simp
    show "source_ok (w_streams (?w\<lparr>w_streams := st\<rparr>)) (src\<lparr>so_track := (so_track src)[?t := (so_track src ! ?t)\<lparr>tr_stream := d, tr_rtp := m\<rparr>]\<rparr>)"
      using source_ok_track(1) [OF source_ok_grown [OF ok(1) C(3)] refl assms(3), of m d] C(2) that by auto
  qed
  show "ready (sv\<lparr>sv_world := put m\<rparr>) \<and> w_sources (put m) q \<noteq> None" if "m = None \<or> d \<noteq> None"
    using ready_world [OF assms(1) P [OF that]] C(3) st by simp
  assume d: "d = Some e"
  have "rall (stream_do (put m) (\<lambda>st. set_waiting st e True))
      (\<lambda>w. idle w \<and> grown (w_streams (put m)) (w_streams w) \<and> w_sources w = w_sources (put m))"
    by (rule idle_set_waiting [OF P]) (use d C(2) st in simp_all)
  then show "rall (stream_do (put m) (\<lambda>st. set_waiting st e True)) (\<lambda>w. ready (sv\<lparr>sv_world := w\<rparr>) \<and> w_sources w q \<noteq> None)"
  proof (rule rall_mono)
    fix w assume w: "idle w \<and> grown (w_streams (put m)) (w_streams w) \<and> w_sources w = w_sources (put m)"
    then have "grown (w_streams ?w) (w_streams w)" using C(3) unfolding st grown_def by blast
    then show "ready (sv\<lparr>sv_world := w\<rparr>) \<and> w_sources w q \<noteq> None" using ready_world [OF assms(1), of w] w st by simp
  qed
qed

definition put_track :: "world \<Rightarrow> nat \<Rightarrow> live_source \<Rightarrow> nat option \<Rightarrow> consumer streams \<Rightarrow> media option \<Rightarrow> world" where
  "put_track w q src d st m = put_source (w\<lparr>w_streams := st\<rparr>) q (src\<lparr>so_track := (so_track src)[used_tracks src :=
     (so_track src ! used_tracks src)\<lparr>tr_stream := d, tr_rtp := m\<rparr>]\<rparr>)"

lemma live_set_track_unfold:
  assumes "w_sources (sv_world sv) q = Some src" "used_tracks src \<noteq> MAX_TRACKS" "tr_rtp (so_track src ! used_tracks src) = None"
  shows "live_set_track F sv q ts =
     rbind (tok_str ts 1) (\<lambda>name.
     rbind (connect_to_stream (w_streams (sv_world sv)) name To_convert (To_live_track q (used_tracks src)) live_formats) (\<lambda>(dest, st).
       case dest of
         None \<Rightarrow> Inr (sv\<lparr>sv_world := put_track (sv_world sv) q src dest st None\<rparr>, -1)
       | Some d \<Rightarrow>
           rbind (get_dest st d) (\<lambda>y. rbind (get_stream st (de_stream y)) (\<lambda>x.
           rbind (live_media F (sv\<lparr>sv_world := put_track (sv_world sv) q src dest st None\<rparr>) (de_stream y) (st_format x)) (\<lambda>m.
             if m = None then Inr (sv\<lparr>sv_world := put_track (sv_world sv) q src dest st m\<rparr>, -1)
             else on_world (sv\<lparr>sv_world := put_track (sv_world sv) q src dest st m\<rparr>)
                    (stream_do (put_track (sv_world sv) q src dest st m) (\<lambda>st. set_waiting st d True)))))))"
proof -
  let ?tr = "so_track src ! used_tracks src"
  have none: "?tr\<lparr>tr_stream := d\<rparr> = ?tr\<lparr>tr_stream := d, tr_rtp := None\<rparr>" for d
    using assms(3) by (cases ?tr) simp
  have a: "put_source ((sv_world sv)\<lparr>w_streams := st\<rparr>) q (src\<lparr>so_track := (so_track src)[used_tracks src := ?tr\<lparr>tr_stream := d\<rparr>]\<rparr>)
      = put_track (sv_world sv) q src d st None" for d st
    by (subst none) (simp only: put_track_def)
  have b: "put_source (put_track (sv_world sv) q src d st m') q (src\<lparr>so_track := (so_track src)[used_tracks src := ?tr\<lparr>tr_stream := d, tr_rtp := m\<rparr>]\<rparr>)
      = put_track (sv_world sv) q src d st m" for d st m m'
    by (simp add: put_source_def put_track_def)
  have c: "w_streams (put_track (sv_world sv) q src d st m) = st" for d st m by (simp add: put_source_def put_track_def)
  have sv: "sv\<lparr>sv_world := w, sv_world := w'\<rparr> = sv\<lparr>sv_world := w'\<rparr>" for w w' by simp
  have d: "deref (w_sources (sv_world sv)) q = Inr src" using assms(1) by (simp add: deref_def)
  show ?thesis unfolding live_set_track_def d rbind_simps Let_def a b c sv using assms(2) by (simp only: if_False)
qed

lemma ready_live_track:
  assumes "ready sv"
  shows "keeps_source q (live_set_track F sv q ts)"
proof (cases "w_sources (sv_world sv) q")
  case None
  then show ?thesis by (simp add: live_set_track_def deref_def rall_Inl)
next
  case (Some src)
  show ?thesis
  proof (cases "used_tracks src = MAX_TRACKS")
    case True
    then show ?thesis using Some assms by (simp add: live_set_track_def deref_def rall_Inr)
  next
    case t: False
    have ok: "source_ok (w_streams (sv_world sv)) src" using assms Some by (auto simp: ready_def idle_def idle_sources_def)
    have none: "tr_rtp (so_track src ! used_tracks src) = None" by (rule source_ok_track(3) [OF ok refl t, of None]) simp
    show ?thesis
      unfolding live_set_track_unfold [OF Some t none] on_world_def
    proof (intro rall_rbind rall_prod rall_option rall_if)
      fix name r d st
      assume "connect_to_stream (w_streams (sv_world sv)) name To_convert (To_live_track q (used_tracks src)) live_formats = Inr r" "r = (d, st)"
      then have c: "connect_to_stream (w_streams (sv_world sv)) name To_convert (To_live_track q (used_tracks src)) live_formats = Inr (d, st)" by simp
      note L = live_track_connected [OF assms Some t c, of "put_track (sv_world sv) q src d st", OF put_track_def]
      show "keeps_source q (Inr (sv\<lparr>sv_world := put_track (sv_world sv) q src d st None\<rparr>, -1))" using L(1) [of None] by auto
      fix e m assume d: "d = Some e"
      show "keeps_source q (Inr (sv\<lparr>sv_world := put_track (sv_world sv) q src d st m\<rparr>, -1))" using L(1) [of m] d by auto
      fix w assume "stream_do (put_track (sv_world sv) q src d st m) (\<lambda>st. set_waiting st e True) = Inr w"
      then show "keeps_source q (Inr (sv\<lparr>sv_world := put_track (sv_world sv) q src d st m, sv_world := w\<rparr>, 0))"
        using L(2) [OF d, of m, THEN rallD, of w] by auto
    qed
  qed
qed

lemma ready_live_path:
  assumes "ready sv" "w_sources (sv_world sv) q \<noteq> None"
  shows "keeps_source q (live_set_path F sv q ts)"
proof -
  let ?w = "(sv_world sv)\<lparr>w_calls := w_calls (sv_world sv) + 1\<rparr>"
  have i: "idle ?w" by (rule idle_simple(1) [OF ready_idle [OF assms(1)]])
  have "ready (sv\<lparr>sv_world := w\<rparr>) \<and> w_sources w q \<noteq> None" if "new_rtsp_location ?w mem p r u pw q = Inr w" for mem p r u pw w
  proof -
    have "idle w" using idle_location [OF i, THEN rallD, OF _ that] assms(2) by simp
    moreover have "w_streams w = w_streams (sv_world sv)" "w_sources w = w_sources (sv_world sv)"
      using that by (auto simp: new_rtsp_location_def rbind_eq_Inr Let_def split: if_splits)
    ultimately show ?thesis using ready_world_same [OF assms(1)] assms(2) by simp
  qed
  then show ?thesis using assms by (auto simp: live_set_path_def call_def Let_def on_world_def)
qed

lemma ready_live_set:
  assumes "ready sv" "\<And>n src. so_sess_list (f n src) = so_sess_list src \<and> so_track (f n src) = so_track src"
  shows "keeps_source q (live_set sv q ts f)"
  unfolding live_set_def
proof (intro rall_rbind rall_Inr, unfold prod.case)
  fix n src assume "deref (w_sources (sv_world sv)) q = Inr src"
  then have src: "w_sources (sv_world sv) q = Some src" by (auto simp: deref_def split: option.splits)
  have i: "idle (sv_world sv)" and ok: "source_ok (w_streams (sv_world sv)) src" "q < w_next (sv_world sv)"
    using assms src by (auto simp: ready_def idle_def idle_sources_def)
  have "idle (put_source (sv_world sv) q (f n src))"
    by (rule idle_put_source [OF i ok(2)]) (use ok(1) assms(2) in \<open>simp add: source_ok_def\<close>)
  then show "ready (sv\<lparr>sv_world := put_source (sv_world sv) q (f n src)\<rparr>) \<and>
      w_sources (sv_world (sv\<lparr>sv_world := put_source (sv_world sv) q (f n src)\<rparr>)) q \<noteq> None"
    using ready_world_same [OF assms(1)] by (simp add: put_source_def)
qed

section \<open>The configuration\<close>

text \<open>A context whose directives keep a property of the server: so do all the statements run in it.\<close>

definition keeps_in :: "confenv \<Rightarrow> config_context \<Rightarrow> nat \<Rightarrow> (server \<Rightarrow> bool) \<Rightarrow> bool" where
  "keeps_in F cc d P \<longleftrightarrow> (\<forall>p \<in> sm_process ` set (cc_statements cc). \<forall>sv ts. P sv \<longrightarrow> rall (run_directive F sv p (Some d) ts) (\<lambda>(sv, _). P sv))"

lemma find_statement_in: "find_statement ss name args = Some p \<Longrightarrow> p \<in> sm_process ` set ss"
  by (induction ss) (auto split: if_splits)

lemma run_statements_keep:
  assumes "keeps_in F cc d P"
  shows "P sv \<Longrightarrow> rall (run_statements F sv cc (Some d) tss) P"
proof (induction tss arbitrary: sv)
  case Nil
  then show ?case by auto
next
  case (Cons ts tss)
  have "rall (run_context_statement F sv cc (Some d) ts) (\<lambda>(sv, _). P sv)"
    using Cons.prems assms find_statement_in
    by (fastforce simp: run_context_statement_def process_statement_def keeps_in_def
        intro!: rall_Inr rall_rbind dest: rallD split: list.split token.split option.split)
  then show ?case
    using Cons.IH by (auto elim!: rall_rbind_via)
qed

lemma keeps_in_jpeg: "keeps_in F jpeg_cc d ready"
  by (auto simp: keeps_in_def jpeg_statements_def run_directive_def non_null_def intro!: ready_jpeg_output ready_jpeg_set)

lemma keeps_in_alaw: "keeps_in F alaw_cc d ready"
  by (auto simp: keeps_in_def alaw_statements_def run_directive_def non_null_def intro!: ready_alaw_output)

lemma keeps_in_live: "keeps_in F live_cc d (\<lambda>sv. ready sv \<and> w_sources (sv_world sv) d \<noteq> None)"
proof -
  have "keeps_source d (run_directive F sv p (Some d) ts)"
    if "p \<in> sm_process ` set live_statements" "ready sv" "w_sources (sv_world sv) d \<noteq> None" for p sv ts
  proof -
    have "p = D_live_track \<or> p = D_live_path \<or> p = D_live_mtu \<or> p = D_live_conn" using that(1) by (simp add: live_statements_def)
    then show ?thesis
      using ready_live_track [OF that(2)] ready_live_path [OF that(2, 3)] ready_live_set [OF that(2)]
      by (auto simp: run_directive_def non_null_def live_set_mtu_def live_set_conn_def)
  qed
  then show ?thesis by (simp add: keeps_in_def)
qed

text \<open>A whole block, as the functions of the program run it.\<close>

lemma ready_start:
  assumes "ready sv" "run_context_start_block F sv cc = (d, sv')"
  shows "ready sv'"
  using assms ready_start_blocks [OF assms(1)]
  by (auto simp: run_context_start_block_def run_start_block_def split: option.splits prod.splits cmodule.splits dest!: sym [of _ "(_, _)"])
     (metis snd_conv)+

lemma ready_end:
  assumes "ready sv" "cc_block cc \<noteq> Some M_http"
  shows "keeps_ready (run_context_end_block F sv cc d)"
  using assms ready_end_blocks [OF assms(1)]
  by (auto simp: run_context_end_block_def run_end_block_def live_end_block_def split: option.split cmodule.split)

lemma ready_encoder_block:
  assumes "ready sv" "cc = jpeg_cc \<or> cc = alaw_cc" "run_context_start_block F sv cc = (Some d, sv1)"
  shows "rall (run_statements F sv1 cc (Some d) tss) ready"
proof -
  have "keeps_in F cc d ready" using assms(2) keeps_in_jpeg keeps_in_alaw by blast
  then show ?thesis by (rule run_statements_keep) (rule ready_start [OF assms(1, 3)])
qed

lemma ready_live_block:
  assumes "ready sv" "run_context_start_block F sv live_cc = (Some d, sv1)"
  shows "rall (run_statements F sv1 live_cc (Some d) tss) ready"
proof -
  have "w_sources (sv_world sv1) d \<noteq> None"
    using assms(2) by (auto simp: run_context_start_block_def run_start_block_def live_start_block_def put_source_def Let_def)
  then have "rall (run_statements F sv1 live_cc (Some d) tss) (\<lambda>sv. ready sv \<and> w_sources (sv_world sv) d \<noteq> None)"
    by (intro run_statements_keep [OF keeps_in_live]) (simp add: ready_start [OF assms])
  then show ?thesis by (rule rall_mono) simp
qed

lemmas ready_end_Inr = ready_end [THEN rallD, unfolded prod.case]
lemmas ready_encoder_Inr = ready_encoder_block [THEN rallD]
lemmas ready_live_Inr = ready_live_block [THEN rallD]

lemma strcaseeq_length: "length s \<noteq> length t \<Longrightarrow> \<not> strcaseeq s t"
  by (auto simp: strcaseeq_def dest: map_eq_imp_length_eq)

lemma ready_context:
  assumes "ready sv" "find_context sv t n = Some cc" "t \<noteq> []"
  shows "cc = jpeg_cc \<or> cc = alaw_cc \<or> cc = live_cc" "strcaseeq (cc_type cc) t"
proof -
  have "\<not> strcaseeq [] t" using assms(3) by (cases t) (simp_all add: strcaseeq_def)
  then have "cc \<in> set (sv_contexts sv)" "strcaseeq (cc_type cc) t"
    using assms(2) by (auto simp: find_context_def global_context_def find_Some_iff split: if_splits)
  then show "cc = jpeg_cc \<or> cc = alaw_cc \<or> cc = live_cc" "strcaseeq (cc_type cc) t" using assms(1) by (auto simp: ready_def)
qed

lemma encoder_context:
  assumes "ready sv" "find_context sv ''encoder'' n = Some cc"
  shows "cc = jpeg_cc \<or> cc = alaw_cc"
proof -
  have n: "\<not> strcaseeq ''rtsp-handler'' ''encoder''" by (rule strcaseeq_length) simp
  have "cc = jpeg_cc \<or> cc = alaw_cc \<or> cc = live_cc" "strcaseeq (cc_type cc) ''encoder''" by (rule ready_context [OF assms], simp)+
  moreover have "cc \<noteq> live_cc" using calculation(2) n by (metis config_context.select_convs(1))
  ultimately show ?thesis by blast
qed

lemma handler_context:
  assumes "ready sv" "find_context sv ''rtsp-handler'' n = Some cc"
  shows "cc = live_cc"
proof -
  have n: "\<not> strcaseeq ''encoder'' ''rtsp-handler''" by (rule strcaseeq_length) simp
  have "cc = jpeg_cc \<or> cc = alaw_cc \<or> cc = live_cc" "strcaseeq (cc_type cc) ''rtsp-handler''" by (rule ready_context [OF assms], simp)+
  moreover have "cc \<noteq> jpeg_cc" "cc \<noteq> alaw_cc" using calculation(2) n by (metis config_context.select_convs(1))+
  ultimately show ?thesis by blast
qed

lemma ready_jpeg_cams:
  assumes "cc = jpeg_cc \<or> cc = alaw_cc"
  shows "ready sv \<Longrightarrow> keeps_ready (jpeg_cams F c cc sv cams)"
proof (induction cams arbitrary: sv)
  case Nil
  then show ?case by auto
next
  case (Cons i cams)
  have "cc_block cc \<noteq> Some M_http" using assms by (elim disjE) simp_all
  note E = ready_end [OF _ this, THEN rallD]
  obtain d sv1 where s: "run_context_start_block F sv cc = (d, sv1)" by (cases "run_context_start_block F sv cc")
  show ?case
  proof (cases d)
    case None
    then show ?thesis using s ready_start [OF Cons.prems s] by (simp add: rall_Inr)
  next
    case (Some e)
    note R = ready_encoder_Inr [OF Cons.prems assms s [unfolded Some]]
    have "ready sv3" if "run_statements F sv1 cc d tss = Inr sv2" "run_context_end_block F sv2 cc d = Inr (sv3, rc)" for tss sv2 sv3 rc
      using E [OF R that(2)] that(1) Some by simp
    then show ?thesis using s Some Cons.IH by (auto simp del: run_statements.simps)
  qed
qed

lemma ready_jpeg_config: "ready sv \<Longrightarrow> keeps_ready (jpeg_config F sv c)"
  by (auto simp: jpeg_config_def intro!: ready_jpeg_cams dest: encoder_context)

lemma ready_audio_config:
  assumes "ready sv"
  shows "keeps_ready (audio_config F sv name)"
proof -
  have "keeps_ready (run_context_end_block F x cc (Some d))"
    if "cc = jpeg_cc \<or> cc = alaw_cc" "run_context_start_block F sv cc = (Some d, sv1)" "run_statements F sv1 cc (Some d) tss = Inr x"
    for cc d sv1 tss x
    by (rule ready_end [OF ready_encoder_Inr [OF assms that]]) (use that(1) in auto)
  then show ?thesis
    using assms encoder_context [OF assms] ready_start [OF assms]
    by (auto simp: audio_config_def simp del: run_statements.simps)
qed

lemmas ready_audio_configs = ready_audio_config [of _ _ "''alaw''", folded alaw_config_def]
  ready_audio_config [of _ _ "''ulaw''", folded ulaw_config_def] ready_audio_config [of _ _ "''adpcm''", folded adpcm_config_def]
  ready_audio_config [of _ _ "''aac''", folded aac_config_def] ready_audio_config [of _ _ "''g726''", folded g726_config_def]
  ready_audio_config [of _ _ "''mp3''", folded mp3_config_def]

lemma ready_live_run:
  assumes "ready sv" "run_context_start_block F sv live_cc = (Some d, sv1)" "run_statements F sv1 live_cc (Some d) tss = Inr sv2"
    "run_context_end_block F sv2 live_cc (Some d) = Inr (sv3, rc)"
  shows "ready sv3"
  using ready_end_Inr [OF ready_live_Inr [OF assms(1-3)] _ assms(4)] by simp

lemma ready_mjpg_cams: "ready sv \<Longrightarrow> keeps_ready (mjpg_cams F c live_cc sv cams)"
proof (induction cams arbitrary: sv)
  case Nil
  then show ?case by auto
next
  case (Cons i cams)
  obtain d sv1 where s: "run_context_start_block F sv live_cc = (d, sv1)" by (cases "run_context_start_block F sv live_cc")
  show ?case
    using s ready_start [OF Cons.prems s] ready_live_run [OF Cons.prems] Cons.IH
    by (cases d) (auto simp del: run_statements.simps)
qed

lemma ready_mjpg_live_config: "ready sv \<Longrightarrow> keeps_ready (mjpg_live_config F sv c)"
  by (auto simp: mjpg_live_config_def intro!: ready_mjpg_cams dest: handler_context)

lemma ready_audio_live_config:
  assumes "ready sv"
  shows "keeps_ready (audio_live_config F sv c)"
  using assms handler_context [OF assms] ready_start [OF assms] ready_live_run [OF assms, of F]
  by (auto simp: audio_live_config_def Let_def simp del: run_statements.simps)

lemma keeps_rbind:
  "keeps_ready m \<Longrightarrow> (\<And>sv rc. ready sv \<Longrightarrow> rall (f sv rc) P) \<Longrightarrow> rall (rbind m (\<lambda>(sv, rc). f sv rc)) P"
  by (erule rall_rbind_via) auto

lemma ready_want_audio:
  assumes "\<And>sv. ready sv \<Longrightarrow> keeps_ready (config sv)" "ready (fst st)"
  shows "rall (want_audio needed bits config st) (\<lambda>st. ready (fst st))"
  using assms(2) by (auto simp: want_audio_def split: prod.split dest: rallD [OF assms(1)])

lemma ready_spook_config:
  assumes "ready sv"
  shows "keeps_ready (spook_config F sv c)"
proof -
  note want = rall_rbind_via [OF ready_want_audio [OF ready_audio_configs(1)]] rall_rbind_via [OF ready_want_audio [OF ready_audio_configs(2)]]
    rall_rbind_via [OF ready_want_audio [OF ready_audio_configs(3)]] rall_rbind_via [OF ready_want_audio [OF ready_audio_configs(4)]]
    rall_rbind_via [OF ready_want_audio [OF ready_audio_configs(5)]] rall_rbind_via [OF ready_want_audio [OF ready_audio_configs(6)]]
  have live: "rall (if b then rbind (mjpg_live_config F sv c) (\<lambda>(sv, _). Inr sv) else Inr sv) ready"
    "rall (if b then rbind (audio_live_config F sv c) (\<lambda>(sv, _). Inr sv) else Inr sv) ready" if "ready sv" for sv b
    by (intro rall_if keeps_rbind [OF ready_mjpg_live_config] rall_Inr that; assumption)
       (intro rall_if keeps_rbind [OF ready_audio_live_config] rall_Inr that; assumption)
  show ?thesis
    unfolding spook_config_def Let_def
    by (intro keeps_rbind [OF ready_frameheap [OF assms]] keeps_rbind [OF ready_port] keeps_rbind [OF ready_jpeg_config]
        rall_if want rall_prod rall_rbind_via [OF live(1)] rall_rbind_via [OF live(2)]) (auto simp: rall_Inr)
qed

lemma ready_initial: "ready (spook_init initial_server)"
  by (auto simp: ready_def spook_init_def jpeg_init_def alaw_init_def live_init_def register_config_context_def initial_server_def
      initial_world_def idle_def idle_parts has_flag_def wf_streams_def dstream_def)

lemma ready_server_main: "server_main F opts = Inr (Some sv) \<Longrightarrow> ready sv"
  by (auto simp: server_main_def rbind_eq_Inr split: option.splits if_splits dest!: ready_spook_config [OF ready_initial, THEN rallD])

text \<open>The server that \<open>main\<close> starts is well-formed.\<close>

lemma started_wf:
  assumes "server_main F opts = Inr (Some sv)"
  shows "wf (sv_world sv)" "stripped (w_loop (sv_world sv))"
  using idle_wf [OF ready_idle [OF ready_server_main [OF assms]]] by simp_all

end
