(* ===== verification/Boot.thy ===== *)
theory Boot
  imports Startup
begin

text \<open>
  \<^verbatim>\<open>main\<close> reaches the event loop. The tables of directives are evaluated here on the directives the program itself writes,
  and the configuration is followed from the start: the frame heap, the port, the JPEG encoder, the A-law encoder and the
  live source with its two tracks. Together with \<open>Startup\<close> and \<open>Running\<close> this gives the two theorems on the
  whole program: it starts, and while it runs it never touches a freed object.
\<close>

section \<open>The tables\<close>

lemma names:
  "\<not> strcaseeq ''jpeg_packet'' ''overlapping''" "\<not> strcaseeq ''jpeg_height'' ''overlapping''" "\<not> strcaseeq ''jpeg_height'' ''jpeg_packet''"
  "\<not> strcaseeq ''vin_planner_width'' ''vin_packet_height''"
  "strcaseeq ''track'' ''Track''" "strcaseeq ''path'' ''Path''" "\<not> strcaseeq ''conn'' ''Path''" "\<not> strcaseeq ''path'' ''conn''"
  "\<not> strcaseeq ''jpeg'' ''alaw''"
  by code_simp+

lemmas found_simps = args_fit_def tok_type_def strcaseeq_length names

lemma jpeg_found:
  "find_statement jpeg_statements ''output'' [Tok_str s] = Some D_jpeg_output"
  "find_statement jpeg_statements ''bitrate'' [Tok_num n] = Some D_jpeg_bitrate"
  "find_statement jpeg_statements ''pipe'' [Tok_num n] = Some D_jpeg_pipe"
  "find_statement jpeg_statements ''vin_planner_width'' [Tok_num n] = Some D_vin_planner_width"
  "find_statement jpeg_statements ''vin_planner_height'' [Tok_num n] = Some D_vin_planner_height"
  "find_statement jpeg_statements ''vin_packet_width'' [Tok_num n] = Some D_vin_packet_width"
  "find_statement jpeg_statements ''vin_packet_height'' [Tok_num n] = Some D_vin_packet_height"
  "find_statement jpeg_statements ''jpeg_width'' [Tok_num n] = Some D_jpeg_width"
  "find_statement jpeg_statements ''jpeg_height'' [Tok_num n] = Some D_jpeg_height"
  "find_statement jpeg_statements ''jpeg_packet'' [Tok_num n] = Some D_jpeg_packet"
  "find_statement jpeg_statements ''overlapping'' [Tok_num n] = Some D_overlapping"
  by (simp_all add: jpeg_statements_def found_simps)

lemma alaw_found: "find_statement alaw_statements ''output'' [Tok_str s] = Some D_alaw_output"
  by (simp_all add: alaw_statements_def found_simps)

lemma live_found:
  "find_statement live_statements ''Track'' [Tok_str s] = Some D_live_track"
  "find_statement live_statements ''Path'' [Tok_str s] = Some D_live_path"
  "find_statement live_statements ''mtu'' [Tok_num n] = Some D_live_mtu"
  "find_statement live_statements ''conn'' [Tok_num n] = Some D_live_conn"
  by (simp_all add: live_statements_def found_simps)

lemma contexts_found:
  assumes "sv_contexts sv = [jpeg_cc, alaw_cc, live_cc]"
  shows "find_context sv ''encoder'' ''jpeg'' = Some jpeg_cc" "find_context sv ''encoder'' ''alaw'' = Some alaw_cc"
    "find_context sv ''rtsp-handler'' ''live'' = Some live_cc"
  using assms by (simp_all add: find_context_def global_context_def found_simps)

lemma statement_found:
  assumes "find_statement (cc_statements cc) name args = Some p"
  shows "run_context_statement F sv cc (Some d) (Tok_str name # args) = rbind (run_directive F sv p (Some d) (Tok_str name # args)) (\<lambda>(sv, _). Inr (sv, 0))"
  using assms by (simp add: run_context_statement_def process_statement_def)

lemma toks [simp]: "tok_num [t, Tok_num n] 1 = Inr n" "tok_str [t, Tok_str s] 1 = Inr s"
  "tok_num [t, Tok_num n] (Suc 0) = Inr n"  "tok_str [t, Tok_str s] (Suc 0) = Inr s"
  by (simp_all add: tok_num_def tok_str_def aget_def)

section \<open>The encoders\<close>

abbreviation encoder_stream :: "string \<Rightarrow> int \<Rightarrow> fptr \<Rightarrow> stream" where
  "encoder_stream name fmt pipes \<equiv> \<lparr>st_name = name, st_format = fmt, st_dest_list = [], st_get_framerate = F_driver,
     st_set_running = F_driver, st_new_listener_notify = F_null, st_get_enc_pipe_num = pipes, st_private = None\<rparr>"

definition configured :: "server \<Rightarrow> (nat \<Rightarrow> stream option) \<Rightarrow> (nat \<Rightarrow> driver option) \<Rightarrow> nat \<Rightarrow> bool" where
  "configured sv ss ds n \<longleftrightarrow> sv_contexts sv = [jpeg_cc, alaw_cc, live_cc] \<and>
     w_streams (sv_world sv) = \<lparr>st_streams = ss, st_dests = \<lambda>_. None, stream_list = rev [0..<n], st_next = n, st_calls = []\<rparr> \<and>
     sv_driver sv = ds \<and> w_rtsp_locs (sv_world sv) = []"

text \<open>The event that waits for clients.\<close>

definition listening :: "(callback, nat) events \<Rightarrow> int \<Rightarrow> bool" where
  "listening l fd \<longleftrightarrow> (\<exists>ev < next_id l. ev \<in> set (fd_event_list l) \<and> has_flag l ev EVENT_F_ENABLED \<and>
     func (evs l ev) = Cb_do_accept \<and> efd (evs l ev) = fd \<and> \<not> ewrite (evs l ev))"

lemma event_world [simp]:
  "w_streams (snd (ev_add_fd w fd wr f d)) = w_streams w" "w_rtsp_locs (snd (ev_add_fd w fd wr f d)) = w_rtsp_locs w"
  "w_next (snd (ev_add_fd w fd wr f d)) = w_next w"
  by (simp_all add: ev_add_fd_def split: prod.split)

lemma listening_kept [simp]:
  assumes "listening (w_loop w) fd"
  shows "listening (w_loop (snd (ev_add_fd w fd' wr f d))) fd"
proof -
  let ?l = "w_loop (snd (ev_add_fd w fd' wr f d))"
  obtain ev where ev: "ev < next_id (w_loop w)" "ev \<in> set (fd_event_list (w_loop w))" "has_flag (w_loop w) ev EVENT_F_ENABLED"
    "func (evs (w_loop w) ev) = Cb_do_accept" "efd (evs (w_loop w) ev) = fd" "\<not> ewrite (evs (w_loop w) ev)"
    using assms unfolding listening_def by blast
  have same: "evs ?l ev = evs (w_loop w) ev"
    using ev(1) by (simp add: ev_add_fd_def add_fd_event_def new_event_def upd_def)
  have "ev < next_id ?l" "ev \<in> set (fd_event_list ?l)"
    using ev(1, 2) by (simp_all add: ev_add_fd_def add_fd_event_def new_event_def upd_def)
  moreover have "has_flag ?l ev EVENT_F_ENABLED" using ev(3) unfolding has_flag_def same .
  ultimately show ?thesis using ev(4-6) unfolding listening_def same [symmetric] by blast
qed

lemma listening_new [simp]: "listening (w_loop (snd (ev_add_fd w fd False Cb_do_accept d))) fd"
proof -
  have "eflags (evs (w_loop (snd (ev_add_fd w fd False Cb_do_accept d))) (next_id (w_loop w))) = EVENT_F_ENABLED"
    by (simp add: ev_add_fd_def add_fd_event_def new_event_def upd_def)
  moreover have "EVENT_F_ENABLED AND EVENT_F_ENABLED \<noteq> 0" by code_simp
  ultimately show ?thesis
    unfolding listening_def has_flag_def
    by (intro exI [of _ "next_id (w_loop w)"]) (simp add: ev_add_fd_def add_fd_event_def new_event_def upd_def)
qed

lemmas configured_simps = run_context_start_block_def run_start_block_def num_token_def statement_found run_directive_def non_null_def
  deref_def on_streams_def new_stream_def copy_name_def set_stream_def get_stream_def run_context_end_block_def run_end_block_def new_exchanger_def
  call_def

lemma jpeg_configured:
  assumes "configured sv (\<lambda>_. None) (\<lambda>_. None) 0" "m_uiNumMJPEGCams c = 1" "listening (w_loop (sv_world sv)) fd"
  shows "\<exists>sv' e. jpeg_config F sv c = Inr (sv', 0) \<and>
    configured sv' [0 \<mapsto> encoder_stream (quoted ''compressed0'') FORMAT_JPEG F_driver] [0 \<mapsto> Dr_jpeg e] 1 \<and>
    listening (w_loop (sv_world sv')) fd"
proof -
  have c: "find_context sv ''encoder'' ''jpeg'' = Some jpeg_cc" using assms(1) contexts_found by (simp add: configured_def)
  have d: "dec 0 = ''0''" by code_simp
  show ?thesis
    unfolding jpeg_config_def c
    using assms
    by (simp add: configured_def configured_simps jpeg_start_block_def Let_def jpeg_directives_def jpeg_found jpeg_set_output_def
        jpeg_set_def jpeg_end_block_def d quoted_def split: prod.split) blast
qed

lemma alaw_configured:
  assumes "configured sv [0 \<mapsto> x] [0 \<mapsto> d] 1" "listening (w_loop (sv_world sv)) fd"
  shows "\<exists>sv' e en. alaw_config F sv = Inr (sv', 0) \<and>
    configured sv' [0 \<mapsto> x, 1 \<mapsto> encoder_stream (quoted ''alaw'') FORMAT_ALAW F_null] [0 \<mapsto> d, 1 \<mapsto> Dr_alaw e] 2 \<and>
    sv_alaw sv' e = Some en \<and> al_channels en = 1 \<and> al_rate en = 8000 \<and> listening (w_loop (sv_world sv')) fd"
proof -
  have c: "find_context sv ''encoder'' ''alaw'' = Some alaw_cc" using assms(1) contexts_found by (simp add: configured_def)
  have n: "rev [0..<2] = [1, 0::nat]" by code_simp
  show ?thesis
    unfolding alaw_config_def audio_config_def c
    using assms
    by (simp add: configured_def configured_simps n alaw_start_block_def Let_def alaw_found alaw_set_output_def
        alaw_end_block_def quoted_def split: prod.split) (rule exI [of _ "w_next (sv_world sv)"], simp)
qed

section \<open>The live source\<close>

text \<open>The streams whose packetiser the program has.\<close>

definition media_known :: "server \<Rightarrow> nat \<Rightarrow> int \<Rightarrow> bool" where
  "media_known sv s fmt \<longleftrightarrow> fmt = FORMAT_JPEG \<and> (\<exists>e. sv_driver sv s = Some (Dr_jpeg e)) \<or>
     fmt = FORMAT_ALAW \<and> (\<exists>e en. sv_driver sv s = Some (Dr_alaw e) \<and> sv_alaw sv e = Some en \<and> al_channels en = 1 \<and> al_rate en = 8000)"

text \<open>The packetisers of the two formats: JPEG pictures, and A-law mono at 8000 Hz.\<close>

definition media_of :: "int \<Rightarrow> media \<Rightarrow> bool" where
  "media_of fmt m \<longleftrightarrow> fmt = FORMAT_JPEG \<and> (\<exists>v. m = Media_jpeg v) \<or>
     fmt = FORMAT_ALAW \<and> (\<exists>a. m = Media_rawaudio a \<and> ra_format a = FORMAT_ALAW \<and> ra_rate a = 8000 \<and> channels a = 1)"

lemma live_media_known:
  assumes "media_known sv s fmt" "st_streams (w_streams (sv_world sv)) s = Some x" "st_get_framerate x = F_driver"
  shows "\<exists>m. live_media F sv s fmt = Inr (Some m) \<and> media_of fmt m"
  using assms
  by (auto simp: media_known_def media_of_def live_media_def FORMAT_PCM_def FORMAT_ALAW_def FORMAT_ULAW_def get_stream_def driver_framerate_def non_null_def
      deref_def new_rtp_media_rawaudio_stream_def)

lemma set_waiting_new:
  assumes "st_dests st d = Some y" "\<not> de_waiting y" "st_streams st (de_stream y) = Some x" "st_set_running x = F_driver"
  shows "\<exists>st'. set_waiting st d True = Inr st' \<and> st_streams st' = st_streams st \<and> stream_list st' = stream_list st"
  using assms by (simp add: set_waiting_def update_waiting_def get_dest_def get_stream_def put_waiting_def call_driver_def)

lemma live_track_added:
  assumes src: "w_sources (sv_world sv) q = Some src" "used_tracks src \<noteq> MAX_TRACKS" "tr_rtp (so_track src ! used_tracks src) = None"
    and f: "find_match (w_streams (sv_world sv)) name live_formats (stream_list (w_streams (sv_world sv))) = Inr (Some s)"
    and x: "st_streams (w_streams (sv_world sv)) s = Some x" "st_set_running x = F_driver" "st_get_framerate x = F_driver"
    and m: "media_known sv s (st_format x)"
  shows "\<exists>d m st. live_set_track F sv q [tk, Tok_str name] =
      Inr (sv\<lparr>sv_world := (put_track (sv_world sv) q src (Some d) st (Some m))\<rparr>, 0) \<and> media_of (st_format x) m \<and>
      stream_list st = stream_list (w_streams (sv_world sv)) \<and>
      st_streams st = (st_streams (w_streams (sv_world sv)))(s \<mapsto> x\<lparr>st_dest_list := d # st_dest_list x\<rparr>)"
proof -
  let ?st = "w_streams (sv_world sv)" let ?d = "st_next ?st"
  let ?st1 = "?st\<lparr>st_streams := (st_streams ?st)(s \<mapsto> x\<lparr>st_dest_list := ?d # st_dest_list x\<rparr>),
     st_dests := (st_dests ?st)(?d \<mapsto> \<lparr>de_stream = s, de_waiting = False, de_process = To_live_track q (used_tracks src)\<rparr>), st_next := ?d + 1\<rparr>"
  let ?sv1 = "sv\<lparr>sv_world := put_track (sv_world sv) q src (Some ?d) ?st1 None\<rparr>"
  have c: "connect_to_stream ?st name To_convert (To_live_track q (used_tracks src)) live_formats = Inr (Some ?d, ?st1)"
    using f x by (simp add: connect_to_stream_def new_dest_def get_stream_def)
  have st: "w_streams (put_track w q src d st m) = st" for w d st m by (simp add: put_track_def put_source_def)
  obtain m where m: "live_media F ?sv1 s (st_format x) = Inr (Some m)" "media_of (st_format x) m"
    using live_media_known [of ?sv1 s "st_format x" "x\<lparr>st_dest_list := ?d # st_dest_list x\<rparr>" F] m x by (auto simp: media_known_def st)
  obtain st' where w: "set_waiting ?st1 ?d True = Inr st'" "st_streams st' = st_streams ?st1" "stream_list st' = stream_list ?st1"
    using set_waiting_new [of ?st1 ?d "\<lparr>de_stream = s, de_waiting = False, de_process = To_live_track q (used_tracks src)\<rparr>"
        "x\<lparr>st_dest_list := ?d # st_dest_list x\<rparr>"] x by auto
  have p: "(put_track (sv_world sv) q src d st m)\<lparr>w_streams := st'\<rparr> = put_track (sv_world sv) q src d st' m" for d st m
    by (simp add: put_track_def put_source_def)
  have "live_set_track F sv q [tk, Tok_str name] = Inr (sv\<lparr>sv_world := put_track (sv_world sv) q src (Some ?d) st' (Some m)\<rparr>, 0)"
    unfolding live_set_track_unfold [OF src] using c m(1) w x st p
    by (simp add: get_dest_def get_stream_def on_world_def stream_do_def)
  then show ?thesis using w m(2) by auto
qed

lemma live_directives:
  "run_directive F sv D_live_path (Some d) ts = live_set_path F sv d ts" "run_directive F sv D_live_track (Some d) ts = live_set_track F sv d ts"
  "run_directive F sv D_live_mtu (Some d) ts = live_set_mtu sv d ts" "run_directive F sv D_live_conn (Some d) ts = live_set_conn sv d ts"
  by (simp_all add: run_directive_def non_null_def)

lemma live_set_known:
  "w_sources (sv_world sv) q = Some src \<Longrightarrow> live_set sv q [t, Tok_num n] f = Inr (sv\<lparr>sv_world := put_source (sv_world sv) q (f n src)\<rparr>, 0)"
  by (simp add: live_set_def deref_def)

lemma live_configured:
  assumes conf: "configured sv [0 \<mapsto> encoder_stream (quoted ''compressed0'') FORMAT_JPEG F_driver,
      1 \<mapsto> encoder_stream (quoted ''alaw'') FORMAT_ALAW F_null] [0 \<mapsto> Dr_jpeg e, 1 \<mapsto> Dr_alaw e'] 2"
    and al: "sv_alaw sv e' = Some en" "al_channels en = 1" "al_rate en = 8000"
    and c: "m_uiNumMJPEGCams c = 1" "m_szMJPGCamPath c = Some ''/cam1/mpeg4''" "m_szAuthRealm c = None" "m_eMJPGCamAudio c = eRTSP_AUDIOMASK_ALAW"
    "m_auiMJPGMaxConnNum c = replicate 4 2"
  shows "\<exists>sv' rc loc src. mjpg_live_config F sv c = Inr (sv', rc) \<and> w_rtsp_locs (sv_world sv') = [loc] \<and>
    str_at (lo_path loc) 0 = Inr ''/cam1/mpeg4'' \<and> w_sources (sv_world sv') (lo_private loc) = Some src \<and> used_tracks src = MAX_TRACKS \<and>
    (\<exists>v a. map tr_rtp (so_track src) = [Some v, Some a] \<and> media_of FORMAT_JPEG v \<and> media_of FORMAT_ALAW a) \<and>
    w_loop (sv_world sv') = w_loop (sv_world sv)"
proof -
  have cc: "find_context sv ''rtsp-handler'' ''live'' = Some live_cc" using conf contexts_found by (simp add: configured_def)
  have n: "rev [0..<2] = [1, 0::nat]" by code_simp
  have d: "dec 0 = ''0''" by code_simp
  let ?none = "\<lparr>tr_stream = None, tr_ready = False, tr_rtp = None\<rparr>"
  let ?src = "\<lparr>so_sess_list = [], so_track = [?none, ?none], so_max_trans_size = 1400, so_max_conn = 0xFFFFFFFF, so_cur_conn = 0\<rparr>"
  define w q where "w = sv_world sv" and "q = w_next w"
  define sv1 where "sv1 = sv\<lparr>sv_world := put_source (w\<lparr>w_next := q + 1\<rparr>) q ?src\<rparr>"
  have start: "run_context_start_block F sv live_cc = (Some q, sv1)"
    by (simp add: run_context_start_block_def run_start_block_def live_start_block_def Let_def sv1_def q_def w_def numeral_2_eq_2)
  obtain loc where loc: "live_set_path F sv1 q [Tok_str ''Path'', Tok_str ''/cam1/mpeg4''] = Inr (sv1\<lparr>sv_world := (sv_world sv1)\<lparr>
      w_calls := w_calls (sv_world sv1) + 1, w_rtsp_locs := [loc]\<rparr>\<rparr>, 0)" "lo_private loc = q" "str_at (lo_path loc) 0 = Inr ''/cam1/mpeg4''"
    using conf by (simp add: live_set_path_def call_def Let_def on_world_def new_rtsp_location_def store_string_def sv1_def put_source_def
        configured_def w_def str_at_def)
  define sv2 where "sv2 = sv1\<lparr>sv_world := (sv_world sv1)\<lparr>w_calls := w_calls (sv_world sv1) + 1, w_rtsp_locs := [loc]\<rparr>\<rparr>"
  have sv2: "w_sources (sv_world sv2) q = Some ?src" "w_streams (sv_world sv2) = w_streams w" "sv_driver sv2 = sv_driver sv" "sv_alaw sv2 = sv_alaw sv"
    by (simp_all add: sv2_def sv1_def put_source_def w_def)
  obtain d m st where t1: "live_set_track F sv2 q [Tok_str ''Track'', Tok_str (quoted ''compressed0'')] =
      Inr (sv2\<lparr>sv_world := (put_track (sv_world sv2) q ?src (Some d) st (Some m))\<rparr>, 0)" "media_of FORMAT_JPEG m"
    "stream_list st = stream_list (w_streams w)" 
    "st_streams st = (st_streams (w_streams w))(0 \<mapsto> (encoder_stream (quoted ''compressed0'') FORMAT_JPEG F_driver)\<lparr>st_dest_list := [d]\<rparr>)"
    using live_track_added [OF sv2(1), of "quoted ''compressed0''" 0 "encoder_stream (quoted ''compressed0'') FORMAT_JPEG F_driver" F "Tok_str ''Track''"] conf
    by (auto simp: sv2(2-) used_tracks_def configured_def w_def n get_stream_def quoted_def format_match_def live_formats_def media_known_def)
  let ?src1 = "?src\<lparr>so_track := [\<lparr>tr_stream = Some d, tr_ready = False, tr_rtp = Some m\<rparr>, ?none]\<rparr>"
  define sv3 where "sv3 = sv2\<lparr>sv_world := (put_track (sv_world sv2) q ?src (Some d) st (Some m))\<rparr>"
  have sv3: "w_sources (sv_world sv3) q = Some ?src1" "w_streams (sv_world sv3) = st" "sv_driver sv3 = sv_driver sv" "sv_alaw sv3 = sv_alaw sv"
    by (simp_all add: sv3_def put_track_def put_source_def used_tracks_def sv2)
  obtain d' m' st' where t2: "live_set_track F sv3 q [Tok_str ''Track'', Tok_str (quoted ''alaw'')] =
      Inr (sv3\<lparr>sv_world := (put_track (sv_world sv3) q ?src1 (Some d') st' (Some m'))\<rparr>, 0)" "media_of FORMAT_ALAW m'"
    using live_track_added [OF sv3(1), of "quoted ''alaw''" 1 "encoder_stream (quoted ''alaw'') FORMAT_ALAW F_null" F "Tok_str ''Track''"] conf al t1
    by (auto simp: sv3(2-) used_tracks_def configured_def w_def n get_stream_def quoted_def format_match_def live_formats_def media_known_def)
  let ?src2 = "?src1\<lparr>so_track := [\<lparr>tr_stream = Some d, tr_ready = False, tr_rtp = Some m\<rparr>, \<lparr>tr_stream = Some d', tr_ready = False, tr_rtp = Some m'\<rparr>]\<rparr>"
  define sv4 where "sv4 = sv3\<lparr>sv_world := (put_track (sv_world sv3) q ?src1 (Some d') st' (Some m'))\<rparr>"
  have sv4: "w_sources (sv_world sv4) q = Some ?src2" "w_rtsp_locs (sv_world sv4) = [loc]"
    by (simp_all add: sv4_def sv3_def sv2_def put_track_def put_source_def used_tracks_def)
  define sv5 where "sv5 = sv4\<lparr>sv_world := put_source (sv_world sv4) q (?src2\<lparr>so_max_trans_size := sint (m_uiRTPDataTransSize c)\<rparr>)\<rparr>"
  have sv5: "w_sources (sv_world sv5) q = Some (?src2\<lparr>so_max_trans_size := sint (m_uiRTPDataTransSize c)\<rparr>)"
    by (simp add: sv5_def put_source_def)
  define sv6 where "sv6 = sv5\<lparr>sv_world := put_source (sv_world sv5) q (?src2\<lparr>so_max_trans_size := sint (m_uiRTPDataTransSize c), so_max_conn := 2\<rparr>)\<rparr>"
  have "mjpg_directives c 0 2 = [[Tok_str ''Track'', Tok_str (quoted ''compressed0'')], [Tok_str ''Track'', Tok_str (quoted ''alaw'')],
      [Tok_str ''mtu'', Tok_num (sint (m_uiRTPDataTransSize c))], [Tok_str ''conn'', Tok_num 2]]"
    using c d by (simp add: mjpg_directives_def Let_def audio_track_def num_token_def)
  moreover have "live_set_mtu sv4 q [Tok_str ''mtu'', Tok_num (sint (m_uiRTPDataTransSize c))] = Inr (sv5, 0)"
    unfolding live_set_mtu_def live_set_known [OF sv4(1)] sv5_def by simp
  moreover have "live_set_conn sv5 q [Tok_str ''conn'', Tok_num 2] = Inr (sv6, 0)"
    unfolding live_set_conn_def live_set_known [OF sv5] sv6_def by simp
  ultimately have run: "run_statements F sv1 live_cc (Some q) ([Tok_str ''Path'', Tok_str ''/cam1/mpeg4''] # mjpg_directives c 0 2) = Inr sv6"
    by (simp add: statement_found live_found live_directives loc(1) [folded sv2_def] t1(1) [folded sv3_def] t2(1) [folded sv4_def])
  have sv6: "w_sources (sv_world sv6) q = Some (?src2\<lparr>so_max_trans_size := sint (m_uiRTPDataTransSize c), so_max_conn := 2\<rparr>)"
    "w_rtsp_locs (sv_world sv6) = [loc]"
    by (simp_all add: sv6_def sv5_def put_source_def sv4)
  have "mjpg_live_config F sv c = Inr (sv6, 0)"
    unfolding mjpg_live_config_def cc
    using c run start by (simp add: mjpg_path_def path_directive_def str_token_def aget_def run_context_end_block_def run_end_block_def
        live_end_block_def deref_def sv6 del: run_statements.simps)
  moreover have "w_loop (sv_world sv6) = w_loop (sv_world sv)"
    by (simp add: sv6_def sv5_def sv4_def sv3_def sv2_def sv1_def w_def put_source_def put_track_def)
  moreover have "map tr_rtp (so_track (?src2\<lparr>so_max_trans_size := sint (m_uiRTPDataTransSize c), so_max_conn := 2\<rparr>)) = [Some m, Some m']" by simp
  ultimately show ?thesis using sv6 loc t1(2) t2(2)
    by (intro exI [of _ sv6] exI [of _ 0] exI [of _ loc]
        exI [of _ "?src2\<lparr>so_max_trans_size := sint (m_uiRTPDataTransSize c), so_max_conn := 2\<rparr>"] conjI exI [of _ m] exI [of _ m'])
      (simp_all add: used_tracks_def)
qed

text \<open>The options do not change what decides about the flow of the configuration.\<close>

lemma options_keep:
  assumes "apply_options c opts = Some c'"
  shows "m_uiNumMJPEGCams c' = m_uiNumMJPEGCams c" "m_szMJPGCamPath c' = m_szMJPGCamPath c" "m_szAuthRealm c' = m_szAuthRealm c"
    "m_eMJPGCamAudio c' = m_eMJPGCamAudio c" "m_eH264CamAudio c' = m_eH264CamAudio c" "m_eAudioStreamAudio c' = m_eAudioStreamAudio c"
    "m_uiFrameCnt c' = m_uiFrameCnt c"
proof -
  have "m_uiNumMJPEGCams c' = m_uiNumMJPEGCams c \<and> m_szMJPGCamPath c' = m_szMJPGCamPath c \<and> m_szAuthRealm c' = m_szAuthRealm c \<and>
    m_eMJPGCamAudio c' = m_eMJPGCamAudio c \<and> m_eH264CamAudio c' = m_eH264CamAudio c \<and> m_eAudioStreamAudio c' = m_eAudioStreamAudio c \<and>
    m_uiFrameCnt c' = m_uiFrameCnt c"
    using assms by (induction opts arbitrary: c) (auto simp: apply_option_def split: option.splits prod.splits if_splits)
  then show "m_uiNumMJPEGCams c' = m_uiNumMJPEGCams c" "m_szMJPGCamPath c' = m_szMJPGCamPath c" "m_szAuthRealm c' = m_szAuthRealm c"
    "m_eMJPGCamAudio c' = m_eMJPGCamAudio c" "m_eH264CamAudio c' = m_eH264CamAudio c" "m_eAudioStreamAudio c' = m_eAudioStreamAudio c"
    "m_uiFrameCnt c' = m_uiFrameCnt c" by simp_all
qed

lemma port_configured:
  assumes "configured sv ss ds n" "cf_socket F (w_calls (sv_world sv)) \<ge> 0" "cf_bind F (w_calls (sv_world sv))" "cf_listen F (w_calls (sv_world sv))"
    "0 < p" "p \<le> 65535"
  shows "\<exists>sv'. conf_port F sv [t, Tok_num p] = Inr (sv', 0) \<and> configured sv' ss ds n \<and>
    listening (w_loop (sv_world sv')) (cf_socket F (w_calls (sv_world sv)))"
  using assms by (simp add: conf_port_def call_def Let_def config_port_def tcp_listen_def configured_def)

section \<open>The program\<close>

lemma main_reaches_loop:
  assumes opts: "apply_options default_config opts \<noteq> None" and F: "cf_urandom F" "cf_socket F 0 \<ge> 0" "cf_bind F 0" "cf_listen F 0"
  shows "\<exists>sv loc src. server_main F opts = Inr (Some sv) \<and> listening (w_loop (sv_world sv)) (cf_socket F 0) \<and>
    w_rtsp_locs (sv_world sv) = [loc] \<and> str_at (lo_path loc) 0 = Inr ''/cam1/mpeg4'' \<and>
    w_sources (sv_world sv) (lo_private loc) = Some src \<and> used_tracks src = MAX_TRACKS \<and>
    (\<exists>v a. map tr_rtp (so_track src) = [Some (Media_jpeg v), Some (Media_rawaudio a)] \<and>
       ra_format a = FORMAT_ALAW \<and> ra_rate a = 8000 \<and> channels a = 1)"
proof -
  obtain c0 where c0: "apply_options default_config opts = Some c0" using opts by auto
  define c where "c = complete_config c0"
  have C: "m_uiNumMJPEGCams c = 1" "m_szMJPGCamPath c = Some ''/cam1/mpeg4''" "m_szAuthRealm c = None" "m_eMJPGCamAudio c = eRTSP_AUDIOMASK_ALAW"
    "m_auiMJPGMaxConnNum c = replicate 4 2" "m_eH264CamAudio c = 0" "m_eAudioStreamAudio c = 0" "m_uiFrameCnt c = 8"
    using options_keep [OF c0] by (simp_all add: c_def complete_config_def default_config_def)
  obtain sv1 where s1: "config_frameheap (spook_init initial_server) [Tok_num 0, num_token (m_uiFrameCnt c), num_token (m_uiFrameSize c)] = Inr (sv1, 0)"
    "configured sv1 (\<lambda>_. None) (\<lambda>_. None) 0" "w_calls (sv_world sv1) = 0"
    using C(8) by (simp add: config_frameheap_def num_token_def tok_num_def aget_def configured_def spook_init_def jpeg_init_def alaw_init_def live_init_def
        register_config_context_def initial_server_def initial_world_def)
  obtain sv2 where s2: "conf_port F sv1 [Tok_num 0, Tok_num 554] = Inr (sv2, 0)" "configured sv2 (\<lambda>_. None) (\<lambda>_. None) 0"
    "listening (w_loop (sv_world sv2)) (cf_socket F 0)"
    using port_configured [OF s1(2), of F 554 "Tok_num 0"] F s1(3) by auto
  obtain sv3 e where s3: "jpeg_config F sv2 c = Inr (sv3, 0)"
    "configured sv3 [0 \<mapsto> encoder_stream (quoted ''compressed0'') FORMAT_JPEG F_driver] [0 \<mapsto> Dr_jpeg e] 1"
    "listening (w_loop (sv_world sv3)) (cf_socket F 0)"
    using jpeg_configured [OF s2(2) C(1) s2(3)] by blast
  obtain sv4 e' en where s4: "alaw_config F sv3 = Inr (sv4, 0)"
    "configured sv4 [0 \<mapsto> encoder_stream (quoted ''compressed0'') FORMAT_JPEG F_driver,
       1 \<mapsto> encoder_stream (quoted ''alaw'') FORMAT_ALAW F_null] [0 \<mapsto> Dr_jpeg e, 1 \<mapsto> Dr_alaw e'] 2"
    "sv_alaw sv4 e' = Some en" "al_channels en = 1" "al_rate en = 8000" "listening (w_loop (sv_world sv4)) (cf_socket F 0)"
    using alaw_configured [OF s3(2, 3)] by blast
  obtain sv5 rc loc src v a where s5: "mjpg_live_config F sv4 c = Inr (sv5, rc)" "w_rtsp_locs (sv_world sv5) = [loc]"
    "str_at (lo_path loc) 0 = Inr ''/cam1/mpeg4''" "w_sources (sv_world sv5) (lo_private loc) = Some src" "used_tracks src = MAX_TRACKS"
    "map tr_rtp (so_track src) = [Some v, Some a]" "media_of FORMAT_JPEG v" "media_of FORMAT_ALAW a"
    "w_loop (sv_world sv5) = w_loop (sv_world sv4)"
    using live_configured [OF s4(2-5) C(1-5), of F] by (elim exE conjE) (rule that)
  have "spook_config F (spook_init initial_server) c = Inr (sv5, 0)"
    using s1(1) s2(1) s3(1) s4(1) s5(1) C by (simp add: spook_config_def want_audio_def Let_def)
  then have "server_main F opts = Inr (Some sv5)" using c0 F(1) by (simp add: server_main_def c_def)
  moreover have "\<exists>v a. map tr_rtp (so_track src) = [Some (Media_jpeg v), Some (Media_rawaudio a)] \<and>
      ra_format a = FORMAT_ALAW \<and> ra_rate a = 8000 \<and> channels a = 1"
    using s5(6-8) by (auto simp: media_of_def FORMAT_ALAW_def)
  ultimately show ?thesis using s4(6) s5 by auto
qed

text \<open>A platform on which every call succeeds; it is where the theorems are applied.\<close>

definition example_platform :: confenv where
  "example_platform = \<lparr>cf_socket = \<lambda>_. 3, cf_bind = \<lambda>_. True, cf_listen = \<lambda>_. True, cf_pipe = \<lambda>_. 4, cf_memory = \<lambda>_ _. NUL,
     cf_jpeg = \<lparr>j_type = 0, j_q = 0, j_width = 0, j_height = 0, luma_table = 0, chroma_table = 0, quant = replicate 16 None,
       scan_data = 0, scan_data_len = 0, init_done = False, j_ts_incr = 0, j_timestamp = 0, bHasDRI = False, DRI = 0\<rparr>, cf_urandom = True\<rparr>"

definition example_os :: osenv where
  "example_os = \<lparr>o_clock = \<lambda>_. \<lparr>tv_sec = 0, tv_usec = 0\<rparr>, o_time = \<lambda>_. 0, o_random = \<lambda>_ _. 0, o_reads = \<lambda>_. [], o_writes = \<lambda>_. [],
     o_sends = \<lambda>_. 0, o_udp = \<lambda>_. \<lparr>os_socket = \<lambda>_. -1, os_bind = \<lambda>_ _. Bound, os_connect = \<lambda>_. True, os_sockname = None\<rparr>,
     o_udp_read = \<lambda>_. (0, []), o_accept = \<lambda>_. Some (5, ''10.0.0.2''), o_memory = \<lambda>_ _. NUL, o_exchanger = \<lambda>_. None,
     o_new_frame = \<lambda>_. None, o_stack = \<lparr>buf = [], bits0 = 0, bits1 = 0, inb = []\<rparr>\<rparr>"

lemma example_platform_starts: "\<exists>sv. server_main example_platform [] = Inr (Some sv)"
  using main_reaches_loop [of "[]" example_platform] by (auto simp: example_platform_def)

text \<open>C1. Memory safety of the program. Whatever the options, whatever the system answers and in whatever order the
  descriptors become ready, no callback, request, teardown or frame delivery dereferences a session, live session, source,
  RTSP session, endpoint, connection, HTTP location, stream or destination that was freed. Frames and messages are values of
  the model, not heap objects, and a run that meets another fault (a null pointer, an access out of bounds) ends there: the
  theorem says that this first fault is never a use after free.\<close>

theorem no_use_after_free:
  assumes "server_main F opts = Inr (Some sv)"
  shows "server_loop E sels (sv_world sv) \<noteq> Inl UseAfterFree"
proof
  assume "server_loop E sels (sv_world sv) = Inl UseAfterFree"
  then show False using safe_server_loop [OF started_wf [OF assms], of E sels] by (simp add: safe_def)
qed

theorem no_use_after_free_witness:
  "\<exists>sv. server_main example_platform [] = Inr (Some sv) \<and>
     server_loop example_os [\<lambda>_. \<lparr>ret = 1, rfds = \<lambda>fd. fd = 3, wfds = \<lambda>_. False\<rparr>] (sv_world sv) \<noteq> Inl UseAfterFree"
  using example_platform_starts no_use_after_free by blast

text \<open>C2. The server comes up. With options the program accepts, an entropy source (\<^verbatim>\<open>/dev/urandom\<close> can be opened) and a
  socket that can be bound and listened on, \<open>main\<close> reaches the event loop without a fault; then the socket is watched for
  clients, and the one location \<^verbatim>\<open>/cam1/mpeg4\<close> has a source with two tracks: track 0 sends JPEG video and track 1 A-law
  audio, mono at 8000 Hz.\<close>

theorem server_starts:
  assumes opts: "apply_options default_config opts \<noteq> None" and F: "cf_urandom F" "cf_socket F 0 \<ge> 0" "cf_bind F 0" "cf_listen F 0"
  shows "\<exists>sv loc src. server_main F opts = Inr (Some sv) \<and> listening (w_loop (sv_world sv)) (cf_socket F 0) \<and>
    w_rtsp_locs (sv_world sv) = [loc] \<and> str_at (lo_path loc) 0 = Inr ''/cam1/mpeg4'' \<and>
    w_sources (sv_world sv) (lo_private loc) = Some src \<and> used_tracks src = MAX_TRACKS \<and>
    (\<exists>v a. map tr_rtp (so_track src) = [Some (Media_jpeg v), Some (Media_rawaudio a)] \<and>
       ra_format a = FORMAT_ALAW \<and> ra_rate a = 8000 \<and> channels a = 1)"
  by (rule main_reaches_loop [OF assms])

theorem server_starts_witness:
  "\<exists>sv loc src. server_main example_platform [(CHR ''w'', ''320'')] = Inr (Some sv) \<and> listening (w_loop (sv_world sv)) 3 \<and>
    w_rtsp_locs (sv_world sv) = [loc] \<and> str_at (lo_path loc) 0 = Inr ''/cam1/mpeg4'' \<and>
    w_sources (sv_world sv) (lo_private loc) = Some src \<and> used_tracks src = MAX_TRACKS \<and>
    (\<exists>v a. map tr_rtp (so_track src) = [Some (Media_jpeg v), Some (Media_rawaudio a)] \<and>
       ra_format a = FORMAT_ALAW \<and> ra_rate a = 8000 \<and> channels a = 1)"
proof -
  have "apply_options default_config [(CHR ''w'', ''320'')] \<noteq> None" by code_simp
  from server_starts [OF this, of example_platform] show ?thesis by (simp add: example_platform_def)
qed

section \<open>The sizes of the options\<close>

lemma and_not_7_mod: "(n AND NOT 7) mod 8 = (0 :: u32)"
proof -
  have "(n AND NOT 7) mod 8 = take_bit 3 (n AND NOT 7)" by (simp add: take_bit_eq_mod)
  also have "\<dots> = (n AND NOT 7) AND mask 3" by (simp only: take_bit_eq_mask)
  also have "mask 3 = (7 :: u32)" by (simp add: mask_eq_exp_minus_1)
  also have "(n AND NOT 7) AND 7 = 0" by (simp add: and.assoc)
  finally show ?thesis .
qed

lemma option_size_aligned:
  assumes "option_size arg = Some n"
  shows "n mod 8 = 0"
proof (cases "atoi arg = 0")
  case True
  then show ?thesis using assms by (simp add: option_size_def)
next
  case False
  show ?thesis
  proof (cases "atoi arg mod 8 = 0")
    case True
    then have "option_size arg = Some (atoi arg)" using False by (simp add: option_size_def)
    then show ?thesis using assms True by simp
  next
    case False2: False
    have "option_size arg = Some (atoi arg AND NOT 7)"
      unfolding option_size_def Let_def using False False2 by (simp only: if_False if_True not_False_eq_True)
    then have "n = atoi arg AND NOT 7" using assms by (simp only: option.inject)
    then show ?thesis by (simp only: and_not_7_mod)
  qed
qed

text \<open>The six sizes of a configuration.\<close>

definition sizes :: "rtsp_config \<Rightarrow> u32 list" where
  "sizes c = [m_uiVinPlannerWidth c, m_uiVinPlannerHeight c, m_uiVinPacketWidth c, m_uiVinPacketHeight c, m_uiJpegWidth c, m_uiJpegHeight c]"

definition aligned :: "rtsp_config \<Rightarrow> bool" where
  "aligned c \<longleftrightarrow> (\<forall>n \<in> set (sizes c). n mod 8 = 0)"

lemma aligned_update:
  assumes "aligned c" "n mod 8 = 0"
  shows "aligned (c\<lparr>m_uiVinPlannerWidth := n\<rparr>)" "aligned (c\<lparr>m_uiVinPlannerHeight := n\<rparr>)" "aligned (c\<lparr>m_uiVinPacketWidth := n\<rparr>)"
    "aligned (c\<lparr>m_uiVinPacketHeight := n\<rparr>)" "aligned (c\<lparr>m_uiJpegWidth := n\<rparr>)" "aligned (c\<lparr>m_uiJpegHeight := n\<rparr>)"
  using assms by (simp_all add: aligned_def sizes_def)

lemma aligned_other:
  assumes "aligned c"
  shows "aligned (c\<lparr>m_uiMJPGCamBitRate := b\<rparr>)" "aligned (c\<lparr>m_uiJpegPacketPipe := b\<rparr>)" "aligned (c\<lparr>m_uiOverlapping := b\<rparr>)"
  using assms by (simp_all add: aligned_def sizes_def)

lemma aligned_option:
  assumes "apply_option c opt = Some c'" "aligned c"
  shows "aligned c'"
proof -
  obtain ch arg where opt: "opt = (ch, arg)" by (cases opt)
  have size: "aligned c'" if "map_option f (option_size arg) = Some c'" "\<And>n. n mod 8 = 0 \<Longrightarrow> aligned (f n)" for f
    using that option_size_aligned by (cases "option_size arg") auto
  note upd = aligned_update [OF assms(2)] and other = aligned_other [OF assms(2)]
  have known: "ch \<in> {CHR ''w'', CHR ''d'', CHR ''x'', CHR ''y'', CHR ''i'', CHR ''e'', CHR ''b'', CHR ''p'', CHR ''o''}"
  proof (rule ccontr)
    assume "ch \<notin> {CHR ''w'', CHR ''d'', CHR ''x'', CHR ''y'', CHR ''i'', CHR ''e'', CHR ''b'', CHR ''p'', CHR ''o''}"
    then have "apply_option c opt = None" by (simp add: apply_option_def opt)
    then show False using assms(1) by simp
  qed
  consider (w) "ch = CHR ''w''" | (d) "ch = CHR ''d''" | (x) "ch = CHR ''x''" | (y) "ch = CHR ''y''" | (i) "ch = CHR ''i''"
    | (e) "ch = CHR ''e''" | (b) "ch = CHR ''b''" | (p) "ch = CHR ''p''" | (o) "ch = CHR ''o''"
    using known by blast
  then show ?thesis
  proof cases
    case w then show ?thesis using assms(1) size [OF _ upd(1)] by (simp add: apply_option_def opt)
  next
    case d then show ?thesis using assms(1) size [OF _ upd(2)] by (simp add: apply_option_def opt)
  next
    case x then show ?thesis using assms(1) size [OF _ upd(3)] by (simp add: apply_option_def opt)
  next
    case y then show ?thesis using assms(1) size [OF _ upd(4)] by (simp add: apply_option_def opt)
  next
    case i then show ?thesis using assms(1) size [OF _ upd(5)] by (simp add: apply_option_def opt)
  next
    case e then show ?thesis using assms(1) size [OF _ upd(6)] by (simp add: apply_option_def opt)
  next
    case b
    then have "c' = c \<or> c' = c\<lparr>m_uiMJPGCamBitRate := atoi arg\<rparr>"
      using assms(1) by (simp add: apply_option_def opt split: if_splits)
    then show ?thesis using assms(2) other(1) by blast
  next
    case p then show ?thesis using assms(1) other(2) by (auto simp: apply_option_def opt)
  next
    case o then show ?thesis using assms(1) other(3) by (auto simp: apply_option_def opt)
  qed
qed

text \<open>C37. Every size the program runs with is a multiple of eight: no sequence of options makes it accept another one.\<close>

theorem option_sizes_multiple_of_8:
  assumes "apply_options default_config opts = Some c" "n \<in> set (sizes c)"
  shows "n mod 8 = 0"
proof -
  have "apply_options c0 opts = Some c \<Longrightarrow> aligned c0 \<Longrightarrow> aligned c" for c0
    by (induction opts arbitrary: c0) (auto split: option.splits dest: aligned_option)
  moreover have "aligned default_config" by (simp add: aligned_def sizes_def default_config_def)
  ultimately show ?thesis using assms unfolding aligned_def by blast
qed

theorem option_sizes_multiple_of_8_witness:
  "\<exists>c. apply_options default_config [(CHR ''w'', ''325'')] = Some c \<and> m_uiVinPlannerWidth c = 320 \<and> m_uiVinPlannerWidth c mod 8 = 0"
proof -
  have "option_size ''325'' = Some 320" by code_simp
  then have c: "apply_options default_config [(CHR ''w'', ''325'')] = Some (default_config\<lparr>m_uiVinPlannerWidth := 320\<rparr>)"
    by (simp add: apply_option_def)
  have "m_uiVinPlannerWidth (default_config\<lparr>m_uiVinPlannerWidth := 320\<rparr>) mod 8 = 0"
    by (rule option_sizes_multiple_of_8 [OF c]) (simp add: sizes_def)
  then show ?thesis using c by simp
qed

text \<open>C38. The test for an invalid size comes before the rounding: a width below eight is accepted and becomes zero, the value the
  test is there to refuse.\<close>

theorem small_width_accepted_as_zero:
  assumes "atoi arg \<noteq> 0" "atoi arg < 8"
  shows "\<exists>c. apply_options default_config [(CHR ''w'', arg)] = Some c \<and> m_uiVinPlannerWidth c = 0"
proof -
  have small: "unat (atoi arg) < 8" using assms(2) by (simp add: word_less_nat_alt)
  have "atoi arg mod 8 = atoi arg" using small by (simp add: word_arith_nat_mod)
  moreover have "atoi arg AND NOT 7 = 0"
  proof -
    have "atoi arg = take_bit 3 (atoi arg)" using \<open>atoi arg mod 8 = atoi arg\<close> by (simp add: take_bit_eq_mod)
    then have "atoi arg = atoi arg AND mask 3" by (simp only: take_bit_eq_mask)
    moreover have "mask 3 = (7 :: u32)" by (simp add: mask_eq_exp_minus_1)
    ultimately have "atoi arg AND NOT 7 = (atoi arg AND 7) AND NOT 7" by simp
    then show ?thesis by (simp add: and.assoc)
  qed
  ultimately have "option_size arg = Some 0" using assms(1) by (simp add: option_size_def Let_def)
  then show ?thesis by (simp add: apply_option_def)
qed

theorem small_width_accepted_as_zero_witness:
  "\<exists>c. apply_options default_config [(CHR ''w'', ''5'')] = Some c \<and> m_uiVinPlannerWidth c = 0"
proof -
  have "atoi ''5'' \<noteq> 0" "atoi ''5'' < 8" by code_simp+
  then show ?thesis by (rule small_width_accepted_as_zero)
qed

end
