(* ===== verification/Delivery.thy ===== *)
theory Delivery
  imports Config
begin

text \<open>
  The way of a picture through the whole program: from the exchanger of the encoder (\<^verbatim>\<open>encoder-jpeg.c\<close>) through its stream
  (\<^verbatim>\<open>stream.c\<close>), the live source (\<^verbatim>\<open>live.c\<close>) and the packetiser (\<^verbatim>\<open>rtp-jpeg.c\<close>) to the RTP packets on the sockets of the
  clients (\<^verbatim>\<open>rtp.c\<close>). The first part shows that a packetiser treats every working sender alike, the second what
  \<open>send_rtp_packet\<close> does to the world over a working UDP socket, the third puts them together; the last part is about
  pictures that have no tables.
\<close>

section \<open>Packetisers and senders\<close>



section \<open>A working UDP socket\<close>

text \<open>What was sent on a descriptor.\<close>

definition sent_on :: "int \<Rightarrow> (int \<times> byte list) list \<Rightarrow> byte list list" where
  "sent_on fd out = map snd (filter (\<lambda>p. fst p = fd) out)"

lemma sent_on_append [simp]: "sent_on fd (a @ b) = sent_on fd a @ sent_on fd b"
  by (simp add: sent_on_def)









section \<open>Clients\<close>















section \<open>All clients\<close>








text \<open>A source with one client that plays the video track: the source 0, its session 1 with the live session 2 and the endpoint
  3, and the stream 4 with the destination 5.\<close>

definition playing_world :: world where
  "playing_world = initial_world\<lparr>
     w_sess := [1 \<mapsto> \<lparr>se_private = Some 2, se_control = None, se_open_time = \<lparr>tv_sec = 100, tv_usec = 0\<rparr>, se_addr = ''10.0.0.2'',
                      se_ep = [Some 3, None]\<rparr>],
     w_lives := [2 \<mapsto> \<lparr>ls_sess = 1, ls_source = 0, ls_playing = True\<rparr>],
     w_sources := [0 \<mapsto> \<lparr>so_sess_list = [2], so_track = [\<lparr>tr_stream = Some 5, tr_ready = True, tr_rtp = Some (Media_jpeg zeroed_jpeg)\<rparr>],
                      so_max_trans_size = 1400, so_max_conn = 2, so_cur_conn = 1\<rparr>],
     w_eps := [3 \<mapsto> sample_ep\<lparr>ep_session := 1\<rparr>],
     w_streams := \<lparr>st_streams = [4 \<mapsto> \<lparr>st_name = ''compressed0'', st_format = FORMAT_JPEG, st_dest_list = [5], st_get_framerate = F_driver,
           st_set_running = F_driver, st_new_listener_notify = F_null, st_get_enc_pipe_num = F_driver, st_private = None\<rparr>],
         st_dests = [5 \<mapsto> \<lparr>de_stream = 4, de_waiting = True, de_process = To_live_track 0 0\<rparr>],
         stream_list = [4], st_next = 6, st_calls = []\<rparr>, w_next := 4\<rparr>"

definition playing_os :: osenv where
  "playing_os = \<lparr>o_clock = \<lambda>_. \<lparr>tv_sec = 110, tv_usec = 0\<rparr>, o_time = \<lambda>_. 110, o_random = \<lambda>_ _. 0, o_reads = \<lambda>_. [], o_writes = \<lambda>_. [],
     o_sends = \<lambda>_. 0, o_udp = \<lambda>_. friendly_os, o_udp_read = \<lambda>_. (0, []), o_accept = \<lambda>_. None, o_memory = \<lambda>_ _. NUL,
     o_exchanger = \<lambda>_. Some (sample_picture, 1000), o_new_frame = \<lambda>_. None, o_stack = \<lparr>buf = [], bits0 = 0, bits1 = 0, inb = []\<rparr>\<rparr>"




section \<open>Pictures without tables\<close>

text \<open>C23. A picture without a frame header is accepted (\<^verbatim>\<open>jpeg_process_frame\<close> clears the table pointers and returns
  "ready" at the start of scan), and sending it hands a vector with NULL table pointers to the transport, for whatever
  table numbers an earlier picture left behind. On a UDP endpoint \<^verbatim>\<open>sendmsg\<close> fails, so the session's endpoint is torn down
  and \<open>jpeg_send\<close> returns -1: a working client is disconnected. On an interleaved endpoint whose connection has room for
  the packet, \<open>interleave_send\<close> reads through the NULL pointer.\<close>

theorem jpeg_no_frame_header_null:
  assumes "0 \<le> luma_table out" "luma_table out < 16" "0 \<le> chroma_table out" "chroma_table out < 16"
    and "length sos + 2 < 2 ^ 16" "scan \<noteq> []" "140 < maxds"
    and "fr = [0xFF, 0xD8] @ jpeg_seg 0xDA sos @ scan"
    and "w_eps w e = Some ep"
  shows "\<exists>out'. jpeg_process_frame fr (int (length fr)) ms out = Inr (out', True) \<and>
    (\<forall>a p fd v fd' v'. ep_trans ep = Trans_udp a p fd v fd' v' \<longrightarrow>
       jpeg_send (ep_send E e) maxds out' fr w =
         Some (rbind (live_teardown (w\<lparr>w_calls := w_calls w + 1, w_loop := (w_loop w)\<lparr>readings := readings (w_loop w) + 3\<rparr>\<rparr>)
                 (ep_session ep) (Some e)) (\<lambda>w'. Inr (w', -1)))) \<and>
    (\<forall>c ch ch' x. ep_trans ep = Trans_inter c ch ch' \<longrightarrow> w_conns w c = Some x \<longrightarrow> maxds + 16 \<le> avail_send_buf (c_ring x) \<longrightarrow>
       jpeg_send (ep_send E e) maxds out' fr w = Some (Inl NullDeref))"
proof -
  obtain out' iov m where o: "jpeg_process_frame fr (int (length fr)) ms out = Inr (out', True)" "list_ex iov_null iov"
      "int (length (iov_concat iov)) \<le> maxds"
    and f: "\<And>s f. ep_send E e s iov (j_timestamp out') m = Inl f \<Longrightarrow> jpeg_send (ep_send E e) maxds out' fr s = Some (Inl f)"
    and n: "\<And>s s' r. ep_send E e s iov (j_timestamp out') m = Inr (s', r) \<Longrightarrow> r < 0 \<Longrightarrow>
         jpeg_send (ep_send E e) maxds out' fr s = Some (Inr (s', -1))"
    using no_frame_header_vector [OF assms(1-8), of ms] by blast
  let ?w3 = "w\<lparr>w_loop := (w_loop w)\<lparr>readings := readings (w_loop w) + 3\<rparr>\<rparr>"
  define t where "t = (\<lambda>i. o_clock E (readings (w_loop w) + i))"
  let ?ep1 = "ep\<lparr>ep_last_timestamp := ep_start_timestamp ep + j_timestamp out'\<rparr>"
  let ?v = "Iov (rtp_header ?ep1 m) # iov"
  have send: "ep_send E e w iov (j_timestamp out') m = finish_send (ep_session ep) e
      (send_rtp_packet (srv_env E) (t 0, t 1, t 2) ep iov (j_timestamp out') m (Inr ?w3))"
    using assms(9) by (simp add: ep_send_def deref_def now_def time_now_def t_def Let_def numeral_eq_Suc)
  have udp: "jpeg_send (ep_send E e) maxds out' fr w =
      Some (rbind (live_teardown (?w3\<lparr>w_calls := w_calls w + 1\<rparr>) (ep_session ep) (Some e)) (\<lambda>w'. Inr (w', -1)))"
    if "ep_trans ep = Trans_udp a p fd v fd' v'" for a p fd v fd' v'
  proof -
    have "xmit (srv_env E) (Inr ?w3) (To_fd fd ?v) = (Inr (?w3\<lparr>w_calls := w_calls w + 1\<rparr>), -1)"
      using o(2) by (simp add: srv_env_def call_def)
    then have s: "ep_send E e w iov (j_timestamp out') m =
        rbind (live_teardown (?w3\<lparr>w_calls := w_calls w + 1\<rparr>) (ep_session ep) (Some e)) (\<lambda>w'. Inr (w', -1))"
      unfolding send using that by (simp add: send_rtp_packet_def finish_send_def Let_def)
    show ?thesis
    proof (cases "live_teardown (?w3\<lparr>w_calls := w_calls w + 1\<rparr>) (ep_session ep) (Some e)")
      case (Inl g)
      then show ?thesis using f [of w g] s by simp
    next
      case (Inr w')
      then show ?thesis using n [of w w' "-1"] s by simp
    qed
  qed
  have inter: "jpeg_send (ep_send E e) maxds out' fr w = Some (Inl NullDeref)"
    if tr: "ep_trans ep = Trans_inter c ch ch'" "w_conns w c = Some x" "maxds + 16 \<le> avail_send_buf (c_ring x)" for c ch ch' x
  proof -
    have "length (rtp_header ?ep1 m) = 12" by (simp add: rtp_header_def PUT_16_def)
    then have "int (sum_list (map length (map iov_bytes ?v))) + 4 \<le> maxds + 16" using o(3) by (simp add: length_concat)
    then have "\<not> avail_send_buf (c_ring x) < int (sum_list (map length (map iov_bytes ?v))) + 4" using tr(3) by linarith
    then have "\<exists>r ws. interleave_send (o_writes E (w_calls w)) (c_ring x) ch (map iov_bytes ?v) = Some (0, [], r, ws)"
      unfolding interleave_send_def Let_def by (simp only: if_False) blast
    then obtain r ws where i: "interleave_send (o_writes E (w_calls w)) (c_ring x) ch (map iov_bytes ?v) = Some (0, [], r, ws)"
      by blast
    have "conn_interleave_send E ?w3 c ch ?v = Inl NullDeref"
      unfolding conn_interleave_send_def using tr(2) i o(2) by (simp add: deref_def call_def del: list.map)
    then have "xmit (srv_env E) (Inr ?w3) (To_chan c ch ?v) = (Inl NullDeref, -1)" by (simp add: srv_env_def)
    then have "ep_send E e w iov (j_timestamp out') m = Inl NullDeref"
      unfolding send using tr(1) by (simp add: send_rtp_packet_def finish_send_def Let_def)
    then show ?thesis by (rule f)
  qed
  have w1: "?w3\<lparr>w_calls := w_calls w + 1\<rparr> = w\<lparr>w_calls := w_calls w + 1, w_loop := (w_loop w)\<lparr>readings := readings (w_loop w) + 3\<rparr>\<rparr>"
    by simp
  show ?thesis
    using o(1) udp [unfolded w1] inter by (intro exI [of _ out'] conjI) blast+
qed

theorem jpeg_no_frame_header_null_witness:
  "\<exists>out' w'. jpeg_process_frame ([0xFF, 0xD8] @ jpeg_seg 0xDA [3] @ [1]) 8 0 zeroed_jpeg = Inr (out', True) \<and>
     jpeg_send (ep_send playing_os 3) 1400 out' ([0xFF, 0xD8] @ jpeg_seg 0xDA [3] @ [1]) playing_world = Some (Inr (w', -1)) \<and>
     w_eps w' 3 = None"
proof -
  let ?fr = "[0xFF, 0xD8] @ jpeg_seg 0xDA [3] @ [1 :: byte]"
  have e: "w_eps playing_world 3 = Some (sample_ep\<lparr>ep_session := 1\<rparr>)" by (simp add: playing_world_def)
  have z: "0 \<le> luma_table zeroed_jpeg" "luma_table zeroed_jpeg < 16" "0 \<le> chroma_table zeroed_jpeg" "chroma_table zeroed_jpeg < 16"
    by (simp_all add: zeroed_jpeg_def new_rtp_media_jpeg_stream_def)
  let ?w = "playing_world\<lparr>w_calls := w_calls playing_world + 1, w_loop := (w_loop playing_world)\<lparr>readings := readings (w_loop playing_world) + 3\<rparr>\<rparr>"
  have "map_sum (\<lambda>f. f) (\<lambda>w. w_eps w 3) (live_teardown ?w 1 (Some 3)) = Inr None"
    by (simp add: playing_world_def sample_ep_def initial_world_def live_teardown_def live_of_def deref_def non_null_def used_tracks_def
        aget_def del_rtp_endpoint_def Let_def ev_remove_def close_fd_def put_sess_def put_source_def put_live_def
        track_check_running_def stream_do_def set_waiting_def get_dest_def get_stream_def update_waiting_def put_waiting_def call_driver_def del_session_def)
  then obtain w' where t: "live_teardown ?w 1 (Some 3) = Inr w'" "w_eps w' 3 = None"
    by (auto simp: map_sum_def split: sum.splits)
  obtain out' where "jpeg_process_frame ?fr (int (length ?fr)) 0 zeroed_jpeg = Inr (out', True)"
      "jpeg_send (ep_send playing_os 3) 1400 out' ?fr playing_world =
         Some (rbind (live_teardown ?w 1 (Some 3)) (\<lambda>w'. Inr (w', -1)))"
    using jpeg_no_frame_header_null [OF z, where sos = "[3]" and scan = "[1]" and maxds = 1400 and w = playing_world and e = 3, OF _ _ _ refl e]
    by (fastforce simp: sample_ep_def)
  then show ?thesis using t by auto
qed

end
