(* ===== verification/Spec2Isabelle.thy ===== *)
theory Spec2Isabelle
  imports RtpJpeg RtpRawaudio SendRing Base64 SoftQueue Event HttpAuth LinkedList Boot Delivery
begin

text \<open>
  A verification development for the RTSP camera server of the repository, the program under
  \<^verbatim>\<open>sources/applications/RTSPServer/src\<close>. All file names below are relative to that directory.

  \<^bold>\<open>The program.\<close> \<^verbatim>\<open>main\<close> (\<^verbatim>\<open>RTSPServer.c\<close>) turns its options into a configuration, \<^verbatim>\<open>spook_config\<close> (\<^verbatim>\<open>spook.c\<close>) feeds that to the
  interpreter of directives (\<^verbatim>\<open>conf_parse.c\<close>), which creates encoders with their streams (\<^verbatim>\<open>encoder-jpeg.c\<close>, \<^verbatim>\<open>encoder-alaw.c\<close>,
  \<^verbatim>\<open>stream.c\<close>), live sources (\<^verbatim>\<open>live.c\<close>) and listening sockets (\<^verbatim>\<open>tcp.c\<close>), and \<^verbatim>\<open>event_loop\<close> (\<^verbatim>\<open>event.c\<close>) then runs callbacks for
  ever. A client connects (\<^verbatim>\<open>tcp.c\<close>), its requests are parsed (\<^verbatim>\<open>pmsg.c\<close>) and handled (\<^verbatim>\<open>rtsp.c\<close>, \<^verbatim>\<open>http.c\<close>, with digest
  authentication in \<^verbatim>\<open>http-auth.c\<close> over \<^verbatim>\<open>md5.c\<close>), possibly through a base64 tunnel over HTTP; a session (\<^verbatim>\<open>session.c\<close>) gets an
  RTP endpoint per track (\<^verbatim>\<open>rtp.c\<close>), over UDP or interleaved in the connection. A picture of the encoder goes through its
  exchanger (\<^verbatim>\<open>frame.c\<close>), its stream and the live source to the packetiser (\<^verbatim>\<open>rtp-jpeg.c\<close>, \<^verbatim>\<open>rtp-rawaudio.c\<close>) and from there to the
  endpoint of every client that is playing.

  \<^bold>\<open>Conventions.\<close> \<open>Prelude\<close> has the widths of the C types, faults as values (\<open>cfault\<close>: an access outside an array, a null
  pointer, a freed object, a division by zero, a call that has not returned) in the sum type \<open>res\<close> with \<open>rbind\<close>, arrays with
  bounds, vectors of buffers (\<open>iovec\<close>, one of which may start at NULL) and the C library functions on strings; \<open>Wire\<close> the byte order
  macros of \<^verbatim>\<open>rtp.h\<close>. Integers whose wrap-around the program can reach are words or are cut to 32 bits where the code stores
  them (\<open>s32\<close> for \<^verbatim>\<open>time_t\<close> and \<^verbatim>\<open>long\<close>); other values of type \<^verbatim>\<open>int\<close> are integers. What the operating system answers is a
  parameter: \<open>osenv\<close> for the running server, \<open>confenv\<close> while it is configured, indexed by the number of the call.

  \<^bold>\<open>Component theories.\<close>
  \<^item> \<open>Md5\<close>: \<^verbatim>\<open>md5.c\<close>. The unrolled transform is the compression function of RFC 1321, and hashing in chunks is hashing the whole.
  \<^item> \<open>RtpJpeg\<close>, \<open>RtpRawaudio\<close>: the packetisers. A receiver of RFC 2435 (of RTP audio) gets back the picture (the samples); the
    size limit is kept without a restart interval and is exceeded by four bytes with one.
  \<^item> \<open>SendRing\<close>: the send buffer of a connection and \<^verbatim>\<open>interleave_send\<close>, an interpretation of the locale \<open>byte_queue\<close>: a
    bounded queue of bytes; a frame is queued whole or not at all; the write loop ends.
  \<^item> \<open>Base64\<close>: the tunnel decoder, in place and in pieces, against the encoder of RFC 4648.
  \<^item> \<open>Pmsg\<close>: protocol messages on one block of memory with pointers into it, an interpretation of the locale \<open>header_store\<close>;
    parsing recovers a rendered request; more than 32 headers overflow the array.
  \<^item> \<open>SoftQueue\<close>: the soft event queue on its pointers, an interpretation of the locale \<open>bounded_fifo\<close>.
  \<^item> \<open>LinkedList\<close>: the doubly linked lists on their pointers, an interpretation of the locale \<open>node_list\<close>, which justifies the
    lists of numbers the other theories use.
  \<^item> \<open>Event\<close>: \<^verbatim>\<open>event.c\<close>, times, events, and the passes of the loop for arbitrary clocks, callbacks and results of \<^verbatim>\<open>select\<close>. Removed
    events do not fire, periodic timers do not drift, the loop sleeps until the next timer.
  \<^item> \<open>HttpAuth\<close>: digest authentication, sound and complete against RFC 2069, and how long a nonce really lives.
  \<^item> \<open>Rtp\<close>: endpoints: RTP headers, counters, sender reports, the port search.
  \<^item> \<open>Stream\<close>: streams, destinations, conversion streams and who has to run.
  \<^item> \<open>Conversions\<close>: the loops and macros of \<^verbatim>\<open>conversions.c\<close>.

  \<^bold>\<open>The whole program.\<close> \<open>World\<close> has the heap objects of the running server, each kind in a heap of its own whose numbers are
  never reused, and the operations of \<^verbatim>\<open>session.c\<close>, \<^verbatim>\<open>live.c\<close> and \<^verbatim>\<open>rtp.c\<close> on it; \<open>Rtsp\<close>, \<open>Http\<close> and \<open>Tcp\<close> the request handlers, the
  connections, all callbacks and the event loop of the server; \<open>Config\<close> the configuration and \<^verbatim>\<open>main\<close>. \<open>HeapInv\<close> states the
  invariant on the pointers between the objects; \<open>Create\<close>, \<open>Serve\<close>, \<open>Callbacks\<close> and \<open>Running\<close> show that every operation keeps it
  and touches no freed object; \<open>Startup\<close> that every configuration establishes it; \<open>Boot\<close> that \<^verbatim>\<open>main\<close> reaches the loop, and the
  theorem on memory safety from \<^verbatim>\<open>main\<close> on. \<open>Delivery\<close> follows a picture from the exchanger to the sockets of the clients.

  \<^bold>\<open>Bounds.\<close> The loops of the packetisers are partial functions, and the theorems on them include that they return. A chain of
  conversion streams is followed for at most one step more than there are streams (\<open>set_waiting_upto\<close>, \<open>deliver_upto\<close>,
  \<open>framerate_upto\<close>), and a stream converts from an older one, so no chain is longer. The parsing loop of a connection runs at
  most twice for each piece of data (\<open>parse_upto_enough\<close>). The event loop runs for as many passes as results of \<^verbatim>\<open>select\<close> are
  given; the theorems hold for every such list.

  \<^bold>\<open>What is not modelled.\<close> The devices and the threads that read them (\<^verbatim>\<open>V4L.c\<close>, \<^verbatim>\<open>OSS.c\<close>, \<^verbatim>\<open>JpegEnc.c\<close>, \<^verbatim>\<open>ImgOverlap.c\<close>, \<^verbatim>\<open>TextOverlap.c\<close>, the
  encoder threads), which are input and output of the board: a picture in the exchanger is an answer of the
  environment. Frames are values; their reference counts and the slots of the exchanger are left out. The listeners of soft
  queues, which the program never adds, and the locks around the queues. The scanner of configuration files
  (\<^verbatim>\<open>conf_scan.c\<close>, generated): the parser takes its tokens. The statistics of \<^verbatim>\<open>rtcp-parse.c\<close> and \<^verbatim>\<open>qos-analyzer.c\<close>, logging, and the
  encoders and packetisers that the Makefile does not link.
\<close>

end
